(* ===== verification/GB_Prelude.thy ===== *)
theory GB_Prelude
  imports Main "HOL-Library.Word" "HOL-Library.Multiset"
begin

text \<open>
  Shared vocabulary of the development: the machine integer types of the C code, the two
  loop shapes that the sources use (a counted loop with an early exit and a counted loop
  over a state), the alignment macro of the Windows kernel headers, and the lemmas about
  words, lists and sums that several components need.
\<close>

unbundle bit_operations_syntax

section \<open>Machine integers\<close>

type_synonym u8 = "8 word"
type_synonym u32 = "32 word"
type_synonym u64 = "64 word"

text \<open>
  A C \<^verbatim>\<open>int\<close> or \<^verbatim>\<open>LONG\<close> is an \<^typ>\<open>int\<close> in the signed 32-bit range;
  \<open>s32_wrap\<close> is the two's complement wrap-around of the interlocked operations.
\<close>

definition s32_wrap :: "int \<Rightarrow> int" where
  "s32_wrap x = (x + 2 ^ 31) mod 2 ^ 32 - 2 ^ 31"

lemma s32_wrap_id: "- (2 ^ 31) \<le> x \<Longrightarrow> x < 2 ^ 31 \<Longrightarrow> s32_wrap x = x"
  by (simp add: s32_wrap_def)

lemma s32_wrap_range: "- (2 ^ 31) \<le> s32_wrap x \<and> s32_wrap x < 2 ^ 31"
proof -
  have "0 \<le> (x + 2 ^ 31) mod 2 ^ 32 \<and> (x + 2 ^ 31) mod 2 ^ 32 < 2 ^ 32" by simp
  then show ?thesis by (simp add: s32_wrap_def)
qed

lemma unat_u64_less: "unat (x::u64) < 2 ^ 64"
  using unsigned_less [of x] by simp

lemma unat_u32_less: "unat (x::u32) < 2 ^ 32"
  using unsigned_less [of x] by simp

text \<open>Gibibytes and mebibytes as 64-bit byte counts: \<^verbatim>\<open>(u64)x * (1ULL << 30)\<close>.\<close>

definition gib :: "u32 \<Rightarrow> u64" where
  "gib x = ucast x * 2 ^ 30"

definition mib_of :: "u64 \<Rightarrow> u64" where
  "mib_of x = drop_bit 20 x"

lemma unat_gib: "unat (gib x) = unat x * 2 ^ 30"
proof -
  have "unat x < 2 ^ 32" by (rule unat_u32_less)
  then have "unat x * 2 ^ 30 < 2 ^ 64" by simp
  then show ?thesis
    by (simp add: gib_def unat_word_ariths unsigned_ucast_eq take_bit_nat_eq_self)
qed

lemma unat_gib_bound: "unat (gib x) < 2 ^ 62"
proof -
  have "unat x < 2 ^ 32" by (rule unat_u32_less)
  then show ?thesis by (simp add: unat_gib)
qed

lemma unat_mib_of: "unat (mib_of x) = unat x div 2 ^ 20"
  by (simp add: mib_of_def drop_bit_eq_div unat_div_distrib)

lemma unat_plus_small:
  "unat (x::u64) + unat y < 2 ^ 64 \<Longrightarrow> unat (x + y) = unat x + unat y"
  by (simp add: unat_word_ariths)

lemma word_less_nat: "(x::u64) < y \<longleftrightarrow> unat x < unat y"
  by (rule word_less_nat_alt)

lemma word_le_nat: "(x::u64) \<le> y \<longleftrightarrow> unat x \<le> unat y"
  by (rule word_le_nat_alt)

lemma unat_ucast_down: "unat (x :: u64) < 2 ^ 32 \<Longrightarrow> unat (ucast x :: u32) = unat x"
  by (simp add: unsigned_ucast_eq take_bit_nat_eq_self)

lemma unat_ucast_up: "unat (ucast (n :: u32) :: u64) = unat n"
  using unat_u32_less [of n] by (simp add: unsigned_ucast_eq take_bit_nat_eq_self)

section \<open>Counted loops\<close>

text \<open>
  \<open>for_until n body i\<close> is the loop \<^verbatim>\<open>for (k = i; k < i + n; k++) body\<close> whose body
  leaves the loop with a value (\<open>Some\<close>) or goes on (\<open>None\<close>).
\<close>

primrec for_until :: "nat \<Rightarrow> (nat \<Rightarrow> 'r option) \<Rightarrow> nat \<Rightarrow> 'r option" where
  "for_until 0 body i = None"
| "for_until (Suc n) body i =
     (case body i of Some r \<Rightarrow> Some r | None \<Rightarrow> for_until n body (Suc i))"

lemma for_until_pos:
  "0 < n \<Longrightarrow> for_until n body i =
     (case body i of Some r \<Rightarrow> Some r | None \<Rightarrow> for_until (n - 1) body (Suc i))"
  by (cases n) (simp_all split: option.splits)

lemma all_less_Suc_shift: "(\<forall>k<Suc n. P k) \<longleftrightarrow> P 0 \<and> (\<forall>k<n. P (Suc k))"
  using less_Suc_eq_0_disj by auto

lemma for_until_None_iff:
  "for_until n body i = None \<longleftrightarrow> (\<forall>k<n. body (i + k) = None)"
proof (induction n arbitrary: i)
  case 0
  then show ?case by simp
next
  case (Suc n)
  show ?case
    using all_less_Suc_shift [of n "\<lambda>k. body (i + k) = None"]
    by (auto simp: Suc.IH split: option.splits)
qed

lemma for_until_SomeI:
  "k < n \<Longrightarrow> body (i + k) = Some r \<Longrightarrow> \<forall>j<k. body (i + j) = None
    \<Longrightarrow> for_until n body i = Some r"
proof (induction n arbitrary: i k)
  case 0
  then show ?case by simp
next
  case (Suc n)
  show ?case
  proof (cases k)
    case 0
    with Suc.prems show ?thesis by simp
  next
    case (Suc k')
    with Suc.prems have "body i = None" by auto
    moreover have "for_until n body (Suc i) = Some r"
      using Suc Suc.prems by (intro Suc.IH [of k']) auto
    ultimately show ?thesis by simp
  qed
qed

lemma for_until_SomeD:
  "for_until n body i = Some r
    \<Longrightarrow> \<exists>k<n. body (i + k) = Some r \<and> (\<forall>j<k. body (i + j) = None)"
proof (induction n arbitrary: i)
  case 0
  then show ?case by simp
next
  case (Suc n)
  show ?case
  proof (cases "body i")
    case None
    with Suc.prems have "for_until n body (Suc i) = Some r" by simp
    from Suc.IH [OF this] obtain k where
      k: "k < n" "body (Suc i + k) = Some r" "\<forall>j<k. body (Suc i + j) = None" by blast
    have "\<forall>j<Suc k. body (i + j) = None"
    proof (intro allI impI)
      fix j
      assume "j < Suc k"
      with k(3) None show "body (i + j) = None" by (cases j) auto
    qed
    with k(1,2) show ?thesis by (intro exI [of _ "Suc k"]) auto
  next
    case (Some r')
    with Suc.prems show ?thesis by (intro exI [of _ 0]) simp
  qed
qed

lemma for_until_Some_iff:
  "for_until n body 0 = Some r
    \<longleftrightarrow> (\<exists>k<n. body k = Some r \<and> (\<forall>j<k. body j = None))"
  using for_until_SomeD [of n body 0 r] for_until_SomeI [of _ n body 0 r] by auto

text \<open>
  A counted loop over a state is \<open>fold step [0..<n]\<close>. An invariant that may mention the
  loop counter is carried by \<open>fold_upt_inv\<close>; steps that change nothing are skipped by
  \<open>fold_idle\<close>.
\<close>

lemma fold_upt_inv:
  assumes "P 0 s" and "\<And>i t. i < n \<Longrightarrow> P i t \<Longrightarrow> P (Suc i) (step i t)"
  shows "P n (fold step [0..<n] s)"
  using assms(2)
proof (induction n)
  case 0
  with assms(1) show ?case by simp
next
  case (Suc n)
  then have "P n (fold step [0..<n] s)" by simp
  with Suc.prems show ?case by simp
qed

lemma fold_range_inv:
  assumes "m \<le> n" and "P m s" and "\<And>i t. m \<le> i \<Longrightarrow> i < n \<Longrightarrow> P i t \<Longrightarrow> P (Suc i) (step i t)"
  shows "P n (fold step [m..<n] s)"
  using assms(1,3)
proof (induction n rule: dec_induct)
  case base
  with assms(2) show ?case by simp
next
  case (step n)
  then have "P n (fold step [m..<n] s)" by simp
  with step.hyps step.prems show ?case by simp
qed

lemma fold_idle: "(\<And>i. i \<in> set is \<Longrightarrow> step i s = s) \<Longrightarrow> fold step is s = s"
  by (induction "is") auto

section \<open>Alignment\<close>

text \<open>
  \<^verbatim>\<open>ALIGN_UP_BY(x, a)\<close> of the Windows kernel headers, for a power of two \<open>a\<close>:
  add \<open>a - 1\<close> with wrap-around, then clear the low bits. \<^verbatim>\<open>DIV_ROUND_UP\<close> of Linux
  followed by a multiplication rounds the same way.
\<close>

definition align_up_by :: "u64 \<Rightarrow> u64 \<Rightarrow> u64" where
  "align_up_by x a = (x + a - 1) AND NOT (a - 1)"

lemma and_not_mask_nat:
  fixes y :: u64
  shows "unat (y AND NOT (mask n)) = unat y div 2 ^ n * 2 ^ n"
proof -
  have "y AND NOT (mask n) = push_bit n (drop_bit n y)"
    by (rule bit_eqI) (auto simp: bit_simps)
  moreover have "unat y div 2 ^ n * 2 ^ n < 2 ^ 64"
    using div_times_less_eq_dividend [of "unat y" "2 ^ n"] unat_u64_less [of y]
    by (rule order_le_less_trans)
  moreover have "unat (push_bit n (drop_bit n y))
      = take_bit 64 (push_bit n (drop_bit n (take_bit 64 (unat y))))"
    by (simp only: unsigned_push_bit_eq unsigned_drop_bit_eq) simp
  ultimately show ?thesis
    using unat_u64_less [of y]
    by (simp add: push_bit_eq_mult drop_bit_eq_div take_bit_nat_eq_self)
qed

lemma align_up_nat:
  assumes "n < 64" and "unat x + 2 ^ n - 1 < 2 ^ 64"
  shows "unat (align_up_by x (2 ^ n)) = (unat x + 2 ^ n - 1) div 2 ^ n * 2 ^ n"
proof -
  have m: "unat (mask n :: u64) = 2 ^ n - 1"
  proof -
    have "unat (mask n :: u64) = unat (take_bit n (- 1) :: u64)"
      by (simp add: take_bit_minus_one_eq_mask)
    also have "\<dots> = take_bit n (mask 64 :: nat)"
      by (simp only: unsigned_take_bit_eq unsigned_minus_1_eq_mask) simp
    also have "\<dots> = (mask n :: nat)"
      using assms(1) by (simp only: take_bit_of_mask)
    finally show ?thesis
      by (simp only: mask_eq_exp_minus_1)
  qed
  have "align_up_by x (2 ^ n) = (x + mask n) AND NOT (mask n)"
    by (simp add: align_up_by_def mask_eq_exp_minus_1 add_diff_eq)
  moreover have "unat (x + mask n) = unat x + 2 ^ n - 1"
    using assms(2) m by (simp add: unat_word_ariths)
  ultimately show ?thesis by (simp add: and_not_mask_nat)
qed

lemma round_up_ge: "0 < k \<Longrightarrow> (a::nat) \<le> (a + k - 1) div k * k"
proof -
  assume "0 < k"
  then have "a + k - 1 < ((a + k - 1) div k + 1) * k"
    using dividend_less_div_times [of k "a + k - 1"] by (simp add: algebra_simps)
  with \<open>0 < k\<close> show ?thesis by (simp add: algebra_simps)
qed

lemma round_up_lt: "0 < k \<Longrightarrow> (a + k - 1) div k * k < (a::nat) + k"
  using div_times_less_eq_dividend [of "a + k - 1" k] by linarith

lemma round_up_dvd: "k dvd (a + k - 1) div k * (k::nat)"
  by simp

text \<open>A multiple of \<open>k\<close> that bounds \<open>a\<close> bounds \<open>a\<close> rounded up to \<open>k\<close>.\<close>

lemma round_up_le:
  assumes "k dvd (m::nat)" and "a \<le> m" and "0 < k"
  shows "(a + k - 1) div k * k \<le> m"
proof -
  from assms(1) obtain c where c: "m = c * k" by (metis dvd_def mult.commute)
  have "(a + k - 1) div k < c + 1"
    using assms(2,3) c by (simp add: div_less_iff_less_mult algebra_simps)
  then have "(a + k - 1) div k \<le> c" by simp
  with c show ?thesis by (metis mult_le_mono1)
qed

section \<open>Sums over finite maps\<close>

text \<open>The total of a quantity over the values of a map, e.g. the bytes of all buffers.\<close>

definition map_sum :: "('v \<Rightarrow> nat) \<Rightarrow> ('k \<Rightarrow> 'v option) \<Rightarrow> nat" where
  "map_sum w m = (\<Sum>k\<in>dom m. w (the (m k)))"

lemma map_sum_empty [simp]: "map_sum w Map.empty = 0"
  by (simp add: map_sum_def)

lemma map_sum_insert:
  assumes "finite (dom m)" and "m k = None"
  shows "map_sum w (m(k \<mapsto> v)) = map_sum w m + w v"
proof -
  have "(\<Sum>j\<in>dom m. w (the ((m(k \<mapsto> v)) j))) = (\<Sum>j\<in>dom m. w (the (m j)))"
    using assms(2) by (intro sum.cong) auto
  moreover have "k \<notin> dom m" using assms(2) by auto
  ultimately show ?thesis using assms(1) by (simp add: map_sum_def)
qed

lemma map_sum_delete:
  assumes "finite (dom m)" and "m k = Some v"
  shows "map_sum w m = map_sum w (m(k := None)) + w v"
proof -
  have "m = (m(k := None))(k \<mapsto> v)" using assms(2) by auto
  moreover have "map_sum w ((m(k := None))(k \<mapsto> v)) = map_sum w (m(k := None)) + w v"
    using assms(1) by (intro map_sum_insert) auto
  ultimately show ?thesis by simp
qed

lemma map_sum_update:
  assumes "finite (dom m)" and "m k = Some v"
  shows "map_sum w (m(k \<mapsto> v')) + w v = map_sum w m + w v'"
proof -
  have "map_sum w ((m(k := None))(k \<mapsto> v')) = map_sum w (m(k := None)) + w v'"
    using assms(1) by (intro map_sum_insert) auto
  with map_sum_delete [OF assms, of w] show ?thesis by simp
qed

lemma map_sum_same:
  assumes "finite (dom m)" and "m k = Some v" and "w v' = w v"
  shows "map_sum w (m(k \<mapsto> v')) = map_sum w m"
  using map_sum_update [OF assms(1,2), of w v'] assms(3) by simp

text \<open>The same with a weight that may depend on the key, in any commutative monoid.\<close>

definition heap_sum :: "('k \<Rightarrow> 'v \<Rightarrow> 'a::comm_monoid_add) \<Rightarrow> ('k \<Rightarrow> 'v option) \<Rightarrow> 'a" where
  "heap_sum w m = (\<Sum>k\<in>dom m. w k (the (m k)))"

lemma heap_sum_empty [simp]: "heap_sum w Map.empty = 0"
  by (simp add: heap_sum_def)

lemma heap_sum_new:
  assumes "finite (dom m)" and "m k = None"
  shows "heap_sum w (m(k \<mapsto> v)) = heap_sum w m + w k v"
proof -
  have "(\<Sum>j\<in>dom m. w j (the ((m(k \<mapsto> v)) j))) = (\<Sum>j\<in>dom m. w j (the (m j)))"
    using assms(2) by (intro sum.cong) auto
  moreover have "k \<notin> dom m" using assms(2) by auto
  ultimately show ?thesis using assms(1) by (simp add: heap_sum_def add.commute)
qed

lemma heap_sum_del:
  assumes "finite (dom m)" and "m k = Some v"
  shows "heap_sum w m = heap_sum w (m(k := None)) + w k v"
proof -
  have "m = (m(k := None))(k \<mapsto> v)" using assms(2) by auto
  moreover have "heap_sum w ((m(k := None))(k \<mapsto> v)) = heap_sum w (m(k := None)) + w k v"
    using assms(1) by (intro heap_sum_new) auto
  ultimately show ?thesis by simp
qed

lemma heap_sum_upd:
  assumes "finite (dom m)" and "m k = Some v"
  shows "heap_sum w (m(k \<mapsto> v')) + w k v = heap_sum w m + w k v'"
proof -
  have "heap_sum w ((m(k := None))(k \<mapsto> v')) = heap_sum w (m(k := None)) + w k v'"
    using assms(1) by (intro heap_sum_new) auto
  then show ?thesis
    using heap_sum_del [OF assms, of w] by (simp add: ac_simps)
qed

lemma heap_sum_same:
  assumes "finite (dom m)" and "m k = Some v" and "w k v' = w k v"
  shows "heap_sum w (m(k \<mapsto> v')) = heap_sum w m"
proof -
  have "heap_sum w ((m(k := None))(k \<mapsto> v')) = heap_sum w (m(k := None)) + w k v'"
    using assms(1) by (intro heap_sum_new) auto
  then show ?thesis
    using heap_sum_del [OF assms(1,2), of w] assms(3) by simp
qed

end
