(* ===== verification/Alloc_Registry.thy ===== *)
theory Alloc_Registry
  imports GB_Prelude
begin

text \<open>
  The interface between the CUDA hooks and the table that remembers their allocations. A
  registry stores at most one entry per key; \<open>contents\<close> is what it stores, \<open>insert\<close> may
  refuse when it is full and \<open>remove\<close> hands the entry back. The second locale adds that
  every stored entry can be found again, which needs more of the implementation: the
  accounting of the hooks rests on the first locale only.
\<close>

locale alloc_registry =
  fixes inv :: "'m \<Rightarrow> bool"
    and contents :: "'m \<Rightarrow> 'k \<Rightarrow> 'e option"
    and valid :: "'k \<Rightarrow> bool"
    and key :: "'e \<Rightarrow> 'k"
    and insert :: "'m \<Rightarrow> 'e \<Rightarrow> bool \<times> 'm"
    and remove :: "'m \<Rightarrow> 'k \<Rightarrow> 'e option \<times> 'm"
  assumes finite_contents: "inv m \<Longrightarrow> finite (dom (contents m))"
    and insert_done: "inv m \<Longrightarrow> valid (key e) \<Longrightarrow> contents m (key e) = None \<Longrightarrow>
      insert m e = (True, m') \<Longrightarrow> inv m' \<and> contents m' = (contents m)(key e \<mapsto> e)"
    and insert_refused: "insert m e = (False, m') \<Longrightarrow> m' = m"
    and remove_hit: "inv m \<Longrightarrow> valid k \<Longrightarrow> remove m k = (Some e, m') \<Longrightarrow>
      inv m' \<and> contents m k = Some e \<and> key e = k \<and> contents m' = (contents m)(k := None)"
    and remove_miss: "remove m k = (None, m') \<Longrightarrow> m' = m"
begin

text \<open>The total of a quantity over the stored entries, e.g. the bytes of managed memory.\<close>

definition total :: "('e \<Rightarrow> nat) \<Rightarrow> 'm \<Rightarrow> nat" where
  "total w m = (\<Sum>k\<in>dom (contents m). w (the (contents m k)))"

lemma total_insert:
  assumes "inv m" and "valid (key e)" and "contents m (key e) = None"
    and "insert m e = (True, m')"
  shows "total w m' = total w m + w e"
proof -
  from insert_done [OF assms] have c: "contents m' = (contents m)(key e \<mapsto> e)" by simp
  have "(\<Sum>k\<in>dom (contents m). w (the (contents m' k)))
      = (\<Sum>k\<in>dom (contents m). w (the (contents m k)))"
    using assms(3) c by (intro sum.cong) auto
  moreover have "dom (contents m') = Set.insert (key e) (dom (contents m))"
    using c by auto
  moreover have "key e \<notin> dom (contents m)" using assms(3) by auto
  ultimately show ?thesis
    using finite_contents [OF assms(1)] c by (simp add: total_def)
qed

lemma total_remove:
  assumes "inv m" and "valid k" and "remove m k = (Some e, m')"
  shows "total w m = total w m' + w e"
proof -
  from remove_hit [OF assms] have e: "contents m k = Some e"
    and c: "contents m' = (contents m)(k := None)" by simp_all
  have "(\<Sum>j\<in>dom (contents m) - {k}. w (the (contents m' j)))
      = (\<Sum>j\<in>dom (contents m) - {k}. w (the (contents m j)))"
    using c by (intro sum.cong) auto
  moreover have "dom (contents m') = dom (contents m) - {k}"
    using c by auto
  moreover have "k \<in> dom (contents m)" using e by auto
  ultimately show ?thesis
    using finite_contents [OF assms(1)] e by (simp add: total_def sum.remove add.commute)
qed

text \<open>Putting an entry back that was just taken out restores what is stored.\<close>

lemma remove_insert:
  assumes "inv m" and "valid k" and "remove m k = (Some e, m1)" and "insert m1 e = (True, m2)"
  shows "inv m2 \<and> contents m2 = contents m"
proof -
  from remove_hit [OF assms(1-3)] have
    *: "inv m1" "contents m k = Some e" "key e = k" "contents m1 = (contents m)(k := None)"
    by simp_all
  with insert_done [OF *(1) _ _ assms(4)] assms(2) show ?thesis
    by (auto simp: map_upd_triv fun_eq_iff)
qed

end

locale exact_registry = alloc_registry +
  fixes find :: "'a \<Rightarrow> 'b \<Rightarrow> 'c option"
    and exact :: "'a \<Rightarrow> bool"
    and calm :: "'a \<Rightarrow> bool"
  assumes exact_inv: "exact m \<Longrightarrow> inv m"
    and find_exact: "exact m \<Longrightarrow> valid k \<Longrightarrow> find m k = contents m k"
    and insert_exact: "exact m \<Longrightarrow> valid (key e) \<Longrightarrow> contents m (key e) = None \<Longrightarrow>
      insert m e = (True, m') \<Longrightarrow> exact m'"
    and remove_exact: "exact m \<Longrightarrow> valid k \<Longrightarrow> calm m \<Longrightarrow> contents m k = Some e \<Longrightarrow>
      \<exists>m'. remove m k = (Some e, m') \<and> exact m'"
begin

lemma find_insert:
  assumes "exact m" and "valid (key e)" and "find m (key e) = None"
    and "insert m e = (True, m')" and "valid k"
  shows "exact m' \<and> find m' k = (if k = key e then Some e else find m k)"
proof -
  have n: "contents m (key e) = None" using assms(1-3) by (simp add: find_exact)
  from insert_exact [OF assms(1,2) n assms(4)] have e': "exact m'" .
  with insert_done [OF exact_inv [OF assms(1)] assms(2) n assms(4)] assms(1,5)
  show ?thesis by (simp add: find_exact)
qed

lemma find_remove:
  assumes "exact m" and "valid k" and "calm m" and "find m k = Some e"
  shows "\<exists>m'. remove m k = (Some e, m') \<and> exact m'
    \<and> (\<forall>j. valid j \<longrightarrow> find m' j = (if j = k then None else find m j))"
proof -
  from assms have c: "contents m k = Some e" by (simp add: find_exact)
  from remove_exact [OF assms(1-3) c] obtain m' where
    m': "remove m k = (Some e, m')" "exact m'" by blast
  with remove_hit [OF exact_inv [OF assms(1)] assms(2) m'(1)] assms(1) show ?thesis
    by (intro exI [of _ m']) (simp add: find_exact)
qed

end

end
