(* ===== verification/Win_Hash_Table.thy ===== *)
theory Win_Hash_Table
  imports Alloc_Registry
begin

text \<open>
  The allocation table of the Windows CUDA shim
  (\<^verbatim>\<open>windows-port/shim/greenboost_cuda_shim_win.h\<close> and \<^verbatim>\<open>.c\<close>): an
  open-addressed hash table of 131072 slots with Fibonacci hashing, linear probing and
  tombstone deletion, and the pass that reclaims tombstones.

  The per-slot critical sections make each slot access atomic; the model is the sequential
  behaviour of one operation at a time, with the slots as a function of the slot index.
\<close>

section \<open>Geometry and hash function\<close>

definition HT_BITS :: nat where "HT_BITS = 17"
definition HT_SIZE :: nat where "HT_SIZE = 2 ^ HT_BITS"
definition HT_MASK :: u32 where "HT_MASK = word_of_nat HT_SIZE - 1"
definition HT_TOMBSTONE_THRESHOLD :: int where
  "HT_TOMBSTONE_THRESHOLD = int HT_SIZE div 4"

definition HT_EMPTY :: u64 where "HT_EMPTY = 0"
definition HT_TOMBSTONE :: u64 where "HT_TOMBSTONE = 1"

definition ht_hash :: "u64 \<Rightarrow> u32" where
  "ht_hash p = ucast (drop_bit (64 - HT_BITS) (p * 0x9E3779B97F4A7C15))"

text \<open>\<^verbatim>\<open>idx = (h + i) & HT_MASK\<close>, the slot probed in round \<open>i\<close>.\<close>

definition ht_slot :: "u32 \<Rightarrow> nat \<Rightarrow> nat" where
  "ht_slot h i = unat ((h + word_of_nat i) AND HT_MASK)"

lemma HT_SIZE_val: "HT_SIZE = 131072"
  by (simp add: HT_SIZE_def HT_BITS_def)

lemma HT_SIZE_pos [simp]: "0 < HT_SIZE"
  by (simp add: HT_SIZE_def)

lemma HT_MASK_mask: "HT_MASK = mask 17"
  by (simp add: HT_MASK_def HT_SIZE_def HT_BITS_def mask_eq_exp_minus_1)

lemma ht_hash_bound: "unat (ht_hash p) < HT_SIZE"
proof -
  let ?q = "drop_bit 47 (p * 0x9E3779B97F4A7C15)"
  have "unat ?q = unat (p * 0x9E3779B97F4A7C15) div 2 ^ 47"
    by (simp add: drop_bit_eq_div unat_div_distrib)
  then have "unat ?q < 2 ^ 17"
    using unat_u64_less [of "p * 0x9E3779B97F4A7C15"]
    by (simp add: less_mult_imp_div_less)
  then show ?thesis
    by (simp add: ht_hash_def HT_BITS_def HT_SIZE_val unsigned_ucast_eq take_bit_nat_eq_self)
qed

lemma ht_slot_nat:
  assumes "i < HT_SIZE"
  shows "ht_slot (ht_hash p) i = (unat (ht_hash p) + i) mod HT_SIZE"
proof -
  have "unat (ht_hash p + word_of_nat i) = unat (ht_hash p) + i"
    using ht_hash_bound [of p] assms
    by (simp add: HT_SIZE_val unat_word_ariths unsigned_of_nat take_bit_nat_eq_self)
  then show ?thesis
    by (simp add: ht_slot_def HT_MASK_mask take_bit_eq_mask [symmetric] unsigned_take_bit_eq
        take_bit_eq_mod HT_SIZE_val unat_mod_distrib)
qed

text \<open>The home slot of a key, and the number of probes from it to a given slot.\<close>

definition ht_home :: "u64 \<Rightarrow> nat" where
  "ht_home p = unat (ht_hash p)"

definition ht_dist :: "u64 \<Rightarrow> nat \<Rightarrow> nat" where
  "ht_dist p i = (if ht_home p \<le> i then i - ht_home p else i + HT_SIZE - ht_home p)"

abbreviation ht_probe :: "u64 \<Rightarrow> nat \<Rightarrow> nat" where
  "ht_probe p k \<equiv> ht_slot (ht_hash p) k"

lemma ht_home_bound: "ht_home p < HT_SIZE"
  using ht_hash_bound by (simp add: ht_home_def)

lemma ht_probe_eq: "k < HT_SIZE \<Longrightarrow> ht_probe p k = (ht_home p + k) mod HT_SIZE"
  by (simp add: ht_slot_nat ht_home_def)

lemma ht_probe_bound [simp]: "k < HT_SIZE \<Longrightarrow> ht_probe p k < HT_SIZE"
  by (simp add: ht_probe_eq)

lemma ht_probe_zero [simp]: "ht_probe p 0 = ht_home p"
  by (simp add: ht_probe_eq ht_home_bound)

lemma ht_dist_bound: "i < HT_SIZE \<Longrightarrow> ht_dist p i < HT_SIZE"
  using ht_home_bound [of p] by (auto simp: ht_dist_def)

lemma ht_probe_cases:
  assumes "k < HT_SIZE"
  shows "ht_probe p k = (if ht_home p + k < HT_SIZE then ht_home p + k
      else ht_home p + k - HT_SIZE)"
  using assms ht_home_bound [of p]
  by (auto simp: ht_probe_eq mod_if)

lemma ht_probe_dist [simp]: "i < HT_SIZE \<Longrightarrow> ht_probe p (ht_dist p i) = i"
  using ht_dist_bound [of i p] ht_home_bound [of p]
  by (auto simp: ht_probe_cases ht_dist_def)

lemma ht_dist_probe [simp]: "k < HT_SIZE \<Longrightarrow> ht_dist p (ht_probe p k) = k"
  using ht_home_bound [of p] by (auto simp: ht_probe_cases ht_dist_def)

lemma ht_probe_inj: "j < HT_SIZE \<Longrightarrow> k < HT_SIZE \<Longrightarrow> ht_probe p j = ht_probe p k \<Longrightarrow> j = k"
  by (metis ht_dist_probe)

section \<open>The table\<close>

record ht_entry =
  e_ptr :: u64          \<comment> \<open>0 = empty, 1 = tombstone\<close>
  e_size :: u64
  e_is_managed :: int
  e_gb_buf_id :: int
  e_mapped_ptr :: u64

record ht_table =
  slots :: "nat \<Rightarrow> ht_entry"
  tombstones :: int     \<comment> \<open>\<^verbatim>\<open>gb_tombstone_count\<close>\<close>

definition ht_empty :: ht_table where
  "ht_empty = \<lparr>slots = (\<lambda>_. \<lparr>e_ptr = 0, e_size = 0, e_is_managed = 0, e_gb_buf_id = 0,
     e_mapped_ptr = 0\<rparr>), tombstones = 0\<rparr>"

definition ht_insert ::
  "ht_table \<Rightarrow> u64 \<Rightarrow> u64 \<Rightarrow> int \<Rightarrow> int \<Rightarrow> u64 \<Rightarrow> bool \<times> ht_table" where
  "ht_insert t p sz is_managed gb_buf_id mapped_ptr =
     (case for_until HT_SIZE
        (\<lambda>i. let idx = ht_slot (ht_hash p) i; e = slots t idx in
             if e_ptr e = HT_EMPTY \<or> e_ptr e = HT_TOMBSTONE then Some idx else None) 0 of
        Some idx \<Rightarrow>
          (True, t\<lparr>slots := (slots t)(idx := \<lparr>e_ptr = p, e_size = sz,
                     e_is_managed = is_managed, e_gb_buf_id = gb_buf_id,
                     e_mapped_ptr = mapped_ptr\<rparr>),
                   tombstones := (if e_ptr (slots t idx) = HT_TOMBSTONE
                     then tombstones t - 1 else tombstones t)\<rparr>)
      | None \<Rightarrow> (False, t))"

definition ht_lookup :: "ht_table \<Rightarrow> u64 \<Rightarrow> ht_entry option" where
  "ht_lookup t p =
     (case for_until HT_SIZE
        (\<lambda>i. let e = slots t (ht_slot (ht_hash p) i) in
             if e_ptr e = HT_EMPTY then Some None
             else if e_ptr e = p then Some (Some e) else None) 0 of
        Some r \<Rightarrow> r
      | None \<Rightarrow> None)"

text \<open>
  Reclaiming: one pass turns every tombstone into an empty slot, a second pass takes every
  live entry out of its slot and puts it into the first empty slot of its probe sequence.
\<close>

definition reclaim_clear :: "nat \<Rightarrow> (nat \<Rightarrow> ht_entry) \<Rightarrow> nat \<Rightarrow> ht_entry" where
  "reclaim_clear i s =
     (if e_ptr (s i) = HT_TOMBSTONE then s(i := (s i)\<lparr>e_ptr := HT_EMPTY\<rparr>) else s)"

definition reclaim_reinsert :: "nat \<Rightarrow> (nat \<Rightarrow> ht_entry) \<Rightarrow> nat \<Rightarrow> ht_entry" where
  "reclaim_reinsert i s =
     (if e_ptr (s i) \<noteq> HT_EMPTY \<and> e_ptr (s i) \<noteq> HT_TOMBSTONE then
        let saved = s i; s1 = s(i := (s i)\<lparr>e_ptr := HT_EMPTY\<rparr>) in
        case for_until HT_SIZE
          (\<lambda>j. let idx = ht_slot (ht_hash (e_ptr saved)) j in
               if e_ptr (s1 idx) = HT_EMPTY then Some idx else None) 0 of
          Some idx \<Rightarrow> s1(idx := saved)
        | None \<Rightarrow> s1
      else s)"

definition ht_reclaim_tombstones :: "ht_table \<Rightarrow> ht_table" where
  "ht_reclaim_tombstones t =
     t\<lparr>slots := fold reclaim_reinsert [0..<HT_SIZE]
                 (fold reclaim_clear [0..<HT_SIZE] (slots t)),
       tombstones := 0\<rparr>"

definition ht_remove :: "ht_table \<Rightarrow> u64 \<Rightarrow> ht_entry option \<times> ht_table" where
  "ht_remove t p =
     (case for_until HT_SIZE
        (\<lambda>i. let idx = ht_slot (ht_hash p) i; e = slots t idx in
             if e_ptr e = HT_EMPTY then Some None
             else if e_ptr e = p then Some (Some idx) else None) 0 of
        Some (Some idx) \<Rightarrow>
          let e = slots t idx;
              t' = t\<lparr>slots := (slots t)(idx := \<lparr>e_ptr = HT_TOMBSTONE, e_size = 0,
                       e_is_managed = 0, e_gb_buf_id = - 1, e_mapped_ptr = 0\<rparr>),
                     tombstones := tombstones t + 1\<rparr>
          in (Some e, if HT_TOMBSTONE_THRESHOLD < tombstones t'
                      then ht_reclaim_tombstones t' else t')
      | _ \<Rightarrow> (None, t))"

section \<open>Invariants and the abstract map\<close>

text \<open>A slot holds an allocation when its pointer is neither sentinel.\<close>

definition ht_live :: "ht_entry \<Rightarrow> bool" where
  "ht_live e \<longleftrightarrow> e_ptr e \<noteq> HT_EMPTY \<and> e_ptr e \<noteq> HT_TOMBSTONE"

definition ht_key :: "u64 \<Rightarrow> bool" where
  "ht_key p \<longleftrightarrow> p \<noteq> HT_EMPTY \<and> p \<noteq> HT_TOMBSTONE"

text \<open>No key occupies two slots.\<close>

definition ht_distinct :: "(nat \<Rightarrow> ht_entry) \<Rightarrow> bool" where
  "ht_distinct s \<longleftrightarrow> (\<forall>i<HT_SIZE. \<forall>j<HT_SIZE.
     ht_live (s i) \<longrightarrow> e_ptr (s i) = e_ptr (s j) \<longrightarrow> i = j)"

text \<open>No empty slot lies between a key's home slot and the slot it occupies.\<close>

definition ht_chained :: "(nat \<Rightarrow> ht_entry) \<Rightarrow> bool" where
  "ht_chained s \<longleftrightarrow> (\<forall>i<HT_SIZE. ht_live (s i) \<longrightarrow>
     (\<forall>k<ht_dist (e_ptr (s i)) i. e_ptr (s (ht_probe (e_ptr (s i)) k)) \<noteq> HT_EMPTY))"

definition ht_dead_set :: "(nat \<Rightarrow> ht_entry) \<Rightarrow> nat set" where
  "ht_dead_set s = {i. i < HT_SIZE \<and> e_ptr (s i) = HT_TOMBSTONE}"

definition ht_inv :: "ht_table \<Rightarrow> bool" where
  "ht_inv t \<longleftrightarrow> ht_distinct (slots t) \<and> tombstones t = int (card (ht_dead_set (slots t)))"

definition ht_wf :: "ht_table \<Rightarrow> bool" where
  "ht_wf t \<longleftrightarrow> ht_inv t \<and> ht_chained (slots t)"

text \<open>What the table stores, read off the slots without probing.\<close>

definition slots_map :: "(nat \<Rightarrow> ht_entry) \<Rightarrow> u64 \<Rightarrow> ht_entry option" where
  "slots_map s = map_of (map (\<lambda>i. (e_ptr (s i), s i))
     (filter (\<lambda>i. ht_live (s i)) [0..<HT_SIZE]))"

definition ht_map :: "ht_table \<Rightarrow> u64 \<Rightarrow> ht_entry option" where
  "ht_map t = slots_map (slots t)"

lemmas ht_sentinels = HT_EMPTY_def HT_TOMBSTONE_def

lemma slots_map_None_iff:
  "slots_map s p = None \<longleftrightarrow> (\<forall>i<HT_SIZE. ht_live (s i) \<longrightarrow> e_ptr (s i) \<noteq> p)"
  by (auto simp: slots_map_def map_of_eq_None_iff image_iff)

lemma slots_map_SomeD:
  "slots_map s p = Some e \<Longrightarrow> \<exists>i<HT_SIZE. s i = e \<and> ht_live e \<and> e_ptr e = p"
  by (auto simp: slots_map_def dest!: map_of_SomeD)

lemma slots_map_SomeI:
  assumes "ht_distinct s" and "i < HT_SIZE" and "ht_live (s i)"
  shows "slots_map s (e_ptr (s i)) = Some (s i)"
proof -
  from assms have "slots_map s (e_ptr (s i)) \<noteq> None"
    by (auto simp: slots_map_None_iff)
  then obtain e where e: "slots_map s (e_ptr (s i)) = Some e" by blast
  from slots_map_SomeD [OF this] obtain j where
    "j < HT_SIZE" "s j = e" "e_ptr e = e_ptr (s i)" by blast
  with assms have "j = i" by (metis ht_distinct_def)
  with e \<open>s j = e\<close> show ?thesis by simp
qed

lemma slots_map_Some_iff:
  "ht_distinct s \<Longrightarrow>
    slots_map s p = Some e \<longleftrightarrow> (\<exists>i<HT_SIZE. s i = e \<and> ht_live e \<and> e_ptr e = p)"
  by (blast dest: slots_map_SomeD intro: slots_map_SomeI)

lemma slots_map_live: "slots_map s p = Some e \<Longrightarrow> ht_key p \<and> e_ptr e = p"
  by (auto dest!: slots_map_SomeD simp: ht_live_def ht_key_def)

lemma slots_map_nokey: "\<not> ht_key p \<Longrightarrow> slots_map s p = None"
  using slots_map_live [of s p] by (cases "slots_map s p") auto

text \<open>Two tables with the same live entries, each key once, have the same map.\<close>

lemma slots_map_cong:
  assumes "ht_distinct s" and "ht_distinct s'"
    and "\<And>e. ht_live e \<Longrightarrow> (\<exists>i<HT_SIZE. s i = e) \<longleftrightarrow> (\<exists>i<HT_SIZE. s' i = e)"
  shows "slots_map s = slots_map s'"
proof
  fix p
  show "slots_map s p = slots_map s' p"
  proof (rule option.expand)
    show "(slots_map s p = None) = (slots_map s' p = None)"
      using assms(3) unfolding slots_map_None_iff by metis
    show "the (slots_map s p) = the (slots_map s' p)"
      if "slots_map s p \<noteq> None" "slots_map s' p \<noteq> None"
    proof -
      from that(1) obtain e where e: "slots_map s p = Some e" by blast
      with slots_map_Some_iff [OF assms(1)] have "slots_map s' p = Some e"
        using slots_map_Some_iff [OF assms(2), of p e] assms(3) by blast
      with e show ?thesis by simp
    qed
  qed
qed

lemma ht_empty_wf: "ht_wf ht_empty" and ht_empty_map: "ht_map ht_empty = Map.empty"
proof -
  show "ht_wf ht_empty"
    by (simp add: ht_wf_def ht_inv_def ht_distinct_def ht_chained_def ht_live_def ht_empty_def
        ht_dead_set_def ht_sentinels)
  show "ht_map ht_empty = Map.empty"
    by (rule ext) (simp add: ht_map_def slots_map_None_iff ht_live_def ht_empty_def ht_sentinels)
qed

section \<open>Lookup\<close>

text \<open>
  On a chained table the probe of \<open>ht_lookup\<close> finds exactly what the table stores. The
  shared scan of \<open>ht_lookup\<close> and \<open>ht_remove\<close>: the first slot of the probe sequence that is
  empty or holds the key.
\<close>

definition ht_scan :: "(nat \<Rightarrow> ht_entry) \<Rightarrow> u64 \<Rightarrow> nat option option" where
  "ht_scan s p = for_until HT_SIZE
     (\<lambda>i. let idx = ht_slot (ht_hash p) i; e = s idx in
          if e_ptr e = HT_EMPTY then Some None
          else if e_ptr e = p then Some (Some idx) else None) 0"

lemma ht_scan_SomeD:
  assumes "ht_scan s p = Some (Some idx)"
  shows "idx < HT_SIZE \<and> e_ptr (s idx) = p \<and> p \<noteq> HT_EMPTY"
proof -
  from assms obtain k where k: "k < HT_SIZE" "idx = ht_probe p k" "e_ptr (s idx) = p"
      "e_ptr (s idx) \<noteq> HT_EMPTY"
    unfolding ht_scan_def for_until_Some_iff by (auto simp: Let_def split: if_splits)
  from ht_probe_bound [OF k(1)] k(2-4) show ?thesis by simp
qed

lemma ht_scan_hit:
  assumes "ht_chained s" and "ht_distinct s" and "ht_key p"
    and "i < HT_SIZE" and "e_ptr (s i) = p"
  shows "ht_scan s p = Some (Some i)"
proof -
  let ?k = "ht_dist p i"
  have live: "ht_live (s i)" using assms(3,5) by (simp add: ht_live_def ht_key_def)
  have before: "e_ptr (s (ht_probe p j)) \<noteq> HT_EMPTY \<and> e_ptr (s (ht_probe p j)) \<noteq> p"
    if "j < ?k" for j
  proof
    from assms(1,4,5) live that show "e_ptr (s (ht_probe p j)) \<noteq> HT_EMPTY"
      by (auto simp: ht_chained_def)
    from that ht_dist_bound [OF assms(4), of p] have j: "j < HT_SIZE" by simp
    show "e_ptr (s (ht_probe p j)) \<noteq> p"
    proof
      assume "e_ptr (s (ht_probe p j)) = p"
      then have "i = ht_probe p j"
        using assms(2,4,5) live j by (auto simp: ht_distinct_def)
      with j that show False by simp
    qed
  qed
  show ?thesis
    unfolding ht_scan_def for_until_Some_iff
    using assms(3,4,5) before ht_dist_bound [OF assms(4), of p]
    by (intro exI [of _ ?k]) (auto simp: Let_def ht_key_def)
qed

lemma ht_scan_miss:
  "(\<forall>i<HT_SIZE. e_ptr (s i) \<noteq> p) \<Longrightarrow> ht_scan s p = None \<or> ht_scan s p = Some None"
  using ht_scan_SomeD [of s p] by (cases "ht_scan s p"; cases "the (ht_scan s p)") auto

lemma ht_lookup_scan:
  "ht_lookup t p = (case ht_scan (slots t) p of
     Some (Some idx) \<Rightarrow> Some (slots t idx) | _ \<Rightarrow> None)"
proof -
  have "for_until n (\<lambda>i. let e = slots t (ht_slot (ht_hash p) i) in
           if e_ptr e = HT_EMPTY then Some None
           else if e_ptr e = p then Some (Some e) else None) i =
        map_option (map_option (slots t)) (for_until n
           (\<lambda>i. let idx = ht_slot (ht_hash p) i; e = slots t idx in
             if e_ptr e = HT_EMPTY then Some None
             else if e_ptr e = p then Some (Some idx) else None) i)" for n i
    by (induction n arbitrary: i) (auto simp: Let_def)
  then show ?thesis
    by (auto simp: ht_lookup_def ht_scan_def split: option.splits)
qed

lemma ht_lookup_sound:
  "ht_lookup t p = Some e \<Longrightarrow> \<exists>i<HT_SIZE. slots t i = e \<and> e_ptr e = p \<and> p \<noteq> HT_EMPTY"
  by (auto simp: ht_lookup_scan split: option.splits dest: ht_scan_SomeD)

lemma ht_lookup_map:
  assumes "ht_wf t" and "ht_key p"
  shows "ht_lookup t p = ht_map t p"
proof (cases "ht_map t p")
  case None
  have "e_ptr (slots t i) \<noteq> p" if "i < HT_SIZE" for i
    using None that assms(2)
    by (auto simp: ht_map_def slots_map_None_iff ht_live_def ht_key_def)
  then show ?thesis
    using None ht_scan_miss [of "slots t" p]
    by (auto simp: ht_lookup_scan split: option.splits)
next
  case (Some e)
  then obtain i where i: "i < HT_SIZE" "slots t i = e" "e_ptr e = p"
    by (auto simp: ht_map_def dest: slots_map_SomeD)
  with assms have "ht_scan (slots t) p = Some (Some i)"
    by (intro ht_scan_hit) (auto simp: ht_wf_def ht_inv_def)
  with i Some show ?thesis by (simp add: ht_lookup_scan)
qed

section \<open>Changing one slot\<close>

lemma option_eqI: "(\<And>x. a = Some x \<longleftrightarrow> b = Some x) \<Longrightarrow> a = b"
  by (metis not_Some_eq)

lemma slots_update:
  assumes "ht_distinct s" and "i < HT_SIZE" and "\<not> ht_live (s i)" and "ht_live e"
    and "slots_map s (e_ptr e) = None"
  shows "ht_distinct (s(i := e))"
    and "slots_map (s(i := e)) = (slots_map s)(e_ptr e \<mapsto> e)"
proof -
  have other: "e_ptr (s j) \<noteq> e_ptr e" if "j < HT_SIZE" for j
  proof
    assume "e_ptr (s j) = e_ptr e"
    with assms(4) have "ht_live (s j)" by (simp add: ht_live_def)
    with assms(5) that \<open>e_ptr (s j) = e_ptr e\<close> show False by (auto simp: slots_map_None_iff)
  qed
  show d: "ht_distinct (s(i := e))"
    using assms(1) other unfolding ht_distinct_def by (metis fun_upd_apply)
  show "slots_map (s(i := e)) = (slots_map s)(e_ptr e \<mapsto> e)"
  proof
    fix q
    show "slots_map (s(i := e)) q = ((slots_map s)(e_ptr e \<mapsto> e)) q"
    proof (cases "q = e_ptr e")
      case True
      with slots_map_SomeI [OF d assms(2)] assms(4) show ?thesis by simp
    next
      case False
      then have "slots_map (s(i := e)) q = slots_map s q"
        using assms(2,3) by (intro option_eqI)
          (auto simp: slots_map_Some_iff [OF d] slots_map_Some_iff [OF assms(1)])
      with False show ?thesis by simp
    qed
  qed
qed

lemma slots_delete:
  assumes "ht_distinct s" and "i < HT_SIZE" and "ht_live (s i)" and "\<not> ht_live e"
  shows "ht_distinct (s(i := e))"
    and "slots_map (s(i := e)) = (slots_map s)(e_ptr (s i) := None)"
proof -
  show d: "ht_distinct (s(i := e))"
    using assms unfolding ht_distinct_def by (auto simp: ht_live_def)
  show "slots_map (s(i := e)) = (slots_map s)(e_ptr (s i) := None)"
  proof
    fix q
    show "slots_map (s(i := e)) q = ((slots_map s)(e_ptr (s i) := None)) q"
    proof (cases "q = e_ptr (s i)")
      case True
      have "\<not> (ht_live ((s(i := e)) j) \<and> e_ptr ((s(i := e)) j) = q)" if "j < HT_SIZE" for j
        using assms that True by (auto simp: ht_distinct_def)
      then have "slots_map (s(i := e)) q = None"
        by (auto simp: slots_map_None_iff)
      with True show ?thesis by simp
    next
      case False
      then have "slots_map (s(i := e)) q = slots_map s q"
        using assms(2-4) by (intro option_eqI)
          (auto simp: slots_map_Some_iff [OF d] slots_map_Some_iff [OF assms(1)])
      with False show ?thesis by simp
    qed
  qed
qed

lemma chained_fill:
  assumes "ht_chained s" and "e_ptr e \<noteq> HT_EMPTY"
    and "ht_live e \<Longrightarrow> \<forall>k<ht_dist (e_ptr e) i. e_ptr (s (ht_probe (e_ptr e) k)) \<noteq> HT_EMPTY"
  shows "ht_chained (s(i := e))"
  using assms unfolding ht_chained_def by auto

lemma dead_set_finite [simp]: "finite (ht_dead_set s)"
  by (simp add: ht_dead_set_def)

lemma dead_set_update:
  "i < HT_SIZE \<Longrightarrow> ht_dead_set (s(i := e)) =
    (if e_ptr e = HT_TOMBSTONE then insert i (ht_dead_set s) else ht_dead_set s - {i})"
  by (auto simp: ht_dead_set_def)

section \<open>Insertion\<close>

lemma ht_insert_cases:
  obtains (placed) idx where "idx < HT_SIZE" and "\<not> ht_live (slots t idx)"
      and "\<forall>k<ht_dist p idx. ht_live (slots t (ht_probe p k))"
      and "ht_insert t p sz m b v = (True, t\<lparr>slots := (slots t)(idx := \<lparr>e_ptr = p, e_size = sz,
             e_is_managed = m, e_gb_buf_id = b, e_mapped_ptr = v\<rparr>),
             tombstones := (if e_ptr (slots t idx) = HT_TOMBSTONE
               then tombstones t - 1 else tombstones t)\<rparr>)"
    | (full) "\<forall>i<HT_SIZE. ht_live (slots t i)" and "ht_insert t p sz m b v = (False, t)"
proof -
  let ?body = "\<lambda>i. let idx = ht_slot (ht_hash p) i; e = slots t idx in
      if e_ptr e = HT_EMPTY \<or> e_ptr e = HT_TOMBSTONE then Some idx else None"
  have body: "?body k = (if ht_live (slots t (ht_probe p k)) then None else Some (ht_probe p k))"
    for k by (simp add: Let_def ht_live_def)
  show ?thesis
  proof (cases "for_until HT_SIZE ?body 0")
    case None
    then have *: "\<forall>k<HT_SIZE. ht_live (slots t (ht_probe p k))"
      unfolding for_until_None_iff body by (auto split: if_splits)
    have "\<forall>i<HT_SIZE. ht_live (slots t i)"
    proof (intro allI impI)
      fix i
      assume "i < HT_SIZE"
      with * ht_dist_bound [OF this, of p] show "ht_live (slots t i)"
        by (metis ht_probe_dist)
    qed
    moreover have "ht_insert t p sz m b v = (False, t)"
      unfolding ht_insert_def None by simp
    ultimately show ?thesis by (rule full)
  next
    case (Some idx)
    then obtain k where k: "k < HT_SIZE" "?body k = Some idx" "\<forall>j<k. ?body j = None"
      unfolding for_until_Some_iff by blast
    from k(2) have i: "idx = ht_probe p k" "\<not> ht_live (slots t idx)"
      unfolding body by (auto split: if_splits)
    from k(3) have l: "\<forall>j<k. ht_live (slots t (ht_probe p j))"
      unfolding body by (auto split: if_splits)
    show ?thesis
    proof (rule placed)
      show "idx < HT_SIZE" "\<not> ht_live (slots t idx)" using i k(1) by simp_all
      show "\<forall>k<ht_dist p idx. ht_live (slots t (ht_probe p k))" using l i(1) k(1) by simp
    qed (simp only: ht_insert_def Some option.case)
  qed
qed

lemma ht_insert_True:
  assumes "ht_insert t p sz m b v = (True, t')" and "ht_key p" and "ht_inv t"
    and "ht_map t p = None"
  shows "ht_inv t'"
    and "ht_map t' = (ht_map t)(p \<mapsto> \<lparr>e_ptr = p, e_size = sz, e_is_managed = m,
             e_gb_buf_id = b, e_mapped_ptr = v\<rparr>)"
    and "ht_chained (slots t) \<Longrightarrow> ht_chained (slots t')"
proof -
  let ?e = "\<lparr>e_ptr = p, e_size = sz, e_is_managed = m, e_gb_buf_id = b, e_mapped_ptr = v\<rparr>"
  obtain idx where idx: "idx < HT_SIZE" "\<not> ht_live (slots t idx)"
      "\<forall>k<ht_dist p idx. ht_live (slots t (ht_probe p k))"
    and t': "t' = t\<lparr>slots := (slots t)(idx := ?e), tombstones :=
      (if e_ptr (slots t idx) = HT_TOMBSTONE then tombstones t - 1 else tombstones t)\<rparr>"
    by (rule ht_insert_cases [of t p sz m b v]) (use assms(1) in auto)
  have live: "ht_live ?e" using assms(2) by (simp add: ht_live_def ht_key_def)
  have d: "ht_distinct (slots t)" using assms(3) by (simp add: ht_inv_def)
  note up = slots_update [OF d idx(1,2) live]
  have cnt: "tombstones t' = int (card (ht_dead_set (slots t')))"
  proof (cases "e_ptr (slots t idx) = HT_TOMBSTONE")
    case True
    then have "idx \<in> ht_dead_set (slots t)" using idx(1) by (simp add: ht_dead_set_def)
    then have "0 < card (ht_dead_set (slots t))" by (auto simp: card_gt_0_iff)
    with True \<open>idx \<in> ht_dead_set (slots t)\<close> assms(2,3) idx(1) show ?thesis
      by (simp add: t' dead_set_update ht_key_def ht_inv_def of_nat_diff Suc_leI)
  next
    case False
    then have "idx \<notin> ht_dead_set (slots t)" by (simp add: ht_dead_set_def)
    with False assms(2,3) idx(1) show ?thesis
      by (simp add: t' dead_set_update ht_key_def ht_inv_def)
  qed
  from up(1) cnt assms(4) show "ht_inv t'" by (simp add: ht_inv_def ht_map_def t')
  from up(2) assms(4) show "ht_map t' = (ht_map t)(p \<mapsto> ?e)" by (simp add: ht_map_def t')
  show "ht_chained (slots t')" if "ht_chained (slots t)"
    using chained_fill [OF that, of ?e idx] idx(3) assms(2)
    by (simp add: t' ht_live_def ht_key_def)
qed

lemma ht_insert_False:
  "ht_insert t p sz m b v = (False, t') \<Longrightarrow> t' = t \<and> (\<forall>i<HT_SIZE. ht_live (slots t i))"
  by (rule ht_insert_cases [of t p sz m b v]) auto

lemma ht_insert_space:
  "i < HT_SIZE \<Longrightarrow> \<not> ht_live (slots t i) \<Longrightarrow> fst (ht_insert t p sz m b v)"
  by (rule ht_insert_cases [of t p sz m b v]) auto

section \<open>Reclaiming tombstones\<close>

definition tomb_free :: "(nat \<Rightarrow> ht_entry) \<Rightarrow> bool" where
  "tomb_free s \<longleftrightarrow> ht_dead_set s = {}"

lemma clear_pass:
  "fold reclaim_clear [0..<n] s =
    (\<lambda>i. if i < n \<and> e_ptr (s i) = HT_TOMBSTONE then (s i)\<lparr>e_ptr := HT_EMPTY\<rparr> else s i)"
proof (induction n)
  case 0
  show ?case by simp
next
  case (Suc n)
  have "fold reclaim_clear [0..<Suc n] s = reclaim_clear n (fold reclaim_clear [0..<n] s)"
    by simp
  also have "\<dots> = (\<lambda>i. if i < Suc n \<and> e_ptr (s i) = HT_TOMBSTONE
      then (s i)\<lparr>e_ptr := HT_EMPTY\<rparr> else s i)"
    unfolding Suc.IH by (rule ext) (auto simp: reclaim_clear_def less_Suc_eq)
  finally show ?case .
qed

lemma clear_pass_props:
  assumes "ht_distinct s"
  defines "s' \<equiv> fold reclaim_clear [0..<HT_SIZE] s"
  shows "ht_distinct s'" and "slots_map s' = slots_map s" and "tomb_free s'"
    and "\<And>i. ht_live (s' i) \<Longrightarrow> s' i = s i"
    and "\<And>i. ht_live (s i) \<Longrightarrow> s' i = s i"
proof -
  show live: "\<And>i. ht_live (s' i) \<Longrightarrow> s' i = s i"
    by (auto simp: s'_def clear_pass ht_live_def ht_sentinels split: if_splits)
  show live': "\<And>i. ht_live (s i) \<Longrightarrow> s' i = s i"
    by (auto simp: s'_def clear_pass ht_live_def)
  show "tomb_free s'"
    by (auto simp: s'_def clear_pass tomb_free_def ht_dead_set_def ht_sentinels)
  show d: "ht_distinct s'"
    unfolding ht_distinct_def
  proof (intro allI impI)
    fix i j
    assume *: "i < HT_SIZE" "j < HT_SIZE" "ht_live (s' i)" "e_ptr (s' i) = e_ptr (s' j)"
    then have "ht_live (s' j)" by (simp add: ht_live_def)
    with * live have "ht_live (s i)" "e_ptr (s i) = e_ptr (s j)" by metis+
    with * assms(1) show "i = j" by (simp add: ht_distinct_def)
  qed
  show "slots_map s' = slots_map s"
    by (rule slots_map_cong [OF d assms(1)]) (metis live live')
qed

text \<open>
  One round of the second pass: a slot without an allocation is left alone; a live entry
  moves to the first empty slot of its probe sequence, at the latest back to its own.
\<close>

lemma reinsert_cases:
  assumes "i < HT_SIZE" and "tomb_free s"
  obtains (idle) "\<not> ht_live (s i)" and "reclaim_reinsert i s = s"
    | (move) k idx where "ht_live (s i)" and "k \<le> ht_dist (e_ptr (s i)) i"
      and "idx = ht_probe (e_ptr (s i)) k" and "idx < HT_SIZE"
      and "idx = i \<or> e_ptr (s idx) = HT_EMPTY"
      and "\<forall>j<k. ht_probe (e_ptr (s i)) j \<noteq> i \<and>
             e_ptr (s (ht_probe (e_ptr (s i)) j)) \<noteq> HT_EMPTY"
      and "reclaim_reinsert i s = (s(i := (s i)\<lparr>e_ptr := HT_EMPTY\<rparr>))(idx := s i)"
proof (cases "ht_live (s i)")
  case False
  then show ?thesis by (intro idle) (auto simp: reclaim_reinsert_def ht_live_def)
next
  case True
  let ?p = "e_ptr (s i)" and ?s1 = "s(i := (s i)\<lparr>e_ptr := HT_EMPTY\<rparr>)"
  let ?body = "\<lambda>j. let idx = ht_slot (ht_hash ?p) j in
      if e_ptr (?s1 idx) = HT_EMPTY then Some idx else None"
  let ?d = "ht_dist ?p i"
  have d: "?d < HT_SIZE" using assms(1) by (rule ht_dist_bound)
  have "?body ?d = Some i" using assms(1) by (simp add: Let_def)
  with d have "for_until HT_SIZE ?body 0 \<noteq> None"
    unfolding for_until_None_iff by (metis add_0 option.distinct(1))
  then obtain idx where res: "for_until HT_SIZE ?body 0 = Some idx" by blast
  then obtain k where k: "k < HT_SIZE" "?body k = Some idx" "\<forall>j<k. ?body j = None"
    unfolding for_until_Some_iff by blast
  have "k \<le> ?d"
  proof (rule ccontr)
    assume "\<not> k \<le> ?d"
    with k(3) \<open>?body ?d = Some i\<close> show False by auto
  qed
  moreover from k(2) have idx: "idx = ht_probe ?p k" "e_ptr (?s1 idx) = HT_EMPTY"
    by (auto simp: Let_def split: if_splits)
  moreover from k(3) have "\<forall>j<k. ht_probe ?p j \<noteq> i \<and> e_ptr (s (ht_probe ?p j)) \<noteq> HT_EMPTY"
    by (auto simp: Let_def split: if_splits)
  moreover have "reclaim_reinsert i s = ?s1(idx := s i)"
  proof -
    from True have c: "e_ptr (s i) \<noteq> HT_EMPTY \<and> e_ptr (s i) \<noteq> HT_TOMBSTONE"
      by (simp add: ht_live_def)
    show ?thesis
      unfolding reclaim_reinsert_def if_P [OF c] using res by (simp only: Let_def option.case)
  qed
  moreover from idx have "idx = i \<or> e_ptr (s idx) = HT_EMPTY" by (cases "idx = i") auto
  ultimately show ?thesis using True k(1) by (intro move) auto
qed

lemma reinsert_content:
  assumes "ht_distinct s" and "tomb_free s" and "i < HT_SIZE"
  shows "ht_distinct (reclaim_reinsert i s)" and "tomb_free (reclaim_reinsert i s)"
    and "slots_map (reclaim_reinsert i s) = slots_map s"
proof -
  have *: "ht_distinct (reclaim_reinsert i s) \<and> tomb_free (reclaim_reinsert i s)
      \<and> slots_map (reclaim_reinsert i s) = slots_map s"
  proof (rule reinsert_cases [OF assms(3,2)])
    assume "reclaim_reinsert i s = s"
    with assms show ?thesis by simp
  next
    fix k idx
    assume l: "ht_live (s i)" and idx: "idx < HT_SIZE" "idx = i \<or> e_ptr (s idx) = HT_EMPTY"
      and eq: "reclaim_reinsert i s = (s(i := (s i)\<lparr>e_ptr := HT_EMPTY\<rparr>))(idx := s i)"
    let ?e = "(s i)\<lparr>e_ptr := HT_EMPTY\<rparr>"
    have dead: "\<not> ht_live ?e" by (simp add: ht_live_def)
    note del = slots_delete [OF assms(1,3) l dead]
    have free: "\<not> ht_live ((s(i := ?e)) idx)" using idx(2) by (auto simp: ht_live_def)
    have none: "slots_map (s(i := ?e)) (e_ptr (s i)) = None" using del(2) by simp
    note ins = slots_update [OF del(1) idx(1) free l none]
    have "slots_map s (e_ptr (s i)) = Some (s i)"
      by (rule slots_map_SomeI [OF assms(1,3) l])
    moreover have "slots_map (reclaim_reinsert i s) = (slots_map s)(e_ptr (s i) \<mapsto> s i)"
      using ins(2) del(2) by (simp add: eq)
    ultimately have "slots_map (reclaim_reinsert i s) = slots_map s"
      by (simp add: map_upd_triv)
    moreover have "tomb_free (reclaim_reinsert i s)"
      using assms(2,3) idx(1) l unfolding eq tomb_free_def
      by (simp add: dead_set_update ht_live_def ht_sentinels)
    ultimately show ?thesis using ins(1) eq by simp
  qed
  then show "ht_distinct (reclaim_reinsert i s)" and "tomb_free (reclaim_reinsert i s)"
    and "slots_map (reclaim_reinsert i s) = slots_map s" by blast+
qed

lemma reclaim_content:
  assumes "ht_inv t"
  shows "ht_inv (ht_reclaim_tombstones t)"
    and "ht_map (ht_reclaim_tombstones t) = ht_map t"
    and "tomb_free (slots (ht_reclaim_tombstones t))"
proof -
  let ?s0 = "fold reclaim_clear [0..<HT_SIZE] (slots t)"
  have d: "ht_distinct (slots t)" using assms by (simp add: ht_inv_def)
  let ?P = "\<lambda>_ s. ht_distinct s \<and> tomb_free s \<and> slots_map s = slots_map (slots t)"
  have "?P HT_SIZE (fold reclaim_reinsert [0..<HT_SIZE] ?s0)"
  proof (rule fold_upt_inv [where P = ?P])
    show "?P 0 ?s0" using clear_pass_props [OF d] by simp
    show "?P (Suc i) (reclaim_reinsert i s)" if "i < HT_SIZE" "?P i s" for i s
      using that reinsert_content [of s i] by simp
  qed
  then show "ht_inv (ht_reclaim_tombstones t)"
      and "ht_map (ht_reclaim_tombstones t) = ht_map t"
      and "tomb_free (slots (ht_reclaim_tombstones t))"
    by (auto simp: ht_reclaim_tombstones_def ht_inv_def ht_map_def tomb_free_def)
qed

text \<open>
  The second pass rebuilds the probe chains when no allocation sits past the end of the
  array, i.e. below its home slot.
\<close>

definition ht_unwrapped :: "(nat \<Rightarrow> ht_entry) \<Rightarrow> bool" where
  "ht_unwrapped s \<longleftrightarrow> (\<forall>i<HT_SIZE. ht_live (s i) \<longrightarrow> ht_home (e_ptr (s i)) \<le> i)"

definition chained_upto :: "nat \<Rightarrow> (nat \<Rightarrow> ht_entry) \<Rightarrow> bool" where
  "chained_upto n s \<longleftrightarrow> (\<forall>j<n. ht_live (s j) \<longrightarrow>
     (\<forall>k. ht_home (e_ptr (s j)) \<le> k \<longrightarrow> k < j \<longrightarrow> e_ptr (s k) \<noteq> HT_EMPTY))"

lemma chained_upto_all:
  assumes "ht_unwrapped s" and "chained_upto HT_SIZE s"
  shows "ht_chained s"
  unfolding ht_chained_def
proof (intro allI impI)
  fix i k
  assume i: "i < HT_SIZE" "ht_live (s i)" and k: "k < ht_dist (e_ptr (s i)) i"
  let ?h = "ht_home (e_ptr (s i))"
  from assms(1) i have "?h \<le> i" by (simp add: ht_unwrapped_def)
  with k i(1) have "ht_probe (e_ptr (s i)) k = ?h + k" "?h + k < i"
    by (auto simp: ht_dist_def ht_probe_cases)
  with assms(2) i show "e_ptr (s (ht_probe (e_ptr (s i)) k)) \<noteq> HT_EMPTY"
    by (auto simp: chained_upto_def)
qed

lemma reinsert_unwrapped:
  assumes "ht_unwrapped s" and "chained_upto i s" and "tomb_free s" and "i < HT_SIZE"
  shows "ht_unwrapped (reclaim_reinsert i s)" and "chained_upto (Suc i) (reclaim_reinsert i s)"
proof -
  have *: "ht_unwrapped (reclaim_reinsert i s) \<and> chained_upto (Suc i) (reclaim_reinsert i s)"
  proof (rule reinsert_cases [OF assms(4,3)])
    assume "\<not> ht_live (s i)" "reclaim_reinsert i s = s"
    with assms show ?thesis by (auto simp: chained_upto_def less_Suc_eq)
  next
    fix k idx
    assume l: "ht_live (s i)" and k: "k \<le> ht_dist (e_ptr (s i)) i"
      and idx: "idx = ht_probe (e_ptr (s i)) k"
      and before: "\<forall>j<k. ht_probe (e_ptr (s i)) j \<noteq> i \<and>
             e_ptr (s (ht_probe (e_ptr (s i)) j)) \<noteq> HT_EMPTY"
      and eq: "reclaim_reinsert i s = (s(i := (s i)\<lparr>e_ptr := HT_EMPTY\<rparr>))(idx := s i)"
    let ?h = "ht_home (e_ptr (s i))"
    have h: "?h \<le> i" using assms(1,4) l by (simp add: ht_unwrapped_def)
    have pr: "ht_probe (e_ptr (s i)) j = ?h + j" if "j \<le> k" for j
      using that k h assms(4) by (auto simp: ht_dist_def ht_probe_cases)
    have idx': "idx = ?h + k" "idx \<le> i" using idx pr [of k] k h by (auto simp: ht_dist_def)
    have path: "e_ptr (s q) \<noteq> HT_EMPTY \<and> q \<noteq> i" if "?h \<le> q" "q < idx" for q
      using before [rule_format, of "q - ?h"] pr [of "q - ?h"] that idx'(1) by auto
    have "ht_unwrapped (reclaim_reinsert i s)"
      using assms(1,4) h idx'(1) l unfolding ht_unwrapped_def eq by (auto simp: ht_live_def)
    moreover have "chained_upto (Suc i) (reclaim_reinsert i s)"
      unfolding chained_upto_def eq
      using assms(2) path l idx'(2)
      by (auto simp: chained_upto_def less_Suc_eq ht_live_def)
    ultimately show ?thesis ..
  qed
  then show "ht_unwrapped (reclaim_reinsert i s)"
    and "chained_upto (Suc i) (reclaim_reinsert i s)" by blast+
qed

lemma reclaim_chained:
  assumes "ht_inv t" and "ht_unwrapped (slots t)"
  shows "ht_chained (slots (ht_reclaim_tombstones t))"
proof -
  let ?s0 = "fold reclaim_clear [0..<HT_SIZE] (slots t)"
  have d: "ht_distinct (slots t)" using assms(1) by (simp add: ht_inv_def)
  note c = clear_pass_props [OF d]
  have un: "ht_unwrapped ?s0" using assms(2) c(4) unfolding ht_unwrapped_def by metis
  let ?P = "\<lambda>i s. ht_distinct s \<and> tomb_free s \<and> ht_unwrapped s \<and> chained_upto i s"
  have "?P HT_SIZE (fold reclaim_reinsert [0..<HT_SIZE] ?s0)"
  proof (rule fold_upt_inv [where P = ?P])
    show "?P 0 ?s0" using c(1,3) un by (simp add: chained_upto_def)
    show "?P (Suc i) (reclaim_reinsert i s)" if "i < HT_SIZE" "?P i s" for i s
      using that reinsert_content [of s i] reinsert_unwrapped [of s i] by simp
  qed
  then show ?thesis
    by (simp add: ht_reclaim_tombstones_def chained_upto_all)
qed

section \<open>Removal\<close>

definition ht_grave :: ht_entry where
  "ht_grave = \<lparr>e_ptr = HT_TOMBSTONE, e_size = 0, e_is_managed = 0, e_gb_buf_id = - 1,
     e_mapped_ptr = 0\<rparr>"

definition ht_bury :: "ht_table \<Rightarrow> nat \<Rightarrow> ht_table" where
  "ht_bury t idx = t\<lparr>slots := (slots t)(idx := ht_grave), tombstones := tombstones t + 1\<rparr>"

lemma ht_remove_scan:
  "ht_remove t p = (case ht_scan (slots t) p of
     Some (Some idx) \<Rightarrow> (Some (slots t idx),
       if HT_TOMBSTONE_THRESHOLD < tombstones t + 1
       then ht_reclaim_tombstones (ht_bury t idx) else ht_bury t idx)
   | _ \<Rightarrow> (None, t))"
  by (simp add: ht_remove_def ht_scan_def ht_bury_def ht_grave_def Let_def
      split: option.splits)

lemma ht_bury_props:
  assumes "ht_inv t" and "idx < HT_SIZE" and "ht_live (slots t idx)"
  shows "ht_inv (ht_bury t idx)"
    and "ht_map (ht_bury t idx) = (ht_map t)(e_ptr (slots t idx) := None)"
    and "ht_chained (slots t) \<Longrightarrow> ht_chained (slots (ht_bury t idx))"
    and "ht_unwrapped (slots t) \<Longrightarrow> ht_unwrapped (slots (ht_bury t idx))"
proof -
  have dead: "\<not> ht_live ht_grave" by (simp add: ht_live_def ht_grave_def)
  have d: "ht_distinct (slots t)" using assms(1) by (simp add: ht_inv_def)
  note del = slots_delete [OF d assms(2,3) dead]
  have "idx \<notin> ht_dead_set (slots t)"
    using assms(3) by (auto simp: ht_dead_set_def ht_live_def)
  then have "int (card (ht_dead_set ((slots t)(idx := ht_grave)))) = tombstones t + 1"
    using assms(1,2) by (simp add: dead_set_update ht_grave_def ht_inv_def)
  with del show "ht_inv (ht_bury t idx)"
    and "ht_map (ht_bury t idx) = (ht_map t)(e_ptr (slots t idx) := None)"
    by (simp_all add: ht_inv_def ht_map_def ht_bury_def)
  show "ht_chained (slots (ht_bury t idx))" if "ht_chained (slots t)"
    using chained_fill [OF that, of ht_grave idx] dead
    by (simp add: ht_bury_def ht_grave_def ht_sentinels)
  show "ht_unwrapped (slots (ht_bury t idx))" if "ht_unwrapped (slots t)"
    using that dead by (simp add: ht_bury_def ht_unwrapped_def)
qed

lemma ht_remove_Some:
  assumes "ht_remove t p = (Some e, t')" and "ht_key p" and "ht_inv t"
  shows "ht_inv t'" and "ht_map t p = Some e" and "e_ptr e = p"
    and "ht_map t' = (ht_map t)(p := None)"
proof -
  from assms(1) obtain idx where idx: "ht_scan (slots t) p = Some (Some idx)"
      "e = slots t idx" and t': "t' = (if HT_TOMBSTONE_THRESHOLD < tombstones t + 1
        then ht_reclaim_tombstones (ht_bury t idx) else ht_bury t idx)"
    by (auto simp: ht_remove_scan split: option.splits)
  from ht_scan_SomeD [OF idx(1)] have i: "idx < HT_SIZE" "e_ptr (slots t idx) = p" by simp_all
  with assms(2) have l: "ht_live (slots t idx)" by (simp add: ht_live_def ht_key_def)
  note b = ht_bury_props [OF assms(3) i(1) l]
  show "ht_inv t'" using t' b(1) reclaim_content(1) [OF b(1)] by simp
  show "ht_map t' = (ht_map t)(p := None)"
    using t' b(2) reclaim_content(2) [OF b(1)] i(2) by simp
  show "e_ptr e = p" using i(2) idx(2) by simp
  show "ht_map t p = Some e"
    using slots_map_SomeI [of "slots t" idx] assms(3) i l idx(2)
    by (simp add: ht_map_def ht_inv_def)
qed

lemma ht_remove_None: "ht_remove t p = (None, t') \<Longrightarrow> t' = t"
  by (auto simp: ht_remove_scan split: option.splits)

text \<open>
  A removal keeps the chains when it does not reclaim, or when no allocation is wrapped.
\<close>

definition ht_calm :: "ht_table \<Rightarrow> bool" where
  "ht_calm t \<longleftrightarrow> tombstones t < HT_TOMBSTONE_THRESHOLD \<or> ht_unwrapped (slots t)"

lemma ht_remove_wf:
  assumes "ht_wf t" and "ht_key p" and "ht_calm t" and "ht_map t p = Some e"
  shows "\<exists>t'. ht_remove t p = (Some e, t') \<and> ht_wf t'"
proof -
  from assms(4) obtain i where i: "i < HT_SIZE" "slots t i = e" "ht_live e" "e_ptr e = p"
    by (auto simp: ht_map_def dest: slots_map_SomeD)
  from assms(1) have inv: "ht_inv t" and ch: "ht_chained (slots t)" by (simp_all add: ht_wf_def)
  have scan: "ht_scan (slots t) p = Some (Some i)"
    using inv ch assms(2) i by (intro ht_scan_hit) (auto simp: ht_inv_def)
  have l: "ht_live (slots t i)" using i by simp
  note b = ht_bury_props [OF inv i(1) l]
  have "ht_wf (if HT_TOMBSTONE_THRESHOLD < tombstones t + 1
        then ht_reclaim_tombstones (ht_bury t i) else ht_bury t i)"
  proof (cases "HT_TOMBSTONE_THRESHOLD < tombstones t + 1")
    case True
    with assms(3) have "ht_unwrapped (slots (ht_bury t i))"
      using b(4) by (simp add: ht_calm_def)
    with True show ?thesis
      using reclaim_content(1) [OF b(1)] reclaim_chained [OF b(1)] by (simp add: ht_wf_def)
  next
    case False
    with b(1,3) ch show ?thesis by (simp add: ht_wf_def)
  qed
  with scan i show ?thesis by (simp add: ht_remove_scan)
qed

section \<open>The table as a registry of allocations\<close>

definition ht_put :: "ht_table \<Rightarrow> ht_entry \<Rightarrow> bool \<times> ht_table" where
  "ht_put t e = ht_insert t (e_ptr e) (e_size e) (e_is_managed e) (e_gb_buf_id e)
     (e_mapped_ptr e)"

lemma ht_entry_eta: "\<lparr>e_ptr = e_ptr e, e_size = e_size e, e_is_managed = e_is_managed e,
    e_gb_buf_id = e_gb_buf_id e, e_mapped_ptr = e_mapped_ptr e\<rparr> = (e :: ht_entry)"
  by simp

lemma finite_ht_map: "finite (dom (ht_map t))"
  unfolding ht_map_def slots_map_def by (rule finite_dom_map_of)

interpretation wt: exact_registry ht_inv ht_map ht_key e_ptr ht_put ht_remove
    ht_lookup ht_wf ht_calm
proof unfold_locales
  fix m m' :: ht_table and e :: ht_entry and k :: u64
  show "finite (dom (ht_map m))" by (rule finite_ht_map)
  show "ht_wf m \<Longrightarrow> ht_inv m" by (simp add: ht_wf_def)
  show "ht_inv m' \<and> ht_map m' = (ht_map m)(e_ptr e \<mapsto> e)"
    if "ht_inv m" "ht_key (e_ptr e)" "ht_map m (e_ptr e) = None" "ht_put m e = (True, m')"
    using ht_insert_True(1,2) [OF that(4) [unfolded ht_put_def] that(2,1,3)]
    by (simp add: ht_entry_eta)
  show "ht_put m e = (False, m') \<Longrightarrow> m' = m"
    by (simp add: ht_put_def ht_insert_False)
  show "ht_inv m' \<and> ht_map m k = Some e \<and> e_ptr e = k \<and> ht_map m' = (ht_map m)(k := None)"
    if "ht_inv m" "ht_key k" "ht_remove m k = (Some e, m')"
    using ht_remove_Some [OF that(3,2,1)] by simp
  show "ht_remove m k = (None, m') \<Longrightarrow> m' = m" by (rule ht_remove_None)
  show "ht_wf m \<Longrightarrow> ht_key k \<Longrightarrow> ht_lookup m k = ht_map m k" by (rule ht_lookup_map)
  show "ht_wf m'"
    if "ht_wf m" "ht_key (e_ptr e)" "ht_map m (e_ptr e) = None" "ht_put m e = (True, m')"
    using ht_insert_True [OF that(4) [unfolded ht_put_def] that(2)] that(1,3)
    by (simp add: ht_wf_def)
  show "\<exists>m'. ht_remove m k = (Some e, m') \<and> ht_wf m'"
    if "ht_wf m" "ht_key k" "ht_calm m" "ht_map m k = Some e"
    using that by (rule ht_remove_wf)
qed

text \<open>A removal leaves room: the entry can be put back.\<close>

lemma card_dom_ht_map:
  assumes "ht_inv t"
  shows "card (dom (ht_map t)) \<le> HT_SIZE"
    and "\<forall>i<HT_SIZE. ht_live (slots t i) \<Longrightarrow> card (dom (ht_map t)) = HT_SIZE"
proof -
  let ?f = "\<lambda>i. e_ptr (slots t i)"
  have sub: "dom (ht_map t) \<subseteq> ?f ` {..<HT_SIZE}"
    by (auto simp: ht_map_def dest!: slots_map_SomeD)
  then show le: "card (dom (ht_map t)) \<le> HT_SIZE"
    by (metis card_lessThan finite_lessThan surj_card_le)
  assume all: "\<forall>i<HT_SIZE. ht_live (slots t i)"
  have "inj_on ?f {..<HT_SIZE}"
    using assms all by (auto simp: inj_on_def ht_inv_def ht_distinct_def)
  moreover have "?f ` {..<HT_SIZE} \<subseteq> dom (ht_map t)"
    using assms all slots_map_SomeI by (fastforce simp: ht_map_def ht_inv_def)
  ultimately have "HT_SIZE \<le> card (dom (ht_map t))"
    by (metis card_image card_lessThan card_mono finite_ht_map)
  with le show "card (dom (ht_map t)) = HT_SIZE" by simp
qed

lemma ht_remove_room:
  assumes "ht_inv t" and "ht_key p" and "ht_remove t p = (Some e, t')"
  shows "\<exists>t''. ht_put t' e = (True, t'')"
proof (rule ccontr)
  assume "\<not> ?thesis"
  then have "ht_put t' e = (False, t')"
    using ht_insert_False by (cases "ht_put t' e") (auto simp: ht_put_def)
  then have "\<forall>i<HT_SIZE. ht_live (slots t' i)"
    using ht_insert_False by (auto simp: ht_put_def)
  note r = ht_remove_Some [OF assms(3,2,1)]
  from card_dom_ht_map(2) [OF r(1)] \<open>\<forall>i<HT_SIZE. _\<close>
  have "card (dom (ht_map t')) = HT_SIZE" .
  moreover have "dom (ht_map t) = insert p (dom (ht_map t'))" "p \<notin> dom (ht_map t')"
    using r(2,4) by auto
  ultimately show False
    using card_dom_ht_map(1) [OF assms(1)] finite_ht_map [of t'] by simp
qed

section \<open>A wrapped chain\<close>

text \<open>
  Three allocations at the end of the array: two pointers whose home is the last slot but
  one and one whose home is the last slot. The third wraps around to slot 0. After the
  first is freed, its slot is a tombstone.
\<close>

definition wrapX :: u64 where "wrapX = 0x705561800000"
definition wrapB :: u64 where "wrapB = 0x70bdec400000"
definition wrapA :: u64 where "wrapA = 0x7058d1200000"

definition wrap_table :: ht_table where
  "wrap_table =
     (let t1 = snd (ht_insert ht_empty wrapX 0x20000000 1 0 0);
          t2 = snd (ht_insert t1 wrapB 0x20000000 1 0 0);
          t3 = snd (ht_insert t2 wrapA 0x20000000 1 0 0)
      in snd (ht_remove t3 wrapX))"

lemma wrap_homes:
  "ht_home wrapX = 131070" "ht_home wrapB = 131070" "ht_home wrapA = 131071"
  by (simp_all add: ht_home_def ht_hash_def wrapX_def wrapB_def wrapA_def HT_BITS_def)

definition man_entry :: "u64 \<Rightarrow> ht_entry" where
  "man_entry p = \<lparr>e_ptr = p, e_size = 0x20000000, e_is_managed = 1, e_gb_buf_id = 0,
     e_mapped_ptr = 0\<rparr>"

definition no_entry :: ht_entry where
  "no_entry = \<lparr>e_ptr = 0, e_size = 0, e_is_managed = 0, e_gb_buf_id = 0, e_mapped_ptr = 0\<rparr>"

lemma wrap_neq:
  "wrapX \<noteq> 0" "wrapX \<noteq> 1" "wrapB \<noteq> 0" "wrapB \<noteq> 1" "wrapA \<noteq> 0" "wrapA \<noteq> 1"
  "wrapX \<noteq> wrapB" "wrapX \<noteq> wrapA" "wrapB \<noteq> wrapA" "wrapB \<noteq> wrapX"
  "wrapA \<noteq> wrapX" "wrapA \<noteq> wrapB"
  by (simp_all add: wrapX_def wrapB_def wrapA_def)

lemmas wrap_simps = wrap_neq ht_probe_eq wrap_homes HT_SIZE_val ht_sentinels for_until_pos Let_def

lemma wrap_table_slots:
  "slots wrap_table = (\<lambda>_. no_entry)(131070 := ht_grave, 131071 := man_entry wrapB,
     0 := man_entry wrapA)"
  "tombstones wrap_table = 1"
proof -
  have X: "ht_insert ht_empty wrapX 0x20000000 1 0 0 =
      (True, \<lparr>slots = (\<lambda>_. no_entry)(131070 := man_entry wrapX), tombstones = 0\<rparr>)"
    by (simp add: ht_insert_def wrap_simps ht_empty_def no_entry_def man_entry_def)
  have B: "ht_insert \<lparr>slots = (\<lambda>_. no_entry)(131070 := man_entry wrapX), tombstones = 0\<rparr>
      wrapB 0x20000000 1 0 0 = (True, \<lparr>slots = (\<lambda>_. no_entry)(131070 := man_entry wrapX,
        131071 := man_entry wrapB), tombstones = 0\<rparr>)"
    by (simp add: ht_insert_def wrap_simps no_entry_def man_entry_def)
  have A: "ht_insert \<lparr>slots = (\<lambda>_. no_entry)(131070 := man_entry wrapX,
        131071 := man_entry wrapB), tombstones = 0\<rparr> wrapA 0x20000000 1 0 0 =
      (True, \<lparr>slots = (\<lambda>_. no_entry)(131070 := man_entry wrapX, 131071 := man_entry wrapB,
        0 := man_entry wrapA), tombstones = 0\<rparr>)"
    by (simp add: ht_insert_def wrap_simps no_entry_def man_entry_def)
  have R: "ht_remove \<lparr>slots = (\<lambda>_. no_entry)(131070 := man_entry wrapX,
        131071 := man_entry wrapB, 0 := man_entry wrapA), tombstones = 0\<rparr> wrapX =
      (Some (man_entry wrapX), \<lparr>slots = (\<lambda>_. no_entry)(131070 := ht_grave,
        131071 := man_entry wrapB, 0 := man_entry wrapA), tombstones = 1\<rparr>)"
    by (simp add: ht_remove_def wrap_simps no_entry_def man_entry_def ht_grave_def
        HT_TOMBSTONE_THRESHOLD_def fun_upd_twist)
  show "slots wrap_table = (\<lambda>_. no_entry)(131070 := ht_grave, 131071 := man_entry wrapB,
     0 := man_entry wrapA)" "tombstones wrap_table = 1"
    by (simp_all add: wrap_table_def X B A R)
qed

lemma wrap_table_reclaimed:
  "slots (ht_reclaim_tombstones wrap_table) =
    (\<lambda>_. no_entry)(131070 := man_entry wrapB, 131071 := (man_entry wrapB)\<lparr>e_ptr := 0\<rparr>,
      0 := man_entry wrapA)"
proof -
  let ?g = "ht_grave\<lparr>e_ptr := HT_EMPTY\<rparr>"
  let ?s = "(\<lambda>_. no_entry)(131070 := ?g, 131071 := man_entry wrapB, 0 := man_entry wrapA)"
  have clear: "fold reclaim_clear [0..<HT_SIZE] (slots wrap_table) = ?s"
    unfolding clear_pass wrap_table_slots
    by (rule ext) (simp add: HT_SIZE_val no_entry_def man_entry_def ht_grave_def ht_sentinels
        wrap_neq)
  have split: "[0..<HT_SIZE] = 0 # [1..<131071] @ [131071]"
  proof -
    have "[0..<HT_SIZE] = 0 # [1..<Suc 131071]"
      using upt_conv_Cons [of 0 HT_SIZE] by (simp add: HT_SIZE_val)
    also have "[1..<Suc 131071] = [1..<131071] @ [131071]" by (rule upt_Suc_append) simp
    finally show ?thesis .
  qed
  have first: "reclaim_reinsert 0 ?s = ?s"
    by (simp add: reclaim_reinsert_def wrap_simps man_entry_def)
  have mid: "fold reclaim_reinsert [1..<131071] ?s = ?s"
    by (rule fold_idle) (auto simp: reclaim_reinsert_def no_entry_def ht_grave_def ht_sentinels)
  have last: "reclaim_reinsert 131071 ?s = (\<lambda>_. no_entry)(131070 := man_entry wrapB,
      131071 := (man_entry wrapB)\<lparr>e_ptr := 0\<rparr>, 0 := man_entry wrapA)"
    by (simp add: reclaim_reinsert_def wrap_simps man_entry_def ht_grave_def
        fun_upd_twist)
  show ?thesis
    unfolding ht_reclaim_tombstones_def clear
    unfolding split
    by (simp only: fold.simps fold_append comp_apply id_apply first mid last) simp
qed

section \<open>Properties\<close>

text \<open>
  C13 (insertion refines a map update). On a well-formed table, inserting a new pointer
  either succeeds, keeps the table well-formed and adds exactly that pointer to what
  lookups return, or it fails, leaves the table unchanged and every one of the 131072
  slots holds an allocation.
\<close>

theorem ht_insert_refines:
  assumes "ht_wf t" and "ht_key p" and "ht_lookup t p = None"
  shows "(\<exists>t'. ht_insert t p sz m b v = (True, t') \<and> ht_wf t' \<and>
            (\<forall>q. ht_key q \<longrightarrow> ht_lookup t' q =
              (if q = p then Some \<lparr>e_ptr = p, e_size = sz, e_is_managed = m,
                 e_gb_buf_id = b, e_mapped_ptr = v\<rparr> else ht_lookup t q)))
       \<or> ht_insert t p sz m b v = (False, t) \<and> (\<forall>i<HT_SIZE. ht_live (slots t i))"
proof (cases "ht_insert t p sz m b v")
  case (Pair ok t')
  let ?e = "\<lparr>e_ptr = p, e_size = sz, e_is_managed = m, e_gb_buf_id = b, e_mapped_ptr = v\<rparr>"
  show ?thesis
  proof (cases ok)
    case True
    have "ht_wf t' \<and> ht_lookup t' q = (if q = p then Some ?e else ht_lookup t q)"
      if "ht_key q" for q
      using wt.find_insert [OF assms(1), of ?e t' q] assms(2,3) Pair True that
      by (simp add: ht_put_def)
    with assms(2) Pair True show ?thesis by auto
  next
    case False
    with Pair ht_insert_False [of t p sz m b v t'] show ?thesis by auto
  qed
qed

theorem ht_insert_refines_witness:
  "\<exists>t'. ht_insert ht_empty wrapX 5 1 0 0 = (True, t') \<and> ht_wf t'"
proof -
  have "ht_lookup ht_empty wrapX = None"
    by (simp add: ht_lookup_def wrap_simps ht_empty_def)
  moreover have "ht_key wrapX" by (simp add: ht_key_def ht_sentinels wrap_neq)
  moreover have "\<not> ht_live (slots ht_empty 0)"
    by (simp add: ht_live_def ht_empty_def ht_sentinels)
  ultimately show ?thesis
    using ht_insert_refines [OF ht_empty_wf, of wrapX 5 1 0 0] HT_SIZE_pos by blast
qed



text \<open>
  C30 (reclaiming never loses or duplicates an allocation in the array). Whatever the
  layout, the reclaim pass leaves each allocation in exactly one slot with its data
  unchanged, removes every tombstone and resets the counter to the true number of
  tombstones.
\<close>

theorem ht_reclaim_keeps_contents:
  assumes "ht_inv t"
  shows "ht_inv (ht_reclaim_tombstones t) \<and> ht_map (ht_reclaim_tombstones t) = ht_map t
    \<and> tombstones (ht_reclaim_tombstones t) = 0
    \<and> (\<forall>i<HT_SIZE. e_ptr (slots (ht_reclaim_tombstones t) i) \<noteq> HT_TOMBSTONE)"
  using reclaim_content [OF assms]
  by (auto simp: tomb_free_def ht_dead_set_def ht_reclaim_tombstones_def)

lemma wrap_table_wf: "ht_wf wrap_table"
proof -
  let ?s = "slots wrap_table"
  have ptr: "e_ptr (?s i) = (if i = 131070 then 1 else if i = 131071 then wrapB
      else if i = 0 then wrapA else 0)" for i
    by (simp add: wrap_table_slots no_entry_def man_entry_def ht_grave_def ht_sentinels)
  have live: "ht_live (?s i) \<longleftrightarrow> i = 131071 \<or> i = 0" for i
    by (simp add: ht_live_def ptr ht_sentinels wrap_neq)
  have "ht_distinct ?s"
    unfolding ht_distinct_def live ptr using wrap_neq by auto
  moreover have "ht_dead_set ?s = {131070}"
    unfolding ht_dead_set_def ptr using wrap_neq by (auto simp: ht_sentinels HT_SIZE_val)
  moreover have "ht_chained ?s"
    unfolding ht_chained_def live ptr
    by (auto simp: ht_dist_def wrap_homes HT_SIZE_val ht_sentinels wrap_neq)
  ultimately show ?thesis by (simp add: ht_wf_def ht_inv_def wrap_table_slots(2))
qed

theorem ht_reclaim_keeps_contents_witness:
  "ht_map (ht_reclaim_tombstones wrap_table) = ht_map wrap_table"
  using ht_reclaim_keeps_contents [of wrap_table] wrap_table_wf by (simp add: ht_wf_def)

text \<open>
  C29 (reclaiming keeps every lookup when nothing is wrapped). If no allocation sits below
  its home slot, the rebuilt table answers every lookup as before and is well-formed.
\<close>

theorem ht_reclaim_lookup:
  assumes "ht_wf t" and "ht_unwrapped (slots t)" and "ht_key p"
  shows "ht_wf (ht_reclaim_tombstones t)
    \<and> ht_lookup (ht_reclaim_tombstones t) p = ht_lookup t p"
proof -
  from assms(1) have inv: "ht_inv t" by (simp add: ht_wf_def)
  from reclaim_content [OF inv] reclaim_chained [OF inv assms(2)]
  have "ht_wf (ht_reclaim_tombstones t)" by (simp add: ht_wf_def)
  with assms reclaim_content(2) [OF inv] show ?thesis by (simp add: ht_lookup_map)
qed

theorem ht_reclaim_lookup_witness:
  "ht_lookup (ht_reclaim_tombstones ht_empty) wrapX = None"
proof -
  have "ht_unwrapped (slots ht_empty)"
    by (simp add: ht_unwrapped_def ht_live_def ht_empty_def ht_sentinels)
  moreover have "ht_key wrapX" by (simp add: ht_key_def ht_sentinels wrap_neq)
  moreover have "ht_lookup ht_empty wrapX = None"
    by (simp add: ht_lookup_def wrap_simps ht_empty_def)
  ultimately show ?thesis using ht_reclaim_lookup [OF ht_empty_wf] by simp
qed

text \<open>
  Reclaiming can lose a wrapped allocation: the table that results from three
  insertions and one removal is well-formed and finds \<open>wrapA\<close>, an allocation whose chain
  runs past the end of the array. After the reclaim pass the entry is still in slot 0, but
  the last slot is empty and a lookup of \<open>wrapA\<close> stops there.
\<close>

theorem ht_reclaim_loses_wrapped:
  "ht_wf wrap_table \<and> ht_lookup wrap_table wrapA = Some (man_entry wrapA)
    \<and> slots (ht_reclaim_tombstones wrap_table) 0 = man_entry wrapA
    \<and> ht_lookup (ht_reclaim_tombstones wrap_table) wrapA = None"
proof -
  have "ht_lookup wrap_table wrapA = Some (man_entry wrapA)"
    by (simp add: ht_lookup_def wrap_simps wrap_table_slots man_entry_def)
  moreover have "ht_lookup (ht_reclaim_tombstones wrap_table) wrapA = None"
    by (simp add: ht_lookup_def wrap_simps wrap_table_reclaimed)
  ultimately show ?thesis by (simp add: wrap_table_wf wrap_table_reclaimed)
qed

end
