(* ===== verification/Prefetch_Ring.thy ===== *)
theory Prefetch_Ring
  imports GB_Prelude
begin

text \<open>
  The asynchronous prefetch queues of the two shims (\<^verbatim>\<open>greenboost_cuda_shim.c\<close> and
  \<^verbatim>\<open>windows-port/shim/greenboost_cuda_shim_win.c\<close>): a ring of 256 requests between the
  hooked CUDA calls and one worker thread. Both sides hold the queue's mutex, so a producer
  call and one round of the worker are atomic steps here.
\<close>

section \<open>The interface: a bounded queue\<close>

locale bounded_fifo =
  fixes inv :: "'q \<Rightarrow> bool"
    and contents :: "'q \<Rightarrow> 'a list"
    and cap :: nat
    and put :: "'q \<Rightarrow> 'a \<Rightarrow> 'q"
    and get :: "'q \<Rightarrow> ('a \<times> 'q) option"
  assumes put_inv: "inv q \<Longrightarrow> inv (put q x)"
    and put_room: "inv q \<Longrightarrow> length (contents q) < cap \<Longrightarrow> contents (put q x) = contents q @ [x]"
    and put_full: "inv q \<Longrightarrow> \<not> length (contents q) < cap \<Longrightarrow> put q x = q"
    and get_empty: "inv q \<Longrightarrow> get q = None \<longleftrightarrow> contents q = []"
    and get_some: "inv q \<Longrightarrow> get q = Some (x, q') \<Longrightarrow> inv q' \<and> contents q = x # contents q'"
begin

text \<open>\<open>serve n\<close> is what a consumer takes out in at most \<open>n\<close> rounds.\<close>

primrec serve :: "nat \<Rightarrow> 'q \<Rightarrow> 'a list" where
  "serve 0 q = []"
| "serve (Suc n) q = (case get q of None \<Rightarrow> [] | Some (x, q') \<Rightarrow> x # serve n q')"

lemma serve_all: "inv q \<Longrightarrow> length (contents q) \<le> n \<Longrightarrow> serve n q = contents q"
proof (induction n arbitrary: q)
  case 0
  then show ?case by simp
next
  case (Suc n)
  show ?case
  proof (cases "get q")
    case None
    with Suc.prems get_empty [of q] show ?thesis by simp
  next
    case (Some r)
    then obtain x q' where r: "get q = Some (x, q')" by (cases r) simp
    from get_some [OF Suc.prems(1) r] Suc.prems(2) Suc.IH [of q'] r show ?thesis by simp
  qed
qed

lemma put_many:
  "inv q \<Longrightarrow> length (contents q) + length xs \<le> cap
    \<Longrightarrow> inv (foldl put q xs) \<and> contents (foldl put q xs) = contents q @ xs"
proof (induction xs arbitrary: q)
  case Nil
  then show ?case by simp
next
  case (Cons x xs)
  from Cons.prems have "contents (put q x) = contents q @ [x]" by (simp add: put_room)
  with Cons.prems Cons.IH [of "put q x"] show ?case by (simp add: put_inv)
qed

lemma fifo_order:
  assumes "inv q" and "contents q = []" and "length xs \<le> cap" and "length xs \<le> n"
  shows "serve n (foldl put q xs) = xs"
  using put_many [OF assms(1), of xs] serve_all [of "foldl put q xs" n] assms(2-4) by simp

lemma put_bounded:
  "inv q \<Longrightarrow> length (contents q) \<le> cap \<Longrightarrow> length (contents (put q x)) \<le> cap"
  by (cases "length (contents q) < cap") (simp_all add: put_room put_full)

end

section \<open>The ring\<close>

definition PREFETCH_QUEUE_SIZE :: nat where "PREFETCH_QUEUE_SIZE = 256"

record 'r prefetch_ring =
  prefetch_queue :: "nat \<Rightarrow> 'r"
  prefetch_head :: nat
  prefetch_tail :: nat

definition ring_inv :: "'r prefetch_ring \<Rightarrow> bool" where
  "ring_inv q \<longleftrightarrow> prefetch_head q < PREFETCH_QUEUE_SIZE \<and> prefetch_tail q < PREFETCH_QUEUE_SIZE"

definition ring_len :: "'r prefetch_ring \<Rightarrow> nat" where
  "ring_len q = (prefetch_head q + PREFETCH_QUEUE_SIZE - prefetch_tail q)
     mod PREFETCH_QUEUE_SIZE"

definition ring_list :: "'r prefetch_ring \<Rightarrow> 'r list" where
  "ring_list q = map (\<lambda>k. prefetch_queue q ((prefetch_tail q + k) mod PREFETCH_QUEUE_SIZE))
     [0..<ring_len q]"

text \<open>The two halves that both files share: the guarded store and the read.\<close>

definition ring_push :: "'r prefetch_ring \<Rightarrow> 'r \<Rightarrow> 'r prefetch_ring" where
  "ring_push q r =
     (let next_head = (prefetch_head q + 1) mod PREFETCH_QUEUE_SIZE in
      if next_head \<noteq> prefetch_tail q
      then q\<lparr>prefetch_queue := (prefetch_queue q)(prefetch_head q := r),
             prefetch_head := next_head\<rparr>
      else q)"

definition ring_pop :: "'r prefetch_ring \<Rightarrow> ('r \<times> 'r prefetch_ring) option" where
  "ring_pop q =
     (if prefetch_head q = prefetch_tail q then None
      else Some (prefetch_queue q (prefetch_tail q),
             q\<lparr>prefetch_tail := (prefetch_tail q + 1) mod PREFETCH_QUEUE_SIZE\<rparr>))"

lemma QS: "PREFETCH_QUEUE_SIZE = 256"
  by (simp add: PREFETCH_QUEUE_SIZE_def)

lemma next_slot: "h < 256 \<Longrightarrow> Suc h mod 256 = (if h = 255 then 0 else Suc h)"
  by (auto simp: mod_Suc)

lemma add_slot: "(t::nat) < 256 \<Longrightarrow> k \<le> 256 \<Longrightarrow> (t + k) mod 256 = (if t + k < 256 then t + k else t + k - 256)"
  by (auto simp: le_mod_geq)

lemma ring_len_cases:
  "ring_inv q \<Longrightarrow> ring_len q = (if prefetch_tail q \<le> prefetch_head q
     then prefetch_head q - prefetch_tail q
     else prefetch_head q + 256 - prefetch_tail q)"
  by (auto simp: ring_len_def ring_inv_def QS le_mod_geq)

lemma ring_len_bound: "ring_inv q \<Longrightarrow> ring_len q \<le> 255"
  by (auto simp: ring_len_cases ring_inv_def QS)

lemma length_ring_list [simp]: "length (ring_list q) = ring_len q"
  by (simp add: ring_list_def)

lemma ring_push_full:
  "ring_inv q \<Longrightarrow> (prefetch_head q + 1) mod PREFETCH_QUEUE_SIZE = prefetch_tail q
    \<longleftrightarrow> \<not> ring_len q < 255"
  by (auto simp: ring_len_cases ring_inv_def QS next_slot)

lemma ring_push_list:
  assumes "ring_inv q" and "ring_len q < 255"
  shows "ring_list (ring_push q r) = ring_list q @ [r]"
proof -
  let ?q' = "ring_push q r"
  have q': "?q' = q\<lparr>prefetch_queue := (prefetch_queue q)(prefetch_head q := r),
      prefetch_head := (prefetch_head q + 1) mod 256\<rparr>"
    using ring_push_full [OF assms(1)] assms(2) by (simp add: ring_push_def Let_def QS)
  have "ring_inv ?q'" using assms(1) by (simp add: q' ring_inv_def QS)
  then have len: "ring_len ?q' = Suc (ring_len q)"
    using assms by (auto simp: q' ring_len_cases ring_inv_def QS next_slot split: if_splits)
  have last: "(prefetch_tail q + ring_len q) mod 256 = prefetch_head q"
    using assms(1) by (auto simp: ring_len_cases ring_inv_def QS add_slot)
  have old: "(prefetch_tail q + k) mod 256 \<noteq> prefetch_head q" if "k < ring_len q" for k
    using that assms(1)
    by (auto simp: ring_len_cases ring_inv_def QS add_slot split: if_splits)
  have "prefetch_queue ?q' ((prefetch_tail ?q' + k) mod 256)
      = (if k = ring_len q then r else prefetch_queue q ((prefetch_tail q + k) mod 256))"
    if "k < Suc (ring_len q)" for k
    using that last old by (auto simp: q' less_Suc_eq)
  then have "ring_list ?q' = map (\<lambda>k. if k = ring_len q then r
      else prefetch_queue q ((prefetch_tail q + k) mod 256)) [0..<Suc (ring_len q)]"
    unfolding ring_list_def QS len by (intro map_cong) auto
  also have "\<dots> = ring_list q @ [r]"
    by (simp add: ring_list_def QS)
  finally show ?thesis .
qed

lemma ring_pop_list:
  assumes "ring_inv q" and "ring_pop q = Some (x, q')"
  shows "ring_inv q' \<and> ring_list q = x # ring_list q'"
proof -
  from assms(2) have ne: "prefetch_head q \<noteq> prefetch_tail q"
    and x: "x = prefetch_queue q (prefetch_tail q)"
    and q': "q' = q\<lparr>prefetch_tail := (prefetch_tail q + 1) mod 256\<rparr>"
    by (auto simp: ring_pop_def QS split: if_splits)
  have inv: "ring_inv q'" using assms(1) by (simp add: q' ring_inv_def QS)
  then have len: "ring_len q = Suc (ring_len q')"
    using assms(1) ne by (auto simp: q' ring_len_cases ring_inv_def QS next_slot split: if_splits)
  have "ring_list q = map (\<lambda>k. prefetch_queue q ((prefetch_tail q + k) mod 256))
      (0 # map Suc [0..<ring_len q'])"
    unfolding ring_list_def QS len by (simp only: map_Suc_upt upt_conv_Cons zero_less_Suc)
  also have "\<dots> = x # ring_list q'"
    using assms(1)
    by (auto simp: ring_list_def QS q' x ring_inv_def mod_simps o_def)
  finally show ?thesis using inv by simp
qed

interpretation ring: bounded_fifo ring_inv ring_list 255 ring_push ring_pop
proof unfold_locales
  fix q q' :: "'r prefetch_ring" and x :: 'r
  show "ring_inv q \<Longrightarrow> ring_inv (ring_push q x)"
    by (simp add: ring_push_def ring_inv_def Let_def QS)
  show "ring_inv q \<Longrightarrow> length (ring_list q) < 255 \<Longrightarrow>
      ring_list (ring_push q x) = ring_list q @ [x]"
    by (simp add: ring_push_list)
  show "ring_inv q \<Longrightarrow> \<not> length (ring_list q) < 255 \<Longrightarrow> ring_push q x = q"
    using ring_push_full [of q] by (simp add: ring_push_def Let_def QS)
  show "ring_inv q \<Longrightarrow> ring_pop q = None \<longleftrightarrow> ring_list q = []"
    by (auto simp: ring_pop_def ring_list_def ring_len_cases ring_inv_def QS)
  show "ring_inv q \<Longrightarrow> ring_pop q = Some (x, q') \<Longrightarrow> ring_inv q' \<and> ring_list q = x # ring_list q'"
    by (rule ring_pop_list)
qed

section \<open>The Linux queue\<close>

text \<open>
  \<^verbatim>\<open>enqueue_prefetch\<close> ignores a null pointer and drops the request when the ring is
  full. One round of \<^verbatim>\<open>prefetch_worker\<close> waits (\<open>None\<close>) or takes the oldest request and
  advises the kernel that its pages will be needed.
\<close>

record lx_prefetch_req =
  lreq_mapped_ptr :: u64
  lreq_size :: u64

datatype lx_prefetch_act = Madvise_WILLNEED u64 u64

definition lx_enqueue_prefetch ::
  "lx_prefetch_req prefetch_ring \<Rightarrow> u64 \<Rightarrow> u64 \<Rightarrow> lx_prefetch_req prefetch_ring" where
  "lx_enqueue_prefetch q mapped_ptr sz =
     (if mapped_ptr = 0 then q
      else ring_push q \<lparr>lreq_mapped_ptr = mapped_ptr, lreq_size = sz\<rparr>)"

definition lx_prefetch_worker_round ::
  "lx_prefetch_req prefetch_ring \<Rightarrow> (lx_prefetch_act \<times> lx_prefetch_req prefetch_ring) option" where
  "lx_prefetch_worker_round q =
     (case ring_pop q of
        None \<Rightarrow> None
      | Some (req, q') \<Rightarrow> Some (Madvise_WILLNEED (lreq_mapped_ptr req) (lreq_size req), q'))"

section \<open>The Windows queue\<close>

text \<open>
  Requests also say whether the memory is managed and which way it should move. The worker
  runs while \<^verbatim>\<open>prefetch_running\<close> is set; a managed request goes to the CUDA driver with
  the GPU or the CPU (device -1) as its target, any other to \<^verbatim>\<open>PrefetchVirtualMemory\<close>
  when the system has it.
\<close>

record win_prefetch_req =
  wreq_ptr :: u64
  wreq_size :: u64
  wreq_is_managed :: bool
  wreq_to_device :: bool

datatype win_prefetch_act =
    CuMemPrefetchAsync u64 u64 int
  | PrefetchVirtualMemory u64 u64
  | NoPrefetch

record win_prefetch_env =
  prefetch_running :: bool
  has_cuMemPrefetchAsync :: bool
  has_PrefetchVirtualMemory :: bool
  GpuDevice :: int

definition win_enqueue_prefetch ::
  "win_prefetch_env \<Rightarrow> win_prefetch_req prefetch_ring \<Rightarrow> u64 \<Rightarrow> u64 \<Rightarrow> bool \<Rightarrow> bool
    \<Rightarrow> win_prefetch_req prefetch_ring" where
  "win_enqueue_prefetch env q ptr sz is_managed to_device =
     (if ptr = 0 \<or> \<not> prefetch_running env then q
      else ring_push q \<lparr>wreq_ptr = ptr, wreq_size = sz, wreq_is_managed = is_managed,
                       wreq_to_device = to_device\<rparr>)"

definition win_prefetch_dispatch :: "win_prefetch_env \<Rightarrow> win_prefetch_req \<Rightarrow> win_prefetch_act" where
  "win_prefetch_dispatch env req =
     (if wreq_is_managed req \<and> has_cuMemPrefetchAsync env then
        CuMemPrefetchAsync (wreq_ptr req) (wreq_size req)
          (if wreq_to_device req then GpuDevice env else - 1)
      else if has_PrefetchVirtualMemory env \<and> wreq_ptr req \<noteq> 0 \<and> 0 < wreq_size req then
        PrefetchVirtualMemory (wreq_ptr req) (wreq_size req)
      else NoPrefetch)"

datatype 'r worker_round = Stopped | Waiting | Served win_prefetch_act "'r prefetch_ring"

definition win_prefetch_worker_round ::
  "win_prefetch_env \<Rightarrow> win_prefetch_req prefetch_ring \<Rightarrow> win_prefetch_req worker_round" where
  "win_prefetch_worker_round env q =
     (if \<not> prefetch_running env then Stopped
      else case ring_pop q of
        None \<Rightarrow> Waiting
      | Some (req, q') \<Rightarrow> Served (win_prefetch_dispatch env req) q')"

text \<open>The worker over \<open>n\<close> rounds without a producer: what it asks the system to do.\<close>

primrec win_prefetch_worker ::
  "win_prefetch_env \<Rightarrow> nat \<Rightarrow> win_prefetch_req prefetch_ring \<Rightarrow> win_prefetch_act list" where
  "win_prefetch_worker env 0 q = []"
| "win_prefetch_worker env (Suc n) q =
     (case win_prefetch_worker_round env q of
        Served a q' \<Rightarrow> a # win_prefetch_worker env n q' | _ \<Rightarrow> [])"

primrec lx_prefetch_worker ::
  "nat \<Rightarrow> lx_prefetch_req prefetch_ring \<Rightarrow> lx_prefetch_act list" where
  "lx_prefetch_worker 0 q = []"
| "lx_prefetch_worker (Suc n) q =
     (case lx_prefetch_worker_round q of
        Some (a, q') \<Rightarrow> a # lx_prefetch_worker n q' | None \<Rightarrow> [])"

section \<open>Properties\<close>

lemma lx_worker_serves:
  "lx_prefetch_worker n q =
    map (\<lambda>r. Madvise_WILLNEED (lreq_mapped_ptr r) (lreq_size r)) (ring.serve n q)"
  by (induction n arbitrary: q) (auto simp: lx_prefetch_worker_round_def split: option.splits)

lemma win_worker_serves:
  "prefetch_running env \<Longrightarrow>
    win_prefetch_worker env n q = map (win_prefetch_dispatch env) (ring.serve n q)"
  by (induction n arbitrary: q) (auto simp: win_prefetch_worker_round_def split: option.splits)

definition ring_start :: "'r \<Rightarrow> 'r prefetch_ring" where
  "ring_start r = \<lparr>prefetch_queue = (\<lambda>_. r), prefetch_head = 0, prefetch_tail = 0\<rparr>"

lemma ring_start_props [simp]: "ring_inv (ring_start r)" "ring_list (ring_start r) = []"
  by (simp_all add: ring_start_def ring_inv_def ring_list_def ring_len_def QS)

text \<open>
  C39 (the ring is a bounded queue of 255 requests). On a ring with in-range indices a
  request with a non-null pointer is appended behind the pending ones when fewer than 255
  are pending and is dropped without any other effect when 255 are; the worker waits
  exactly when nothing is pending, and otherwise serves the oldest request and keeps the
  rest in order.
\<close>

theorem win_prefetch_queue_fifo:
  assumes "ring_inv q" and "prefetch_running env"
  shows "ring_inv (win_enqueue_prefetch env q ptr sz m d)
    \<and> ring_list (win_enqueue_prefetch env q ptr sz m d) =
          (if ptr \<noteq> 0 \<and> length (ring_list q) < 255
           then ring_list q @ [\<lparr>wreq_ptr = ptr, wreq_size = sz, wreq_is_managed = m,
                                wreq_to_device = d\<rparr>]
           else ring_list q)
    \<and> (win_prefetch_worker_round env q = Waiting \<longleftrightarrow> ring_list q = [])
    \<and> (\<forall>a q'. win_prefetch_worker_round env q = Served a q' \<longrightarrow>
          (\<exists>r. a = win_prefetch_dispatch env r \<and> ring_list q = r # ring_list q' \<and> ring_inv q'))"
proof (intro conjI allI impI)
  show "ring_inv (win_enqueue_prefetch env q ptr sz m d)"
    using assms by (simp add: win_enqueue_prefetch_def ring.put_inv)
  show "ring_list (win_enqueue_prefetch env q ptr sz m d) =
          (if ptr \<noteq> 0 \<and> length (ring_list q) < 255
           then ring_list q @ [\<lparr>wreq_ptr = ptr, wreq_size = sz, wreq_is_managed = m,
                                wreq_to_device = d\<rparr>]
           else ring_list q)"
    using assms ring.put_room [OF assms(1)] ring.put_full [OF assms(1)]
    by (simp add: win_enqueue_prefetch_def)
  show "win_prefetch_worker_round env q = Waiting \<longleftrightarrow> ring_list q = []"
    using assms ring.get_empty [OF assms(1)]
    by (auto simp: win_prefetch_worker_round_def split: option.splits)
  show "\<exists>r. a = win_prefetch_dispatch env r \<and> ring_list q = r # ring_list q' \<and> ring_inv q'"
    if "win_prefetch_worker_round env q = Served a q'" for a q'
    using that assms ring.get_some [OF assms(1)]
    by (auto simp: win_prefetch_worker_round_def split: option.splits)
qed

theorem win_prefetch_queue_fifo_witness:
  "ring_list (win_enqueue_prefetch
      \<lparr>prefetch_running = True, has_cuMemPrefetchAsync = True,
       has_PrefetchVirtualMemory = True, GpuDevice = 0\<rparr> (ring_start \<lparr>wreq_ptr = 0, wreq_size = 0,
         wreq_is_managed = False, wreq_to_device = False\<rparr>) 4096 64 True True)
    = [\<lparr>wreq_ptr = 4096, wreq_size = 64, wreq_is_managed = True, wreq_to_device = True\<rparr>]"
  using win_prefetch_queue_fifo [OF ring_start_props(1), where ptr = 4096] by simp

text \<open>
  C40: Without a producer the Linux worker drains its queue: within as many rounds as there
  are requests pending, at most 255, it has advised the kernel of each of them exactly once
  and in the order in which they were queued, and then it waits.
\<close>

theorem lx_prefetch_drains:
  assumes "ring_inv q" and "length (ring_list q) \<le> n"
  shows "length (ring_list q) \<le> 255
    \<and> lx_prefetch_worker n q
        = map (\<lambda>r. Madvise_WILLNEED (lreq_mapped_ptr r) (lreq_size r)) (ring_list q)"
  using ring.serve_all [OF assms] ring_len_bound [OF assms(1)] by (simp add: lx_worker_serves)

lemma lx_prefetch_drains_witness:
  "lx_prefetch_worker 5 (lx_enqueue_prefetch
      (ring_start \<lparr>lreq_mapped_ptr = 0, lreq_size = 0\<rparr>) 4096 64) = [Madvise_WILLNEED 4096 64]"
proof -
  let ?q = "ring_push (ring_start \<lparr>lreq_mapped_ptr = 0, lreq_size = 0\<rparr>)
      \<lparr>lreq_mapped_ptr = 4096, lreq_size = 64\<rparr>"
  have q: "ring_inv ?q" "ring_list ?q = [\<lparr>lreq_mapped_ptr = 4096, lreq_size = 64\<rparr>]"
    using ring.put_inv [OF ring_start_props(1)] ring.put_room [OF ring_start_props(1)] by simp_all
  with lx_prefetch_drains [OF q(1), of 5] show ?thesis by (simp add: lx_enqueue_prefetch_def)
qed

text \<open>
  Prefetch requests are served once each and in order: up to 255 requests with non-null
  pointers that are queued on an idle Linux ring are handed to \<^verbatim>\<open>madvise\<close> by the
  worker in exactly the order of the calls, none dropped or repeated.
\<close>

theorem lx_prefetch_in_order:
  assumes "ring_inv q" and "ring_list q = []" and "length reqs \<le> 255"
    and "length reqs \<le> n" and "\<forall>r\<in>set reqs. fst r \<noteq> 0"
  shows "lx_prefetch_worker n (foldl (\<lambda>q (p, sz). lx_enqueue_prefetch q p sz) q reqs) =
    map (\<lambda>(p, sz). Madvise_WILLNEED p sz) reqs"
proof -
  have "foldl (\<lambda>q (p, sz). lx_enqueue_prefetch q p sz) q reqs =
      foldl ring_push q (map (\<lambda>(p, sz). \<lparr>lreq_mapped_ptr = p, lreq_size = sz\<rparr>) reqs)"
    using assms(5)
    by (induction reqs arbitrary: q) (auto simp: lx_enqueue_prefetch_def)
  then show ?thesis
    using ring.fifo_order [OF assms(1,2), of _ n] assms(3,4)
    by (simp add: lx_worker_serves comp_def case_prod_unfold)
qed

theorem lx_prefetch_in_order_witness:
  "lx_prefetch_worker 2 (foldl (\<lambda>q (p, sz). lx_enqueue_prefetch q p sz)
      (ring_start \<lparr>lreq_mapped_ptr = 0, lreq_size = 0\<rparr>) [(4096, 1), (8192, 2)])
    = [Madvise_WILLNEED 4096 1, Madvise_WILLNEED 8192 2]"
  using lx_prefetch_in_order [OF ring_start_props, of "[(4096, 1), (8192, 2)]" 2] by simp

end
