(* ===== verification/Win_Shim.thy ===== *)
theory Win_Shim
  imports Win_Hash_Table Prefetch_Ring
begin

text \<open>
  The Windows CUDA shim, \<^verbatim>\<open>windows-port/shim/greenboost_cuda_shim_win.c\<close>: the hooked
  allocation, free and capacity calls over the allocation table, the configuration that
  decides their policy, and the redirection of entry points.

  The NVIDIA driver and the GreenBoost kernel driver are reached through calls of which
  only the interface is in the repository. They are a record of functions over an opaque
  state \<open>'c\<close>; a function that the shim may fail to resolve is an \<open>option\<close>, and a
  call that the code makes without testing the pointer goes through \<open>the\<close>, which is
  unspecified where the code would jump through a null pointer. Results are
  CUDA status codes; an out parameter is the second component of the result.
\<close>

section \<open>CUDA status codes and the driver interface\<close>

definition CUDA_SUCCESS :: int where "CUDA_SUCCESS = 0"
definition CUDA_ERROR_NOT_SUPPORTED :: int where "CUDA_ERROR_NOT_SUPPORTED = 801"
definition CUDA_ERROR_OUT_OF_MEMORY :: int where "CUDA_ERROR_OUT_OF_MEMORY = 2"

lemmas cuda_codes = CUDA_SUCCESS_def CUDA_ERROR_NOT_SUPPORTED_def CUDA_ERROR_OUT_OF_MEMORY_def

record alloc_resp =
  resp_size :: u64
  resp_user_va :: u64
  resp_buf_id :: int

record 'c cuda_api =
  real_cuMemAlloc_v2 :: "'c \<Rightarrow> bool \<Rightarrow> u64 \<Rightarrow> int \<times> u64 \<times> 'c"
    \<comment> \<open>the \<open>bool\<close> says whether the result pointer is non-null\<close>
  real_cuMemFree_v2 :: "'c \<Rightarrow> u64 \<Rightarrow> int \<times> 'c"
  real_cuMemAllocManaged_drv :: "('c \<Rightarrow> u64 \<Rightarrow> int \<times> u64 \<times> 'c) option"
  real_cuMemPrefetchAsync :: "('c \<Rightarrow> u64 \<Rightarrow> u64 \<Rightarrow> int \<Rightarrow> int \<times> 'c) option"
  real_cuCtxGetDevice :: "('c \<Rightarrow> int \<times> int) option"
  real_cuDeviceGetAttribute :: "('c \<Rightarrow> int \<Rightarrow> int \<Rightarrow> int \<times> int) option"
  real_cuMemGetInfo :: "'c \<Rightarrow> int \<times> u64 \<times> u64"
  real_cuDeviceTotalMem_v2 :: "'c \<Rightarrow> int \<Rightarrow> int \<times> u64"
  real_cuMemHostRegister :: "('c \<Rightarrow> u64 \<Rightarrow> u64 \<Rightarrow> int \<times> 'c) option"
  real_cuMemHostUnregister :: "('c \<Rightarrow> u64 \<Rightarrow> int \<times> 'c) option"
  real_cuMemHostGetDevicePointer :: "'c \<Rightarrow> u64 \<Rightarrow> int \<times> u64 \<times> 'c"
  open_greenboost :: "'c \<Rightarrow> bool"
    \<comment> \<open>\<^verbatim>\<open>CreateFileW\<close> of the device\<close>
  ioctl_alloc :: "'c \<Rightarrow> u64 \<Rightarrow> alloc_resp option \<times> 'c"
    \<comment> \<open>\<^verbatim>\<open>DeviceIoControl(GB_IOCTL_ALLOC)\<close>\<close>
  ioctl_free :: "'c \<Rightarrow> int \<Rightarrow> 'c"

record shim_config =
  Initialized :: bool
  ThresholdMb :: u32
  ThresholdBytes :: u64
  DebugMode :: bool
  gb_extra_bytes :: u64
  gb_reserve_bytes :: u64
  gb_managed_first :: bool
  gb_legacy_driver :: bool

record 'c shim =
  config :: shim_config
  htable :: ht_table
  UvmAllocatedBytes :: u64      \<comment> \<open>\<^verbatim>\<open>LONG64\<close>, updated with interlocked additions\<close>
  DeviceHandle :: bool          \<comment> \<open>whether the device is open\<close>
  prefetch_env :: win_prefetch_env
  prefetch_q :: "win_prefetch_req prefetch_ring"
  drv :: 'c

section \<open>Managed memory\<close>

definition gb_extra_for_device :: "'c cuda_api \<Rightarrow> 'c shim \<Rightarrow> int \<Rightarrow> u64" where
  "gb_extra_for_device api s device =
     (case (real_cuMemAllocManaged_drv api, real_cuDeviceGetAttribute api) of
        (Some _, Some attr) \<Rightarrow>
          (let (r, managed) = attr (drv s) 83 device in
           if r \<noteq> CUDA_SUCCESS \<or> managed = 0 then 0 else gb_extra_bytes (config s))
      | _ \<Rightarrow> 0)"

text \<open>
  \<^verbatim>\<open>gb_alloc_uvm\<close>. The device is 0 when the context query is missing or fails, and the
  concurrency attribute stays 0 when its query does.
\<close>

definition uvm_device :: "'c cuda_api \<Rightarrow> 'c shim \<Rightarrow> int" where
  "uvm_device api s = (case real_cuCtxGetDevice api of
     None \<Rightarrow> 0 | Some f \<Rightarrow> (let (r, d) = f (drv s) in if r = CUDA_SUCCESS then d else 0))"

definition uvm_prefetch :: "'c cuda_api \<Rightarrow> int \<Rightarrow> 'c \<Rightarrow> u64 \<Rightarrow> u64 \<Rightarrow> 'c" where
  "uvm_prefetch api device c dptr sz =
     (let concurrent = (case real_cuDeviceGetAttribute api of
        None \<Rightarrow> 0 | Some f \<Rightarrow> (let (r, v) = f c 89 device in if r = CUDA_SUCCESS then v else 0))
      in case real_cuMemPrefetchAsync api of
           None \<Rightarrow> c
         | Some pf \<Rightarrow> (if concurrent \<noteq> 0 then snd (pf c dptr sz device) else c))"

definition gb_alloc_uvm :: "'c cuda_api \<Rightarrow> 'c shim \<Rightarrow> u64 \<Rightarrow> int \<times> u64 option \<times> 'c shim" where
  "gb_alloc_uvm api s sz =
       (let device = uvm_device api s;
            (ret, dptr, c1) = the (real_cuMemAllocManaged_drv api) (drv s) sz in
         if ret \<noteq> CUDA_SUCCESS then (ret, None, s\<lparr>drv := c1\<rparr>)
         else
           let c2 = uvm_prefetch api device c1 dptr sz in
           case ht_insert (htable s) dptr sz 1 0 0 of
             (False, t) \<Rightarrow> (CUDA_ERROR_OUT_OF_MEMORY, None,
                s\<lparr>htable := t, drv := snd (real_cuMemFree_v2 api c2 dptr)\<rparr>)
           | (True, t) \<Rightarrow> (CUDA_SUCCESS, Some dptr,
                s\<lparr>htable := t, drv := c2,
                  UvmAllocatedBytes := UvmAllocatedBytes s + sz\<rparr>))"

section \<open>The kernel driver path\<close>

definition gb_open_device :: "'c cuda_api \<Rightarrow> 'c shim \<Rightarrow> 'c shim" where
  "gb_open_device api s =
     (if DeviceHandle s then s else s\<lparr>DeviceHandle := open_greenboost api (drv s)\<rparr>)"

definition gb_close_device :: "'c shim \<Rightarrow> 'c shim" where
  "gb_close_device s = s\<lparr>DeviceHandle := False\<rparr>"

definition gb_free_driver_buf :: "'c cuda_api \<Rightarrow> 'c shim \<Rightarrow> int \<Rightarrow> 'c shim" where
  "gb_free_driver_buf api s buf_id =
     (if buf_id \<le> 0 then s
      else if \<not> DeviceHandle s then s
      else s\<lparr>drv := ioctl_free api (drv s) buf_id\<rparr>)"

text \<open>The registration of the mapped buffer with CUDA, and the undoing of a failed one.\<close>

definition register_driver_buf ::
  "'c cuda_api \<Rightarrow> 'c shim \<Rightarrow> alloc_resp \<Rightarrow> ('c \<Rightarrow> u64 \<Rightarrow> u64 \<Rightarrow> int \<times> 'c)
    \<Rightarrow> int \<times> u64 option \<times> 'c shim" where
  "register_driver_buf api s1 resp register =
     (let mappedPtr = resp_user_va resp; (ret, c2) = register (drv s1) mappedPtr (resp_size resp);
          s2 = s1\<lparr>drv := c2\<rparr>
      in if ret \<noteq> CUDA_SUCCESS then (ret, None, gb_free_driver_buf api s2 (resp_buf_id resp))
      else
        let (ret3, dptr, c3) = real_cuMemHostGetDevicePointer api c2 mappedPtr;
            s3 = s2\<lparr>drv := c3\<rparr>
        in if ret3 \<noteq> CUDA_SUCCESS then
          let s4 = s3\<lparr>drv := snd (the (real_cuMemHostUnregister api) c3 mappedPtr)\<rparr>
          in (ret3, None, gb_free_driver_buf api s4 (resp_buf_id resp))
        else
          let t = snd (ht_insert (htable s3) dptr (resp_size resp) 0 (resp_buf_id resp)
                    mappedPtr)
          in (CUDA_SUCCESS, Some dptr,
              s3\<lparr>htable := t, prefetch_q := win_enqueue_prefetch (prefetch_env s3)
                  (prefetch_q s3) mappedPtr (resp_size resp) False True\<rparr>))"

definition gb_alloc_from_driver ::
  "'c cuda_api \<Rightarrow> 'c shim \<Rightarrow> u64 \<Rightarrow> int \<times> u64 option \<times> 'c shim" where
  "gb_alloc_from_driver api s0 sz =
     (let s = gb_open_device api s0; (ro, c) = ioctl_alloc api (drv s) sz; s1 = s\<lparr>drv := c\<rparr> in
      if \<not> DeviceHandle s then (CUDA_ERROR_NOT_SUPPORTED, None, s)
      else case ro of
        None \<Rightarrow> (CUDA_ERROR_NOT_SUPPORTED, None, s1)
      | Some resp \<Rightarrow>
        (if resp_user_va resp = 0 then
           (CUDA_ERROR_NOT_SUPPORTED, None, gb_free_driver_buf api s1 (resp_buf_id resp))
         else case real_cuMemHostRegister api of
           None \<Rightarrow>
             (CUDA_ERROR_NOT_SUPPORTED, None, gb_free_driver_buf api s1 (resp_buf_id resp))
         | Some register \<Rightarrow> register_driver_buf api s1 resp register))"

section \<open>Freeing\<close>

text \<open>\<open>None\<close> when the pointer is not in the table, so not an allocation of the shim.\<close>

definition gb_free_buffer :: "'c cuda_api \<Rightarrow> 'c shim \<Rightarrow> u64 \<Rightarrow> int option \<times> 'c shim" where
  "gb_free_buffer api s p =
     (case ht_remove (htable s) p of
        (None, t) \<Rightarrow> (None, s\<lparr>htable := t\<rparr>)
      | (Some e, t) \<Rightarrow>
        (let s1 = s\<lparr>htable := t\<rparr>;
             put_back = (\<lambda>s. s\<lparr>htable := snd (ht_insert (htable s) p (e_size e)
                (e_is_managed e) (e_gb_buf_id e) (e_mapped_ptr e))\<rparr>) in
         if e_is_managed e \<noteq> 0 then
           (case real_cuMemFree_v2 api (drv s1) p of (r, c) \<Rightarrow>
             let s2 = s1\<lparr>drv := c\<rparr> in
             if r \<noteq> CUDA_SUCCESS then (Some r, put_back s2)
             else (Some r, s2\<lparr>UvmAllocatedBytes := UvmAllocatedBytes s2 - e_size e\<rparr>))
         else
           case (if e_mapped_ptr e \<noteq> 0 then real_cuMemHostUnregister api else None) of
             None \<Rightarrow> (Some CUDA_SUCCESS, gb_free_driver_buf api s1 (e_gb_buf_id e))
           | Some unreg \<Rightarrow>
             (case unreg (drv s1) (e_mapped_ptr e) of (r, c) \<Rightarrow>
               let s2 = s1\<lparr>drv := c\<rparr> in
               if r \<noteq> CUDA_SUCCESS then (Some r, put_back s2)
               else (Some r, gb_free_driver_buf api s2 (e_gb_buf_id e)))))"

section \<open>The hooks\<close>

definition native_alloc ::
  "'c cuda_api \<Rightarrow> 'c shim \<Rightarrow> bool \<Rightarrow> u64 \<Rightarrow> int \<times> u64 option \<times> 'c shim" where
  "native_alloc api s dptr_ok sz =
     (case real_cuMemAlloc_v2 api (drv s) dptr_ok sz of (r, p, c) \<Rightarrow>
        (r, if r = CUDA_SUCCESS then Some p else None, s\<lparr>drv := c\<rparr>))"

text \<open>The part of \<^verbatim>\<open>hooked_cuMemAlloc_v2\<close> after the native attempt of the adaptive policy.\<close>

definition overflow_alloc ::
  "'c cuda_api \<Rightarrow> 'c shim \<Rightarrow> bool \<Rightarrow> u64 \<Rightarrow> int \<times> u64 option \<times> 'c shim" where
  "overflow_alloc api s dptr_ok sz =
     (let device = (case real_cuCtxGetDevice api of
          None \<Rightarrow> None
        | Some f \<Rightarrow> (let (r, d) = f (drv s) in if r = CUDA_SUCCESS then Some d else None)) in
      if (case device of None \<Rightarrow> True | Some d \<Rightarrow> gb_extra_for_device api s d = 0)
      then native_alloc api s dptr_ok sz
      else case gb_alloc_uvm api s sz of
        (ret, Some p, s1) \<Rightarrow> (ret, Some p, s1)
      | (ret, None, s1) \<Rightarrow>
        (if ret \<noteq> CUDA_ERROR_OUT_OF_MEMORY \<and> ret \<noteq> CUDA_ERROR_NOT_SUPPORTED
         then (ret, None, s1)
         else
           case (if gb_legacy_driver (config s1) then gb_alloc_from_driver api s1 sz
                 else (ret, None, s1)) of
             (ret2, Some p, s2) \<Rightarrow> (ret2, Some p, s2)
           | (ret2, None, s2) \<Rightarrow>
             (if gb_managed_first (config s2) then native_alloc api s2 dptr_ok sz
              else (ret2, None, s2))))"

definition hooked_cuMemAlloc_v2 ::
  "'c cuda_api \<Rightarrow> 'c shim \<Rightarrow> bool \<Rightarrow> u64 \<Rightarrow> int \<times> u64 option \<times> 'c shim" where
  "hooked_cuMemAlloc_v2 api s dptr_ok bytesize =
     (if \<not> Initialized (config s) \<or> \<not> dptr_ok \<or> gb_extra_bytes (config s) = 0
         \<or> bytesize < ThresholdBytes (config s)
      then native_alloc api s dptr_ok bytesize
      else if \<not> gb_managed_first (config s) then
        (case native_alloc api s dptr_ok bytesize of (ret, p, s1) \<Rightarrow>
           if ret \<noteq> CUDA_ERROR_OUT_OF_MEMORY then (ret, p, s1)
           else overflow_alloc api s1 dptr_ok bytesize)
      else overflow_alloc api s dptr_ok bytesize)"

definition hooked_cuMemFree_v2 :: "'c cuda_api \<Rightarrow> 'c shim \<Rightarrow> u64 \<Rightarrow> int \<times> 'c shim" where
  "hooked_cuMemFree_v2 api s dptr =
     (case (if dptr \<noteq> 0 then gb_free_buffer api s dptr else (None, s)) of
        (Some result, s1) \<Rightarrow> (result, s1)
      | (None, s1) \<Rightarrow>
        (case real_cuMemFree_v2 api (drv s1) dptr of (r, c) \<Rightarrow> (r, s1\<lparr>drv := c\<rparr>)))"

definition hooked_cuDeviceTotalMem_v2 :: "'c cuda_api \<Rightarrow> 'c shim \<Rightarrow> int \<Rightarrow> int \<times> u64" where
  "hooked_cuDeviceTotalMem_v2 api s dev =
     (case real_cuDeviceTotalMem_v2 api (drv s) dev of (ret, bytes) \<Rightarrow>
        (ret, if ret = CUDA_SUCCESS \<and> Initialized (config s)
              then bytes + gb_extra_for_device api s dev else bytes))"

text \<open>
  \<^verbatim>\<open>hooked_cuMemGetInfo\<close>; \<open>avail_phys\<close> is what \<^verbatim>\<open>GlobalMemoryStatusEx\<close> reports, \<open>None\<close>
  when it fails.
\<close>

definition hooked_cuMemGetInfo ::
  "'c cuda_api \<Rightarrow> 'c shim \<Rightarrow> u64 option \<Rightarrow> int \<times> u64 \<times> u64" where
  "hooked_cuMemGetInfo api s avail_phys =
     (let (ret, real_free, real_total) = real_cuMemGetInfo api (drv s);
          device = (if ret = CUDA_SUCCESS \<and> Initialized (config s)
            then (case real_cuCtxGetDevice api of
                None \<Rightarrow> None
              | Some f \<Rightarrow> (let (r, d) = f (drv s) in if r = CUDA_SUCCESS then Some d else None))
            else None)
      in case device of
           None \<Rightarrow> (ret, real_free, real_total)
         | Some d \<Rightarrow>
           (let extra = gb_extra_for_device api s d;
                used = UvmAllocatedBytes s;
                available = (if used < extra then extra - used else 0);
                available' = (case avail_phys of
                    None \<Rightarrow> 0
                  | Some phys \<Rightarrow>
                    (let headroom = (if gb_reserve_bytes (config s) < phys
                         then phys - gb_reserve_bytes (config s) else 0)
                     in if headroom < available then headroom else available));
                total' = real_total + extra;
                free' = real_free + available'
            in (ret, if total' < free' then total' else free', total')))"

end
