(* ===== verification/Win_Shim_Accounting.thy ===== *)
theory Win_Shim_Accounting
  imports Win_Shim
begin

text \<open>
  The accounting of the Windows shim: for any sequence of hooked allocations and frees the
  counter \<^verbatim>\<open>UvmAllocatedBytes\<close> is the number of bytes of managed memory that the allocation
  table records, modulo the width of the counter.
\<close>

section \<open>The accounting invariant\<close>

text \<open>
  What the shim relies on from the CUDA driver: \<open>live\<close> is the set of device pointers the
  driver has handed out and not taken back. Allocations return pointers that are not live
  (and never the two sentinel values), a call that fails changes nothing, freeing a pointer
  ends its life, and the device pointer of registered host memory is a function of the host
  address that is not live before the registration. A driver that exports the registration exports
  its inverse. Prefetches and the calls to the GreenBoost device do not create or destroy
  device pointers.
\<close>

definition fresh_ptr :: "('c \<Rightarrow> u64 set) \<Rightarrow> 'c \<Rightarrow> int \<Rightarrow> u64 \<Rightarrow> 'c \<Rightarrow> bool" where
  "fresh_ptr live c r p c' \<longleftrightarrow>
     (if r = CUDA_SUCCESS then ht_key p \<and> p \<notin> live c \<and> live c' = insert p (live c)
      else live c' = live c)"

definition cuda_contract :: "'c cuda_api \<Rightarrow> ('c \<Rightarrow> u64 set) \<Rightarrow> (u64 \<Rightarrow> u64) \<Rightarrow> bool" where
  "cuda_contract api live devptr \<longleftrightarrow>
     (\<forall>c ok sz r p c'. real_cuMemAlloc_v2 api c ok sz = (r, p, c') \<longrightarrow> fresh_ptr live c r p c') \<and>
     (\<forall>f c sz r p c'. real_cuMemAllocManaged_drv api = Some f \<longrightarrow> f c sz = (r, p, c') \<longrightarrow>
        fresh_ptr live c r p c') \<and>
     (\<forall>c v r p c'. real_cuMemHostGetDevicePointer api c v = (r, p, c') \<longrightarrow>
        fresh_ptr live c r p c' \<and> (r = CUDA_SUCCESS \<longrightarrow> p = devptr v)) \<and>
     (\<forall>c p r c'. real_cuMemFree_v2 api c p = (r, c') \<longrightarrow>
        live c' = (if r = CUDA_SUCCESS then live c - {p} else live c)) \<and>
     (\<forall>f c v r c'. real_cuMemHostUnregister api = Some f \<longrightarrow> f c v = (r, c') \<longrightarrow>
        live c' = (if r = CUDA_SUCCESS then live c - {devptr v} else live c)) \<and>
     (real_cuMemHostRegister api \<noteq> None \<longrightarrow> real_cuMemHostUnregister api \<noteq> None) \<and>
     (\<forall>f c v sz r c'. real_cuMemHostRegister api = Some f \<longrightarrow> f c v sz = (r, c') \<longrightarrow>
        live c' = live c \<and> (r = CUDA_SUCCESS \<longrightarrow> devptr v \<notin> live c)) \<and>
     (\<forall>f c p sz d. real_cuMemPrefetchAsync api = Some f \<longrightarrow> live (snd (f c p sz d)) = live c) \<and>
     (\<forall>c sz. live (snd (ioctl_alloc api c sz)) = live c) \<and>
     (\<forall>c b. live (ioctl_free api c b) = live c)"

definition managed_bytes :: "ht_entry \<Rightarrow> nat" where
  "managed_bytes e = (if e_is_managed e \<noteq> 0 then unat (e_size e) else 0)"

definition managed_total :: "ht_table \<Rightarrow> nat" where
  "managed_total t = (\<Sum>p\<in>dom (ht_map t). managed_bytes (the (ht_map t p)))"

definition shim_inv ::
  "('c \<Rightarrow> u64 set) \<Rightarrow> (u64 \<Rightarrow> u64) \<Rightarrow> int \<Rightarrow> 'c shim \<Rightarrow> bool" where
  "shim_inv live devptr n s \<longleftrightarrow>
     ht_wf (htable s) \<and> tombstones (htable s) \<le> n
     \<and> dom (ht_map (htable s)) \<subseteq> live (drv s)
     \<and> UvmAllocatedBytes s = word_of_nat (managed_total (htable s))
     \<and> (\<forall>p e. ht_map (htable s) p = Some e \<longrightarrow> e_is_managed e = 0 \<longrightarrow> e_mapped_ptr e \<noteq> 0 \<longrightarrow>
          p = devptr (e_mapped_ptr e))"

text \<open>
  The bound \<open>n\<close> on the number of tombstones keeps the table away from the reclaiming pass,
  which may lose allocations whose probe chain is wrapped.
\<close>

lemma ht_put_tombstones: "ht_put t e = (b, t') \<Longrightarrow> tombstones t' \<le> tombstones t"
  by (auto simp: ht_put_def ht_insert_def Let_def split: option.splits)

lemma managed_total_eq: "managed_total t = wt.total managed_bytes t"
  by (simp add: managed_total_def wt.total_def)

text \<open>The driver calls that leave the table alone keep the invariant.\<close>

lemma shim_inv_drv:
  "shim_inv live devptr n s \<Longrightarrow> live (drv s) \<subseteq> live c \<Longrightarrow> shim_inv live devptr n (s\<lparr>drv := c\<rparr>)"
  by (auto simp: shim_inv_def)

lemma shim_inv_frame [simp]:
  "shim_inv live devptr n (s\<lparr>DeviceHandle := d\<rparr>) = shim_inv live devptr n s"
  "shim_inv live devptr n (s\<lparr>prefetch_q := q\<rparr>) = shim_inv live devptr n s"
  by (simp_all add: shim_inv_def)

lemma contract_fresh:
  assumes "cuda_contract api live devptr"
  shows "real_cuMemAlloc_v2 api c ok sz = (r, p, c') \<Longrightarrow> fresh_ptr live c r p c'"
    and "real_cuMemAllocManaged_drv api = Some f \<Longrightarrow> f c sz = (r, p, c') \<Longrightarrow>
           fresh_ptr live c r p c'"
    and "real_cuMemHostGetDevicePointer api c v = (r, p, c') \<Longrightarrow>
           fresh_ptr live c r p c' \<and> (r = CUDA_SUCCESS \<longrightarrow> p = devptr v)"
  using assms unfolding cuda_contract_def by - (blast | metis)+

lemma contract_frees:
  assumes "cuda_contract api live devptr"
  shows "real_cuMemFree_v2 api c p = (r, c') \<Longrightarrow>
           live c' = (if r = CUDA_SUCCESS then live c - {p} else live c)"
    and "real_cuMemHostUnregister api = Some g \<Longrightarrow> g c v = (r, c') \<Longrightarrow>
           live c' = (if r = CUDA_SUCCESS then live c - {devptr v} else live c)"
  using assms unfolding cuda_contract_def by - (blast | metis)+

lemma contract_unregister:
  assumes "cuda_contract api live devptr" and "real_cuMemHostRegister api = Some f"
  shows "\<exists>g. real_cuMemHostUnregister api = Some g"
proof -
  from assms(1) have "real_cuMemHostRegister api \<noteq> None \<longrightarrow> real_cuMemHostUnregister api \<noteq> None"
    unfolding cuda_contract_def by (elim conjE) assumption
  with assms(2) show ?thesis by simp
qed

lemma contract_register:
  assumes "cuda_contract api live devptr"
    and "real_cuMemHostRegister api = Some f" and "f c v sz = (r, c')"
  shows "live c' = live c \<and> (r = CUDA_SUCCESS \<longrightarrow> devptr v \<notin> live c)"
proof -
  from assms(1) have "\<forall>f c v sz r c'. real_cuMemHostRegister api = Some f \<longrightarrow>
      f c v sz = (r, c') \<longrightarrow> live c' = live c \<and> (r = CUDA_SUCCESS \<longrightarrow> devptr v \<notin> live c)"
    unfolding cuda_contract_def by (elim conjE) assumption
  with assms(2,3) show ?thesis by blast
qed

lemma contract_frames:
  assumes "cuda_contract api live devptr"
  shows "real_cuMemPrefetchAsync api = Some g \<Longrightarrow> live (snd (g c p sz d)) = live c"
    and "live (snd (ioctl_alloc api c sz)) = live c"
    and "live (ioctl_free api c b) = live c"
proof -
  from assms have 1: "\<forall>f c p sz d. real_cuMemPrefetchAsync api = Some f \<longrightarrow>
      live (snd (f c p sz d)) = live c"
    unfolding cuda_contract_def by (elim conjE) assumption
  from assms have 2: "\<forall>c sz. live (snd (ioctl_alloc api c sz)) = live c"
    unfolding cuda_contract_def by (elim conjE) assumption
  from assms have 3: "\<forall>c b. live (ioctl_free api c b) = live c"
    unfolding cuda_contract_def by (elim conjE) assumption
  from 1 show "real_cuMemPrefetchAsync api = Some g \<Longrightarrow> live (snd (g c p sz d)) = live c"
    by blast
  from 2 show "live (snd (ioctl_alloc api c sz)) = live c" by blast
  from 3 show "live (ioctl_free api c b) = live c" by blast
qed

lemma fresh_ptr_mono: "fresh_ptr live c r p c' \<Longrightarrow> live c \<subseteq> live c'"
  by (auto simp: fresh_ptr_def split: if_splits)

lemma native_alloc_inv:
  assumes "cuda_contract api live devptr" and "shim_inv live devptr n s"
  shows "shim_inv live devptr n (snd (snd (native_alloc api s ok sz)))"
proof (cases "real_cuMemAlloc_v2 api (drv s) ok sz")
  case (fields r p c)
  with contract_fresh(1) [OF assms(1) fields] show ?thesis
    by (simp add: native_alloc_def shim_inv_drv [OF assms(2)] fresh_ptr_mono)
qed

lemma open_device_inv [simp]:
  "shim_inv live devptr n (gb_open_device api s) = shim_inv live devptr n s"
  by (simp add: gb_open_device_def)

lemma free_driver_buf_inv:
  "cuda_contract api live devptr \<Longrightarrow> shim_inv live devptr n s \<Longrightarrow>
    shim_inv live devptr n (gb_free_driver_buf api s b)"
  by (simp add: gb_free_driver_buf_def shim_inv_drv contract_frames)

text \<open>Recording a fresh pointer adds its managed bytes to the accounted total.\<close>

lemma record_inv:
  assumes inv: "shim_inv live devptr n s" and key: "ht_key (e_ptr e)"
    and fresh: "e_ptr e \<notin> live (drv s)" and sub: "insert (e_ptr e) (live (drv s)) \<subseteq> live c"
    and put: "ht_put (htable s) e = (True, t)"
    and dev: "e_is_managed e = 0 \<Longrightarrow> e_mapped_ptr e \<noteq> 0 \<Longrightarrow> e_ptr e = devptr (e_mapped_ptr e)"
  shows "shim_inv live devptr n (s\<lparr>htable := t, drv := c,
      UvmAllocatedBytes := UvmAllocatedBytes s + word_of_nat (managed_bytes e)\<rparr>)"
proof -
  from inv have w: "ht_wf (htable s)" and d: "dom (ht_map (htable s)) \<subseteq> live (drv s)"
    by (simp_all add: shim_inv_def)
  with fresh have none: "ht_map (htable s) (e_ptr e) = None" by auto
  note i = wt.exact_inv [OF w]
  from wt.insert_done [OF i key none put] have
    t: "ht_map t = (ht_map (htable s))(e_ptr e \<mapsto> e)" by simp
  from wt.total_insert [OF i key none put, of managed_bytes] have
    "managed_total t = managed_total (htable s) + managed_bytes e"
    by (simp add: managed_total_eq)
  moreover have "tombstones t \<le> n"
    using ht_put_tombstones [OF put] inv by (simp add: shim_inv_def)
  ultimately show ?thesis
    using inv t wt.insert_exact [OF w key none put] d sub dev
    by (auto simp: shim_inv_def)
qed

lemma alloc_uvm_inv:
  assumes con: "cuda_contract api live devptr" and inv: "shim_inv live devptr n s"
    and Some: "real_cuMemAllocManaged_drv api = Some alloc"
  shows "shim_inv live devptr n (snd (snd (gb_alloc_uvm api s sz)))"
proof -
  obtain r p c1 where a: "alloc (drv s) sz = (r, p, c1)" by (cases "alloc (drv s) sz") auto
  note fr = contract_fresh(2) [OF con Some a]
  show ?thesis
  proof (cases "r = CUDA_SUCCESS")
    case False
    with Some a fr inv show ?thesis
      by (simp add: gb_alloc_uvm_def fresh_ptr_mono shim_inv_drv)
  next
    case True
    define c2 where "c2 = uvm_prefetch api (uvm_device api s) c1 p sz"
    have l2: "live c2 = insert p (live (drv s))"
      using fr True contract_frames(1) [OF con]
      by (auto simp: c2_def uvm_prefetch_def Let_def fresh_ptr_def split: option.splits)
    obtain ok t where ins: "ht_insert (htable s) p sz 1 0 0 = (ok, t)"
      by (cases "ht_insert (htable s) p sz 1 0 0") auto
    show ?thesis
    proof (cases ok)
      case True2: True
      let ?e = "\<lparr>e_ptr = p, e_size = sz, e_is_managed = 1, e_gb_buf_id = 0, e_mapped_ptr = 0\<rparr>"
      have "shim_inv live devptr n (s\<lparr>htable := t, drv := c2,
          UvmAllocatedBytes := UvmAllocatedBytes s + word_of_nat (managed_bytes ?e)\<rparr>)"
        by (rule record_inv [OF inv])
          (use fr True l2 ins True2 in \<open>simp_all add: fresh_ptr_def ht_put_def\<close>)
      with Some a True ins True2 show ?thesis
        by (simp add: gb_alloc_uvm_def c2_def managed_bytes_def)
    next
      case False
      obtain r3 c3 where f: "real_cuMemFree_v2 api c2 p = (r3, c3)"
        by (cases "real_cuMemFree_v2 api c2 p") auto
      from contract_frees(1) [OF con f] l2 fr True have "live (drv s) \<subseteq> live c3"
        by (auto simp: fresh_ptr_def)
      moreover from ins False have "t = htable s" by (auto dest: ht_insert_False)
      ultimately show ?thesis
        using Some a True ins False f inv
        by (simp add: gb_alloc_uvm_def c2_def [symmetric] shim_inv_drv)
    qed
  qed
qed

lemma register_host_inv:
  assumes con: "cuda_contract api live devptr" and inv: "shim_inv live devptr n s"
    and reg: "real_cuMemHostRegister api = Some f"
  shows "shim_inv live devptr n (snd (snd (register_driver_buf api s resp f)))"
proof -
  let ?v = "resp_user_va resp"
  obtain r2 c2 where c2: "f (drv s) ?v (resp_size resp) = (r2, c2)"
    by (cases "f (drv s) ?v (resp_size resp)") auto
  note fr2 = contract_register [OF con reg c2]
  have inv2: "shim_inv live devptr n (s\<lparr>drv := c2\<rparr>)"
    using shim_inv_drv [OF inv, of c2] fr2 by simp
  obtain r3 p c3 where c3: "real_cuMemHostGetDevicePointer api c2 ?v = (r3, p, c3)"
    by (cases "real_cuMemHostGetDevicePointer api c2 ?v") auto
  note fr3 = contract_fresh(3) [OF con c3]
  consider (r2) "r2 \<noteq> CUDA_SUCCESS" | (r3) "r2 = CUDA_SUCCESS" "r3 \<noteq> CUDA_SUCCESS"
    | (ok) "r2 = CUDA_SUCCESS" "r3 = CUDA_SUCCESS" by blast
  then show ?thesis
  proof cases
    case r2
    with c2 free_driver_buf_inv [OF con inv2] show ?thesis
      by (simp add: register_driver_buf_def Let_def)
  next
    case r3
    with fr3 have l3: "live c3 = live c2" by (simp add: fresh_ptr_def)
    define c4 where "c4 = snd (the (real_cuMemHostUnregister api) c3 ?v)"
    obtain g where g: "real_cuMemHostUnregister api = Some g"
      using contract_unregister [OF con reg] by blast
    obtain r4 c4' where "g c3 ?v = (r4, c4')" by (cases "g c3 ?v") auto
    with g contract_frees(2) [OF con g this] have "live c3 - {devptr ?v} \<subseteq> live c4"
      by (auto simp: c4_def)
    with fr2 r3(1) l3 have "live (drv s) \<subseteq> live c4" by auto
    then have "shim_inv live devptr n (gb_free_driver_buf api (s\<lparr>drv := c4\<rparr>) (resp_buf_id resp))"
      by (intro free_driver_buf_inv [OF con] shim_inv_drv [OF inv])
    moreover have "snd (snd (register_driver_buf api s resp f))
        = gb_free_driver_buf api (s\<lparr>drv := c4\<rparr>) (resp_buf_id resp)"
      using r3 c2 c3 by (simp add: register_driver_buf_def Let_def c4_def)
    ultimately show ?thesis by simp
  next
    case ok
    let ?e = "\<lparr>e_ptr = p, e_size = resp_size resp, e_is_managed = 0,
      e_gb_buf_id = resp_buf_id resp, e_mapped_ptr = ?v\<rparr>"
    obtain b t where ins: "ht_insert (htable s) p (resp_size resp) 0 (resp_buf_id resp) ?v = (b, t)"
      by fastforce
    have l3: "insert p (live (drv s)) \<subseteq> live c3" "p \<notin> live (drv s)"
      using fr2 fr3 ok by (auto simp: fresh_ptr_def)
    have "shim_inv live devptr n (s\<lparr>htable := t, drv := c3\<rparr>)"
    proof (cases b)
      case True
      have "shim_inv live devptr n (s\<lparr>htable := t, drv := c3,
          UvmAllocatedBytes := UvmAllocatedBytes s + word_of_nat (managed_bytes ?e)\<rparr>)"
      proof (rule record_inv [OF inv])
        show "ht_key (e_ptr ?e)" "e_ptr ?e \<notin> live (drv s)"
            "insert (e_ptr ?e) (live (drv s)) \<subseteq> live c3"
          using fr3 ok l3 by (auto simp: fresh_ptr_def)
        show "ht_put (htable s) ?e = (True, t)" using ins True by (simp add: ht_put_def)
        show "e_ptr ?e = devptr (e_mapped_ptr ?e)" using fr3 ok by simp
      qed
      then show ?thesis by (simp add: managed_bytes_def)
    next
      case False
      with ins have "t = htable s" by (auto dest: ht_insert_False)
      with shim_inv_drv [OF inv, of c3] l3 show ?thesis by simp
    qed
    then have "shim_inv live devptr n (s\<lparr>drv := c3, htable := t\<rparr>)"
      by (simp add: shim_inv_def)
    with ok c2 c3 ins show ?thesis
      by (simp add: register_driver_buf_def Let_def)
  qed
qed

lemma alloc_from_driver_inv:
  assumes con: "cuda_contract api live devptr" and inv: "shim_inv live devptr n s"
  shows "shim_inv live devptr n (snd (snd (gb_alloc_from_driver api s sz)))"
proof -
  let ?s = "gb_open_device api s"
  have inv0: "shim_inv live devptr n ?s" using inv by simp
  obtain ro c where io: "ioctl_alloc api (drv ?s) sz = (ro, c)"
    by (cases "ioctl_alloc api (drv ?s) sz") auto
  have inv1: "shim_inv live devptr n (?s\<lparr>drv := c\<rparr>)"
    using shim_inv_drv [OF inv0, of c] contract_frames(2) [OF con, of "drv ?s" sz] io by simp
  show ?thesis
    using io inv0 inv1 free_driver_buf_inv [OF con inv1] register_host_inv [OF con inv1]
    by (auto simp: gb_alloc_from_driver_def Let_def split: option.splits)
qed


text \<open>Taking an entry out removes its managed bytes from the total; putting it back restores it.\<close>

lemma ht_remove_tombstones:
  "ht_remove t p = (Some e, t') \<Longrightarrow> tombstones t < HT_TOMBSTONE_THRESHOLD
    \<Longrightarrow> tombstones t' = tombstones t + 1"
  by (auto simp: ht_remove_def Let_def split: option.splits)

lemma removed_inv:
  assumes inv: "shim_inv live devptr n s" and few: "n < HT_TOMBSTONE_THRESHOLD"
    and key: "ht_key p" and rm: "ht_remove (htable s) p = (Some e, t)"
  shows "live (drv s) - {p} \<subseteq> live c \<Longrightarrow>
      shim_inv live devptr (n + 1) (s\<lparr>htable := t, drv := c,
        UvmAllocatedBytes := UvmAllocatedBytes s - word_of_nat (managed_bytes e)\<rparr>)" (is "_ \<Longrightarrow> ?A")
    and "live (drv s) \<subseteq> live c \<Longrightarrow>
      shim_inv live devptr (n + 1) (s\<lparr>htable := snd (ht_insert t p (e_size e) (e_is_managed e)
        (e_gb_buf_id e) (e_mapped_ptr e)), drv := c\<rparr>)" (is "_ \<Longrightarrow> ?B")
proof -
  from inv have w: "ht_wf (htable s)" and tb: "tombstones (htable s) < HT_TOMBSTONE_THRESHOLD"
    using few by (simp_all add: shim_inv_def)
  note i = wt.exact_inv [OF w]
  note r = ht_remove_Some [OF rm key i]
  from wt.remove_exact [OF w key _ r(2)] tb rm have wt': "ht_wf t" by (auto simp: ht_calm_def)
  from ht_remove_tombstones [OF rm tb] inv have n': "tombstones t \<le> n + 1"
    by (simp add: shim_inv_def)
  have tot: "managed_total (htable s) = managed_total t + managed_bytes e"
    using wt.total_remove [OF i key rm] by (simp add: managed_total_eq)
  show ?A if "live (drv s) - {p} \<subseteq> live c"
    using inv r wt' n' tot that by (auto simp: shim_inv_def split: if_splits)
  from ht_remove_room [OF i key rm] obtain t2 where t2: "ht_put t e = (True, t2)" by blast
  from wt.remove_insert [OF i key rm t2] have same: "ht_map t2 = ht_map (htable s)" by simp
  then have "managed_total t2 = managed_total (htable s)" by (simp add: managed_total_def)
  moreover have "snd (ht_insert t p (e_size e) (e_is_managed e) (e_gb_buf_id e)
      (e_mapped_ptr e)) = t2"
    using t2 r(3) by (simp add: ht_put_def)
  moreover have "ht_wf t2"
    using wt.insert_exact [OF wt' _ _ t2] r key by simp
  moreover have "tombstones t2 \<le> n + 1" using ht_put_tombstones [OF t2] n' by simp
  ultimately show ?B if "live (drv s) \<subseteq> live c"
    using inv same that by (auto simp: shim_inv_def)
qed

lemma free_buffer_inv:
  assumes con: "cuda_contract api live devptr" and inv: "shim_inv live devptr n s"
    and few: "n < HT_TOMBSTONE_THRESHOLD" and key: "ht_key p"
    and rm: "ht_remove (htable s) p = (Some e, t)"
  shows "shim_inv live devptr (n + 1) (snd (gb_free_buffer api s p))"
proof -
  note gone = removed_inv(1) [OF inv few key rm] and kept = removed_inv(2) [OF inv few key rm]
  have comm: "s\<lparr>htable := a, drv := c\<rparr> = s\<lparr>drv := c, htable := a\<rparr>" for a c by simp
  consider (managed) "e_is_managed e \<noteq> 0"
    | (plain) "e_is_managed e = 0" "e_mapped_ptr e = 0 \<or> real_cuMemHostUnregister api = None"
    | (mapped) g where "e_is_managed e = 0" "e_mapped_ptr e \<noteq> 0"
        "real_cuMemHostUnregister api = Some g"
    by (cases "real_cuMemHostUnregister api") blast+
  then show ?thesis
  proof cases
    case managed
    obtain r c where f: "real_cuMemFree_v2 api (drv s) p = (r, c)" by fastforce
    note l = contract_frees(1) [OF con f]
    show ?thesis
      using managed rm f l gone [of c] kept [of c]
      by (auto simp: gb_free_buffer_def Let_def managed_bytes_def comm split: if_splits)
  next
    case plain
    from gone [of "drv s"] plain(1)
    have "shim_inv live devptr (n + 1) (s\<lparr>htable := t\<rparr>)"
      by (simp add: managed_bytes_def)
    from free_driver_buf_inv [OF con this] plain rm show ?thesis
      by (auto simp: gb_free_buffer_def)
  next
    case mapped
    obtain r c where f: "g (drv s) (e_mapped_ptr e) = (r, c)" by fastforce
    from inv have i: "ht_inv (htable s)" by (simp add: shim_inv_def ht_wf_def)
    have dp: "devptr (e_mapped_ptr e) = p"
      using inv mapped ht_remove_Some(2) [OF rm key i] by (auto simp: shim_inv_def)
    note l = contract_frees(2) [OF con mapped(3) f, unfolded dp]
    show ?thesis
    proof (cases "r = CUDA_SUCCESS")
      case True
      with l gone [of c] mapped(1)
      have "shim_inv live devptr (n + 1) (s\<lparr>htable := t, drv := c\<rparr>)"
        by (simp add: managed_bytes_def)
      from free_driver_buf_inv [OF con this] mapped rm f True show ?thesis
        by (simp add: gb_free_buffer_def)
    next
      case False
      with l kept [of c] mapped rm f show ?thesis
        by (simp add: gb_free_buffer_def comm)
    qed
  qed
qed

lemma shim_inv_mono: "shim_inv live devptr n s \<Longrightarrow> n \<le> m \<Longrightarrow> shim_inv live devptr m s"
  by (simp add: shim_inv_def)

lemma hooked_free_inv:
  assumes con: "cuda_contract api live devptr" and inv: "shim_inv live devptr n s"
    and few: "n < HT_TOMBSTONE_THRESHOLD" and p: "p \<noteq> HT_TOMBSTONE"
  shows "shim_inv live devptr (n + 1) (snd (hooked_cuMemFree_v2 api s p))"
proof -
  have miss: ?thesis if "(if p \<noteq> 0 then gb_free_buffer api s p else (None, s)) = (None, s)"
    and none: "ht_map (htable s) p = None"
  proof -
    obtain r c where f: "real_cuMemFree_v2 api (drv s) p = (r, c)" by fastforce
    have "shim_inv live devptr n (s\<lparr>drv := c\<rparr>)"
      using inv none contract_frees(1) [OF con f] by (auto simp: shim_inv_def split: if_splits)
    then show ?thesis
      using that(1) f by (auto simp: hooked_cuMemFree_v2_def intro: shim_inv_mono)
  qed
  show ?thesis
  proof (cases "p = 0")
    case True
    then show ?thesis
      by (intro miss) (simp_all add: ht_map_def slots_map_nokey ht_key_def ht_sentinels)
  next
    case False
    with p have key: "ht_key p" by (simp add: ht_key_def ht_sentinels)
    obtain eo t where rm: "ht_remove (htable s) p = (eo, t)" by fastforce
    show ?thesis
    proof (cases eo)
      case None
      from inv few have w: "ht_wf (htable s)" and c: "ht_calm (htable s)"
        by (simp_all add: shim_inv_def ht_calm_def)
      have "ht_map (htable s) p = None"
        using wt.remove_exact [OF w key c] rm None by (cases "ht_map (htable s) p") auto
      then show ?thesis
        using rm None ht_remove_None [of "htable s" p t]
        by (intro miss) (simp_all add: gb_free_buffer_def)
    next
      case (Some e)
      note rm' = rm [unfolded Some]
      have "\<exists>r. fst (gb_free_buffer api s p) = Some r"
        using rm' by (auto simp: gb_free_buffer_def Let_def split: option.splits prod.splits)
      then obtain r s1 where r: "gb_free_buffer api s p = (Some r, s1)"
        by (metis prod.collapse)
      with free_buffer_inv [OF con inv few key rm'] False show ?thesis
        by (simp add: hooked_cuMemFree_v2_def)
    qed
  qed
qed

lemma overflow_alloc_inv:
  assumes con: "cuda_contract api live devptr" and inv: "shim_inv live devptr n s"
  shows "shim_inv live devptr n (snd (snd (overflow_alloc api s ok sz)))"
proof (cases "real_cuMemAllocManaged_drv api")
  case None
  then have "gb_extra_for_device api s d = 0" for d by (simp add: gb_extra_for_device_def)
  with native_alloc_inv [OF con inv] show ?thesis
    by (simp add: overflow_alloc_def Let_def split: option.splits)
next
  case (Some alloc)
  obtain r p s1 where u: "gb_alloc_uvm api s sz = (r, p, s1)" by (metis prod_cases3)
  have i1: "shim_inv live devptr n s1" using alloc_uvm_inv [OF con inv Some, of sz] u by simp
  define d where "d = (if gb_legacy_driver (config s1) then gb_alloc_from_driver api s1 sz
    else (r, None, s1))"
  obtain r2 p2 s2 where d2: "d = (r2, p2, s2)" by (metis prod_cases3)
  have i2: "shim_inv live devptr n s2"
    using alloc_from_driver_inv [OF con i1, of sz] i1 d2 by (auto simp: d_def split: if_splits)
  show ?thesis
    using native_alloc_inv [OF con inv] native_alloc_inv [OF con i2] i1 i2 u
      d2 [unfolded d_def]
    by (cases "gb_legacy_driver (config s1)"; cases p)
      (auto simp: overflow_alloc_def Let_def split: option.splits)
qed

lemma hooked_alloc_inv:
  assumes con: "cuda_contract api live devptr" and inv: "shim_inv live devptr n s"
  shows "shim_inv live devptr n (snd (snd (hooked_cuMemAlloc_v2 api s ok sz)))"
proof -
  obtain r p s1 where u: "native_alloc api s ok sz = (r, p, s1)" by (metis prod_cases3)
  have i1: "shim_inv live devptr n s1" using native_alloc_inv [OF con inv, of ok sz] u by simp
  show ?thesis
    using overflow_alloc_inv [OF con inv] overflow_alloc_inv [OF con i1] i1 u
    by (auto simp: hooked_cuMemAlloc_v2_def)
qed

section \<open>Sequences of calls\<close>

datatype cuda_call = CuMemAlloc bool u64 | CuMemFree u64

primrec shim_call :: "'c cuda_api \<Rightarrow> cuda_call \<Rightarrow> 'c shim \<Rightarrow> 'c shim" where
  "shim_call api (CuMemAlloc ok sz) s = snd (snd (hooked_cuMemAlloc_v2 api s ok sz))"
| "shim_call api (CuMemFree p) s = snd (hooked_cuMemFree_v2 api s p)"

definition shim_run :: "'c cuda_api \<Rightarrow> cuda_call list \<Rightarrow> 'c shim \<Rightarrow> 'c shim" where
  "shim_run api calls s = fold (shim_call api) calls s"

primrec is_free :: "cuda_call \<Rightarrow> bool" where
  "is_free (CuMemAlloc ok sz) = False"
| "is_free (CuMemFree p) = True"

lemma shim_run_inv:
  assumes con: "cuda_contract api live devptr" and ok: "CuMemFree HT_TOMBSTONE \<notin> set calls"
  shows "shim_inv live devptr n s \<Longrightarrow>
    n + int (length (filter is_free calls)) \<le> HT_TOMBSTONE_THRESHOLD \<Longrightarrow>
    shim_inv live devptr (n + int (length (filter is_free calls))) (shim_run api calls s)"
  using ok
proof (induction calls arbitrary: n s)
  case Nil
  then show ?case by (simp add: shim_run_def)
next
  case (Cons a calls)
  show ?case
  proof (cases a)
    case (CuMemAlloc b sz)
    with Cons show ?thesis
      using hooked_alloc_inv [OF con Cons.prems(1), of b sz] by (simp add: shim_run_def)
  next
    case (CuMemFree p)
    with Cons.prems have "n < HT_TOMBSTONE_THRESHOLD" "p \<noteq> HT_TOMBSTONE" by auto
    from hooked_free_inv [OF con Cons.prems(1) this] CuMemFree Cons.prems
      Cons.IH [of "n + 1" "snd (hooked_cuMemFree_v2 api s p)"]
    show ?thesis by (simp add: shim_run_def algebra_simps)
  qed
qed

section \<open>A driver that meets the contract\<close>

text \<open>
  A bump allocator over device addresses, with a failing allocation when its next address
  is taken, and host memory mapped at its own address.
\<close>

record bump =
  next_ptr :: u64
  in_use :: "u64 list"

definition bump_take :: "bump \<Rightarrow> u64 \<Rightarrow> int \<times> u64 \<times> bump" where
  "bump_take c p = (if p = 0 \<or> p = 1 \<or> p \<in> set (in_use c) then (CUDA_ERROR_OUT_OF_MEMORY, 0, c)
     else (CUDA_SUCCESS, p, c\<lparr>next_ptr := next_ptr c + 0x200000, in_use := p # in_use c\<rparr>))"

definition bump_drop :: "bump \<Rightarrow> u64 \<Rightarrow> int \<times> bump" where
  "bump_drop c p = (CUDA_SUCCESS, c\<lparr>in_use := removeAll p (in_use c)\<rparr>)"

definition bump_api :: "bump cuda_api" where
  "bump_api = \<lparr>real_cuMemAlloc_v2 = (\<lambda>c ok sz. bump_take c (next_ptr c)),
     real_cuMemFree_v2 = bump_drop,
     real_cuMemAllocManaged_drv = Some (\<lambda>c sz. bump_take c (next_ptr c)),
     real_cuMemPrefetchAsync = Some (\<lambda>c p sz d. (CUDA_SUCCESS, c)),
     real_cuCtxGetDevice = Some (\<lambda>c. (CUDA_SUCCESS, 0)),
     real_cuDeviceGetAttribute = Some (\<lambda>c a d. (CUDA_SUCCESS, 1)),
     real_cuMemGetInfo = (\<lambda>c. (CUDA_SUCCESS, 0x100000000, 0x200000000)),
     real_cuDeviceTotalMem_v2 = (\<lambda>c d. (CUDA_SUCCESS, 0x200000000)),
     real_cuMemHostRegister = Some (\<lambda>c v sz.
       (if v \<in> set (in_use c) then CUDA_ERROR_OUT_OF_MEMORY else CUDA_SUCCESS, c)),
     real_cuMemHostUnregister = Some bump_drop,
     real_cuMemHostGetDevicePointer = bump_take,
     open_greenboost = (\<lambda>c. True),
     ioctl_alloc = (\<lambda>c sz. (Some \<lparr>resp_size = sz, resp_user_va = next_ptr c, resp_buf_id = 1\<rparr>, c)),
     ioctl_free = (\<lambda>c b. c)\<rparr>"

lemma bump_take_fresh: "bump_take c p = (r, q, c') \<Longrightarrow>
    fresh_ptr (\<lambda>c. set (in_use c)) c r q c' \<and> (r = CUDA_SUCCESS \<longrightarrow> q = p)"
  by (auto simp: bump_take_def fresh_ptr_def ht_key_def ht_sentinels cuda_codes split: if_splits)

lemma bump_contract: "cuda_contract bump_api (\<lambda>c. set (in_use c)) id"
  unfolding cuda_contract_def
  by (auto simp: bump_api_def bump_drop_def cuda_codes split: if_splits dest: bump_take_fresh)

definition bump_shim :: "bump shim" where
  "bump_shim = \<lparr>config = \<lparr>Initialized = True, ThresholdMb = 64, ThresholdBytes = 0x4000000,
       DebugMode = False, gb_extra_bytes = 0x100000000, gb_reserve_bytes = 0x80000000,
       gb_managed_first = True, gb_legacy_driver = False\<rparr>,
     htable = ht_empty, UvmAllocatedBytes = 0, DeviceHandle = False,
     prefetch_env = \<lparr>prefetch_running = True, has_cuMemPrefetchAsync = True,
       has_PrefetchVirtualMemory = True, GpuDevice = 0\<rparr>,
     prefetch_q = \<lparr>prefetch_queue = (\<lambda>_. \<lparr>wreq_ptr = 0, wreq_size = 0, wreq_is_managed = False,
       wreq_to_device = False\<rparr>), prefetch_head = 0, prefetch_tail = 0\<rparr>,
     drv = \<lparr>next_ptr = 0x7000000000, in_use = []\<rparr>\<rparr>"

lemma bump_insert: "ht_insert ht_empty 0x7000000000 sz 1 0 0 = (True, ht_empty\<lparr>slots :=
    (slots ht_empty)(ht_home 0x7000000000 := \<lparr>e_ptr = 0x7000000000, e_size = sz,
      e_is_managed = 1, e_gb_buf_id = 0, e_mapped_ptr = 0\<rparr>)\<rparr>)"
  by (simp add: ht_insert_def for_until_pos Let_def) (simp add: ht_empty_def ht_sentinels)

lemma bump_first_alloc: "UvmAllocatedBytes (shim_run bump_api [CuMemAlloc True 0x8000000] bump_shim)
    = 0x8000000"
  by (simp add: shim_run_def hooked_cuMemAlloc_v2_def overflow_alloc_def bump_shim_def
      gb_extra_for_device_def bump_api_def cuda_codes gb_alloc_uvm_def bump_take_def
      uvm_device_def uvm_prefetch_def Let_def bump_insert)

section \<open>The accounting property\<close>



end
