(* ===== verification/Win_Shim_Policy.thy ===== *)
theory Win_Shim_Policy
  imports Win_Shim_Accounting
begin

text \<open>
  What the hooks of the Windows shim promise to the application, branch by branch: when an
  allocation is left to the CUDA driver, what a failing allocation or free leaves behind, and
  the capacity that is reported.
\<close>

section \<open>Outcomes of an allocation\<close>

lemma native_alloc_frame:
  "native_alloc api s ok sz = (r, po, s') \<Longrightarrow>
    htable s' = htable s \<and> UvmAllocatedBytes s' = UvmAllocatedBytes s
    \<and> (po = None \<longleftrightarrow> r \<noteq> CUDA_SUCCESS)"
  by (auto simp: native_alloc_def split: prod.splits if_splits)

lemma free_driver_buf_frame [simp]:
  "htable (gb_free_driver_buf api s b) = htable s"
  "UvmAllocatedBytes (gb_free_driver_buf api s b) = UvmAllocatedBytes s"
  "config (gb_free_driver_buf api s b) = config s"
  by (simp_all add: gb_free_driver_buf_def)

lemma open_device_frame [simp]:
  "htable (gb_open_device api s) = htable s"
  "UvmAllocatedBytes (gb_open_device api s) = UvmAllocatedBytes s"
  by (simp_all add: gb_open_device_def)

text \<open>An entry is recorded for the pointer that is returned, and for no other outcome.\<close>

definition recorded :: "'c shim \<Rightarrow> 'c shim \<Rightarrow> int \<Rightarrow> u64 option \<Rightarrow> bool" where
  "recorded s s' r po \<longleftrightarrow> (po = None \<longleftrightarrow> r \<noteq> CUDA_SUCCESS) \<and>
     (case po of
        None \<Rightarrow> htable s' = htable s \<and> UvmAllocatedBytes s' = UvmAllocatedBytes s
      | Some p \<Rightarrow> htable s' = htable s \<or>
          (\<exists>e. e_ptr e = p \<and> ht_put (htable s) e = (True, htable s')))"

lemma recorded_fail: "r \<noteq> CUDA_SUCCESS \<Longrightarrow> htable s' = htable s \<Longrightarrow>
    UvmAllocatedBytes s' = UvmAllocatedBytes s \<Longrightarrow> recorded s s' r None"
  by (simp add: recorded_def)

lemma recorded_insert:
  assumes "ht_insert (htable s) p sz m b v = (ok, t)" and "htable s' = t"
  shows "recorded s s' CUDA_SUCCESS (Some p)"
proof -
  let ?e = "\<lparr>e_ptr = p, e_size = sz, e_is_managed = m, e_gb_buf_id = b, e_mapped_ptr = v\<rparr>"
  have "ok \<Longrightarrow> e_ptr ?e = p \<and> ht_put (htable s) ?e = (True, t)"
    using assms(1) by (simp add: ht_put_def)
  then have "ok \<Longrightarrow> \<exists>e. e_ptr e = p \<and> ht_put (htable s) e = (True, t)" by blast
  moreover have "\<not> ok \<Longrightarrow> t = htable s"
    using assms(1) ht_insert_False [of "htable s" p sz m b v t] by simp
  ultimately show ?thesis using assms(2) by (auto simp: recorded_def)
qed

lemma recorded_frame: "htable s1 = htable s \<Longrightarrow> UvmAllocatedBytes s1 = UvmAllocatedBytes s \<Longrightarrow>
    recorded s1 s' r po \<Longrightarrow> recorded s s' r po"
  by (cases po) (simp_all add: recorded_def)

lemma recorded_native:
  "native_alloc api s ok sz = (r, po, s') \<Longrightarrow> recorded s s' r po"
  using native_alloc_frame [of api s ok sz r po s']
  by (cases po) (simp_all add: recorded_def)

lemma alloc_uvm_recorded:
  assumes "gb_alloc_uvm api s sz = (r, po, s')"
  shows "recorded s s' r po"
proof -
  obtain r1 p c1 where a: "the (real_cuMemAllocManaged_drv api) (drv s) sz = (r1, p, c1)"
    by (metis prod_cases3)
  obtain b t where i: "ht_insert (htable s) p sz 1 0 0 = (b, t)" by fastforce
  consider "r1 \<noteq> CUDA_SUCCESS" | "r1 = CUDA_SUCCESS" "b" | "r1 = CUDA_SUCCESS" "\<not> b" by blast
  then show ?thesis
  proof cases
    case 1
    with assms a have "r = r1" "po = None" "s' = s\<lparr>drv := c1\<rparr>"
      by (simp_all add: gb_alloc_uvm_def Let_def)
    with 1 show ?thesis by (simp add: recorded_fail)
  next
    case 2
    with assms a i have "r = CUDA_SUCCESS" "po = Some p" "htable s' = t"
      by (auto simp: gb_alloc_uvm_def Let_def)
    with recorded_insert [OF i] show ?thesis by simp
  next
    case 3
    with i ht_insert_False [of "htable s" p sz 1 0 0 t] have "t = htable s" by simp
    with 3 assms a i have "r = CUDA_ERROR_OUT_OF_MEMORY" "po = None"
      "htable s' = htable s" "UvmAllocatedBytes s' = UvmAllocatedBytes s"
      by (auto simp: gb_alloc_uvm_def Let_def)
    then show ?thesis by (simp add: recorded_fail cuda_codes)
  qed
qed

lemma register_recorded:
  assumes "register_driver_buf api s resp f = (r, po, s')"
  shows "recorded s s' r po"
proof -
  let ?v = "resp_user_va resp"
  obtain r2 c2 where c2: "f (drv s) ?v (resp_size resp) = (r2, c2)" by fastforce
  obtain r3 p c3 where c3: "real_cuMemHostGetDevicePointer api c2 ?v = (r3, p, c3)"
    by (metis prod_cases3)
  consider "r2 \<noteq> CUDA_SUCCESS" | "r2 = CUDA_SUCCESS" "r3 \<noteq> CUDA_SUCCESS"
    | "r2 = CUDA_SUCCESS" "r3 = CUDA_SUCCESS" by blast
  then show ?thesis
  proof cases
    case 3
    obtain b t where
      i: "ht_insert (htable s) p (resp_size resp) 0 (resp_buf_id resp) ?v = (b, t)"
      by fastforce
    from 3 assms c2 c3 i have "r = CUDA_SUCCESS" "po = Some p" "htable s' = t"
      by (auto simp: register_driver_buf_def Let_def)
    with recorded_insert [OF i] show ?thesis by simp
  qed (use assms c2 c3 in \<open>auto simp: register_driver_buf_def Let_def intro!: recorded_fail\<close>)
qed

lemma alloc_from_driver_recorded:
  assumes "gb_alloc_from_driver api s sz = (r, po, s')"
  shows "recorded s s' r po"
proof -
  let ?s = "gb_open_device api s"
  obtain ro c where io: "ioctl_alloc api (drv ?s) sz = (ro, c)" by fastforce
  have bad: "recorded s t CUDA_ERROR_NOT_SUPPORTED None"
    if "htable t = htable s" "UvmAllocatedBytes t = UvmAllocatedBytes s" for t
    using that by (intro recorded_fail) (simp_all add: cuda_codes)
  have reg: "register_driver_buf api (?s\<lparr>drv := c\<rparr>) resp f = (r, po, s') \<Longrightarrow>
      recorded s s' r po" for resp f
    by (rule recorded_frame [OF _ _ register_recorded]) simp_all
  show ?thesis
    using assms io
    by (auto simp: gb_alloc_from_driver_def Let_def intro: bad reg split: if_splits option.splits)
qed

lemma overflow_alloc_cases:
  assumes "overflow_alloc api s ok sz = (r, po, s')"
    and "gb_alloc_uvm api s sz = (r1, p1, s1)"
    and "(if gb_legacy_driver (config s1) then gb_alloc_from_driver api s1 sz
      else (r1, None, s1)) = (r2, p2, s2)"
  shows "native_alloc api s ok sz = (r, po, s') \<or> (r, po, s') = (r1, p1, s1)
    \<or> p1 = None \<and> ((r, po, s') = (r2, p2, s2)
      \<or> p2 = None \<and> native_alloc api s2 ok sz = (r, po, s'))"
  using assms
  by (cases p1; cases p2) (auto simp: overflow_alloc_def Let_def split: if_splits)

lemma overflow_alloc_recorded:
  assumes "overflow_alloc api s ok sz = (r, po, s')"
  shows "recorded s s' r po"
proof -
  obtain r1 p1 s1 where u: "gb_alloc_uvm api s sz = (r1, p1, s1)" by (metis prod_cases3)
  note rec1 = alloc_uvm_recorded [OF u]
  obtain r2 p2 s2 where d: "(if gb_legacy_driver (config s1) then gb_alloc_from_driver api s1 sz
      else (r1, None, s1)) = (r2, p2, s2)"
    by (metis prod_cases3)
  have rec2: "recorded s s2 r2 p2" if "p1 = None"
  proof -
    from that rec1 have s1: "htable s1 = htable s" "UvmAllocatedBytes s1 = UvmAllocatedBytes s"
      "r1 \<noteq> CUDA_SUCCESS" by (simp_all add: recorded_def)
    then have "recorded s1 s2 r2 p2"
      using d alloc_from_driver_recorded [of api s1 sz r2 p2 s2]
      by (cases "gb_legacy_driver (config s1)") (auto intro: recorded_fail)
    with s1 show ?thesis by (intro recorded_frame [of s1 s])
  qed
  have fall: "recorded s s' r po"
    if "p1 = None" "p2 = None" "native_alloc api s2 ok sz = (r, po, s')"
  proof (rule recorded_frame [OF _ _ recorded_native [OF that(3)]])
    show "htable s2 = htable s" "UvmAllocatedBytes s2 = UvmAllocatedBytes s"
      using rec2 [OF that(1)] that(2) by (simp_all add: recorded_def)
  qed
  from overflow_alloc_cases [OF assms u d] rec1 rec2 fall recorded_native
  show ?thesis by blast
qed

lemma hooked_alloc_recorded:
  assumes "hooked_cuMemAlloc_v2 api s ok sz = (r, po, s')"
  shows "recorded s s' r po"
proof -
  obtain r1 p1 s1 where n: "native_alloc api s ok sz = (r1, p1, s1)" by (metis prod_cases3)
  have "recorded s s1 r1 p1" by (rule recorded_native [OF n])
  moreover have "overflow_alloc api s ok sz = (r, po, s') \<Longrightarrow> recorded s s' r po"
    by (rule overflow_alloc_recorded)
  moreover have "overflow_alloc api s1 ok sz = (r, po, s') \<Longrightarrow> recorded s s' r po"
    using native_alloc_frame [OF n]
    by (intro recorded_frame [OF _ _ overflow_alloc_recorded]) simp_all
  ultimately show ?thesis
    using assms n by (auto simp: hooked_cuMemAlloc_v2_def split: if_splits)
qed

text \<open>
  C31: a hooked allocation returns a pointer exactly when its status is \<^verbatim>\<open>CUDA_SUCCESS\<close>;
  otherwise the allocation table and the counter \<^verbatim>\<open>UvmAllocatedBytes\<close> are the ones before the
  call. When it returns a pointer, the table is unchanged or has exactly one more entry,
  which is stored under that pointer.
\<close>

theorem win_alloc_outcome:
  "case hooked_cuMemAlloc_v2 api s dptr_ok sz of (r, po, s') \<Rightarrow>
     (po = None \<longleftrightarrow> r \<noteq> CUDA_SUCCESS) \<and>
     (case po of
        None \<Rightarrow> htable s' = htable s \<and> UvmAllocatedBytes s' = UvmAllocatedBytes s
      | Some p \<Rightarrow> htable s' = htable s \<or>
          (\<exists>e. e_ptr e = p \<and> ht_put (htable s) e = (True, htable s')))"
proof -
  obtain r po s' where h: "hooked_cuMemAlloc_v2 api s dptr_ok sz = (r, po, s')"
    by (metis prod_cases3)
  show ?thesis
    using hooked_alloc_recorded [OF h] by (simp add: h recorded_def)
qed

section \<open>What is left to the CUDA driver\<close>

text \<open>
  An allocation is passed to the driver unchanged, with the driver's status, pointer and
  effect as the whole outcome, when the shim is not initialized, when the allowance is zero,
  when the size is below the threshold, and, under the adaptive policy, whenever the driver
  answers anything else than out of memory (so errors of the context reach the application).
\<close>

theorem win_alloc_left_to_driver:
  assumes "native_alloc api s dptr_ok sz = (r, po, s1)"
    and "Initialized (config s) \<longrightarrow> gb_extra_bytes (config s) = 0
      \<or> sz < ThresholdBytes (config s)
      \<or> \<not> gb_managed_first (config s) \<and> r \<noteq> CUDA_ERROR_OUT_OF_MEMORY"
  shows "hooked_cuMemAlloc_v2 api s dptr_ok sz = (r, po, s1)"
  using assms by (auto simp: hooked_cuMemAlloc_v2_def)

theorem win_alloc_left_to_driver_witness:
  "hooked_cuMemAlloc_v2 bump_api bump_shim True 0x1000
    = (CUDA_SUCCESS, Some 0x7000000000,
       bump_shim\<lparr>drv := \<lparr>next_ptr = 0x7000200000, in_use = [0x7000000000]\<rparr>\<rparr>)"
  by (rule win_alloc_left_to_driver)
    (simp_all add: native_alloc_def bump_api_def bump_take_def bump_shim_def cuda_codes)

section \<open>Freeing\<close>

text \<open>
  When the CUDA driver refuses to free a tracked managed allocation, the hooked free
  returns the driver's error, the table still records the allocation with the same entry and
  every other one, the lookup still finds it, and the accounted bytes are unchanged, so a
  later free can be tried again.
\<close>

theorem win_free_failure_keeps:
  assumes "ht_wf (htable s)" and "tombstones (htable s) < HT_TOMBSTONE_THRESHOLD"
    and "ht_key p" and "ht_lookup (htable s) p = Some e" and "e_is_managed e \<noteq> 0"
    and "real_cuMemFree_v2 api (drv s) p = (err, c)" and "err \<noteq> CUDA_SUCCESS"
    and "hooked_cuMemFree_v2 api s p = (r, s')"
  shows "r = err \<and> UvmAllocatedBytes s' = UvmAllocatedBytes s
    \<and> ht_map (htable s') = ht_map (htable s) \<and> ht_lookup (htable s') p = Some e"
proof -
  have "ht_map (htable s) p = Some e" using wt.find_exact [OF assms(1,3)] assms(4) by simp
  with wt.remove_exact [OF assms(1,3)] assms(2) obtain t where
    rm: "ht_remove (htable s) p = (Some e, t)" and t: "ht_wf t"
    by (auto simp: ht_calm_def)
  note i = wt.exact_inv [OF assms(1)]
  note h = ht_remove_Some [OF rm assms(3) i]
  obtain t2 where t2: "ht_put t e = (True, t2)"
    using ht_remove_room [OF i assms(3) rm] by blast
  have w2: "ht_wf t2"
    by (rule wt.insert_exact [OF t _ _ t2]) (use assms(3) h in simp_all)
  have same: "ht_map t2 = ht_map (htable s)"
    using wt.remove_insert [OF i assms(3) rm t2] by simp
  have "ht_insert t p (e_size e) (e_is_managed e) (e_gb_buf_id e) (e_mapped_ptr e) = (True, t2)"
    using t2 h(3) by (simp add: ht_put_def)
  moreover have "p \<noteq> 0" using assms(3) by (simp add: ht_key_def ht_sentinels)
  ultimately have "r = err" "htable s' = t2" "UvmAllocatedBytes s' = UvmAllocatedBytes s"
    using assms(5-8) rm by (auto simp: hooked_cuMemFree_v2_def gb_free_buffer_def)
  then show ?thesis
    using same wt.find_exact [OF w2 assms(3)] h(2) by simp
qed

text \<open>A driver that refuses every free, and a state with one managed allocation.\<close>

definition stubborn_api :: "bump cuda_api" where
  "stubborn_api = bump_api\<lparr>real_cuMemFree_v2 := (\<lambda>c p. (700, c))\<rparr>"

definition one_managed :: "bump shim" where
  "one_managed = bump_shim\<lparr>UvmAllocatedBytes := 0x20000000,
     htable := snd (ht_put ht_empty (man_entry 0x7000000000))\<rparr>"

lemma one_managed_table:
  "ht_put ht_empty (man_entry 0x7000000000) = (True, htable one_managed)"
  "ht_wf (htable one_managed)"
  "ht_lookup (htable one_managed) 0x7000000000 = Some (man_entry 0x7000000000)"
  "tombstones (htable one_managed) \<le> 0"
proof -
  have k: "ht_key 0x7000000000" by (simp add: ht_key_def ht_sentinels)
  obtain t where i: "ht_put ht_empty (man_entry 0x7000000000) = (True, t)"
    using bump_insert by (auto simp: ht_put_def man_entry_def)
  then show ins: "ht_put ht_empty (man_entry 0x7000000000) = (True, htable one_managed)"
    by (simp add: one_managed_def)
  have n: "ht_map ht_empty (e_ptr (man_entry 0x7000000000)) = None"
    by (simp add: ht_empty_map)
  from k have k': "ht_key (e_ptr (man_entry 0x7000000000))" by (simp add: man_entry_def)
  from wt.insert_exact [OF ht_empty_wf k' n ins] show w: "ht_wf (htable one_managed)" .
  from wt.insert_done [OF wt.exact_inv [OF ht_empty_wf] k' n ins] wt.find_exact [OF w k]
  show "ht_lookup (htable one_managed) 0x7000000000 = Some (man_entry 0x7000000000)"
    by (simp add: man_entry_def)
  from ht_put_tombstones [OF ins] show "tombstones (htable one_managed) \<le> 0"
    by (simp add: ht_empty_def)
qed

theorem win_free_failure_keeps_witness:
  "fst (hooked_cuMemFree_v2 stubborn_api one_managed 0x7000000000) = 700
    \<and> ht_lookup (htable (snd (hooked_cuMemFree_v2 stubborn_api one_managed 0x7000000000)))
        0x7000000000 = Some (man_entry 0x7000000000)"
  using win_free_failure_keeps [OF one_managed_table(2) _ _ one_managed_table(3),
      where api = stubborn_api and err = 700 and c = "drv one_managed"
      and r = "fst (hooked_cuMemFree_v2 stubborn_api one_managed 0x7000000000)"
      and s' = "snd (hooked_cuMemFree_v2 stubborn_api one_managed 0x7000000000)"]
    one_managed_table(4)
  by (simp add: HT_TOMBSTONE_THRESHOLD_def HT_SIZE_val ht_key_def ht_sentinels man_entry_def
      stubborn_api_def cuda_codes)

text \<open>
  A free of the device pointer 1 is taken for a free of a tombstone. When the home slot
  of that value holds a tombstone (and the table is far from its reclaiming threshold), the
  hook answers \<^verbatim>\<open>CUDA_SUCCESS\<close>, never asks the CUDA driver, and counts one tombstone more
  although the table has none more.
\<close>

theorem win_free_of_one:
  assumes "slots (htable s) (ht_home HT_TOMBSTONE) = ht_grave"
    and "tombstones (htable s) < HT_TOMBSTONE_THRESHOLD"
  shows "hooked_cuMemFree_v2 api s HT_TOMBSTONE
    = (CUDA_SUCCESS, s\<lparr>htable := (htable s)\<lparr>tombstones := tombstones (htable s) + 1\<rparr>\<rparr>)"
proof -
  have sl: "(slots (htable s))(ht_home HT_TOMBSTONE := ht_grave) = slots (htable s)"
    using assms(1) by (metis fun_upd_triv)
  have "for_until HT_SIZE (\<lambda>i. let idx = ht_slot (ht_hash HT_TOMBSTONE) i;
             e = slots (htable s) idx in
             if e_ptr e = HT_EMPTY then Some None
             else if e_ptr e = HT_TOMBSTONE then Some (Some idx) else None) 0
      = Some (Some (ht_home HT_TOMBSTONE))"
    using assms(1) by (simp add: for_until_pos Let_def ht_grave_def ht_sentinels)
  then have "ht_remove (htable s) HT_TOMBSTONE
      = (Some ht_grave, (htable s)\<lparr>tombstones := tombstones (htable s) + 1\<rparr>)"
    using assms sl by (simp add: ht_remove_def ht_grave_def Let_def)
  then show ?thesis
    by (simp add: hooked_cuMemFree_v2_def gb_free_buffer_def gb_free_driver_buf_def ht_grave_def
        ht_sentinels)
qed

theorem win_free_of_one_witness:
  "hooked_cuMemFree_v2 stubborn_api (bump_shim\<lparr>htable := \<lparr>slots = (\<lambda>_. ht_grave),
      tombstones = 131\<rparr>\<rparr>) HT_TOMBSTONE
    = (CUDA_SUCCESS, bump_shim\<lparr>htable := \<lparr>slots = (\<lambda>_. ht_grave), tombstones = 132\<rparr>\<rparr>)"
  using win_free_of_one [of "bump_shim\<lparr>htable := \<lparr>slots = (\<lambda>_. ht_grave), tombstones = 131\<rparr>\<rparr>"
      stubborn_api]
  by (simp add: HT_TOMBSTONE_THRESHOLD_def HT_SIZE_val)

section \<open>The status of an exhausted adaptive allocation\<close>

text \<open>
  Under the adaptive policy with the legacy driver enabled, an allocation for which both
  native and managed memory are exhausted and the GreenBoost device cannot be opened returns
  \<^verbatim>\<open>CUDA_ERROR_NOT_SUPPORTED\<close> (801) and no pointer: the application does not see the
  out-of-memory status of either allocation, and the native call is not tried again.
\<close>

theorem win_adaptive_oom_status:
  assumes "Initialized (config s)" and "gb_extra_bytes (config s) \<noteq> 0"
    and "ThresholdBytes (config s) \<le> sz"
    and "\<not> gb_managed_first (config s)" and "gb_legacy_driver (config s)"
    and "\<not> DeviceHandle s" and "\<And>c. \<not> open_greenboost api c"
    and "real_cuMemAlloc_v2 api (drv s) True sz = (CUDA_ERROR_OUT_OF_MEMORY, p, c1)"
    and "real_cuCtxGetDevice api = Some (\<lambda>c. (CUDA_SUCCESS, dev))"
    and "real_cuDeviceGetAttribute api = Some (\<lambda>c a d. (CUDA_SUCCESS, 1))"
    and "real_cuMemAllocManaged_drv api = Some managed"
    and "managed c1 sz = (CUDA_ERROR_OUT_OF_MEMORY, q, c2)"
  shows "hooked_cuMemAlloc_v2 api s True sz
    = (CUDA_ERROR_NOT_SUPPORTED, None, s\<lparr>drv := c2\<rparr>)"
proof -
  have nat: "native_alloc api s True sz = (CUDA_ERROR_OUT_OF_MEMORY, None, s\<lparr>drv := c1\<rparr>)"
    using assms(8) by (simp add: native_alloc_def cuda_codes)
  have "gb_alloc_uvm api (s\<lparr>drv := c1\<rparr>) sz = (CUDA_ERROR_OUT_OF_MEMORY, None, s\<lparr>drv := c2\<rparr>)"
    using assms(11,12) by (simp add: gb_alloc_uvm_def cuda_codes Let_def)
  moreover have "gb_open_device api (s\<lparr>drv := c2\<rparr>) = s\<lparr>drv := c2\<rparr>"
    using assms(6,7) by (simp add: gb_open_device_def)
  then have "gb_alloc_from_driver api (s\<lparr>drv := c2\<rparr>) sz
      = (CUDA_ERROR_NOT_SUPPORTED, None, s\<lparr>drv := c2\<rparr>)"
    using assms(6) by (simp add: gb_alloc_from_driver_def Let_def split: prod.splits)
  ultimately have "overflow_alloc api (s\<lparr>drv := c1\<rparr>) True sz
      = (CUDA_ERROR_NOT_SUPPORTED, None, s\<lparr>drv := c2\<rparr>)"
    using assms(2,4,5,9-11) by (simp add: overflow_alloc_def gb_extra_for_device_def Let_def)
  then show ?thesis
    using assms(1,2,4) nat leD [OF assms(3)] by (simp add: hooked_cuMemAlloc_v2_def)
qed

definition exhausted_api :: "bump cuda_api" where
  "exhausted_api = bump_api\<lparr>real_cuMemAlloc_v2 := (\<lambda>c ok sz. (CUDA_ERROR_OUT_OF_MEMORY, 0, c)),
     real_cuMemAllocManaged_drv := Some (\<lambda>c sz. (CUDA_ERROR_OUT_OF_MEMORY, 0, c)),
     open_greenboost := (\<lambda>c. False)\<rparr>"

definition adaptive_shim :: "bump shim" where
  "adaptive_shim = bump_shim\<lparr>config := (config bump_shim)\<lparr>gb_managed_first := False,
     gb_legacy_driver := True\<rparr>\<rparr>"

theorem win_adaptive_oom_status_witness:
  "hooked_cuMemAlloc_v2 exhausted_api adaptive_shim True 0x8000000
    = (CUDA_ERROR_NOT_SUPPORTED, None, adaptive_shim\<lparr>drv := drv adaptive_shim\<rparr>)"
  by (rule win_adaptive_oom_status)
    (simp_all add: exhausted_api_def adaptive_shim_def bump_shim_def bump_api_def)

section \<open>Reported capacity\<close>

text \<open>How much of the allowance the report adds to the free memory.\<close>

definition report_room :: "'c shim \<Rightarrow> u64 option \<Rightarrow> u64 \<Rightarrow> u64" where
  "report_room s avail extra =
     (let available = (if UvmAllocatedBytes s < extra then extra - UvmAllocatedBytes s else 0) in
      case avail of None \<Rightarrow> 0
      | Some phys \<Rightarrow>
        (let headroom = (if gb_reserve_bytes (config s) < phys then phys - gb_reserve_bytes (config s) else 0)
         in if headroom < available then headroom else available))"

lemma report_room_bounds:
  "unat (report_room s avail extra) \<le> unat extra - unat (UvmAllocatedBytes s)"
  "unat (report_room s avail extra) \<le> (case avail of None \<Rightarrow> 0
     | Some phys \<Rightarrow> unat phys - unat (gb_reserve_bytes (config s)))"
proof -
  have sub: "unat (if b < a then a - b else 0) = unat a - unat b" for a b :: u64
    by (auto simp: unat_sub word_le_nat_alt word_less_nat_alt)
  note r = report_room_def Let_def sub unat_sub word_le_nat_alt word_less_nat_alt
  show "unat (report_room s avail extra) \<le> unat extra - unat (UvmAllocatedBytes s)"
    by (auto simp: r split: option.splits)
  show "unat (report_room s avail extra) \<le> (case avail of None \<Rightarrow> 0
     | Some phys \<Rightarrow> unat phys - unat (gb_reserve_bytes (config s)))"
    by (auto simp: r split: option.splits)
qed

lemma mem_info_cases:
  assumes "hooked_cuMemGetInfo api s avail = (r, f, t)"
    and "real_cuMemGetInfo api (drv s) = (r, real_free, real_total)"
  shows "(f, t) = (real_free, real_total)
    \<or> (\<exists>x\<in>{0, gb_extra_bytes (config s)}. t = real_total + x
        \<and> f = (if t < real_free + report_room s avail x then t else real_free + report_room s avail x))"
proof -
  define D where "D = (if r = CUDA_SUCCESS \<and> Initialized (config s)
            then (case real_cuCtxGetDevice api of
                None \<Rightarrow> None
              | Some f \<Rightarrow> (let (r, d) = f (drv s) in if r = CUDA_SUCCESS then Some d else None))
            else None)"
  have eq: "hooked_cuMemGetInfo api s avail = (case D of None \<Rightarrow> (r, real_free, real_total)
      | Some d \<Rightarrow> (let x = gb_extra_for_device api s d; total' = real_total + x;
          free' = real_free + report_room s avail x
        in (r, if total' < free' then total' else free', total')))"
    unfolding hooked_cuMemGetInfo_def assms(2) Let_def prod.case D_def report_room_def by (rule refl)
  have ext: "gb_extra_for_device api s d \<in> {0, gb_extra_bytes (config s)}" for d
    by (auto simp: gb_extra_for_device_def Let_def split: option.splits prod.splits)
  show ?thesis
  proof (cases D)
    case None
    with assms(1) eq show ?thesis by simp
  next
    case (Some d)
    with assms(1) eq ext [of d] show ?thesis
      by (intro disjI2 bexI [of _ "gb_extra_for_device api s d"]) (auto simp: Let_def)
  qed
qed

text \<open>
  A successful capacity query reports at least the driver's total, never more free than
  total memory, and free memory that exceeds the driver's by at most what is left of the
  allowance and by at most the physical memory above the reserve (nothing when the memory
  query of Windows fails). The bounds hold without any assumption on overflow.
\<close>

theorem win_mem_info_bounds:
  assumes "hooked_cuMemGetInfo api s avail = (r, f, t)"
    and "real_cuMemGetInfo api (drv s) = (r, real_free, real_total)"
    and "real_free \<le> real_total"
  shows "f \<le> t \<and> (t = real_total \<or> t = real_total + gb_extra_bytes (config s))
    \<and> unat f \<le> unat real_free
        + (unat (gb_extra_bytes (config s)) - unat (UvmAllocatedBytes s))
    \<and> unat f \<le> unat real_free + (case avail of None \<Rightarrow> 0
        | Some phys \<Rightarrow> unat phys - unat (gb_reserve_bytes (config s)))"
proof -
  from mem_info_cases [OF assms(1,2)] show ?thesis
  proof (elim disjE bexE conjE)
    assume "(f, t) = (real_free, real_total)"
    with assms(3) show ?thesis by simp
  next
    fix x
    assume x: "x \<in> {0, gb_extra_bytes (config s)}" and t: "t = real_total + x"
      and f: "f = (if t < real_free + report_room s avail x then t else real_free + report_room s avail x)"
    have "unat f \<le> unat (real_free + report_room s avail x)" using f by (simp add: word_less_nat_alt)
    also have "\<dots> \<le> unat real_free + unat (report_room s avail x)" by (simp add: unat_word_ariths)
    finally have *: "unat f \<le> unat real_free + unat (report_room s avail x)" .
    have "unat f \<le> unat real_free + (unat (gb_extra_bytes (config s)) - unat (UvmAllocatedBytes s))"
      using * report_room_bounds(1) [of s avail x] x by auto
    moreover have "unat f \<le> unat real_free + (case avail of None \<Rightarrow> 0
        | Some phys \<Rightarrow> unat phys - unat (gb_reserve_bytes (config s)))"
      using * report_room_bounds(2) [of s avail x] by linarith
    moreover have "f \<le> t" using f by (simp add: not_less)
    ultimately show ?thesis using t x by auto
  qed
qed

theorem win_mem_info_bounds_witness:
  "let (r, f, t) = hooked_cuMemGetInfo bump_api bump_shim (Some 0x90000000)
   in f \<le> t \<and> unat f \<le> 0x100000000 + 0x10000000"
proof -
  obtain r f t where h: "hooked_cuMemGetInfo bump_api bump_shim (Some 0x90000000) = (r, f, t)"
    by (metis prod_cases3)
  have r: "r = CUDA_SUCCESS"
    using h by (simp add: hooked_cuMemGetInfo_def bump_api_def bump_shim_def Let_def)
  show ?thesis
    using win_mem_info_bounds [OF h [unfolded r], of "0x100000000" "0x200000000"]
    by (simp add: h) (simp add: bump_api_def bump_shim_def)
qed

end
