(* ===== verification/C_Numbers.thy ===== *)
theory C_Numbers
  imports GB_Prelude
begin

text \<open>
  Numbers in text, as the C library reads them: the parser that the configuration of the
  shims and of the paged experts rests on, and what it makes of the decimal text of a number.
\<close>

definition is_space :: "char \<Rightarrow> bool" where
  "is_space c \<longleftrightarrow> of_char c = (32::nat) \<or> 9 \<le> (of_char c :: nat) \<and> (of_char c :: nat) \<le> 13"

definition is_digit :: "char \<Rightarrow> bool" where
  "is_digit c \<longleftrightarrow> 48 \<le> (of_char c :: nat) \<and> (of_char c :: nat) \<le> 57"

definition digit_val :: "char \<Rightarrow> nat" where
  "digit_val c = of_char c - 48"

primrec scan_digits :: "nat \<Rightarrow> string \<Rightarrow> nat \<times> string" where
  "scan_digits v [] = (v, [])"
| "scan_digits v (c # cs) =
     (if is_digit c then scan_digits (10 * v + digit_val c) cs else (v, c # cs))"

text \<open>
  \<^verbatim>\<open>_strtoui64(text, &end, 10)\<close> of the C library: leading white space, an optional sign,
  digits. Too large a number gives \<^verbatim>\<open>ULLONG_MAX\<close>; a text with no digits is not consumed.
\<close>

definition strtoui64 :: "string \<Rightarrow> u64 \<times> string" where
  "strtoui64 txt =
     (let rest = dropWhile is_space txt;
          neg = (rest \<noteq> [] \<and> hd rest = CHR ''-'');
          body = (if rest \<noteq> [] \<and> (hd rest = CHR ''-'' \<or> hd rest = CHR ''+'') then tl rest
            else rest) in
      if body = [] \<or> \<not> is_digit (hd body) then (0, txt)
      else let (v, end) = scan_digits 0 body in
        (if 2 ^ 64 \<le> v then - 1 else if neg then - word_of_nat v else word_of_nat v, end))"

text \<open>The decimal text of a number, to state what the parser accepts.\<close>

fun decimal :: "nat \<Rightarrow> string" where
  "decimal n = (if n < 10 then [char_of (48 + n)]
     else decimal (n div 10) @ [char_of (48 + n mod 10)])"

declare decimal.simps [simp del]

lemma digit_char: "d < 10 \<Longrightarrow> is_digit (char_of (48 + d)) \<and> digit_val (char_of (48 + d)) = d"
  by (simp add: is_digit_def digit_val_def)

lemma scan_digits_append:
  "list_all is_digit xs \<Longrightarrow>
    scan_digits v (xs @ ys) = scan_digits (foldl (\<lambda>v c. 10 * v + digit_val c) v xs) ys"
  by (induction xs arbitrary: v) simp_all

lemma decimal_digits: "list_all is_digit (decimal n) \<and> decimal n \<noteq> []
    \<and> foldl (\<lambda>v c. 10 * v + digit_val c) 0 (decimal n) = n"
proof (induction n rule: decimal.induct)
  case (1 n)
  show ?case
  proof (cases "n < 10")
    case True
    with digit_char [of n] show ?thesis by (simp add: decimal.simps)
  next
    case False
    with 1 digit_char [of "n mod 10"] show ?thesis by (subst (1 2 3) decimal.simps) simp
  qed
qed

lemma scan_decimal: "scan_digits 0 (decimal n) = (n, [])"
  using scan_digits_append [of "decimal n" 0 "[]"] decimal_digits [of n] by simp

lemma strtoui64_decimal:
  "strtoui64 (decimal n) = (if 2 ^ 64 \<le> n then - 1 else word_of_nat n, [])"
proof -
  obtain c cs where d: "decimal n = c # cs" using decimal_digits [of n] by (cases "decimal n") auto
  with decimal_digits [of n] have c: "is_digit c" by simp
  then have "\<not> is_space c" "c \<noteq> CHR ''-''" "c \<noteq> CHR ''+''"
    by (auto simp: is_digit_def is_space_def)
  with c d scan_decimal [of n] show ?thesis by (simp add: strtoui64_def Let_def)
qed

end
