(* ===== verification/Win_Shim_Config.thy ===== *)
theory Win_Shim_Config
  imports Win_Shim_Policy C_Numbers
begin

text \<open>
  The life of the Windows shim in a process: its configuration from the environment and the
  registry, the redirection of the entry points that CUDA runtimes look up, its start and its
  shutdown.
\<close>

section \<open>Size limits from the environment\<close>

definition gb_env_mb :: "(string \<Rightarrow> string option) \<Rightarrow> string \<Rightarrow> u64 \<Rightarrow> u64" where
  "gb_env_mb getenv name fallback =
     (case getenv name of
        None \<Rightarrow> fallback
      | Some txt \<Rightarrow>
        (let (val, end) = strtoui64 txt in
         if txt = [] \<or> hd txt = CHR ''-'' \<or> end \<noteq> [] \<or> drop_bit 20 (- 1) < val
         then 0 else push_bit 20 val))"

lemma mib_limit: "(drop_bit 20 (- 1) :: u64) = 0xFFFFFFFFFFF"
  by (simp add: drop_bit_eq_div)

text \<open>
  The decimal text of a number of mebibytes is read back as that many bytes when it is
  below \<open>2 ^ 44\<close>, and as no allowance at all when it is not (the product would overflow).
\<close>

theorem win_env_mb_decimal:
  "gb_env_mb (\<lambda>x. if x = name then Some (decimal n) else None) name fallback
    = (if n < 2 ^ 44 then word_of_nat (n * 2 ^ 20) else 0)"
proof -
  have ne: "decimal n \<noteq> []" and nd: "hd (decimal n) \<noteq> CHR ''-''"
    using decimal_digits [of n] by (cases "decimal n"; auto simp: is_digit_def)+
  have big: "2 ^ 44 \<le> n \<Longrightarrow> (0xFFFFFFFFFFF::u64) < (if 2 ^ 64 \<le> n then - 1 else word_of_nat n)"
    by (auto simp: word_less_nat_alt unsigned_of_nat take_bit_nat_eq_self
        unsigned_minus_1_eq_mask mask_eq_exp_minus_1)
  have small: "n < 2 ^ 44 \<Longrightarrow> \<not> (0xFFFFFFFFFFF::u64) < word_of_nat n"
    by (simp add: word_less_nat_alt unsigned_of_nat take_bit_nat_eq_self)
  have "push_bit 20 (word_of_nat n :: u64) = word_of_nat (n * 2 ^ 20)"
    by (simp add: push_bit_eq_mult)
  with ne nd big small show ?thesis
    unfolding gb_env_mb_def mib_limit
    by (cases "n < 2 ^ 44") (simp_all add: strtoui64_decimal split: if_splits)
qed

section \<open>The configuration\<close>

text \<open>
  \<open>reg\<close> gives the values of a registry key, or \<open>None\<close> when it cannot be opened; a value
  carries whether its type is \<^verbatim>\<open>REG_DWORD\<close>.
\<close>

datatype reg_path =
    Service_Parameters    \<comment> \<open>the parameters key of the GreenBoost service\<close>
  | Software_GreenBoost   \<comment> \<open>the fallback under \<^verbatim>\<open>SOFTWARE\<close>\<close>

type_synonym reg_key = "string \<Rightarrow> (bool \<times> u32) option"

definition reg_dword :: "reg_key option \<Rightarrow> string \<Rightarrow> u32 option" where
  "reg_dword key name = (case key of
     None \<Rightarrow> None
   | Some k \<Rightarrow> (case k name of Some (True, v) \<Rightarrow> Some v | _ \<Rightarrow> None))"

definition config_key :: "(reg_path \<Rightarrow> reg_key option) \<Rightarrow> reg_key option" where
  "config_key reg =
     (case reg Service_Parameters of Some k \<Rightarrow> Some k | None \<Rightarrow> reg Software_GreenBoost)"

definition gb_read_config ::
  "(string \<Rightarrow> string option) \<Rightarrow> (reg_path \<Rightarrow> reg_key option) \<Rightarrow> u64 option
    \<Rightarrow> shim_config \<Rightarrow> shim_config" where
  "gb_read_config getenv reg avail_phys c =
     (let reserve = gb_env_mb getenv ''GREENBOOST_RESERVE_MB'' (push_bit 20 8192);
          key = config_key reg;
          requested = (case reg_dword key ''VirtualVramGb'' of
              Some v \<Rightarrow> gib v | None \<Rightarrow> - 1);
          threshold_mb = (case reg_dword key ''ThresholdMb'' of
              Some v \<Rightarrow> (if v \<noteq> 0 then v else 256) | None \<Rightarrow> 256);
          debug_reg = (case reg_dword key ''DebugMode'' of Some v \<Rightarrow> v \<noteq> 0 | None \<Rightarrow> False);
          debug = (case getenv ''GREENBOOST_DEBUG'' of
              Some d \<Rightarrow> d \<noteq> [] \<and> hd d = CHR ''1'' | None \<Rightarrow> debug_reg);
          managed = (getenv ''GREENBOOST_ALLOC_POLICY'' = Some ''managed'');
          legacy = (getenv ''GREENBOOST_LEGACY_DRIVER'' = Some ''1'');
          threshold0 = gb_env_mb getenv ''GREENBOOST_THRESHOLD_MB''
              (push_bit 20 (ucast threshold_mb));
          threshold = (if threshold0 = 0 then push_bit 20 256 else threshold0);
          (available, requested1) = (case avail_phys of
              Some phys \<Rightarrow> (if reserve < phys then phys - reserve else 0,
                            if requested = - 1 then phys div 2 else requested)
            | None \<Rightarrow> (0, 0));
          requested2 = gb_env_mb getenv ''GREENBOOST_EXTRA_MB'' requested1;
          extra = (if requested2 < available then requested2 else available)
      in c\<lparr>ThresholdMb := ucast (drop_bit 20 threshold), ThresholdBytes := threshold,
           DebugMode := debug, gb_extra_bytes := extra AND NOT (push_bit 20 1 - 1),
           gb_reserve_bytes := reserve, gb_managed_first := managed,
           gb_legacy_driver := legacy\<rparr>)"

text \<open>
  C34: whatever the environment, the registry and the memory query answer, the intercepted
  sizes have a positive threshold, and the RAM allowance is a whole number of mebibytes that
  fits into the available physical memory above the reserve (so it is zero when there is
  none, or when the memory query fails).
\<close>

theorem win_config_limits:
  "ThresholdBytes (gb_read_config getenv reg avail_phys c) \<noteq> 0
    \<and> 2 ^ 20 dvd unat (gb_extra_bytes (gb_read_config getenv reg avail_phys c))
    \<and> unat (gb_extra_bytes (gb_read_config getenv reg avail_phys c))
        \<le> (case avail_phys of None \<Rightarrow> 0
           | Some phys \<Rightarrow> unat phys
               - unat (gb_reserve_bytes (gb_read_config getenv reg avail_phys c)))"
proof -
  let ?c = "gb_read_config getenv reg avail_phys c"
  obtain x where x: "gb_extra_bytes ?c = x AND NOT (mask 20)"
    and le: "x \<le> (case avail_phys of None \<Rightarrow> 0 | Some phys \<Rightarrow>
      if gb_reserve_bytes ?c < phys then phys - gb_reserve_bytes ?c else 0)"
  proof -
    have m: "(push_bit 20 1 - 1 :: u64) = mask 20" by (simp add: mask_eq_exp_minus_1 push_bit_eq_mult)
    show thesis
      by (cases avail_phys; rule that; unfold gb_read_config_def Let_def m)
        (auto simp: not_less)
  qed
  have "unat x div 2 ^ 20 * 2 ^ 20 \<le> unat x" by (rule div_times_less_eq_dividend)
  moreover have "unat x \<le> (case avail_phys of None \<Rightarrow> 0
           | Some phys \<Rightarrow> unat phys - unat (gb_reserve_bytes ?c))"
    using le by (auto simp: word_le_nat_alt word_less_nat_alt unat_sub split: option.splits if_splits)
  moreover have "ThresholdBytes ?c \<noteq> 0"
    by (simp add: gb_read_config_def Let_def split: option.splits)
  ultimately show ?thesis
    by (simp add: x and_not_mask_nat del: div_times_less_eq_dividend)
qed

section \<open>Redirected entry points\<close>

text \<open>
  A code pointer that CUDA hands out is one of its own (\<open>Native\<close>) or one of the hooks. The
  out parameter \<open>fn\<close> may be a null pointer (\<open>None\<close>) or point to a null pointer (\<open>Some None\<close>).
\<close>

datatype hook = Hooked_cuGetProcAddress | Hooked_cuGetProcAddress_v2 | Hooked_cuMemAlloc_v2
  | Hooked_cuMemFree_v2 | Hooked_cuMemGetInfo | Hooked_cuDeviceTotalMem_v2

datatype code_ptr = Native u64 | Hook hook

definition gb_redirect_entry ::
  "string \<Rightarrow> code_ptr option option \<Rightarrow> int \<Rightarrow> code_ptr option option" where
  "gb_redirect_entry symbol fn version =
     (if fn = None \<or> fn = Some None \<or> version < 3020 then fn
      else if symbol = ''cuGetProcAddress'' then
        Some (Some (Hook (if 12000 \<le> version then Hooked_cuGetProcAddress_v2
                          else Hooked_cuGetProcAddress)))
      else if symbol = ''cuMemAlloc'' then Some (Some (Hook Hooked_cuMemAlloc_v2))
      else if symbol = ''cuMemFree'' then Some (Some (Hook Hooked_cuMemFree_v2))
      else if symbol = ''cuMemGetInfo'' then Some (Some (Hook Hooked_cuMemGetInfo))
      else if symbol = ''cuDeviceTotalMem'' then Some (Some (Hook Hooked_cuDeviceTotalMem_v2))
      else fn)"

text \<open>
  The driver's resolvers: status code and entry, and for the second version the symbol status
  that it writes when its last argument is not null.
\<close>

record resolvers =
  real_cuGetProcAddress :: "string \<Rightarrow> int \<Rightarrow> u64 \<Rightarrow> int \<times> code_ptr option"
  real_cuGetProcAddress_v2 :: "string \<Rightarrow> int \<Rightarrow> u64 \<Rightarrow> int \<times> code_ptr option \<times> int"

definition hooked_cuGetProcAddress ::
  "resolvers \<Rightarrow> string \<Rightarrow> bool \<Rightarrow> int \<Rightarrow> u64 \<Rightarrow> int \<times> code_ptr option option" where
  "hooked_cuGetProcAddress rs symbol fn_ok version flags =
     (case real_cuGetProcAddress rs symbol version flags of (result, entry) \<Rightarrow>
        let fn = (if fn_ok then Some entry else None) in
        (result, if result = CUDA_SUCCESS then gb_redirect_entry symbol fn version else fn))"

definition hooked_cuGetProcAddress_v2 ::
  "resolvers \<Rightarrow> string \<Rightarrow> bool \<Rightarrow> int \<Rightarrow> u64 \<Rightarrow> bool \<Rightarrow> int \<times> code_ptr option option" where
  "hooked_cuGetProcAddress_v2 rs symbol fn_ok version flags status_ok =
     (case real_cuGetProcAddress_v2 rs symbol version flags of (result, entry, status) \<Rightarrow>
        let fn = (if fn_ok then Some entry else None) in
        (result, if result = CUDA_SUCCESS \<and> (\<not> status_ok \<or> status = 0)
                 then gb_redirect_entry symbol fn version else fn))"

text \<open>
  An application that resolves its entry points by a chain of lookups: each is made through
  the resolver that the previous one returned. A chain that leaves the hooks gives \<open>None\<close>.
\<close>

definition lookup_through :: "resolvers \<Rightarrow> string \<times> int \<Rightarrow> code_ptr option \<Rightarrow> code_ptr option" where
  "lookup_through rs q via = (case q of (symbol, version) \<Rightarrow>
     (case via of
        Some (Hook Hooked_cuGetProcAddress) \<Rightarrow>
          Option.bind (snd (hooked_cuGetProcAddress rs symbol True version 0)) id
      | Some (Hook Hooked_cuGetProcAddress_v2) \<Rightarrow>
          Option.bind (snd (hooked_cuGetProcAddress_v2 rs symbol True version 0 True)) id
      | _ \<Rightarrow> None))"

definition hook_of :: "string \<Rightarrow> hook option" where
  "hook_of = map_of [(''cuMemAlloc'', Hooked_cuMemAlloc_v2), (''cuMemFree'', Hooked_cuMemFree_v2),
     (''cuMemGetInfo'', Hooked_cuMemGetInfo), (''cuDeviceTotalMem'', Hooked_cuDeviceTotalMem_v2)]"

definition resolving :: "resolvers \<Rightarrow> bool" where
  "resolving rs \<longleftrightarrow> (\<forall>symbol version flags.
     (\<exists>e. real_cuGetProcAddress rs symbol version flags = (CUDA_SUCCESS, Some e)) \<and>
     (\<exists>e. real_cuGetProcAddress_v2 rs symbol version flags = (CUDA_SUCCESS, Some e, 0)))"

lemma resolving_lookup:
  assumes "resolving rs"
    and "via \<in> {Some (Hook Hooked_cuGetProcAddress), Some (Hook Hooked_cuGetProcAddress_v2)}"
  shows "\<exists>e. lookup_through rs (symbol, version) via
    = Option.bind (gb_redirect_entry symbol (Some (Some e)) version) id"
proof -
  from assms(1) obtain a b where
    "real_cuGetProcAddress rs symbol version 0 = (CUDA_SUCCESS, Some a)"
    "real_cuGetProcAddress_v2 rs symbol version 0 = (CUDA_SUCCESS, Some b, 0)"
    unfolding resolving_def by blast
  with assms(2) show ?thesis
    by (auto simp: lookup_through_def hooked_cuGetProcAddress_def hooked_cuGetProcAddress_v2_def)
qed

lemma bootstrap_chain:
  assumes "resolving rs" and "\<forall>v\<in>set vs. 3020 \<le> v"
  shows "via \<in> {Some (Hook Hooked_cuGetProcAddress), Some (Hook Hooked_cuGetProcAddress_v2)} \<Longrightarrow>
    fold (\<lambda>v. lookup_through rs (''cuGetProcAddress'', v)) vs via
      \<in> {Some (Hook Hooked_cuGetProcAddress), Some (Hook Hooked_cuGetProcAddress_v2)}"
  using assms(2)
proof (induction vs arbitrary: via)
  case (Cons v vs)
  obtain e where "lookup_through rs (''cuGetProcAddress'', v) via
      = Option.bind (gb_redirect_entry ''cuGetProcAddress'' (Some (Some e)) v) id"
    using resolving_lookup [OF assms(1) Cons.prems(1)] by blast
  with Cons.prems(2) have "lookup_through rs (''cuGetProcAddress'', v) via
      \<in> {Some (Hook Hooked_cuGetProcAddress), Some (Hook Hooked_cuGetProcAddress_v2)}"
    by (simp add: gb_redirect_entry_def)
  from Cons.IH [OF this] Cons.prems(2) show ?case by simp
qed simp



section \<open>Start and shutdown\<close>

record 'c shim_process =
  shim_of :: "'c shim"
  attached :: "string list"
  pressure_event :: bool
  prefetch_worker_thread :: bool

definition hooked_names :: "string list" where
  "hooked_names = [''cuGetProcAddress'', ''cuGetProcAddress_v2'', ''cuMemAlloc_v2'',
     ''cuMemFree_v2'', ''cuDeviceTotalMem_v2'', ''cuMemGetInfo'']"

definition critical_names :: "string list" where
  "critical_names = [''cuMemAlloc_v2'', ''cuMemFree_v2'', ''cuMemGetInfo'',
     ''cuDeviceTotalMem_v2'', ''cuCtxGetDevice'']"

text \<open>\<open>resolved\<close> are the driver functions that \<^verbatim>\<open>gb_resolve_symbols\<close> finds.\<close>

definition gb_install_hooks :: "string set \<Rightarrow> string list" where
  "gb_install_hooks resolved = [''CreateProcessA'', ''CreateProcessW'']
     @ filter (\<lambda>n. n \<in> resolved) hooked_names"

definition gb_shim_init ::
  "(string \<Rightarrow> string option) \<Rightarrow> (reg_path \<Rightarrow> reg_key option) \<Rightarrow> u64 option \<Rightarrow> string set
    \<Rightarrow> bool \<Rightarrow> bool \<Rightarrow> bool \<Rightarrow> 'c shim_process \<Rightarrow> 'c shim_process" where
  "gb_shim_init getenv reg avail_phys resolved has_pvm thread_ok event_ok pr =
     (let s = shim_of pr;
          cfg = gb_read_config getenv reg avail_phys (config s);
          s1 = s\<lparr>config := cfg, DeviceHandle := False, UvmAllocatedBytes := 0,
                 htable := (htable s)\<lparr>slots := slots ht_empty\<rparr>,
                 prefetch_env := (prefetch_env s)\<lparr>GpuDevice := 0,
                   has_cuMemPrefetchAsync := ''cuMemPrefetchAsync'' \<in> resolved,
                   has_PrefetchVirtualMemory := has_pvm\<rparr>\<rparr>
      in if \<not> list_all (\<lambda>n. n \<in> resolved) critical_names
         then pr\<lparr>shim_of := s1\<lparr>config := cfg\<lparr>Initialized := False\<rparr>\<rparr>\<rparr>
         else pr\<lparr>shim_of := s1\<lparr>config := cfg\<lparr>Initialized := True\<rparr>,
                   prefetch_env := (prefetch_env s1)\<lparr>prefetch_running := gb_legacy_driver cfg\<rparr>\<rparr>,
                 prefetch_worker_thread := (if gb_legacy_driver cfg then thread_ok
                   else prefetch_worker_thread pr),
                 pressure_event := event_ok,
                 attached := gb_install_hooks resolved\<rparr>)"

text \<open>The loop over the slots in \<^verbatim>\<open>gb_shim_cleanup\<close>, which returns leaked allocations.\<close>

definition cleanup_slot :: "'c cuda_api \<Rightarrow> nat \<Rightarrow> 'c shim \<Rightarrow> 'c shim" where
  "cleanup_slot api i s =
     (let e = slots (htable s) i in
      if e_ptr e \<noteq> HT_EMPTY \<and> e_ptr e \<noteq> HT_TOMBSTONE then
        if e_is_managed e \<noteq> 0 then s\<lparr>drv := snd (real_cuMemFree_v2 api (drv s) (e_ptr e))\<rparr>
        else
          let s1 = (case (if e_mapped_ptr e \<noteq> 0 then real_cuMemHostUnregister api else None) of
              None \<Rightarrow> s | Some unreg \<Rightarrow> s\<lparr>drv := snd (unreg (drv s) (e_mapped_ptr e))\<rparr>)
          in gb_free_driver_buf api s1 (e_gb_buf_id e)
      else s)"

definition gb_shim_cleanup :: "'c cuda_api \<Rightarrow> 'c shim_process \<Rightarrow> 'c shim_process" where
  "gb_shim_cleanup api pr =
     (let s = (shim_of pr)\<lparr>config := (config (shim_of pr))\<lparr>Initialized := False\<rparr>\<rparr>;
          s1 = (if prefetch_worker_thread pr
                then s\<lparr>prefetch_env := (prefetch_env s)\<lparr>prefetch_running := False\<rparr>\<rparr> else s);
          s2 = gb_close_device (fold (cleanup_slot api) [0..<HT_SIZE] s1)
      in pr\<lparr>shim_of := s2, attached := [], prefetch_worker_thread := False,
            pressure_event := False\<rparr>)"

lemma cleanup_slot_frame [simp]: "htable (cleanup_slot api i s) = htable s"
  by (simp add: cleanup_slot_def Let_def split: option.splits)

lemma driver_buf_live:
  "cuda_contract api live devptr \<Longrightarrow> live (drv (gb_free_driver_buf api s b)) = live (drv s)"
  by (simp add: gb_free_driver_buf_def contract_frames(3))

lemma cleanup_slot_live:
  assumes "cuda_contract api live devptr"
  shows "live (drv (cleanup_slot api i s)) \<subseteq> live (drv s)"
proof -
  have f: "live (snd (real_cuMemFree_v2 api c p)) \<subseteq> live c" for c p
    using contract_frees(1) [OF assms, of c p] by (cases "real_cuMemFree_v2 api c p") auto
  have u: "real_cuMemHostUnregister api = Some g \<Longrightarrow> live (snd (g c v)) \<subseteq> live c" for g c v
    using contract_frees(2) [OF assms, of g c v] by (cases "g c v") auto
  show ?thesis
    by (auto simp: cleanup_slot_def Let_def driver_buf_live [OF assms] dest: subsetD [OF f]
        subsetD [OF u] split: option.splits if_splits)
qed

lemma cleanup_loop:
  fixes s :: "'a shim"
  assumes con: "cuda_contract api live devptr"
    and ok: "\<And>c p. fst (real_cuMemFree_v2 api c p) = CUDA_SUCCESS"
    and i: "i < n" "ht_live (slots (htable s) i)" "e_is_managed (slots (htable s) i) \<noteq> 0"
  shows "e_ptr (slots (htable s) i) \<notin> live (drv (fold (cleanup_slot api) [0..<n] s))"
proof -
  have "htable (fold (cleanup_slot api) [0..<n] s) = htable s
      \<and> (i < n \<longrightarrow> e_ptr (slots (htable s) i) \<notin> live (drv (fold (cleanup_slot api) [0..<n] s)))"
  proof (rule fold_upt_inv)
    fix k and t :: "'a shim"
    assume t: "htable t = htable s \<and> (i < k \<longrightarrow> e_ptr (slots (htable s) i) \<notin> live (drv t))"
    obtain r c where f: "real_cuMemFree_v2 api (drv t) (e_ptr (slots (htable s) i)) = (r, c)"
      by fastforce
    with contract_frees(1) [OF con f] ok [of "drv t" "e_ptr (slots (htable s) i)"]
    have "e_ptr (slots (htable s) i) \<notin> live (drv (cleanup_slot api i t))"
      using t i by (simp add: cleanup_slot_def Let_def ht_live_def)
    with t cleanup_slot_live [OF con, of k t]
    show "htable (cleanup_slot api k t) = htable s
        \<and> (i < Suc k \<longrightarrow> e_ptr (slots (htable s) i) \<notin> live (drv (cleanup_slot api k t)))"
      by (auto simp: less_Suc_eq)
  qed simp
  with i(1) show ?thesis by blast
qed

text \<open>
  Unloading the shim returns every managed allocation that the application has left in
  the table: when the CUDA driver accepts the frees, none of the recorded managed pointers is
  live afterwards, wherever in the table it is stored.
\<close>

theorem win_cleanup_frees_managed:
  assumes "cuda_contract api live devptr"
    and "\<And>c p. fst (real_cuMemFree_v2 api c p) = CUDA_SUCCESS"
    and "ht_map (htable (shim_of pr)) p = Some e" and "e_is_managed e \<noteq> 0"
  shows "p \<notin> live (drv (shim_of (gb_shim_cleanup api pr)))"
proof -
  from assms(3) obtain i where i: "i < HT_SIZE" "slots (htable (shim_of pr)) i = e"
      "ht_live e" "e_ptr e = p"
    by (auto simp: ht_map_def dest: slots_map_SomeD)
  have "p \<notin> live (drv (fold (cleanup_slot api) [0..<HT_SIZE] s))"
    if "htable s = htable (shim_of pr)" for s
    using cleanup_loop [OF assms(1,2) i(1), of s] i assms(4) that by simp
  then show ?thesis by (simp add: gb_shim_cleanup_def gb_close_device_def Let_def)
qed

theorem win_cleanup_frees_managed_witness:
  "0x7000000000 \<notin> set (in_use (drv (shim_of (gb_shim_cleanup bump_api
     \<lparr>shim_of = one_managed\<lparr>drv := \<lparr>next_ptr = 0x7000200000, in_use = [0x7000000000]\<rparr>\<rparr>,
      attached = gb_install_hooks (set critical_names), pressure_event = False,
      prefetch_worker_thread = False\<rparr>))))"
proof (rule win_cleanup_frees_managed [OF bump_contract, where e = "man_entry 0x7000000000"])
  have "ht_key 0x7000000000" by (simp add: ht_key_def ht_sentinels)
  with wt.find_exact [OF one_managed_table(2)] one_managed_table(3)
  show "ht_map (htable (shim_of \<lparr>shim_of = one_managed\<lparr>drv := \<lparr>next_ptr = 0x7000200000,
      in_use = [0x7000000000]\<rparr>\<rparr>, attached = gb_install_hooks (set critical_names),
      pressure_event = False, prefetch_worker_thread = False\<rparr>)) 0x7000000000
    = Some (man_entry 0x7000000000)"
    by simp
qed (simp_all add: bump_api_def bump_drop_def man_entry_def)

end
