(* ===== verification/Win_Driver.thy ===== *)
theory Win_Driver
  imports GB_Prelude
begin

text \<open>
  The Windows kernel driver, \<^verbatim>\<open>windows-port/driver/greenboost_win.c\<close>: its device state, the
  buffer table, the two allocators, the mapping into user space and the release of a buffer.

  A \<^verbatim>\<open>PGB_BUF_WIN\<close> is the number of a descriptor; \<open>heap\<close> holds the live descriptors and the
  pool allocator gives a new number each time it succeeds. What the Windows kernel answers
  to the calls of one request is a record \<open>kenv\<close> of results. The calls that give a resource
  back are recorded, with the descriptor they are made for, in the trace \<open>kcalls\<close>. Memory
  descriptor lists and kernel addresses carry the kind of call that made them, which the C
  code does not store: it shows whether a release matches its acquisition.
\<close>

section \<open>Constants\<close>

definition GB_MAX_BUFS :: int where "GB_MAX_BUFS = 4096"
definition GB_BLOCK_SIZE :: u64 where "GB_BLOCK_SIZE = 2 * 1024 * 1024"
definition PAGE_SIZE :: u64 where "PAGE_SIZE = 4096"

definition GB_ALLOC_FROZEN :: u32 where "GB_ALLOC_FROZEN = push_bit 3 1"
definition GB_ALLOC_NO_HUGEPAGE :: u32 where "GB_ALLOC_NO_HUGEPAGE = push_bit 4 1"

definition GB_MADVISE_COLD :: u32 where "GB_MADVISE_COLD = 0"
definition GB_MADVISE_HOT :: u32 where "GB_MADVISE_HOT = 1"
definition GB_MADVISE_FREEZE :: u32 where "GB_MADVISE_FREEZE = 2"

datatype tier = GB_TIER2_DDR4 | GB_TIER3_NVME

datatype ntstatus = STATUS_SUCCESS | STATUS_INVALID_PARAMETER | STATUS_INSUFFICIENT_RESOURCES
  | STATUS_NOT_FOUND | STATUS_ACCESS_VIOLATION | STATUS_INVALID_DEVICE_REQUEST
  | STATUS_BUFFER_TOO_SMALL

section \<open>Data\<close>

datatype mdl_kind =
    Mdl_NonPagedPool   \<comment> \<open>\<^verbatim>\<open>IoAllocateMdl\<close> and \<^verbatim>\<open>MmBuildMdlForNonPagedPool\<close>\<close>
  | Mdl_Pages          \<comment> \<open>\<^verbatim>\<open>MmAllocatePagesForMdlEx\<close>\<close>
  | Mdl_LockedPool     \<comment> \<open>\<^verbatim>\<open>MmProbeAndLockPages\<close> on paged pool\<close>
  | Mdl_LockedUser     \<comment> \<open>\<^verbatim>\<open>MmProbeAndLockPages\<close> on pages of the caller\<close>

record gb_mdl =
  mdl_kind :: mdl_kind
  mdl_len :: u64

datatype kernel_va = Va_Contiguous | Va_System | Va_PagedPool

record gb_buf_win =
  KernelVa :: "kernel_va option"
  Mdl :: "gb_mdl option"
  PhysAddr :: u64
  Size :: u64
  Contiguous :: bool
  Id :: int
  Tier :: tier
  AllocFlags :: u32
  UserVa :: u64                 \<comment> \<open>0 when not mapped\<close>
  UserProcess :: "nat option"
  AllocTime :: u64
  LastAccessTime :: u64
  Frozen :: bool
  Active :: bool

datatype kcall =
    MmUnmapUserIn nat            \<comment> \<open>\<^verbatim>\<open>MmUnmapLockedPages\<close> of the user mapping, in a process\<close>
  | ObDereferenceProcess nat
  | IoFreeMdl gb_mdl
  | MmFreeContiguousMemory kernel_va
  | MmUnlockPages gb_mdl
  | ExFreePoolVa kernel_va
  | MmUnmapSystem kernel_va gb_mdl
  | MmFreePagesFromMdl gb_mdl
  | ExFreePoolMdl gb_mdl
  | ExFreePoolDescriptor

record gb_file_context =
  OwnedBufs :: "nat \<Rightarrow> u32"
  OwnedCount :: int

record gb_device_win =
  BufTable :: "int \<Rightarrow> nat option"
  heap :: "nat \<Rightarrow> gb_buf_win option"
  pool_next :: nat              \<comment> \<open>the number of the next descriptor\<close>
  NextBufId :: int
  ActiveBufs :: int
  PoolAllocated :: u64          \<comment> \<open>\<^verbatim>\<open>LONG64\<close>, updated with interlocked additions\<close>
  OomActive :: bool
  NvmeAllocated :: u64
  SwapPressure :: nat
  LruList :: "nat list"         \<comment> \<open>head first\<close>
  PressureEvent :: bool
  WatchdogThread :: bool
  WatchdogRunning :: bool
  PhysicalVramGb :: u32
  VirtualVramGb :: u32
  SafetyReserveGb :: u32
  NvmeSwapGb :: u32
  NvmePoolGb :: u32
  ThresholdMb :: u32
  DebugMode :: u32
  file_ctx :: "nat \<Rightarrow> gb_file_context"   \<comment> \<open>the context of each open handle\<close>
  kcalls :: "(nat \<times> kcall) list"

record perf_info =
  AvailablePages :: u32
  CommittedPages :: u32
  CommitLimit :: u32

record kenv =
  in_status :: ntstatus            \<comment> \<open>\<^verbatim>\<open>WdfRequestRetrieveInputBuffer\<close>\<close>
  out_status :: ntstatus           \<comment> \<open>\<^verbatim>\<open>WdfRequestRetrieveOutputBuffer\<close>\<close>
  file_obj :: "nat option"         \<comment> \<open>\<^verbatim>\<open>WdfRequestGetFileObject\<close>\<close>
  cur_process :: nat
  sys_time :: u64
  basic_info :: "(u32 \<times> u32) option"   \<comment> \<open>physical pages and page size\<close>
  perf :: "perf_info option"
  desc2_ok :: bool                 \<comment> \<open>descriptor from the pool, in tier 2 or for a pin\<close>
  desc3_ok :: bool
  contig_ok :: bool                \<comment> \<open>\<^verbatim>\<open>MmAllocateContiguousMemorySpecifyCache\<close>\<close>
  phys_addr :: u64
  mdl_pages_ok :: bool             \<comment> \<open>\<^verbatim>\<open>MmAllocatePagesForMdlEx\<close>\<close>
  sysaddr_ok :: bool               \<comment> \<open>\<^verbatim>\<open>MmGetSystemAddressForMdlSafe\<close>\<close>
  paged_ok :: bool                 \<comment> \<open>\<^verbatim>\<open>ExAllocatePool2(POOL_FLAG_PAGED)\<close>\<close>
  io_mdl_ok :: bool                \<comment> \<open>\<^verbatim>\<open>IoAllocateMdl\<close> of tier 3 or of a pin\<close>
  probe_ok :: bool                 \<comment> \<open>\<^verbatim>\<open>MmProbeAndLockPages\<close> raises no exception\<close>
  map_mdl_ok :: bool               \<comment> \<open>\<^verbatim>\<open>IoAllocateMdl\<close> of the mapping\<close>
  map_va :: u64                    \<comment> \<open>\<^verbatim>\<open>MmMapLockedPagesSpecifyCache\<close>, 0 when it fails\<close>

abbreviation buf_at :: "gb_device_win \<Rightarrow> nat \<Rightarrow> gb_buf_win" where
  "buf_at s p \<equiv> the (heap s p)"

definition upd_buf :: "nat \<Rightarrow> (gb_buf_win \<Rightarrow> gb_buf_win) \<Rightarrow> gb_device_win \<Rightarrow> gb_device_win" where
  "upd_buf p f s = s\<lparr>heap := (heap s)(p \<mapsto> f (buf_at s p))\<rparr>"

section \<open>Configuration and memory queries\<close>

text \<open>A registry value counts when its type is \<^verbatim>\<open>REG_DWORD\<close> and its length four bytes.\<close>

record reg_value =
  is_dword :: bool
  data_length :: nat
  dword :: u32

definition GbQueryRegUlong :: "(string \<Rightarrow> reg_value option) \<Rightarrow> string \<Rightarrow> u32 \<Rightarrow> u32" where
  "GbQueryRegUlong key name old = (case key name of
     Some v \<Rightarrow> (if is_dword v \<and> data_length v = 4 then dword v else old) | None \<Rightarrow> old)"

definition GbReadConfig :: "(string \<Rightarrow> reg_value option) option \<Rightarrow> gb_device_win \<Rightarrow> gb_device_win" where
  "GbReadConfig key s =
     (let d = s\<lparr>PhysicalVramGb := 12, VirtualVramGb := 51, SafetyReserveGb := 12,
          NvmeSwapGb := 64, NvmePoolGb := 58, ThresholdMb := 256, DebugMode := 0\<rparr> in
      case key of
        None \<Rightarrow> d
      | Some k \<Rightarrow> d\<lparr>
          PhysicalVramGb := GbQueryRegUlong k ''PhysicalVramGb'' (PhysicalVramGb d),
          VirtualVramGb := GbQueryRegUlong k ''VirtualVramGb'' (VirtualVramGb d),
          SafetyReserveGb := GbQueryRegUlong k ''SafetyReserveGb'' (SafetyReserveGb d),
          NvmeSwapGb := GbQueryRegUlong k ''NvmeSwapGb'' (NvmeSwapGb d),
          NvmePoolGb := GbQueryRegUlong k ''NvmePoolGb'' (NvmePoolGb d),
          ThresholdMb := GbQueryRegUlong k ''ThresholdMb'' (ThresholdMb d),
          DebugMode := GbQueryRegUlong k ''DebugMode'' (DebugMode d)\<rparr>)"

definition GbQueryMemoryStatus :: "kenv \<Rightarrow> u64 \<times> u64" where
  "GbQueryMemoryStatus env = (case basic_info env of
     None \<Rightarrow> (0, 0)
   | Some (pages, page_size) \<Rightarrow>
       (ucast pages * ucast page_size,
        (case perf env of None \<Rightarrow> 0 | Some p \<Rightarrow> ucast (AvailablePages p) * ucast page_size)))"

section \<open>The buffer table\<close>

definition GbRegisterBuf :: "gb_device_win \<Rightarrow> nat \<Rightarrow> int \<times> gb_device_win" where
  "GbRegisterBuf s p =
     (let id0 = s32_wrap (NextBufId s + 1); s0 = s\<lparr>NextBufId := id0\<rparr>;
          found = (if id0 \<le> 0 \<or> GB_MAX_BUFS \<le> id0
            then for_until (nat GB_MAX_BUFS - 1)
                   (\<lambda>i. if BufTable s (int i) = None then Some (int i) else None) 1
            else Some id0)
      in case found of
           None \<Rightarrow> (0, s0)
         | Some i \<Rightarrow>
           (i, (upd_buf p (\<lambda>b. b\<lparr>Id := i, Active := True\<rparr>) s0)
                 \<lparr>NextBufId := i, BufTable := (BufTable s)(i \<mapsto> p),
                  ActiveBufs := s32_wrap (ActiveBufs s + 1)\<rparr>))"

definition GbLookupBuf :: "gb_device_win \<Rightarrow> int \<Rightarrow> nat option" where
  "GbLookupBuf s i =
     (if i \<le> 0 \<or> GB_MAX_BUFS \<le> i then None
      else case BufTable s i of
        None \<Rightarrow> None
      | Some p \<Rightarrow> (if Active (buf_at s p) then Some p else None))"

definition GbUnregisterBuf :: "gb_device_win \<Rightarrow> int \<Rightarrow> gb_device_win" where
  "GbUnregisterBuf s i =
     (if i \<le> 0 \<or> GB_MAX_BUFS \<le> i then s
      else s\<lparr>BufTable := (BufTable s)(i := None), ActiveBufs := s32_wrap (ActiveBufs s - 1)\<rparr>)"

section \<open>The mapping into user space\<close>

text \<open>The lengths that are passed to \<^verbatim>\<open>IoAllocateMdl\<close> are cut to 32 bits.\<close>

definition ulong_len :: "u64 \<Rightarrow> u64" where
  "ulong_len x = ucast (ucast x :: u32)"

definition GbMapToUser :: "kenv \<Rightarrow> gb_device_win \<Rightarrow> nat \<Rightarrow> ntstatus \<times> gb_device_win" where
  "GbMapToUser env s p =
     (let b = buf_at s p;
          made = (case Mdl b of
              Some m \<Rightarrow> Inr m
            | None \<Rightarrow>
              (if Contiguous b \<and> KernelVa b \<noteq> None then
                 (if map_mdl_ok env
                  then Inr \<lparr>mdl_kind = Mdl_NonPagedPool, mdl_len = ulong_len (Size b)\<rparr>
                  else Inl STATUS_INSUFFICIENT_RESOURCES)
               else Inl STATUS_INVALID_PARAMETER))
      in case made of
           Inl st \<Rightarrow> (st, s)
         | Inr m \<Rightarrow>
           (let s1 = upd_buf p (\<lambda>b. b\<lparr>Mdl := Some m\<rparr>) s in
            if map_va env = 0 then (STATUS_INSUFFICIENT_RESOURCES, s1)
            else (STATUS_SUCCESS,
                  upd_buf p (\<lambda>b. b\<lparr>UserVa := map_va env, UserProcess := Some (cur_process env)\<rparr>)
                    s1)))"

definition unmap_calls :: "kenv \<Rightarrow> gb_buf_win \<Rightarrow> kcall list" where
  "unmap_calls env b =
     (if UserVa b \<noteq> 0 \<and> Mdl b \<noteq> None then
        [MmUnmapUserIn (case UserProcess b of
            Some q \<Rightarrow> (if q \<noteq> cur_process env then q else cur_process env)
          | None \<Rightarrow> cur_process env)]
      else [])
     @ (case UserProcess b of Some q \<Rightarrow> [ObDereferenceProcess q] | None \<Rightarrow> [])"

definition GbUnmapFromUser :: "kenv \<Rightarrow> gb_device_win \<Rightarrow> nat \<Rightarrow> gb_device_win" where
  "GbUnmapFromUser env s p =
     (let b = buf_at s p in
      (upd_buf p (\<lambda>b. b\<lparr>UserVa := (if UserVa b \<noteq> 0 \<and> Mdl b \<noteq> None then 0 else UserVa b),
         UserProcess := None\<rparr>) s)
        \<lparr>kcalls := kcalls s @ map (Pair p) (unmap_calls env b)\<rparr>)"

section \<open>Tier 2 and tier 3 allocation\<close>

definition new_buf :: gb_buf_win where
  "new_buf = \<lparr>KernelVa = None, Mdl = None, PhysAddr = 0, Size = 0, Contiguous = False, Id = 0,
     Tier = GB_TIER2_DDR4, AllocFlags = 0, UserVa = 0, UserProcess = None, AllocTime = 0,
     LastAccessTime = 0, Frozen = False, Active = False\<rparr>"

text \<open>A filled descriptor joins the tier 2 pool: accounting, then the tail of the LRU list.\<close>

definition add_tier2 :: "gb_device_win \<Rightarrow> gb_buf_win \<Rightarrow> nat option \<times> gb_device_win" where
  "add_tier2 s b =
     (let p = pool_next s in
      (Some p, s\<lparr>heap := (heap s)(p \<mapsto> b), pool_next := p + 1,
         PoolAllocated := PoolAllocated s + Size b, LruList := LruList s @ [p]\<rparr>))"

definition GbAllocTier2 ::
  "kenv \<Rightarrow> gb_device_win \<Rightarrow> u64 \<Rightarrow> u32 \<Rightarrow> nat option \<times> gb_device_win" where
  "GbAllocTier2 env s sz flags =
     (let t2Max = gib (VirtualVramGb s); t2Used = PoolAllocated s in
      if t2Max < t2Used + sz then (None, s)
      else
        let (total, avail) = GbQueryMemoryStatus env; reserve = gib (SafetyReserveGb s) in
        if avail < reserve + sz then (None, s\<lparr>OomActive := True\<rparr>)
        else if \<not> desc2_ok env then (None, s)
        else
          let asz = align_up_by sz GB_BLOCK_SIZE;
              base = new_buf\<lparr>Size := asz, AllocFlags := flags,
                Frozen := (flags AND GB_ALLOC_FROZEN \<noteq> 0),
                AllocTime := sys_time env, LastAccessTime := sys_time env\<rparr>
          in
          if flags AND GB_ALLOC_NO_HUGEPAGE = 0 \<and> contig_ok env then
            add_tier2 s (base\<lparr>KernelVa := Some Va_Contiguous, PhysAddr := phys_addr env,
              Contiguous := True\<rparr>)
          else if \<not> mdl_pages_ok env then (None, s)
          else
            let m = \<lparr>mdl_kind = Mdl_Pages, mdl_len = asz\<rparr> in
            if \<not> sysaddr_ok env then
              (None, s\<lparr>kcalls := kcalls s
                 @ map (Pair (pool_next s)) [MmFreePagesFromMdl m, IoFreeMdl m]\<rparr>)
            else add_tier2 s (base\<lparr>KernelVa := Some Va_System, Mdl := Some m\<rparr>))"

definition add_tier3 :: "gb_device_win \<Rightarrow> gb_buf_win \<Rightarrow> nat option \<times> gb_device_win" where
  "add_tier3 s b =
     (let p = pool_next s in
      (Some p, s\<lparr>heap := (heap s)(p \<mapsto> b), pool_next := p + 1,
         NvmeAllocated := NvmeAllocated s + Size b\<rparr>))"

definition GbAllocTier3 ::
  "kenv \<Rightarrow> gb_device_win \<Rightarrow> u64 \<Rightarrow> u32 \<Rightarrow> nat option \<times> gb_device_win" where
  "GbAllocTier3 env s sz flags =
     (let t3Max = gib (NvmePoolGb s); t3Used = NvmeAllocated s in
      if t3Max < t3Used + sz then (None, s)
      else if \<not> desc3_ok env then (None, s)
      else
        let asz = align_up_by sz PAGE_SIZE in
        if \<not> paged_ok env then (None, s)
        else
          add_tier3 s (new_buf\<lparr>KernelVa := Some Va_PagedPool, Size := asz, Tier := GB_TIER3_NVME,
                AllocFlags := flags OR GB_ALLOC_NO_HUGEPAGE, AllocTime := sys_time env,
                LastAccessTime := sys_time env,
                Mdl := (if io_mdl_ok env \<and> probe_ok env
                  then Some \<lparr>mdl_kind = Mdl_LockedPool, mdl_len = ulong_len asz\<rparr> else None)\<rparr>))"

section \<open>Release\<close>

text \<open>The calls that \<^verbatim>\<open>GbFreeBuf\<close> makes to give the memory of a buffer back.\<close>

definition release_calls :: "gb_buf_win \<Rightarrow> kcall list" where
  "release_calls b =
     (if Contiguous b then
        (case Mdl b of Some m \<Rightarrow> [IoFreeMdl m] | None \<Rightarrow> [])
        @ (case KernelVa b of Some v \<Rightarrow> [MmFreeContiguousMemory v] | None \<Rightarrow> [])
      else case Tier b of
        GB_TIER3_NVME \<Rightarrow>
          (case Mdl b of Some m \<Rightarrow> [MmUnlockPages m, IoFreeMdl m] | None \<Rightarrow> [])
          @ (case KernelVa b of Some v \<Rightarrow> [ExFreePoolVa v] | None \<Rightarrow> [])
      | GB_TIER2_DDR4 \<Rightarrow>
          (case Mdl b of
             Some m \<Rightarrow>
               (case KernelVa b of Some v \<Rightarrow> [MmUnmapSystem v m] | None \<Rightarrow> [])
               @ [MmFreePagesFromMdl m, ExFreePoolMdl m]
           | None \<Rightarrow> []))"

definition GbFreeBuf :: "kenv \<Rightarrow> gb_device_win \<Rightarrow> nat \<Rightarrow> gb_device_win" where
  "GbFreeBuf env s p =
     (let s1 = upd_buf p (\<lambda>b. b\<lparr>Active := False\<rparr>) s;
          s2 = s1\<lparr>LruList := removeAll p (LruList s1)\<rparr>;
          s3 = (if 0 < Id (buf_at s p) then GbUnregisterBuf s2 (Id (buf_at s p)) else s2);
          s4 = GbUnmapFromUser env s3 p;
          b = buf_at s4 p;
          s5 = (case Tier b of
              GB_TIER3_NVME \<Rightarrow> s4\<lparr>NvmeAllocated := NvmeAllocated s4 - Size b\<rparr>
            | GB_TIER2_DDR4 \<Rightarrow> s4\<lparr>PoolAllocated := PoolAllocated s4 - Size b\<rparr>)
      in s5\<lparr>heap := (heap s5)(p := None),
            kcalls := kcalls s5 @ map (Pair p) (release_calls b @ [ExFreePoolDescriptor])\<rparr>)"

end
