(* ===== verification/Win_Driver_Ops.thy ===== *)
theory Win_Driver_Ops
  imports Win_Driver
begin

text \<open>
  The requests of the Windows driver: the ownership bitmap of a file handle, the handler of
  every control code, their dispatch, the cleanup of a handle and of the device, and the
  watchdog. The rounds of the watchdog and the requests are the steps of the driver.
\<close>

section \<open>Ownership of buffers by a file handle\<close>

definition owner_bit :: "int \<Rightarrow> u32" where
  "owner_bit i = push_bit (nat (i mod 32)) 1"

definition GbFileContextSetBuf :: "gb_file_context \<Rightarrow> int \<Rightarrow> gb_file_context" where
  "GbFileContextSetBuf c i =
     (if 0 < i \<and> i < GB_MAX_BUFS then
        c\<lparr>OwnedBufs := (OwnedBufs c)(nat (i div 32) := OwnedBufs c (nat (i div 32)) OR owner_bit i),
          OwnedCount := s32_wrap (OwnedCount c + 1)\<rparr>
      else c)"

definition GbFileContextClearBuf :: "gb_file_context \<Rightarrow> int \<Rightarrow> gb_file_context" where
  "GbFileContextClearBuf c i =
     (if 0 < i \<and> i < GB_MAX_BUFS then
        c\<lparr>OwnedBufs := (OwnedBufs c)(nat (i div 32) :=
             OwnedBufs c (nat (i div 32)) AND NOT (owner_bit i)),
          OwnedCount := s32_wrap (OwnedCount c - 1)\<rparr>
      else c)"

definition GbFileContextOwnsBuf :: "gb_file_context \<Rightarrow> int \<Rightarrow> bool" where
  "GbFileContextOwnsBuf c i =
     (if 0 < i \<and> i < GB_MAX_BUFS then OwnedBufs c (nat (i div 32)) AND owner_bit i \<noteq> 0
      else False)"

definition upd_file ::
  "kenv \<Rightarrow> (gb_file_context \<Rightarrow> gb_file_context) \<Rightarrow> gb_device_win \<Rightarrow> gb_device_win" where
  "upd_file env f s = (case file_obj env of
     None \<Rightarrow> s | Some h \<Rightarrow> s\<lparr>file_ctx := (file_ctx s)(h := f (file_ctx s h))\<rparr>)"

section \<open>ALLOC and FREE\<close>

record gb_alloc_req_win =
  req_size :: u64
  req_flags :: u32

record gb_alloc_out =
  out_size :: u64
  out_user_va :: u64
  out_buf_id :: int
  out_flags :: u32

text \<open>
  The common end of \<^verbatim>\<open>GbHandleAlloc\<close> and \<^verbatim>\<open>GbHandlePinUserPtr\<close>: register the buffer, map it
  into the caller, fill the output buffer and record the owner.
\<close>

definition publish_buf ::
  "kenv \<Rightarrow> gb_device_win \<Rightarrow> nat \<Rightarrow> u32 \<Rightarrow> ntstatus \<times> gb_alloc_out option \<times> gb_device_win" where
  "publish_buf env s p flags =
     (let (i, s1) = GbRegisterBuf s p in
      if i = 0 then (STATUS_INSUFFICIENT_RESOURCES, None, GbFreeBuf env s1 p)
      else
        let (st, s2) = GbMapToUser env s1 p in
        if st \<noteq> STATUS_SUCCESS then (st, None, GbFreeBuf env s2 p)
        else if out_status env \<noteq> STATUS_SUCCESS then (out_status env, None, GbFreeBuf env s2 p)
        else
          let b = buf_at s2 p in
          (STATUS_SUCCESS,
           Some \<lparr>out_size = Size b, out_user_va = UserVa b, out_buf_id = Id b, out_flags = flags\<rparr>,
           upd_file env (\<lambda>c. GbFileContextSetBuf c (Id b)) s2))"

definition GbHandleAlloc ::
  "kenv \<Rightarrow> gb_alloc_req_win \<Rightarrow> gb_device_win \<Rightarrow> ntstatus \<times> gb_alloc_out option \<times> gb_device_win" where
  "GbHandleAlloc env req s =
     (if in_status env \<noteq> STATUS_SUCCESS then (in_status env, None, s)
      else if req_size req = 0 then (STATUS_INVALID_PARAMETER, None, s)
      else if gib (VirtualVramGb s) + gib (NvmePoolGb s) < req_size req
        then (STATUS_INVALID_PARAMETER, None, s)
      else case GbAllocTier2 env s (req_size req) (req_flags req) of
        (Some p, s1) \<Rightarrow> publish_buf env s1 p (req_flags req)
      | (None, s1) \<Rightarrow>
        (case GbAllocTier3 env s1 (req_size req) (req_flags req) of
           (Some p, s2) \<Rightarrow> publish_buf env s2 p (req_flags req)
         | (None, s2) \<Rightarrow> (STATUS_INSUFFICIENT_RESOURCES, None, s2)))"

definition GbHandleFree :: "kenv \<Rightarrow> int \<Rightarrow> gb_device_win \<Rightarrow> ntstatus \<times> gb_device_win" where
  "GbHandleFree env i s =
     (if in_status env \<noteq> STATUS_SUCCESS then (in_status env, s)
      else case GbLookupBuf s i of
        None \<Rightarrow> (STATUS_NOT_FOUND, s)
      | Some p \<Rightarrow>
        (STATUS_SUCCESS, GbFreeBuf env (upd_file env (\<lambda>c. GbFileContextClearBuf c i) s) p))"

section \<open>Pinning user memory\<close>

record gb_pin_req_win =
  pin_vaddr :: u64
  pin_size :: u64
  pin_flags :: u32

definition GbHandlePinUserPtr ::
  "kenv \<Rightarrow> gb_pin_req_win \<Rightarrow> gb_device_win \<Rightarrow> ntstatus \<times> gb_alloc_out option \<times> gb_device_win" where
  "GbHandlePinUserPtr env req s =
     (if in_status env \<noteq> STATUS_SUCCESS then (in_status env, None, s)
      else if pin_vaddr req = 0 \<or> pin_size req = 0 then (STATUS_INVALID_PARAMETER, None, s)
      else
        let t2Max = gib (VirtualVramGb s); t2Used = PoolAllocated s;
            alignedSize = align_up_by (pin_size req) PAGE_SIZE in
        if t2Max < t2Used + alignedSize then (STATUS_INSUFFICIENT_RESOURCES, None, s)
        else if \<not> desc2_ok env then (STATUS_INSUFFICIENT_RESOURCES, None, s)
        else if \<not> io_mdl_ok env then (STATUS_INSUFFICIENT_RESOURCES, None, s)
        else
          let m = \<lparr>mdl_kind = Mdl_LockedUser, mdl_len = ulong_len alignedSize\<rparr> in
          if \<not> probe_ok env then (STATUS_ACCESS_VIOLATION, None,
            s\<lparr>kcalls := kcalls s @ [(pool_next s, IoFreeMdl m)]\<rparr>)
          else if \<not> sysaddr_ok env then (STATUS_INSUFFICIENT_RESOURCES, None,
            s\<lparr>kcalls := kcalls s @ map (Pair (pool_next s)) [MmUnlockPages m, IoFreeMdl m]\<rparr>)
          else
            case add_tier2 s (new_buf\<lparr>KernelVa := Some Va_System, Mdl := Some m,
                Size := alignedSize, AllocFlags := pin_flags req,
                Frozen := (pin_flags req AND GB_ALLOC_FROZEN \<noteq> 0),
                AllocTime := sys_time env, LastAccessTime := sys_time env\<rparr>) of
              (po, s1) \<Rightarrow> publish_buf env s1 (the po) (pin_flags req))"

section \<open>Information, reset, advice, eviction and polling\<close>

record gb_info_win =
  vram_physical_mb :: u64
  total_ram_mb :: u64
  free_ram_mb :: u64
  allocated_mb :: u64
  max_pool_mb :: u64
  safety_reserve_mb :: u64
  available_mb :: u64
  active_buffers :: int
  oom_active :: bool
  nvme_swap_total_mb :: u64
  nvme_swap_used_mb :: u64
  nvme_swap_free_mb :: u64
  nvme_t3_allocated_mb :: u64
  swap_pressure :: nat
  total_combined_mb :: u64

definition GbHandleGetInfo :: "kenv \<Rightarrow> gb_device_win \<Rightarrow> ntstatus \<times> gb_info_win option" where
  "GbHandleGetInfo env s =
     (if out_status env \<noteq> STATUS_SUCCESS then (out_status env, None)
      else
        let (total, avail) = GbQueryMemoryStatus env; alloc = PoolAllocated s;
            reserve = gib (SafetyReserveGb s);
            vram = ucast (PhysicalVramGb s) * 1024; pool = ucast (VirtualVramGb s) * 1024;
            swap = ucast (NvmeSwapGb s) * 1024
        in (STATUS_SUCCESS, Some
          \<lparr>vram_physical_mb = vram, total_ram_mb = mib_of total, free_ram_mb = mib_of avail,
           allocated_mb = mib_of alloc, max_pool_mb = pool,
           safety_reserve_mb = ucast (SafetyReserveGb s) * 1024,
           available_mb = (if reserve + alloc < avail then mib_of (avail - reserve - alloc) else 0),
           active_buffers = ActiveBufs s, oom_active = OomActive s,
           nvme_swap_total_mb = swap, nvme_swap_used_mb = 0, nvme_swap_free_mb = swap,
           nvme_t3_allocated_mb = mib_of (NvmeAllocated s), swap_pressure = SwapPressure s,
           total_combined_mb = vram + pool + swap\<rparr>))"

definition reset_slot :: "kenv \<Rightarrow> nat \<Rightarrow> gb_device_win \<Rightarrow> gb_device_win" where
  "reset_slot env i s =
     (case BufTable s (int i) of
        None \<Rightarrow> s
      | Some p \<Rightarrow>
        (if Active (buf_at s p) then
           GbFreeBuf env (upd_buf p (\<lambda>b. b\<lparr>Id := 0\<rparr>)
             (s\<lparr>BufTable := (BufTable s)(int i := None),
                ActiveBufs := s32_wrap (ActiveBufs s - 1)\<rparr>)) p
         else s))"

definition GbHandleReset :: "kenv \<Rightarrow> gb_device_win \<Rightarrow> ntstatus \<times> gb_device_win" where
  "GbHandleReset env s =
     (STATUS_SUCCESS, fold (reset_slot env) [1..<nat GB_MAX_BUFS] s)"

definition GbHandleMadvise ::
  "kenv \<Rightarrow> int \<Rightarrow> u32 \<Rightarrow> gb_device_win \<Rightarrow> ntstatus \<times> gb_device_win" where
  "GbHandleMadvise env i advise s =
     (if in_status env \<noteq> STATUS_SUCCESS then (in_status env, s)
      else case GbLookupBuf s i of
        None \<Rightarrow> (STATUS_NOT_FOUND, s)
      | Some p \<Rightarrow>
        (if advise = GB_MADVISE_HOT then
           (STATUS_SUCCESS, (upd_buf p (\<lambda>b. b\<lparr>LastAccessTime := sys_time env\<rparr>) s)
              \<lparr>LruList := p # removeAll p (LruList s)\<rparr>)
         else if advise = GB_MADVISE_COLD then
           (STATUS_SUCCESS, s\<lparr>LruList := removeAll p (LruList s) @ [p]\<rparr>)
         else if advise = GB_MADVISE_FREEZE then
           (STATUS_SUCCESS, upd_buf p (\<lambda>b. b\<lparr>Frozen := True\<rparr>) s)
         else (STATUS_INVALID_PARAMETER, s)))"

definition GbHandleEvict :: "kenv \<Rightarrow> int \<Rightarrow> gb_device_win \<Rightarrow> ntstatus \<times> gb_device_win" where
  "GbHandleEvict env i s =
     (if in_status env \<noteq> STATUS_SUCCESS then (in_status env, s)
      else case GbLookupBuf s i of
        None \<Rightarrow> (STATUS_NOT_FOUND, s)
      | Some p \<Rightarrow>
        (if Tier (buf_at s p) = GB_TIER2_DDR4 then
           (STATUS_SUCCESS, (upd_buf p (\<lambda>b. b\<lparr>Tier := GB_TIER3_NVME\<rparr>) s)
              \<lparr>LruList := removeAll p (LruList s)\<rparr>)
         else (STATUS_SUCCESS, s)))"

definition GbHandlePollFd :: "gb_device_win \<Rightarrow> ntstatus \<times> gb_device_win" where
  "GbHandlePollFd s = (STATUS_SUCCESS, s)"

section \<open>Dispatch\<close>

datatype gb_ioctl =
    GB_IOCTL_ALLOC gb_alloc_req_win
  | GB_IOCTL_FREE int
  | GB_IOCTL_GET_INFO
  | GB_IOCTL_RESET
  | GB_IOCTL_MADVISE int u32
  | GB_IOCTL_EVICT int
  | GB_IOCTL_POLL_FD
  | GB_IOCTL_PIN_USER_PTR gb_pin_req_win
  | GB_IOCTL_OTHER u32

datatype gb_reply = No_reply | Alloc_reply gb_alloc_out | Info_reply gb_info_win

fun GbEvtIoDeviceControl ::
  "kenv \<Rightarrow> gb_ioctl \<Rightarrow> gb_device_win \<Rightarrow> ntstatus \<times> gb_reply \<times> gb_device_win" where
  "GbEvtIoDeviceControl env (GB_IOCTL_ALLOC req) s =
     (case GbHandleAlloc env req s of (st, out, s') \<Rightarrow>
        (st, case out of None \<Rightarrow> No_reply | Some x \<Rightarrow> Alloc_reply x, s'))"
| "GbEvtIoDeviceControl env (GB_IOCTL_FREE i) s =
     (case GbHandleFree env i s of (st, s') \<Rightarrow> (st, No_reply, s'))"
| "GbEvtIoDeviceControl env GB_IOCTL_GET_INFO s =
     (case GbHandleGetInfo env s of (st, out) \<Rightarrow>
        (st, case out of None \<Rightarrow> No_reply | Some x \<Rightarrow> Info_reply x, s))"
| "GbEvtIoDeviceControl env GB_IOCTL_RESET s =
     (case GbHandleReset env s of (st, s') \<Rightarrow> (st, No_reply, s'))"
| "GbEvtIoDeviceControl env (GB_IOCTL_MADVISE i a) s =
     (case GbHandleMadvise env i a s of (st, s') \<Rightarrow> (st, No_reply, s'))"
| "GbEvtIoDeviceControl env (GB_IOCTL_EVICT i) s =
     (case GbHandleEvict env i s of (st, s') \<Rightarrow> (st, No_reply, s'))"
| "GbEvtIoDeviceControl env GB_IOCTL_POLL_FD s =
     (case GbHandlePollFd s of (st, s') \<Rightarrow> (st, No_reply, s'))"
| "GbEvtIoDeviceControl env (GB_IOCTL_PIN_USER_PTR req) s =
     (case GbHandlePinUserPtr env req s of (st, out, s') \<Rightarrow>
        (st, case out of None \<Rightarrow> No_reply | Some x \<Rightarrow> Alloc_reply x, s'))"
| "GbEvtIoDeviceControl env (GB_IOCTL_OTHER code) s = (STATUS_INVALID_DEVICE_REQUEST, No_reply, s)"

section \<open>Cleanup of a handle and of the device\<close>

text \<open>
  The loop of \<^verbatim>\<open>GbEvtFileCleanup\<close> runs while fewer buffers are freed than the handle counts;
  its state is that number and the device.
\<close>

definition file_cleanup_slot ::
  "kenv \<Rightarrow> gb_file_context \<Rightarrow> nat \<Rightarrow> int \<times> gb_device_win \<Rightarrow> int \<times> gb_device_win" where
  "file_cleanup_slot env c i st =
     (case st of (freed, s) \<Rightarrow>
        if freed < OwnedCount c \<and> GbFileContextOwnsBuf c (int i) then
          (freed + 1, case GbLookupBuf s (int i) of None \<Rightarrow> s | Some p \<Rightarrow> GbFreeBuf env s p)
        else (freed, s))"

definition GbEvtFileCleanup :: "kenv \<Rightarrow> nat \<Rightarrow> gb_device_win \<Rightarrow> gb_device_win" where
  "GbEvtFileCleanup env h s =
     (let c = file_ctx s h in
      if OwnedCount c = 0 then s
      else snd (fold (file_cleanup_slot env c) [1..<nat GB_MAX_BUFS] (0, s)))"

definition device_cleanup_slot :: "kenv \<Rightarrow> nat \<Rightarrow> gb_device_win \<Rightarrow> gb_device_win" where
  "device_cleanup_slot env i s =
     (case BufTable s (int i) of
        None \<Rightarrow> s
      | Some p \<Rightarrow>
        (if Active (buf_at s p) then
           GbFreeBuf env (s\<lparr>BufTable := (BufTable s)(int i := None)\<rparr>) p
         else s))"

definition GbStopWatchdog :: "gb_device_win \<Rightarrow> gb_device_win" where
  "GbStopWatchdog s =
     (if WatchdogThread s then s\<lparr>WatchdogRunning := False, WatchdogThread := False\<rparr> else s)"

definition GbEvtDeviceCleanup :: "kenv \<Rightarrow> gb_device_win \<Rightarrow> gb_device_win" where
  "GbEvtDeviceCleanup env s =
     (fold (device_cleanup_slot env) [1..<nat GB_MAX_BUFS] (GbStopWatchdog s))
       \<lparr>PressureEvent := False\<rparr>"

section \<open>Start, and the watchdog\<close>

text \<open>\<^verbatim>\<open>DriverEntry\<close> clears the device and reads the configuration.\<close>

definition zero_device :: gb_device_win where
  "zero_device = \<lparr>BufTable = Map.empty, heap = Map.empty, pool_next = 0, NextBufId = 0,
     ActiveBufs = 0, PoolAllocated = 0, OomActive = False, NvmeAllocated = 0, SwapPressure = 0,
     LruList = [], PressureEvent = False, WatchdogThread = False, WatchdogRunning = False,
     PhysicalVramGb = 0, VirtualVramGb = 0, SafetyReserveGb = 0, NvmeSwapGb = 0, NvmePoolGb = 0,
     ThresholdMb = 0, DebugMode = 0, file_ctx = (\<lambda>_. \<lparr>OwnedBufs = (\<lambda>_. 0), OwnedCount = 0\<rparr>),
     kcalls = []\<rparr>"

definition DriverEntry :: "(string \<Rightarrow> reg_value option) option \<Rightarrow> gb_device_win" where
  "DriverEntry key = GbReadConfig key zero_device"

definition GbStartWatchdog :: "bool \<Rightarrow> bool \<Rightarrow> gb_device_win \<Rightarrow> bool \<times> gb_device_win" where
  "GbStartWatchdog thread_ok ref_ok s =
     (if \<not> thread_ok \<or> \<not> ref_ok then (False, s\<lparr>WatchdogRunning := False\<rparr>)
      else (True, s\<lparr>WatchdogRunning := True, WatchdogThread := True\<rparr>))"

text \<open>
  One round of the watchdog thread, after its sleep; the result says whether the pressure
  event was signalled.
\<close>

definition pressure_level :: "perf_info \<Rightarrow> nat" where
  "pressure_level p =
     (let used = ucast (CommittedPages p) * 100 div (ucast (CommitLimit p) :: u64) in
      if 90 \<le> used then 2 else if 75 \<le> used then 1 else 0)"

definition watchdog_round :: "kenv \<Rightarrow> gb_device_win \<Rightarrow> bool \<times> gb_device_win" where
  "watchdog_round env s =
     (if \<not> WatchdogRunning s then (False, s)
      else
        let (total, avail) = GbQueryMemoryStatus env;
            s1 = s\<lparr>OomActive := (avail < gib (SafetyReserveGb s))\<rparr>
        in case perf env of
             None \<Rightarrow> (False, s1)
           | Some p \<Rightarrow>
             (if CommitLimit p = 0 then (False, s1)
              else (pressure_level p \<noteq> SwapPressure s \<and> PressureEvent s,
                    s1\<lparr>SwapPressure := pressure_level p\<rparr>)))"

end
