(* ===== verification/Win_Driver_Inv.thy ===== *)
theory Win_Driver_Inv
  imports Win_Driver_Ops
begin

text \<open>
  The invariant of the Windows driver between two requests: the buffer table, the live
  descriptors and the LRU list agree, the number of active buffers is exact, and the byte
  counters are the sizes of the live buffers. It holds in every reachable state that has
  seen at most 4095 registrations, so before the identifiers wrap around.
\<close>

section \<open>Closed forms\<close>

lemma release_calls_cong:
  "Contiguous b' = Contiguous b \<Longrightarrow> Tier b' = Tier b \<Longrightarrow> Mdl b' = Mdl b \<Longrightarrow>
    KernelVa b' = KernelVa b \<Longrightarrow> release_calls b' = release_calls b"
  by (cases "Tier b") (simp_all add: release_calls_def split: option.split)

lemma unmap_calls_cong:
  "UserVa b' = UserVa b \<Longrightarrow> Mdl b' = Mdl b \<Longrightarrow> UserProcess b' = UserProcess b \<Longrightarrow>
    unmap_calls env b' = unmap_calls env b"
  by (simp add: unmap_calls_def)

definition in_table :: "int \<Rightarrow> bool" where
  "in_table i \<longleftrightarrow> 0 < i \<and> i < GB_MAX_BUFS"

text \<open>What releasing a buffer does to the device, field by field.\<close>

lemma GbFreeBuf_eq:
  assumes "heap s p = Some b"
  shows "GbFreeBuf env s p = s\<lparr>
     heap := (heap s)(p := None), LruList := removeAll p (LruList s),
     BufTable := (if in_table (Id b) then (BufTable s)(Id b := None) else BufTable s),
     ActiveBufs := (if in_table (Id b) then s32_wrap (ActiveBufs s - 1) else ActiveBufs s),
     PoolAllocated := (if Tier b = GB_TIER2_DDR4 then PoolAllocated s - Size b
       else PoolAllocated s),
     NvmeAllocated := (if Tier b = GB_TIER3_NVME then NvmeAllocated s - Size b
       else NvmeAllocated s),
     kcalls := kcalls s @ map (Pair p) (unmap_calls env b @ release_calls b
       @ [ExFreePoolDescriptor])\<rparr>"
proof -
  define b1 where "b1 = b\<lparr>Active := False\<rparr>"
  define b2 where "b2 = b1\<lparr>UserVa := (if UserVa b1 \<noteq> 0 \<and> Mdl b1 \<noteq> None then 0 else UserVa b1),
    UserProcess := None\<rparr>"
  have same: "Tier b2 = Tier b" "Size b2 = Size b" "Id b1 = Id b"
    by (simp_all add: b1_def b2_def)
  have r: "release_calls b2 = release_calls b"
    by (rule release_calls_cong) (simp_all add: b1_def b2_def)
  have u: "unmap_calls env b1 = unmap_calls env b"
    by (rule unmap_calls_cong) (simp_all add: b1_def)
  define s3 where "s3 = s\<lparr>heap := (heap s)(p \<mapsto> b1), LruList := removeAll p (LruList s),
    BufTable := (if in_table (Id b) then (BufTable s)(Id b := None) else BufTable s),
    ActiveBufs := (if in_table (Id b) then s32_wrap (ActiveBufs s - 1) else ActiveBufs s)\<rparr>"
  have 3: "(let s2 = (upd_buf p (\<lambda>b. b\<lparr>Active := False\<rparr>) s)
        \<lparr>LruList := removeAll p (LruList (upd_buf p (\<lambda>b. b\<lparr>Active := False\<rparr>) s))\<rparr>
      in if 0 < Id (buf_at s p) then GbUnregisterBuf s2 (Id (buf_at s p)) else s2) = s3"
    using assms by (simp add: s3_def upd_buf_def b1_def GbUnregisterBuf_def in_table_def Let_def)
  have 4: "GbUnmapFromUser env s3 p = s3\<lparr>heap := (heap s)(p \<mapsto> b2),
      kcalls := kcalls s @ map (Pair p) (unmap_calls env b)\<rparr>"
  proof -
    have "heap s3 = (heap s)(p \<mapsto> b1)" "kcalls s3 = kcalls s" by (simp_all add: s3_def)
    then show ?thesis
      by (simp only: GbUnmapFromUser_def upd_buf_def Let_def u b2_def fun_upd_same fun_upd_upd
          option.sel)
  qed
  have "GbFreeBuf env s p = (let s4 = GbUnmapFromUser env s3 p; b = buf_at s4 p;
          s5 = (case Tier b of
              GB_TIER3_NVME \<Rightarrow> s4\<lparr>NvmeAllocated := NvmeAllocated s4 - Size b\<rparr>
            | GB_TIER2_DDR4 \<Rightarrow> s4\<lparr>PoolAllocated := PoolAllocated s4 - Size b\<rparr>)
      in s5\<lparr>heap := (heap s5)(p := None),
            kcalls := kcalls s5 @ map (Pair p) (release_calls b @ [ExFreePoolDescriptor])\<rparr>)"
    unfolding GbFreeBuf_def using 3 by (simp only: Let_def)
  then show ?thesis
    unfolding 4 by (cases "Tier b") (simp_all add: Let_def same r s3_def)
qed

section \<open>The invariant\<close>

definition tier_bytes :: "tier \<Rightarrow> gb_device_win \<Rightarrow> nat" where
  "tier_bytes t s = map_sum (\<lambda>b. if Tier b = t then unat (Size b) else 0) (heap s)"

text \<open>
  \<open>pend\<close> are the descriptors that are allocated and not yet registered.
\<close>

definition dev_wf :: "nat set \<Rightarrow> gb_device_win \<Rightarrow> bool" where
  "dev_wf pend s \<longleftrightarrow>
     finite (dom (heap s)) \<and> (\<forall>p\<in>dom (heap s). p < pool_next s)
     \<and> (\<forall>i p. BufTable s i = Some p \<longrightarrow>
          in_table i \<and> (\<exists>b. heap s p = Some b \<and> Id b = i \<and> Active b))
     \<and> (\<forall>p b. heap s p = Some b \<longrightarrow> p \<notin> pend \<longrightarrow> BufTable s (Id b) = Some p)
     \<and> (\<forall>p\<in>pend. \<exists>b. heap s p = Some b \<and> Id b = 0)
     \<and> ActiveBufs s = int (card (dom (BufTable s)))
     \<and> distinct (LruList s) \<and> set (LruList s) \<subseteq> dom (heap s)"

definition accounts :: "bool \<Rightarrow> gb_device_win \<Rightarrow> bool" where
  "accounts evicted s \<longleftrightarrow>
     PoolAllocated s + NvmeAllocated s
       = word_of_nat (tier_bytes GB_TIER2_DDR4 s + tier_bytes GB_TIER3_NVME s)
     \<and> (\<not> evicted \<longrightarrow> PoolAllocated s = word_of_nat (tier_bytes GB_TIER2_DDR4 s)
          \<and> NvmeAllocated s = word_of_nat (tier_bytes GB_TIER3_NVME s))"

definition ids_upto :: "nat \<Rightarrow> gb_device_win \<Rightarrow> bool" where
  "ids_upto n s \<longleftrightarrow> 0 \<le> NextBufId s \<and> NextBufId s \<le> int n
     \<and> (\<forall>i\<in>dom (BufTable s). i \<le> NextBufId s)"

text \<open>
  The backing of a buffer: contiguous memory with a list over the non-paged pool, pages with
  their list, paged pool with a locked list, or locked pages of the caller.
\<close>

definition shaped :: "gb_buf_win \<Rightarrow> bool" where
  "shaped b \<longleftrightarrow>
     KernelVa b = Some Va_Contiguous \<and> Contiguous b \<and> Tier b = GB_TIER2_DDR4
       \<and> (\<forall>m. Mdl b = Some m \<longrightarrow> mdl_kind m = Mdl_NonPagedPool)
     \<or> KernelVa b = Some Va_PagedPool \<and> \<not> Contiguous b \<and> Tier b = GB_TIER3_NVME
       \<and> (\<forall>m. Mdl b = Some m \<longrightarrow> mdl_kind m = Mdl_LockedPool)
     \<or> KernelVa b = Some Va_System \<and> \<not> Contiguous b \<and> Tier b = GB_TIER2_DDR4
       \<and> (\<exists>m. Mdl b = Some m \<and> mdl_kind m \<in> {Mdl_Pages, Mdl_LockedUser})"

definition shapes :: "bool \<Rightarrow> gb_device_win \<Rightarrow> bool" where
  "shapes evicted s \<longleftrightarrow> (\<not> evicted \<longrightarrow> (\<forall>p b. heap s p = Some b \<longrightarrow> shaped b))"

definition dev_inv :: "bool \<Rightarrow> nat \<Rightarrow> nat set \<Rightarrow> gb_device_win \<Rightarrow> bool" where
  "dev_inv evicted n pend s \<longleftrightarrow>
     dev_wf pend s \<and> accounts evicted s \<and> ids_upto n s \<and> shapes evicted s"

lemma shapedD: "dev_inv ev n pend s \<Longrightarrow> \<not> ev \<Longrightarrow> heap s p = Some b \<Longrightarrow> shaped b"
  unfolding dev_inv_def shapes_def by blast

lemma shaped_frame [simp]:
  "shaped (b\<lparr>Id := i\<rparr>) = shaped b" "shaped (b\<lparr>Active := a\<rparr>) = shaped b"
  "shaped (b\<lparr>LastAccessTime := t\<rparr>) = shaped b" "shaped (b\<lparr>Frozen := fz\<rparr>) = shaped b"
  "shaped (b\<lparr>UserVa := v\<rparr>) = shaped b" "shaped (b\<lparr>UserProcess := u\<rparr>) = shaped b"
  by (simp_all add: shaped_def)

lemma shaped_mdl [simp]: "shaped b \<Longrightarrow> Mdl b = None \<Longrightarrow> Contiguous b \<Longrightarrow>
    mdl_kind m = Mdl_NonPagedPool \<Longrightarrow> shaped (b\<lparr>Mdl := Some m\<rparr>)"
  by (auto simp: shaped_def)

lemma dev_inv_mono: "dev_inv ev n pend s \<Longrightarrow> n \<le> m \<Longrightarrow> dev_inv ev m pend s"
  by (simp add: dev_inv_def ids_upto_def)

lemma table_card:
  assumes "dev_wf pend s"
  shows "finite (dom (BufTable s))" and "card (dom (BufTable s)) < 4096"
proof -
  have sub: "dom (BufTable s) \<subseteq> {1..4095}"
    using assms by (fastforce simp: dev_wf_def in_table_def GB_MAX_BUFS_def)
  then show "finite (dom (BufTable s))" by (rule finite_subset) simp
  have "card (dom (BufTable s)) \<le> card {1..4095::int}" by (intro card_mono sub) simp
  then show "card (dom (BufTable s)) < 4096" by simp
qed

text \<open>Fields that the invariant does not read.\<close>

lemma dev_inv_frame [simp]:
  "dev_inv ev n pend (s\<lparr>OomActive := o'\<rparr>) = dev_inv ev n pend s"
  "dev_inv ev n pend (s\<lparr>kcalls := k\<rparr>) = dev_inv ev n pend s"
  "dev_inv ev n pend (s\<lparr>file_ctx := fc\<rparr>) = dev_inv ev n pend s"
  "dev_inv ev n pend (s\<lparr>SwapPressure := sp\<rparr>) = dev_inv ev n pend s"
  "dev_inv ev n pend (s\<lparr>WatchdogRunning := wr\<rparr>) = dev_inv ev n pend s"
  "dev_inv ev n pend (s\<lparr>WatchdogThread := wt\<rparr>) = dev_inv ev n pend s"
  "dev_inv ev n pend (s\<lparr>PressureEvent := pe\<rparr>) = dev_inv ev n pend s"
  by (simp_all add: dev_inv_def dev_wf_def accounts_def ids_upto_def tier_bytes_def shapes_def)

section \<open>Releasing keeps the invariant\<close>

lemma tier_bytes_delete:
  assumes "finite (dom (heap s))" and "heap s p = Some b"
  shows "tier_bytes t s = tier_bytes t (s\<lparr>heap := (heap s)(p := None)\<rparr>)
    + (if Tier b = t then unat (Size b) else 0)"
  using map_sum_delete [OF assms, of "\<lambda>b. if Tier b = t then unat (Size b) else 0"]
  by (simp add: tier_bytes_def)

lemma free_accounts:
  assumes "accounts ev s" and "finite (dom (heap s))" and "heap s p = Some b"
  shows "accounts ev (GbFreeBuf env s p)"
proof -
  let ?s = "s\<lparr>heap := (heap s)(p := None)\<rparr>"
  have t: "tier_bytes t (GbFreeBuf env s p) = tier_bytes t ?s" for t
    by (simp add: GbFreeBuf_eq [OF assms(3)] tier_bytes_def)
  show ?thesis
    using assms(1) tier_bytes_delete [OF assms(2,3), of GB_TIER2_DDR4]
      tier_bytes_delete [OF assms(2,3), of GB_TIER3_NVME]
    unfolding accounts_def t
    by (cases "Tier b") (auto simp: GbFreeBuf_eq [OF assms(3)] algebra_simps)
qed

lemma free_wf:
  assumes wf: "dev_wf pend s" and b: "heap s p = Some b"
    and own: "p \<in> pend \<or> BufTable s (Id b) = Some p"
  shows "dev_wf (pend - {p}) (GbFreeBuf env s p)"
proof (cases "p \<in> pend")
  case True
  with wf b have id: "\<not> in_table (Id b)" by (fastforce simp: dev_wf_def in_table_def)
  have tab: "BufTable s i \<noteq> Some p" for i
  proof
    assume "BufTable s i = Some p"
    with wf b have "in_table (Id b)" by (fastforce simp: dev_wf_def)
    with id show False by simp
  qed
  with wf b id show ?thesis
    unfolding GbFreeBuf_eq [OF b] dev_wf_def by (auto simp: distinct_removeAll)
next
  case False
  with own have t: "BufTable s (Id b) = Some p" by simp
  with wf have i: "in_table (Id b)" by (auto simp: dev_wf_def)
  have one: "i = Id b" if "BufTable s i = Some p" for i
    using wf b that by (fastforce simp: dev_wf_def)
  have "dom (BufTable s) = insert (Id b) (dom ((BufTable s)(Id b := None)))" using t by auto
  then have card: "card (dom (BufTable s)) = Suc (card (dom ((BufTable s)(Id b := None))))"
    using table_card(1) [OF wf] by (metis card_insert_disjoint domIff finite_insert fun_upd_same)
  have act: "s32_wrap (ActiveBufs s - 1) = int (card (dom ((BufTable s)(Id b := None))))"
    using wf card table_card(2) [OF wf] by (subst s32_wrap_id) (auto simp: dev_wf_def)
  have other: "Id b' \<noteq> Id b" if "heap s q = Some b'" "q \<noteq> p" "q \<notin> pend" for q b'
    using wf t that by (fastforce simp: dev_wf_def)
  have pend0: "pend - {p} = pend" using False by simp
  have "\<forall>j q. ((BufTable s)(Id b := None)) j = Some q \<longrightarrow>
      in_table j \<and> (\<exists>b'. ((heap s)(p := None)) q = Some b' \<and> Id b' = j \<and> Active b')"
    using wf one by (auto simp: dev_wf_def split: if_splits)
  moreover have "\<forall>q b'. ((heap s)(p := None)) q = Some b' \<longrightarrow> q \<notin> pend \<longrightarrow>
      ((BufTable s)(Id b := None)) (Id b') = Some q"
    using wf other by (auto simp: dev_wf_def split: if_splits)
  moreover have "\<forall>q\<in>pend. \<exists>b'. ((heap s)(p := None)) q = Some b' \<and> Id b' = 0"
    using wf False by (auto simp: dev_wf_def)
  ultimately show ?thesis
    using wf i act unfolding GbFreeBuf_eq [OF b] dev_wf_def pend0
    by (simp add: distinct_removeAll) auto
qed

lemma free_inv:
  assumes inv: "dev_inv ev n pend s" and b: "heap s p = Some b"
    and own: "p \<in> pend \<or> BufTable s (Id b) = Some p"
  shows "dev_inv ev n (pend - {p}) (GbFreeBuf env s p)"
proof -
  have "ids_upto n (GbFreeBuf env s p)"
    using inv by (auto simp: GbFreeBuf_eq [OF b] dev_inv_def ids_upto_def split: if_splits)
  moreover have "shapes ev (GbFreeBuf env s p)"
    using inv by (auto simp: GbFreeBuf_eq [OF b] dev_inv_def shapes_def)
  ultimately show ?thesis
    using inv free_wf [OF _ b own] free_accounts [OF _ _ b]
    by (simp add: dev_inv_def dev_wf_def)
qed

section \<open>Adding and registering a buffer\<close>

text \<open>Allocation: a new descriptor, with the counter of its tier and maybe a place in the LRU list.\<close>

lemma add_inv:
  assumes inv: "dev_inv ev n pend s" and id: "Id b = 0" and sh: "shaped b"
    and h: "heap s' = (heap s)(pool_next s \<mapsto> b)" "pool_next s' = pool_next s + 1"
    and same: "BufTable s' = BufTable s" "ActiveBufs s' = ActiveBufs s"
      "NextBufId s' = NextBufId s"
    and lru: "LruList s' = LruList s \<or> LruList s' = LruList s @ [pool_next s]"
    and pool: "PoolAllocated s' = PoolAllocated s + (if Tier b = GB_TIER2_DDR4 then Size b else 0)"
    and nvme: "NvmeAllocated s' = NvmeAllocated s + (if Tier b = GB_TIER3_NVME then Size b else 0)"
  shows "dev_inv ev n (insert (pool_next s) pend) s'"
proof -
  let ?p = "pool_next s"
  from inv have wf: "dev_wf pend s" and ac: "accounts ev s" and up: "ids_upto n s"
    and shp: "shapes ev s" by (simp_all add: dev_inv_def)
  from wf have fin: "finite (dom (heap s))" and new: "heap s ?p = None"
    by (auto simp: dev_wf_def)
  from wf have tab: "BufTable s i \<noteq> Some ?p" for i using new by (fastforce simp: dev_wf_def)
  have bytes: "tier_bytes t s' = tier_bytes t s + (if Tier b = t then unat (Size b) else 0)" for t
    using map_sum_insert [OF fin new, of "\<lambda>b. if Tier b = t then unat (Size b) else 0" b]
    by (simp add: tier_bytes_def h)
  have "accounts ev s'"
    using ac pool nvme by (cases "Tier b") (auto simp: accounts_def bytes algebra_simps)
  moreover have "ids_upto n s'" using up same by (simp add: ids_upto_def)
  moreover have "shapes ev s'" using shp sh h(1) by (auto simp: shapes_def)
  moreover have "dev_wf (insert ?p pend) s'"
  proof -
    have "finite (dom (heap s'))" "\<forall>p\<in>dom (heap s'). p < pool_next s'"
      using wf h by (auto simp: dev_wf_def less_Suc_eq)
    moreover have "\<forall>i p. BufTable s' i = Some p \<longrightarrow>
        in_table i \<and> (\<exists>b. heap s' p = Some b \<and> Id b = i \<and> Active b)"
      using wf h(1) same(1) tab by (auto simp: dev_wf_def)
    moreover have "\<forall>p b. heap s' p = Some b \<longrightarrow> p \<notin> insert ?p pend \<longrightarrow>
        BufTable s' (Id b) = Some p"
      using wf h(1) same(1) by (auto simp: dev_wf_def)
    moreover have "\<forall>p\<in>insert ?p pend. \<exists>b. heap s' p = Some b \<and> Id b = 0"
      using wf h(1) id by (auto simp: dev_wf_def)
    moreover have "distinct (LruList s')" "set (LruList s') \<subseteq> dom (heap s')"
      using wf h(1) lru new by (auto simp: dev_wf_def)
    ultimately show ?thesis using wf same by (simp add: dev_wf_def)
  qed
  ultimately show ?thesis by (simp add: dev_inv_def)
qed

lemma register_inv:
  assumes inv: "dev_inv ev n pend s" and p: "p \<in> pend" and n: "n < 4095"
    and r: "GbRegisterBuf s p = (i, s')"
  shows "i = NextBufId s + 1 \<and> in_table i \<and> dev_inv ev (n + 1) (pend - {p}) s'
    \<and> BufTable s' i = Some p
    \<and> heap s' = (heap s)(p \<mapsto> (buf_at s p)\<lparr>Id := i, Active := True\<rparr>)"
proof -
  from inv have wf: "dev_wf pend s" and ac: "accounts ev s" and up: "ids_upto n s"
    and shp: "shapes ev s" by (simp_all add: dev_inv_def)
  from wf p obtain b where b: "heap s p = Some b" "Id b = 0" by (auto simp: dev_wf_def)
  let ?i = "NextBufId s + 1"
  let ?b = "b\<lparr>Id := ?i, Active := True\<rparr>"
  have w: "s32_wrap ?i = ?i" using up n by (subst s32_wrap_id) (auto simp: ids_upto_def)
  have it: "in_table ?i" using up n by (simp add: in_table_def ids_upto_def GB_MAX_BUFS_def)
  have free: "BufTable s ?i = None" using up by (force simp: ids_upto_def)
  have ii: "i = ?i" and s': "s' = s\<lparr>heap := (heap s)(p \<mapsto> ?b), NextBufId := ?i,
      BufTable := (BufTable s)(?i \<mapsto> p), ActiveBufs := s32_wrap (ActiveBufs s + 1)\<rparr>"
    using r it b(1) by (auto simp: GbRegisterBuf_def w Let_def in_table_def upd_buf_def)
  have fin: "finite (dom (heap s))" using wf by (simp add: dev_wf_def)
  have bytes: "tier_bytes t s' = tier_bytes t s" for t
    using map_sum_same [OF fin b(1), of "\<lambda>b. if Tier b = t then unat (Size b) else 0" ?b]
    by (simp add: tier_bytes_def s')
  have "card (dom ((BufTable s)(?i \<mapsto> p))) = Suc (card (dom (BufTable s)))"
    using free table_card(1) [OF wf] by (simp add: domIff)
  then have act: "s32_wrap (ActiveBufs s + 1) = int (card (dom ((BufTable s)(?i \<mapsto> p))))"
    using wf table_card(2) [OF wf] by (subst s32_wrap_id) (auto simp: dev_wf_def)
  have tab: "BufTable s j \<noteq> Some p" for j
    using wf b by (fastforce simp: dev_wf_def in_table_def)
  have other: "q \<in> pend" if "heap s q = Some b'" "Id b' = ?i" for q b'
    using wf free that by (force simp: dev_wf_def)
  have "dev_wf (pend - {p}) s'"
  proof -
    have "\<forall>j q. BufTable s' j = Some q \<longrightarrow>
        in_table j \<and> (\<exists>b. heap s' q = Some b \<and> Id b = j \<and> Active b)"
      using wf it tab by (auto simp: dev_wf_def s')
    moreover have "\<forall>q b. heap s' q = Some b \<longrightarrow> q \<notin> pend - {p} \<longrightarrow> BufTable s' (Id b) = Some q"
      using wf other by (auto simp: dev_wf_def s')
    moreover have "\<forall>q\<in>pend - {p}. \<exists>b. heap s' q = Some b \<and> Id b = 0"
      using wf by (auto simp: dev_wf_def s')
    ultimately show ?thesis using wf act b(1) unfolding dev_wf_def by (auto simp: s')
  qed
  moreover have "accounts ev s'" using ac unfolding accounts_def bytes by (simp add: s')
  moreover have "j \<le> NextBufId s + 1" if "BufTable s j = Some q" for j q
  proof -
    from that have "j \<in> dom (BufTable s)" by auto
    with up have "j \<le> NextBufId s" by (simp add: ids_upto_def)
    then show ?thesis by simp
  qed
  then have "ids_upto (n + 1) s'" using up by (auto simp: ids_upto_def s')
  moreover have "shapes ev s'" using shp b(1) by (auto simp: shapes_def s')
  ultimately show ?thesis using ii it b(1) by (simp add: dev_inv_def s')
qed

text \<open>Changes of a buffer that leave its identity, tier and size alone.\<close>

lemma upd_inv:
  assumes inv: "dev_inv ev n pend s" and b: "heap s p = Some b"
    and f: "Id (f b) = Id b" "Active (f b) = Active b" "Tier (f b) = Tier b" "Size (f b) = Size b"
      "\<not> ev \<Longrightarrow> shaped (f b)"
  shows "dev_inv ev n pend (upd_buf p f s)"
proof -
  from inv have wf: "dev_wf pend s" and ac: "accounts ev s" and up: "ids_upto n s"
    and shp: "shapes ev s" by (simp_all add: dev_inv_def)
  have fin: "finite (dom (heap s))" using wf by (simp add: dev_wf_def)
  have bytes: "tier_bytes t (upd_buf p f s) = tier_bytes t s" for t
    using map_sum_same [OF fin b, of "\<lambda>b. if Tier b = t then unat (Size b) else 0" "f b"] b f
    by (simp add: tier_bytes_def upd_buf_def)
  have "accounts ev (upd_buf p f s)"
    using ac unfolding accounts_def bytes by (simp add: upd_buf_def)
  moreover have "ids_upto n (upd_buf p f s)" using up by (simp add: ids_upto_def upd_buf_def)
  moreover have "shapes ev (upd_buf p f s)"
    using shp b f(5) by (auto simp: shapes_def upd_buf_def)
  moreover have "dev_wf pend (upd_buf p f s)"
  proof -
    from wf have w: "\<And>i q. BufTable s i = Some q \<Longrightarrow>
          in_table i \<and> (\<exists>b. heap s q = Some b \<and> Id b = i \<and> Active b)"
        "\<And>q b. heap s q = Some b \<Longrightarrow> q \<notin> pend \<Longrightarrow> BufTable s (Id b) = Some q"
        "\<And>q. q \<in> pend \<Longrightarrow> \<exists>b. heap s q = Some b \<and> Id b = 0"
      unfolding dev_wf_def by blast+
    have "in_table i \<and> (\<exists>b'. ((heap s)(p \<mapsto> f b)) q = Some b' \<and> Id b' = i \<and> Active b')"
      if "BufTable s i = Some q" for i q
      using w(1) [OF that] b f(1,2) by auto
    moreover have "BufTable s (Id b') = Some q"
      if "((heap s)(p \<mapsto> f b)) q = Some b'" "q \<notin> pend" for q b'
      using that b f(1) w(2) by (cases "q = p") auto
    moreover have "\<exists>b'. ((heap s)(p \<mapsto> f b)) q = Some b' \<and> Id b' = 0" if "q \<in> pend" for q
      using w(3) [OF that] b f(1) by auto
    moreover have "dom ((heap s)(p \<mapsto> f b)) = dom (heap s)" using b by auto
    ultimately show ?thesis
      using wf b unfolding dev_wf_def upd_buf_def by simp
  qed
  ultimately show ?thesis by (simp add: dev_inv_def)
qed

section \<open>The handlers keep the invariant\<close>

lemma add_tier2_inv:
  assumes inv: "dev_inv ev n pend s" and b: "Id b = 0" "Tier b = GB_TIER2_DDR4" "shaped b"
    and a: "add_tier2 s b = (po, s')"
  shows "po = Some (pool_next s) \<and> dev_inv ev n (insert (pool_next s) pend) s'"
  using a b add_inv [OF inv b(1,3), of s'] by (auto simp: add_tier2_def Let_def)

lemma alloc_tier2_inv:
  assumes inv: "dev_inv ev n pend s" and a: "GbAllocTier2 env s sz flags = (po, s')"
  shows "case po of None \<Rightarrow> dev_inv ev n pend s' | Some p \<Rightarrow> dev_inv ev n (insert p pend) s'"
proof -
  obtain total avail where m: "GbQueryMemoryStatus env = (total, avail)" by fastforce
  have t2: "add_tier2 s b = (po, s') \<Longrightarrow> Id b = 0 \<Longrightarrow> Tier b = GB_TIER2_DDR4 \<Longrightarrow>
      shaped b \<Longrightarrow> ?thesis" for b
    using add_tier2_inv [OF inv, of b po s'] by auto
  show ?thesis
    using a inv t2 unfolding GbAllocTier2_def Let_def m
    by (simp split: if_splits) (auto simp: new_buf_def shaped_def)
qed

lemma alloc_tier3_inv:
  assumes inv: "dev_inv ev n pend s" and a: "GbAllocTier3 env s sz flags = (po, s')"
  shows "case po of None \<Rightarrow> dev_inv ev n pend s' | Some p \<Rightarrow> dev_inv ev n (insert p pend) s'"
proof -
  have t3: "add_tier3 s b = (po, s') \<Longrightarrow> Id b = 0 \<Longrightarrow> Tier b = GB_TIER3_NVME \<Longrightarrow>
      shaped b \<Longrightarrow> ?thesis" for b
    using add_inv [OF inv, of b s'] by (auto simp: add_tier3_def Let_def)
  show ?thesis
    using a inv t3 unfolding GbAllocTier3_def Let_def
    by (simp split: if_splits) (auto simp: new_buf_def shaped_def)
qed

lemma map_inv:
  assumes inv: "dev_inv ev n pend s" and b: "heap s p = Some b"
    and m: "GbMapToUser env s p = (st, s')"
  shows "dev_inv ev n pend s' \<and> BufTable s' = BufTable s
    \<and> (\<exists>b'. heap s' p = Some b' \<and> Id b' = Id b \<and> Size b' = Size b)"
proof -
  have sh: "\<not> ev \<Longrightarrow> shaped b" using shapedD [OF inv _ b] .
  have mdl: "dev_inv ev n pend (upd_buf p (\<lambda>b. b\<lparr>Mdl := Some x\<rparr>) s)"
    if "\<not> ev \<Longrightarrow> shaped (b\<lparr>Mdl := Some x\<rparr>)" for x
    by (rule upd_inv [OF inv b]) (use that in simp_all)
  have va: "dev_inv ev n pend (upd_buf p (\<lambda>b. b\<lparr>UserVa := map_va env,
      UserProcess := Some (cur_process env)\<rparr>) (upd_buf p (\<lambda>b. b\<lparr>Mdl := Some x\<rparr>) s))"
    if "\<not> ev \<Longrightarrow> shaped (b\<lparr>Mdl := Some x\<rparr>)" for x
    by (rule upd_inv [OF mdl [OF that]]) (use b that in \<open>simp_all add: upd_buf_def\<close>)
  have kept: "Mdl b = Some x \<Longrightarrow> \<not> ev \<Longrightarrow> shaped (b\<lparr>Mdl := Some x\<rparr>)" for x
    using sh by (cases b) simp
  have made: "Mdl b = None \<Longrightarrow> Contiguous b \<Longrightarrow> mdl_kind x = Mdl_NonPagedPool \<Longrightarrow> \<not> ev \<Longrightarrow>
      shaped (b\<lparr>Mdl := Some x\<rparr>)" for x
    using sh by simp
  show ?thesis
    using m inv b mdl va kept made
    by (auto simp: GbMapToUser_def Let_def upd_buf_def split: option.splits if_splits sum.splits)
qed

lemma publish_inv:
  assumes inv: "dev_inv ev n {p} s" and n: "n < 4095"
    and pub: "publish_buf env s p flags = (st, out, s')"
  shows "dev_inv ev (n + 1) {} s'"
proof -
  obtain i s1 where r: "GbRegisterBuf s p = (i, s1)" by fastforce
  note reg = register_inv [OF inv _ n r]
  obtain st2 s2 where m: "GbMapToUser env s1 p = (st2, s2)" by fastforce
  from reg have i: "i \<noteq> 0" "in_table i" and inv1: "dev_inv ev (n + 1) {} s1"
    and t1: "BufTable s1 i = Some p" by (auto simp: in_table_def)
  from reg obtain b1 where b1: "heap s1 p = Some b1" "Id b1 = i" by auto
  from map_inv [OF inv1 b1(1) m] b1 obtain b2 where
    inv2: "dev_inv ev (n + 1) {} s2" and b2: "heap s2 p = Some b2" "Id b2 = i"
      "BufTable s2 i = Some p"
    using t1 by auto
  have fr: "dev_inv ev (n + 1) {} (GbFreeBuf env s2 p)"
    using free_inv [OF inv2 b2(1)] b2 by simp
  have "dev_inv ev (n + 1) {} (upd_file env f s2)" for f
    using inv2 by (simp add: upd_file_def split: option.split)
  with pub r m i fr show ?thesis
    by (auto simp: publish_buf_def Let_def split: if_splits)
qed

lemma handle_alloc_inv:
  assumes inv: "dev_inv ev n {} s" and n: "n < 4095"
    and h: "GbHandleAlloc env req s = (st, out, s')"
  shows "dev_inv ev (n + 1) {} s'"
proof -
  have m: "dev_inv ev n {} t \<Longrightarrow> dev_inv ev (n + 1) {} t" for t
    by (erule dev_inv_mono) simp
  obtain p2 s2 where a2: "GbAllocTier2 env s (req_size req) (req_flags req) = (p2, s2)"
    by fastforce
  obtain p3 s3 where a3: "GbAllocTier3 env s2 (req_size req) (req_flags req) = (p3, s3)"
    by fastforce
  note t2 = alloc_tier2_inv [OF inv a2]
  have t3: "case p3 of None \<Rightarrow> dev_inv ev n {} s3 | Some p \<Rightarrow> dev_inv ev n {p} s3" if "p2 = None"
    using alloc_tier3_inv [OF _ a3, of ev n "{}"] t2 that by simp
  show ?thesis
  proof (cases p2)
    case (Some p)
    with t2 have "dev_inv ev n {p} s2" by simp
    from publish_inv [OF this n] Some h a2 m [OF inv] show ?thesis
      by (auto simp: GbHandleAlloc_def split: if_splits)
  next
    case None
    note t3 = t3 [OF None]
    show ?thesis
    proof (cases p3)
      case Some3: (Some p)
      with t3 have "dev_inv ev n {p} s3" by simp
      from publish_inv [OF this n] Some3 None h a2 a3 m [OF inv] show ?thesis
        by (auto simp: GbHandleAlloc_def split: if_splits)
    next
      case None3: None
      with None h a2 a3 m [OF inv] m t3 show ?thesis
        by (auto simp: GbHandleAlloc_def split: if_splits)
    qed
  qed
qed

lemma handle_pin_inv:
  assumes inv: "dev_inv ev n {} s" and n: "n < 4095"
    and h: "GbHandlePinUserPtr env req s = (st, out, s')"
  shows "dev_inv ev (n + 1) {} s'"
proof -
  have m: "dev_inv ev (n + 1) {} s" by (rule dev_inv_mono [OF inv]) simp
  have t2: "dev_inv ev (n + 1) {} s'"
    if "publish_buf env (snd (add_tier2 s b)) (the (fst (add_tier2 s b))) fl = (st, out, s')"
      and "Id b = 0" "Tier b = GB_TIER2_DDR4" "shaped b" for b fl
  proof -
    obtain po s1 where a: "add_tier2 s b = (po, s1)" by fastforce
    from add_tier2_inv [OF inv that(2-4) a] publish_inv [OF _ n, of ev "the po" s1] that(1) a
    show ?thesis by simp
  qed
  show ?thesis
    using h m t2 unfolding GbHandlePinUserPtr_def Let_def
    by (simp add: case_prod_unfold split: if_splits) (auto simp: new_buf_def shaped_def)
qed

lemma lookup_found:
  assumes "dev_inv ev n pend s" and "GbLookupBuf s i = Some p"
  shows "\<exists>b. heap s p = Some b \<and> Id b = i \<and> BufTable s i = Some p \<and> in_table i"
  using assms unfolding dev_inv_def dev_wf_def
  by (fastforce simp: GbLookupBuf_def split: if_splits option.splits)

lemma handle_free_inv:
  assumes inv: "dev_inv ev n {} s" and h: "GbHandleFree env i s = (st, s')"
  shows "dev_inv ev n {} s'"
proof (cases "GbLookupBuf s i")
  case None
  with inv h show ?thesis by (auto simp: GbHandleFree_def split: if_splits)
next
  case (Some p)
  let ?s = "upd_file env (\<lambda>c. GbFileContextClearBuf c i) s"
  have "heap ?s = heap s" "BufTable ?s = BufTable s"
    by (simp_all add: upd_file_def split: option.split)
  with lookup_found [OF inv Some] obtain b where
    b: "heap ?s p = Some b" "BufTable ?s (Id b) = Some p" by auto
  have "dev_inv ev n {} ?s" using inv by (simp add: upd_file_def split: option.split)
  from free_inv [OF this b(1)] b(2) Some h inv show ?thesis
    by (auto simp: GbHandleFree_def split: if_splits)
qed

lemma lru_inv:
  assumes "dev_inv ev n pend s" and "distinct l" and "set l \<subseteq> dom (heap s)"
  shows "dev_inv ev n pend (s\<lparr>LruList := l\<rparr>)"
  using assms
  by (simp add: dev_inv_def dev_wf_def accounts_def ids_upto_def tier_bytes_def shapes_def)

lemma dev_inv_lru: "dev_inv ev n pend s \<Longrightarrow> distinct (LruList s) \<and> set (LruList s) \<subseteq> dom (heap s)"
  by (simp add: dev_inv_def dev_wf_def)

lemma handle_madvise_inv:
  assumes inv: "dev_inv ev n {} s" and h: "GbHandleMadvise env i a s = (st, s')"
  shows "dev_inv ev n {} s'"
proof (cases "GbLookupBuf s i")
  case None
  with inv h show ?thesis by (auto simp: GbHandleMadvise_def split: if_splits)
next
  case (Some p)
  from lookup_found [OF inv Some] obtain b where b: "heap s p = Some b" by blast
  have u: "dev_inv ev n {} (upd_buf p f s)"
    if "Id (f b) = Id b" "Active (f b) = Active b" "Tier (f b) = Tier b" "Size (f b) = Size b"
      "\<not> ev \<Longrightarrow> shaped (f b)" for f
    using upd_inv [OF inv b] that by simp
  have sh: "\<not> ev \<Longrightarrow> shaped b" using shapedD [OF inv _ b] .
  have hot: "dev_inv ev n {} ((upd_buf p (\<lambda>b. b\<lparr>LastAccessTime := sys_time env\<rparr>) s)
      \<lparr>LruList := p # removeAll p (LruList s)\<rparr>)"
    by (rule lru_inv [OF u]) (use dev_inv_lru [OF inv] b sh in
      \<open>auto simp: upd_buf_def distinct_removeAll\<close>)
  have cold: "dev_inv ev n {} (s\<lparr>LruList := removeAll p (LruList s) @ [p]\<rparr>)"
    by (rule lru_inv [OF inv]) (use dev_inv_lru [OF inv] b in \<open>auto simp: distinct_removeAll\<close>)
  have frz: "dev_inv ev n {} (upd_buf p (\<lambda>b. b\<lparr>Frozen := True\<rparr>) s)"
    by (rule u) (use sh in simp_all)
  show ?thesis
    using h Some inv hot cold frz by (auto simp: GbHandleMadvise_def split: if_splits)
qed

text \<open>
  Eviction moves the bytes of a buffer to tier 3 without moving them between the counters:
  only their sum stays right.
\<close>

lemma handle_evict_inv:
  assumes inv: "dev_inv ev n {} s" and h: "GbHandleEvict env i s = (st, s')"
  shows "dev_inv True n {} s'"
proof -
  have weak: "dev_inv True n {} s" using inv by (simp add: dev_inv_def accounts_def shapes_def)
  show ?thesis
  proof (cases "\<exists>p. GbLookupBuf s i = Some p \<and> Tier (buf_at s p) = GB_TIER2_DDR4")
    case False
    with h weak show ?thesis by (auto simp: GbHandleEvict_def split: if_splits option.splits)
  next
    case True
    then obtain p where p: "GbLookupBuf s i = Some p" "Tier (buf_at s p) = GB_TIER2_DDR4" by blast
    from lookup_found [OF inv p(1)] obtain b where
      b: "heap s p = Some b" "Id b = i" "BufTable s i = Some p" "in_table i" by blast
    define s1 where "s1 = upd_buf p (\<lambda>b. b\<lparr>Tier := GB_TIER3_NVME\<rparr>) s"
    have h1: "heap s1 = (heap s)(p \<mapsto> b\<lparr>Tier := GB_TIER3_NVME\<rparr>)"
      using b by (simp add: s1_def upd_buf_def)
    from inv have wf: "dev_wf {} s" and ac: "accounts ev s" and up: "ids_upto n s"
      by (simp_all add: dev_inv_def)
    have fin: "finite (dom (heap s))" using wf by (simp add: dev_wf_def)
    note upd = map_sum_update [OF fin b(1)]
    have t2: "tier_bytes GB_TIER2_DDR4 s1 + unat (Size b) = tier_bytes GB_TIER2_DDR4 s"
      using upd [of "\<lambda>b. if Tier b = GB_TIER2_DDR4 then unat (Size b) else 0"
        "b\<lparr>Tier := GB_TIER3_NVME\<rparr>"] p(2) b(1)
      by (simp add: tier_bytes_def h1)
    have t3: "tier_bytes GB_TIER3_NVME s1 = tier_bytes GB_TIER3_NVME s + unat (Size b)"
      using upd [of "\<lambda>b. if Tier b = GB_TIER3_NVME then unat (Size b) else 0"
        "b\<lparr>Tier := GB_TIER3_NVME\<rparr>"] p(2) b(1)
      by (simp add: tier_bytes_def h1)
    have "accounts True s1"
      using ac t2 t3 by (simp add: accounts_def) (simp add: s1_def upd_buf_def flip: t2)
    moreover have "ids_upto n s1" using up by (simp add: ids_upto_def s1_def upd_buf_def)
    moreover have "dev_wf {} s1"
    proof -
      have "\<forall>j q. BufTable s1 j = Some q \<longrightarrow>
          in_table j \<and> (\<exists>b'. heap s1 q = Some b' \<and> Id b' = j \<and> Active b')"
        using wf b unfolding dev_wf_def h1 by (fastforce simp: s1_def upd_buf_def)
      moreover have "\<forall>q b'. heap s1 q = Some b' \<longrightarrow> BufTable s1 (Id b') = Some q"
        using wf b unfolding dev_wf_def h1 by (auto simp: s1_def upd_buf_def)
      moreover have "dom (heap s1) = dom (heap s)" using b by (auto simp: h1)
      ultimately show ?thesis using wf unfolding dev_wf_def by (simp add: s1_def upd_buf_def)
    qed
    ultimately have i1: "dev_inv True n {} s1" by (simp add: dev_inv_def shapes_def)
    have "dev_inv True n {} (s1\<lparr>LruList := removeAll p (LruList s)\<rparr>)"
      by (rule lru_inv [OF i1]) (use dev_inv_lru [OF inv] h1 in \<open>auto simp: distinct_removeAll\<close>)
    with h p weak show ?thesis
      by (auto simp: GbHandleEvict_def s1_def split: if_splits)
  qed
qed

section \<open>Loops over the table\<close>

lemma table_entry:
  assumes "dev_inv ev n {} s" and "BufTable s i = Some p"
  shows "\<exists>b. heap s p = Some b \<and> Id b = i \<and> Active b \<and> in_table i"
  using assms unfolding dev_inv_def dev_wf_def by blast

lemma empty_table:
  assumes inv: "dev_inv ev n {} s" and empty: "\<forall>i. in_table i \<longrightarrow> BufTable s i = None"
  shows "BufTable s = Map.empty" and "heap s = Map.empty" and "LruList s = []"
    and "ActiveBufs s = 0" and "PoolAllocated s + NvmeAllocated s = 0"
    and "\<not> ev \<Longrightarrow> PoolAllocated s = 0 \<and> NvmeAllocated s = 0"
proof -
  show t: "BufTable s = Map.empty"
  proof
    fix i
    show "BufTable s i = None"
      using table_entry [OF inv, of i] empty by (cases "BufTable s i") auto
  qed
  show h: "heap s = Map.empty"
  proof
    fix p
    show "heap s p = None"
      using inv t unfolding dev_inv_def dev_wf_def by (cases "heap s p") auto
  qed
  show "LruList s = []" using dev_inv_lru [OF inv] h by simp
  show "ActiveBufs s = 0" using inv t by (simp add: dev_inv_def dev_wf_def)
  show "PoolAllocated s + NvmeAllocated s = 0" "\<not> ev \<Longrightarrow> PoolAllocated s = 0 \<and> NvmeAllocated s = 0"
    using inv h by (simp_all add: dev_inv_def accounts_def tier_bytes_def)
qed

text \<open>A round of the reset loop, and of the unload loop, is the release of a buffer.\<close>

lemma reset_slot_free:
  assumes inv: "dev_inv ev n {} s" and t: "BufTable s (int i) = Some p"
  shows "reset_slot env i s = GbFreeBuf env s p"
proof -
  from table_entry [OF inv t] obtain b where
    b: "heap s p = Some b" "Id b = int i" "Active b" "in_table (int i)" by blast
  define s1 where "s1 = upd_buf p (\<lambda>b. b\<lparr>Id := 0\<rparr>) (s\<lparr>BufTable := (BufTable s)(int i := None),
    ActiveBufs := s32_wrap (ActiveBufs s - 1)\<rparr>)"
  have h1: "heap s1 p = Some (b\<lparr>Id := 0\<rparr>)" using b by (simp add: s1_def upd_buf_def)
  have "release_calls (b\<lparr>Id := 0\<rparr>) = release_calls b" by (rule release_calls_cong) simp_all
  moreover have "unmap_calls env (b\<lparr>Id := 0\<rparr>) = unmap_calls env b"
    by (rule unmap_calls_cong) simp_all
  ultimately have "GbFreeBuf env s1 p = GbFreeBuf env s p"
    using b unfolding GbFreeBuf_eq [OF h1] GbFreeBuf_eq [OF b(1)]
    by (simp add: s1_def upd_buf_def in_table_def)
  with t b show ?thesis by (simp add: reset_slot_def s1_def)
qed

lemma device_cleanup_slot_free:
  assumes inv: "dev_inv ev n {} s" and t: "BufTable s (int i) = Some p"
  shows "device_cleanup_slot env i s = GbFreeBuf env s p"
proof -
  from table_entry [OF inv t] obtain b where
    b: "heap s p = Some b" "Id b = int i" "Active b" "in_table (int i)" by blast
  define s1 where "s1 = s\<lparr>BufTable := (BufTable s)(int i := None)\<rparr>"
  have h1: "heap s1 p = Some b" using b by (simp add: s1_def)
  have "GbFreeBuf env s1 p = GbFreeBuf env s p"
    using b unfolding GbFreeBuf_eq [OF h1] GbFreeBuf_eq [OF b(1)] by (simp add: s1_def)
  with t b show ?thesis by (simp add: device_cleanup_slot_def s1_def)
qed

text \<open>A loop whose rounds release the buffer of their slot empties the table.\<close>

lemma free_loop:
  assumes inv: "dev_inv ev n {} s"
    and hit: "\<And>i p t. dev_inv ev n {} t \<Longrightarrow> BufTable t (int i) = Some p \<Longrightarrow>
      step i t = GbFreeBuf env t p"
    and miss: "\<And>i t. BufTable t (int i) = None \<Longrightarrow> step i t = t"
  shows "dev_inv ev n {} (fold step [1..<nat GB_MAX_BUFS] s)
    \<and> (\<forall>i. in_table i \<longrightarrow> BufTable (fold step [1..<nat GB_MAX_BUFS] s) i = None)"
proof -
  let ?P = "\<lambda>k t. dev_inv ev n {} t \<and> (\<forall>i. 0 < i \<longrightarrow> i < int k \<longrightarrow> BufTable t i = None)"
  have "?P (nat GB_MAX_BUFS) (fold step [1..<nat GB_MAX_BUFS] s)"
  proof (rule fold_range_inv)
    show "?P 1 s" using inv by auto
    fix k t
    assume t: "?P k t"
    have split: "i = int k \<or> i < int k" if "i < int (Suc k)" for i :: int using that by linarith
    show "?P (Suc k) (step k t)"
    proof (cases "BufTable t (int k)")
      case None
      with t split show ?thesis unfolding miss [OF None] by blast
    next
      case (Some p)
      from table_entry [OF conjunct1 [OF t] Some] obtain b where
        b: "heap t p = Some b" "Id b = int k" "in_table (int k)" by blast
      have "dev_inv ev n ({} - {p}) (GbFreeBuf env t p)"
        using t Some b by (intro free_inv) auto
      moreover have "BufTable (GbFreeBuf env t p) = (BufTable t)(int k := None)"
        using b by (simp add: GbFreeBuf_eq)
      ultimately show ?thesis
        unfolding hit [OF conjunct1 [OF t] Some] using t split by auto
    qed
  qed (simp add: GB_MAX_BUFS_def)
  then show ?thesis by (auto simp: in_table_def GB_MAX_BUFS_def)
qed

lemma reset_loop:
  assumes "dev_inv ev n {} s" and "GbHandleReset env s = (st, s')"
  shows "dev_inv ev n {} s' \<and> (\<forall>i. in_table i \<longrightarrow> BufTable s' i = None)"
proof -
  have e: "s' = fold (reset_slot env) [1..<nat GB_MAX_BUFS] s"
    using assms(2) by (simp add: GbHandleReset_def)
  show ?thesis
    unfolding e
    by (rule free_loop [OF assms(1)], erule (1) reset_slot_free) (simp add: reset_slot_def)
qed

lemma device_cleanup_loop:
  assumes "dev_inv ev n {} s"
  shows "dev_inv ev n {} (GbEvtDeviceCleanup env s)
    \<and> (\<forall>i. in_table i \<longrightarrow> BufTable (GbEvtDeviceCleanup env s) i = None)"
proof -
  let ?t = "fold (device_cleanup_slot env) [1..<nat GB_MAX_BUFS] (GbStopWatchdog s)"
  have i: "dev_inv ev n {} (GbStopWatchdog s)" using assms by (simp add: GbStopWatchdog_def)
  have "dev_inv ev n {} ?t \<and> (\<forall>i. in_table i \<longrightarrow> BufTable ?t i = None)"
    by (rule free_loop [OF i], erule (1) device_cleanup_slot_free)
      (simp add: device_cleanup_slot_def)
  then show ?thesis unfolding GbEvtDeviceCleanup_def by simp
qed

section \<open>Reachable states\<close>

text \<open>
  What can happen to the driver: a request, the cleanup of a handle, and the rounds of the
  watchdog. The requests are handled one after the other here; the queue of the driver
  dispatches them in parallel, and the locks of the C code protect the table and the list
  but not a whole request.
\<close>

datatype drv_event =
    Io_control kenv gb_ioctl
  | File_cleanup kenv nat
  | Watchdog_start bool bool
  | Watchdog_round kenv
  | Watchdog_stop

primrec drv_step :: "drv_event \<Rightarrow> gb_device_win \<Rightarrow> gb_device_win" where
  "drv_step (Io_control env req) s = snd (snd (GbEvtIoDeviceControl env req s))"
| "drv_step (File_cleanup env h) s = GbEvtFileCleanup env h s"
| "drv_step (Watchdog_start a b) s = snd (GbStartWatchdog a b s)"
| "drv_step (Watchdog_round env) s = snd (watchdog_round env s)"
| "drv_step Watchdog_stop s = GbStopWatchdog s"

fun evicts :: "drv_event \<Rightarrow> bool" where
  "evicts (Io_control env (GB_IOCTL_EVICT i)) = True"
| "evicts e = False"

fun registers :: "drv_event \<Rightarrow> nat" where
  "registers (Io_control env (GB_IOCTL_ALLOC req)) = 1"
| "registers (Io_control env (GB_IOCTL_PIN_USER_PTR req)) = 1"
| "registers e = 0"

text \<open>
  \<open>drv_reach ev n s\<close>: the driver can be in state \<open>s\<close> after \<open>n\<close> requests to register a
  buffer, and \<open>ev\<close> says whether one of its requests was an eviction.
\<close>

inductive drv_reach :: "bool \<Rightarrow> nat \<Rightarrow> gb_device_win \<Rightarrow> bool" where
  entry: "drv_reach False 0 (DriverEntry key)"
| event: "drv_reach ev n s \<Longrightarrow> drv_reach (ev \<or> evicts e) (n + registers e) (drv_step e s)"

lemma file_cleanup_inv:
  assumes "dev_inv ev n {} s"
  shows "dev_inv ev n {} (GbEvtFileCleanup env h s)"
proof -
  let ?c = "file_ctx s h"
  have "dev_inv ev n {} (snd (fold (file_cleanup_slot env ?c) [1..<nat GB_MAX_BUFS] (0, s)))"
  proof (rule fold_range_inv [where P = "\<lambda>k st. dev_inv ev n {} (snd st)"])
    fix i and st :: "int \<times> gb_device_win"
    assume "dev_inv ev n {} (snd st)"
    then obtain f t where t: "st = (f, t)" "dev_inv ev n {} t" by (cases st) auto
    have "dev_inv ev n {} (GbFreeBuf env t p)" if "GbLookupBuf t (int i) = Some p" for p
      using lookup_found [OF t(2) that] free_inv [OF t(2), of p] by auto
    with t show "dev_inv ev n {} (snd (file_cleanup_slot env ?c i st))"
      by (auto simp: file_cleanup_slot_def split: option.split)
  qed (use assms in \<open>simp_all add: GB_MAX_BUFS_def\<close>)
  with assms show ?thesis by (simp add: GbEvtFileCleanup_def Let_def)
qed

lemma entry_inv: "dev_inv False 0 {} (DriverEntry key)"
  by (auto simp: dev_inv_def dev_wf_def accounts_def ids_upto_def tier_bytes_def DriverEntry_def
      GbReadConfig_def zero_device_def shapes_def Let_def split: option.split)

lemma ioctl_inv:
  assumes inv: "dev_inv ev n {} s" and n: "n + registers (Io_control env req) \<le> 4095"
  shows "dev_inv (ev \<or> evicts (Io_control env req)) (n + registers (Io_control env req)) {}
    (drv_step (Io_control env req) s)"
proof (cases req)
  case (GB_IOCTL_ALLOC r)
  obtain st out s' where h: "GbHandleAlloc env r s = (st, out, s')" by (metis prod_cases3)
  with handle_alloc_inv [OF inv _ h] n GB_IOCTL_ALLOC show ?thesis by simp
next
  case (GB_IOCTL_FREE i)
  obtain st s' where h: "GbHandleFree env i s = (st, s')" by fastforce
  with handle_free_inv [OF inv h] GB_IOCTL_FREE show ?thesis by simp
next
  case GB_IOCTL_RESET
  obtain st s' where h: "GbHandleReset env s = (st, s')" by fastforce
  with reset_loop [OF inv h] GB_IOCTL_RESET show ?thesis by simp
next
  case (GB_IOCTL_MADVISE i a)
  obtain st s' where h: "GbHandleMadvise env i a s = (st, s')" by fastforce
  with handle_madvise_inv [OF inv h] GB_IOCTL_MADVISE show ?thesis by simp
next
  case (GB_IOCTL_EVICT i)
  obtain st s' where h: "GbHandleEvict env i s = (st, s')" by fastforce
  with handle_evict_inv [OF inv h] GB_IOCTL_EVICT show ?thesis by simp
next
  case (GB_IOCTL_PIN_USER_PTR r)
  obtain st out s' where h: "GbHandlePinUserPtr env r s = (st, out, s')" by (metis prod_cases3)
  with handle_pin_inv [OF inv _ h] n GB_IOCTL_PIN_USER_PTR show ?thesis by simp
qed (use inv in \<open>simp_all add: GbHandlePollFd_def split: prod.split\<close>)

lemma watchdog_inv: "dev_inv ev n {} s \<Longrightarrow> dev_inv ev n {} (snd (watchdog_round env s))"
  by (auto simp: watchdog_round_def Let_def split: prod.split option.split)

lemma reach_inv: "drv_reach ev n s \<Longrightarrow> n \<le> 4095 \<Longrightarrow> dev_inv ev n {} s"
proof (induction rule: drv_reach.induct)
  case (entry key)
  show ?case by (rule entry_inv)
next
  case (event ev n s e)
  then have inv: "dev_inv ev n {} s" by simp
  show ?case
  proof (cases e)
    case (Io_control env req)
    with ioctl_inv [OF inv] event.prems show ?thesis by simp
  qed (use inv in \<open>auto intro: file_cleanup_inv watchdog_inv
      simp: GbStartWatchdog_def GbStopWatchdog_def\<close>)
qed

end
