(* ===== verification/Win_Driver_Props.thy ===== *)
theory Win_Driver_Props
  imports Win_Driver_Inv
begin

text \<open>
  The properties of the Windows driver: exact accounting, release of everything on reset and
  unload, matching releases, capacity limits, reported numbers, ownership and pressure; and
  the runs in which the code departs from them.
\<close>

section \<open>Concrete runs\<close>

text \<open>A machine with 64 GiB of memory, half of it free, on which every kernel call succeeds.\<close>

definition good_env :: kenv where
  "good_env = \<lparr>in_status = STATUS_SUCCESS, out_status = STATUS_SUCCESS, file_obj = Some 7,
     cur_process = 42, sys_time = 1000, basic_info = Some (0x1000000, 4096),
     perf = Some \<lparr>AvailablePages = 0x800000, CommittedPages = 0x800000, CommitLimit = 0x1400000\<rparr>,
     desc2_ok = True, desc3_ok = True, contig_ok = True, phys_addr = 0x100000000,
     mdl_pages_ok = True, sysaddr_ok = True, paged_ok = True, io_mdl_ok = True, probe_ok = True,
     map_mdl_ok = True, map_va = 0x10000000\<rparr>"

definition one_mib :: drv_event where
  "one_mib = Io_control good_env (GB_IOCTL_ALLOC \<lparr>req_size = 0x100000, req_flags = 0\<rparr>)"

lemma good_memory: "GbQueryMemoryStatus good_env = (0x1000000000, 0x800000000)"
  by (simp add: GbQueryMemoryStatus_def good_env_def)

lemma block_up: "align_up_by 0x100000 GB_BLOCK_SIZE = 0x200000"
  by (simp add: align_up_by_def GB_BLOCK_SIZE_def)

lemma entry_fields [simp]:
  "BufTable (DriverEntry None) = Map.empty" "heap (DriverEntry None) = Map.empty"
  "pool_next (DriverEntry None) = 0" "NextBufId (DriverEntry None) = 0"
  "ActiveBufs (DriverEntry None) = 0" "PoolAllocated (DriverEntry None) = 0"
  "NvmeAllocated (DriverEntry None) = 0" "LruList (DriverEntry None) = []"
  "VirtualVramGb (DriverEntry None) = 51" "SafetyReserveGb (DriverEntry None) = 12"
  "NvmePoolGb (DriverEntry None) = 58" "kcalls (DriverEntry None) = []"
  "file_ctx (DriverEntry None) = (\<lambda>_. \<lparr>OwnedBufs = (\<lambda>_. 0), OwnedCount = 0\<rparr>)"
  by (simp_all add: DriverEntry_def GbReadConfig_def zero_device_def)

lemma entry_caps: "gib 51 = 0xCC0000000" "gib 58 = 0xE80000000" "gib 12 = 0x300000000"
  by (simp_all add: gib_def)

lemma good_fields [simp]:
  "in_status good_env = STATUS_SUCCESS" "out_status good_env = STATUS_SUCCESS"
  "file_obj good_env = Some 7" "cur_process good_env = 42" "sys_time good_env = 1000"
  "desc2_ok good_env" "desc3_ok good_env" "contig_ok good_env" "mdl_pages_ok good_env"
  "sysaddr_ok good_env" "paged_ok good_env" "io_mdl_ok good_env" "probe_ok good_env"
  "map_mdl_ok good_env" "map_va good_env = 0x10000000" "phys_addr good_env = 0x100000000"
  by (simp_all add: good_env_def)

text \<open>A contiguous tier 2 buffer as it is when its request is answered.\<close>

definition contig_buf :: "u64 \<Rightarrow> int \<Rightarrow> gb_buf_win" where
  "contig_buf sz i = \<lparr>KernelVa = Some Va_Contiguous,
     Mdl = Some \<lparr>mdl_kind = Mdl_NonPagedPool, mdl_len = ulong_len sz\<rparr>,
     PhysAddr = 0x100000000, Size = sz, Contiguous = True, Id = i, Tier = GB_TIER2_DDR4,
     AllocFlags = 0, UserVa = 0x10000000, UserProcess = Some 42, AllocTime = 1000,
     LastAccessTime = 1000, Frozen = False, Active = True\<rparr>"

text \<open>An ALLOC request on the good machine, whatever the device holds.\<close>

lemma alloc_good:
  assumes env: "env = good_env\<lparr>file_obj := Some h\<rparr>"
    and sz: "sz \<noteq> 0" "align_up_by sz GB_BLOCK_SIZE = asz"
    and room: "sz \<le> gib (VirtualVramGb s) + gib (NvmePoolGb s)"
      "PoolAllocated s + sz \<le> gib (VirtualVramGb s)" "gib (SafetyReserveGb s) + sz \<le> 0x800000000"
    and i: "0 \<le> NextBufId s" "NextBufId s + 1 < 4096" "i = NextBufId s + 1"
  shows "GbHandleAlloc env \<lparr>req_size = sz, req_flags = 0\<rparr> s = (STATUS_SUCCESS,
    Some \<lparr>out_size = asz, out_user_va = 0x10000000, out_buf_id = i, out_flags = 0\<rparr>,
    s\<lparr>heap := (heap s)(pool_next s \<mapsto> contig_buf asz i), pool_next := pool_next s + 1,
      PoolAllocated := PoolAllocated s + asz, LruList := LruList s @ [pool_next s],
      NextBufId := i, BufTable := (BufTable s)(i \<mapsto> pool_next s),
      ActiveBufs := s32_wrap (ActiveBufs s + 1),
      file_ctx := (file_ctx s)(h := GbFileContextSetBuf (file_ctx s h) i)\<rparr>)"
proof -
  let ?p = "pool_next s"
  define b0 where "b0 = new_buf\<lparr>Size := asz, AllocTime := 1000, LastAccessTime := 1000,
    KernelVa := Some Va_Contiguous, PhysAddr := 0x100000000, Contiguous := True\<rparr>"
  define s1 where "s1 = s\<lparr>heap := (heap s)(?p \<mapsto> b0), pool_next := ?p + 1,
    PoolAllocated := PoolAllocated s + asz, LruList := LruList s @ [?p]\<rparr>"
  have mem: "GbQueryMemoryStatus env = (0x1000000000, 0x800000000)"
  proof -
    have "basic_info (good_env\<lparr>file_obj := Some h\<rparr>) = basic_info good_env"
      "perf (good_env\<lparr>file_obj := Some h\<rparr>) = perf good_env" by simp_all
    then show ?thesis using good_memory unfolding env GbQueryMemoryStatus_def by (simp only:)
  qed
  have envf: "in_status env = STATUS_SUCCESS" "out_status env = STATUS_SUCCESS"
    "file_obj env = Some h" "cur_process env = 42" "sys_time env = 1000" "desc2_ok env"
    "contig_ok env" "map_mdl_ok env" "map_va env = 0x10000000" "phys_addr env = 0x100000000"
    by (simp_all add: env)
  have t2: "GbAllocTier2 env s sz 0 = (Some ?p, s1)"
    using room(2,3) sz(2)
    by (simp add: GbAllocTier2_def mem Let_def not_less add_tier2_def s1_def b0_def envf leD
        new_buf_def)
  define b1 where "b1 = b0\<lparr>Id := i, Active := True\<rparr>"
  define s2 where "s2 = s1\<lparr>heap := (heap s)(?p \<mapsto> b1), NextBufId := i,
    BufTable := (BufTable s)(i \<mapsto> ?p), ActiveBufs := s32_wrap (ActiveBufs s + 1)\<rparr>"
  have w: "s32_wrap (NextBufId s + 1) = i" using i by (subst s32_wrap_id) auto
  have reg: "GbRegisterBuf s1 ?p = (i, s2)"
    using w i
    by (simp add: GbRegisterBuf_def Let_def s1_def s2_def b1_def upd_buf_def GB_MAX_BUFS_def)
  have s2h: "heap s2 = (heap s)(?p \<mapsto> b1)" by (simp add: s2_def)
  have b2: "b1\<lparr>Mdl := Some \<lparr>mdl_kind = Mdl_NonPagedPool, mdl_len = ulong_len asz\<rparr>,
      UserVa := 0x10000000, UserProcess := Some 42\<rparr> = contig_buf asz i"
    by (simp add: b1_def b0_def new_buf_def contig_buf_def)
  have b1f: "Mdl b1 = None" "Contiguous b1" "KernelVa b1 = Some Va_Contiguous" "Size b1 = asz"
    by (simp_all add: b1_def b0_def new_buf_def)
  have map: "GbMapToUser env s2 ?p = (STATUS_SUCCESS, s2\<lparr>heap := (heap s)(?p \<mapsto> contig_buf asz i)\<rparr>)"
    by (simp add: GbMapToUser_def Let_def s2h upd_buf_def b1f envf b2)
  have "publish_buf env s1 ?p 0 = (STATUS_SUCCESS,
      Some \<lparr>out_size = asz, out_user_va = 0x10000000, out_buf_id = i, out_flags = 0\<rparr>,
      s2\<lparr>heap := (heap s)(?p \<mapsto> contig_buf asz i),
         file_ctx := (file_ctx s)(h := GbFileContextSetBuf (file_ctx s h) i)\<rparr>)"
    using i by (simp add: publish_buf_def reg map Let_def upd_file_def envf contig_buf_def)
      (simp add: s2_def s1_def)
  then show ?thesis
    using room(1) sz(1) t2 by (simp add: GbHandleAlloc_def not_less envf leD s2_def s1_def)
qed

definition one_buf :: gb_buf_win where
  "one_buf = contig_buf 0x200000 1"

lemma one_mib_step: "heap (drv_step one_mib (DriverEntry None)) = [0 \<mapsto> one_buf]
    \<and> BufTable (drv_step one_mib (DriverEntry None)) = [1 \<mapsto> 0]
    \<and> PoolAllocated (drv_step one_mib (DriverEntry None)) = 0x200000"
  using alloc_good [of good_env 7 "0x100000" "0x200000" "DriverEntry None" 1]
  by (simp add: one_mib_def one_buf_def block_up entry_caps)

lemma one_mib_reach: "drv_reach False 1 (drv_step one_mib (DriverEntry None))"
  using drv_reach.event [OF drv_reach.entry, of one_mib] by (simp add: one_mib_def)

section \<open>Accounting\<close>



text \<open>
  C17: a reset in a reachable state succeeds and leaves nothing behind: no table entry, no
  live descriptor, an empty LRU list, no active buffer, and byte counters that cancel out
  (both zero when no buffer was evicted before).
\<close>

theorem win_reset_frees_all:
  assumes "drv_reach ev n s" and "n \<le> 4095" and "GbHandleReset env s = (st, s')"
  shows "st = STATUS_SUCCESS \<and> BufTable s' = Map.empty \<and> heap s' = Map.empty \<and> LruList s' = []
    \<and> ActiveBufs s' = 0 \<and> PoolAllocated s' + NvmeAllocated s' = 0
    \<and> (ev \<or> PoolAllocated s' = 0 \<and> NvmeAllocated s' = 0)"
proof -
  from reset_loop [OF reach_inv [OF assms(1,2)] assms(3)]
  have i: "dev_inv ev n {} s'" and e: "\<forall>i. in_table i \<longrightarrow> BufTable s' i = None" by blast+
  have "st = STATUS_SUCCESS" using assms(3) by (simp add: GbHandleReset_def)
  with empty_table [OF i e] show ?thesis by blast
qed

theorem win_reset_frees_all_witness:
  "heap (snd (GbHandleReset good_env (drv_step one_mib (DriverEntry None)))) = Map.empty"
  using win_reset_frees_all [OF one_mib_reach, of good_env
      "fst (GbHandleReset good_env (drv_step one_mib (DriverEntry None)))"
      "snd (GbHandleReset good_env (drv_step one_mib (DriverEntry None)))"]
  by simp

text \<open>
  Unloading the device in a reachable state releases every buffer: no descriptor is
  left, every descriptor that was live is given back to the pool, the watchdog is stopped
  when its thread object is held, and the pressure event is gone.
\<close>

theorem win_unload_frees_all:
  assumes "drv_reach ev n s" and "n \<le> 4095"
  shows "heap (GbEvtDeviceCleanup env s) = Map.empty
    \<and> BufTable (GbEvtDeviceCleanup env s) = Map.empty
    \<and> LruList (GbEvtDeviceCleanup env s) = [] \<and> ActiveBufs (GbEvtDeviceCleanup env s) = 0
    \<and> \<not> PressureEvent (GbEvtDeviceCleanup env s)"
proof -
  from device_cleanup_loop [OF reach_inv [OF assms], of env]
  have i: "dev_inv ev n {} (GbEvtDeviceCleanup env s)"
    and e: "\<forall>i. in_table i \<longrightarrow> BufTable (GbEvtDeviceCleanup env s) i = None" by blast+
  have "\<not> PressureEvent (GbEvtDeviceCleanup env s)" by (simp add: GbEvtDeviceCleanup_def)
  with empty_table [OF i e] show ?thesis by blast
qed

theorem win_unload_frees_all_witness:
  "heap (GbEvtDeviceCleanup good_env (drv_step one_mib (DriverEntry None))) = Map.empty"
  using win_unload_frees_all [OF one_mib_reach] by simp

section \<open>Matching releases\<close>

text \<open>The calls that give back memory acquired in each of the four ways.\<close>

definition proper_release :: "gb_buf_win \<Rightarrow> kcall list" where
  "proper_release b = (case KernelVa b of
     Some Va_Contiguous \<Rightarrow>
       (case Mdl b of Some m \<Rightarrow> [IoFreeMdl m] | None \<Rightarrow> []) @ [MmFreeContiguousMemory Va_Contiguous]
   | Some Va_PagedPool \<Rightarrow>
       (case Mdl b of Some m \<Rightarrow> [MmUnlockPages m, IoFreeMdl m] | None \<Rightarrow> [])
       @ [ExFreePoolVa Va_PagedPool]
   | Some Va_System \<Rightarrow>
       (case Mdl b of
          Some m \<Rightarrow> (if mdl_kind m = Mdl_LockedUser then [MmUnlockPages m, IoFreeMdl m]
            else [MmUnmapSystem Va_System m, MmFreePagesFromMdl m, ExFreePoolMdl m])
        | None \<Rightarrow> [])
   | None \<Rightarrow> [])"



text \<open>
  The memory of a pinned user buffer is released as if the driver had allocated its
  pages: its system mapping is undone, the pages of the caller are given to
  \<^verbatim>\<open>MmFreePagesFromMdl\<close> and they are never unlocked.
\<close>

theorem win_pin_release_wrong:
  assumes "heap s p = Some b" and "KernelVa b = Some v" and "Mdl b = Some m"
    and "mdl_kind m = Mdl_LockedUser" and "\<not> Contiguous b" and "Tier b = GB_TIER2_DDR4"
  shows "kcalls (GbFreeBuf env s p) = kcalls s @ map (Pair p) (unmap_calls env b
      @ [MmUnmapSystem v m, MmFreePagesFromMdl m, ExFreePoolMdl m, ExFreePoolDescriptor])
    \<and> (\<forall>m'. MmUnlockPages m' \<notin> set (unmap_calls env b @ release_calls b))"
  using assms
  by (auto simp: GbFreeBuf_eq [OF assms(1)] release_calls_def unmap_calls_def split: option.splits)

definition pinned_buf :: gb_buf_win where
  "pinned_buf = one_buf\<lparr>KernelVa := Some Va_System, Contiguous := False,
     Mdl := Some \<lparr>mdl_kind = Mdl_LockedUser, mdl_len = 0x200000\<rparr>\<rparr>"

theorem win_pin_release_wrong_witness:
  "kcalls (GbFreeBuf good_env ((DriverEntry None)\<lparr>heap := [3 \<mapsto> pinned_buf]\<rparr>) 3)
    = map (Pair 3) [MmUnmapUserIn 42, ObDereferenceProcess 42,
        MmUnmapSystem Va_System \<lparr>mdl_kind = Mdl_LockedUser, mdl_len = 0x200000\<rparr>,
        MmFreePagesFromMdl \<lparr>mdl_kind = Mdl_LockedUser, mdl_len = 0x200000\<rparr>,
        ExFreePoolMdl \<lparr>mdl_kind = Mdl_LockedUser, mdl_len = 0x200000\<rparr>, ExFreePoolDescriptor]"
  using win_pin_release_wrong [of "(DriverEntry None)\<lparr>heap := [3 \<mapsto> pinned_buf]\<rparr>" 3 pinned_buf
      Va_System "\<lparr>mdl_kind = Mdl_LockedUser, mdl_len = 0x200000\<rparr>" good_env]
  by (simp add: pinned_buf_def one_buf_def contig_buf_def unmap_calls_def good_env_def DriverEntry_def
      GbReadConfig_def zero_device_def)

end
