(* ===== verification/Win_Driver_Limits.thy ===== *)
theory Win_Driver_Limits
  imports Win_Driver_Props
begin

text \<open>
  Capacity, identifiers and reported numbers of the Windows driver: the limits that an
  allocation respects, the numbers of a GET INFO reply, the levels of the watchdog, and the
  requests that get around a limit.
\<close>

section \<open>Tier 2 limits\<close>

lemma alloc_tier2_ok:
  assumes "GbAllocTier2 env s sz flags = (Some p, s')"
  shows "\<not> gib (VirtualVramGb s) < PoolAllocated s + sz
    \<and> \<not> snd (GbQueryMemoryStatus env) < gib (SafetyReserveGb s) + sz
    \<and> (\<exists>b. (Some p, s') = add_tier2 s b \<and> Size b = align_up_by sz GB_BLOCK_SIZE)"
proof -
  obtain total avail where m: "GbQueryMemoryStatus env = (total, avail)" by fastforce
  have t: "\<exists>b. (Some p, s') = add_tier2 s b \<and> Size b = align_up_by sz GB_BLOCK_SIZE"
    if "add_tier2 s b = (Some p, s')" and "Size b = align_up_by sz GB_BLOCK_SIZE" for b
    using that by metis
  have "\<exists>b. (Some p, s') = add_tier2 s b \<and> Size b = align_up_by sz GB_BLOCK_SIZE"
    using assms unfolding GbAllocTier2_def Let_def m
    by (simp split: if_splits) (erule t, simp)+
  moreover have "\<not> gib (VirtualVramGb s) < PoolAllocated s + sz
      \<and> \<not> snd (GbQueryMemoryStatus env) < gib (SafetyReserveGb s) + sz"
    using assms unfolding GbAllocTier2_def Let_def m by (simp split: if_splits)
  ultimately show ?thesis by blast
qed

text \<open>
  C25: a successful tier 2 allocation of a size that the ALLOC request lets through takes the
  size rounded up to whole 2 MiB blocks, adds exactly that to the pool counter, was made while
  the requested bytes and the safety reserve were available, and keeps the pool below its
  cap plus one block (the cap is tested before rounding). No sum overflows.
\<close>

theorem win_tier2_limits:
  assumes "GbAllocTier2 env s sz flags = (Some p, s')"
    and "sz \<le> gib (VirtualVramGb s) + gib (NvmePoolGb s)"
    and "unat (PoolAllocated s) < unat (gib (VirtualVramGb s)) + 2 ^ 21"
  shows "\<exists>b. heap s' p = Some b \<and> unat (Size b) = (unat sz + 2 ^ 21 - 1) div 2 ^ 21 * 2 ^ 21
    \<and> sz \<le> Size b \<and> unat (Size b) < unat sz + 2 ^ 21
    \<and> unat (PoolAllocated s') = unat (PoolAllocated s) + unat (Size b)
    \<and> unat (PoolAllocated s') < unat (gib (VirtualVramGb s)) + 2 ^ 21
    \<and> unat (gib (SafetyReserveGb s)) + unat sz \<le> unat (snd (GbQueryMemoryStatus env))"
proof -
  from alloc_tier2_ok [OF assms(1)] obtain b where
    cap: "PoolAllocated s + sz \<le> gib (VirtualVramGb s)"
    and mem: "gib (SafetyReserveGb s) + sz \<le> snd (GbQueryMemoryStatus env)"
    and add: "(Some p, s') = add_tier2 s b" and b: "Size b = align_up_by sz GB_BLOCK_SIZE"
    by (auto simp: not_less)
  note caps = unat_gib_bound [of "VirtualVramGb s"] unat_gib_bound [of "NvmePoolGb s"]
    unat_gib_bound [of "SafetyReserveGb s"]
  have "unat (gib (VirtualVramGb s) + gib (NvmePoolGb s))
      = unat (gib (VirtualVramGb s)) + unat (gib (NvmePoolGb s))"
    using caps by (intro unat_plus_small) simp
  then have sz: "unat sz < 2 ^ 63"
    using assms(2) caps by (simp add: word_le_nat_alt)
  have blk: "GB_BLOCK_SIZE = 2 ^ 21" by (simp add: GB_BLOCK_SIZE_def)
  have sb: "unat (Size b) = (unat sz + 2 ^ 21 - 1) div 2 ^ 21 * 2 ^ 21"
    using sz unfolding b blk by (intro align_up_nat) simp_all
  have lo: "unat sz \<le> unat (Size b)" and hi: "unat (Size b) < unat sz + 2 ^ 21"
    unfolding sb by (rule round_up_ge, simp, rule round_up_lt, simp)
  have used: "unat (PoolAllocated s) + unat sz \<le> unat (gib (VirtualVramGb s))"
    using cap sz assms(3) caps
    by (simp add: word_le_nat_alt unat_plus_small)
  have pool: "unat (PoolAllocated s') = unat (PoolAllocated s) + unat (Size b)"
    using add used hi caps by (simp add: add_tier2_def Let_def unat_plus_small)
  have res: "unat (gib (SafetyReserveGb s)) + unat sz \<le> unat (snd (GbQueryMemoryStatus env))"
    using mem sz caps by (simp add: word_le_nat_alt unat_plus_small)
  have "heap s' p = Some b" using add by (simp add: add_tier2_def Let_def)
  with sb lo hi pool used res show ?thesis
    by (intro exI [of _ b]) (simp add: word_le_nat_alt)
qed

theorem win_tier2_limits_witness:
  "unat (PoolAllocated (snd (GbAllocTier2 good_env (DriverEntry None) 0x100000 0)))
    < unat (gib 51) + 2 ^ 21"
proof -
  have "GbAllocTier2 good_env (DriverEntry None) 0x100000 0
      = (Some 0, snd (GbAllocTier2 good_env (DriverEntry None) 0x100000 0))"
    by (simp add: GbAllocTier2_def good_memory Let_def add_tier2_def entry_caps)
  from win_tier2_limits [OF this] show ?thesis by (auto simp: entry_caps)
qed

section \<open>Pinned memory is not bounded by the cap\<close>

lemma pin_good:
  assumes sz: "sz \<noteq> 0" "align_up_by sz PAGE_SIZE = asz" "v \<noteq> 0"
    and room: "PoolAllocated s + asz \<le> gib (VirtualVramGb s)"
    and i: "0 \<le> NextBufId s" "NextBufId s + 1 < 4096" "i = NextBufId s + 1"
  shows "\<exists>s'. GbHandlePinUserPtr good_env \<lparr>pin_vaddr = v, pin_size = sz, pin_flags = 0\<rparr> s
      = (STATUS_SUCCESS, Some \<lparr>out_size = asz, out_user_va = 0x10000000, out_buf_id = i,
         out_flags = 0\<rparr>, s')
    \<and> PoolAllocated s' = PoolAllocated s + asz
    \<and> (\<exists>b. heap s' = (heap s)(pool_next s \<mapsto> b)
         \<and> Mdl b = Some \<lparr>mdl_kind = Mdl_LockedUser, mdl_len = ulong_len asz\<rparr>)"
proof -
  let ?p = "pool_next s" and ?m = "\<lparr>mdl_kind = Mdl_LockedUser, mdl_len = ulong_len asz\<rparr>"
  define b0 where "b0 = new_buf\<lparr>KernelVa := Some Va_System, Mdl := Some ?m, Size := asz,
    AllocFlags := 0, Frozen := False, AllocTime := 1000, LastAccessTime := 1000\<rparr>"
  define s1 where "s1 = s\<lparr>heap := (heap s)(?p \<mapsto> b0), pool_next := ?p + 1,
    PoolAllocated := PoolAllocated s + asz, LruList := LruList s @ [?p]\<rparr>"
  define b1 where "b1 = b0\<lparr>Id := i, Active := True\<rparr>"
  define b2 where "b2 = b1\<lparr>Mdl := Some ?m, UserVa := 0x10000000, UserProcess := Some 42\<rparr>"
  define s2 where "s2 = s1\<lparr>heap := (heap s)(?p \<mapsto> b1), NextBufId := i,
    BufTable := (BufTable s)(i \<mapsto> ?p), ActiveBufs := s32_wrap (ActiveBufs s + 1)\<rparr>"
  define s3 where "s3 = s2\<lparr>heap := (heap s)(?p \<mapsto> b2)\<rparr>"
  define s4 where "s4 = upd_file good_env (\<lambda>c. GbFileContextSetBuf c i) s3"
  have w: "s32_wrap (NextBufId s + 1) = i" using i by (subst s32_wrap_id) auto
  have reg: "GbRegisterBuf s1 ?p = (i, s2)"
    using w i
    by (simp add: GbRegisterBuf_def Let_def s1_def s2_def b1_def upd_buf_def GB_MAX_BUFS_def)
  have s2h: "heap s2 = (heap s)(?p \<mapsto> b1)" "Mdl b1 = Some ?m"
    by (simp_all add: s2_def b1_def b0_def)
  have map: "GbMapToUser good_env s2 ?p = (STATUS_SUCCESS, s3)"
    by (simp add: GbMapToUser_def Let_def s2h upd_buf_def s3_def b2_def)
  have b2f: "Size b2 = asz" "Id b2 = i" "UserVa b2 = 0x10000000" "Mdl b2 = Some ?m"
    by (simp_all add: b2_def b1_def b0_def)
  have s3f: "heap s3 = (heap s)(?p \<mapsto> b2)" by (simp add: s3_def)
  have pub: "publish_buf good_env s1 ?p 0 = (STATUS_SUCCESS,
      Some \<lparr>out_size = asz, out_user_va = 0x10000000, out_buf_id = i, out_flags = 0\<rparr>, s4)"
    using i by (simp add: publish_buf_def reg map Let_def s3f b2f s4_def)
  have add: "add_tier2 s b0 = (Some ?p, s1)"
    by (simp add: add_tier2_def Let_def s1_def) (simp add: b0_def)
  have "GbHandlePinUserPtr good_env \<lparr>pin_vaddr = v, pin_size = sz, pin_flags = 0\<rparr> s
      = (STATUS_SUCCESS, Some \<lparr>out_size = asz, out_user_va = 0x10000000, out_buf_id = i,
         out_flags = 0\<rparr>, s4)"
    using sz room add pub by (simp add: GbHandlePinUserPtr_def Let_def not_less leD b0_def)
  moreover have "PoolAllocated s4 = PoolAllocated s + asz" "heap s4 = (heap s)(?p \<mapsto> b2)"
    by (simp_all add: s4_def upd_file_def s3_def s2_def s1_def)
  ultimately show ?thesis using b2f by blast
qed

definition four_gib :: drv_event where
  "four_gib = Io_control good_env (GB_IOCTL_ALLOC \<lparr>req_size = 0x100000000, req_flags = 0\<rparr>)"

text \<open>
  The capacity test of a pin request adds the aligned size to the pool counter without
  regard to overflow. With a buffer of 4 GiB in the pool, a pin of \<open>2 ^ 64 - 2 ^ 32 + 4096\<close>
  bytes passes the test, pins the single page that is left of the length after its cut to 32
  bits, is answered with the full size, and leaves a pool counter of 4096 bytes although the
  buffer of 4 GiB is still live.
\<close>

theorem win_pin_defeats_cap:
  "\<exists>s'. GbHandlePinUserPtr good_env
      \<lparr>pin_vaddr = 0x10000, pin_size = 0xFFFFFFFF00001000, pin_flags = 0\<rparr>
      (drv_step four_gib (DriverEntry None))
      = (STATUS_SUCCESS, Some \<lparr>out_size = 0xFFFFFFFF00001000, out_user_va = 0x10000000,
          out_buf_id = 2, out_flags = 0\<rparr>, s')
    \<and> PoolAllocated (drv_step four_gib (DriverEntry None)) = 0x100000000
    \<and> PoolAllocated s' = 4096 \<and> heap s' 0 = Some (contig_buf 0x100000000 1)
    \<and> (\<exists>b. heap s' 1 = Some b
         \<and> Mdl b = Some \<lparr>mdl_kind = Mdl_LockedUser, mdl_len = 4096\<rparr>)"
proof -
  let ?s = "drv_step four_gib (DriverEntry None)"
  have up: "align_up_by 0x100000000 GB_BLOCK_SIZE = 0x100000000"
    "align_up_by 0xFFFFFFFF00001000 PAGE_SIZE = 0xFFFFFFFF00001000"
    by (simp_all add: align_up_by_def GB_BLOCK_SIZE_def PAGE_SIZE_def)
  have ge: "good_env = good_env\<lparr>file_obj := Some 7\<rparr>" by (simp add: good_env_def)
  have e: "GbHandleAlloc good_env \<lparr>req_size = 0x100000000, req_flags = 0\<rparr> (DriverEntry None)
    = (STATUS_SUCCESS, Some \<lparr>out_size = 0x100000000, out_user_va = 0x10000000, out_buf_id = 1,
        out_flags = 0\<rparr>, ?s)"
    using alloc_good [OF ge _ up(1), of "DriverEntry None" 1]
    by (simp add: four_gib_def entry_caps)
  have s: "heap ?s = [0 \<mapsto> contig_buf 0x100000000 1]" "PoolAllocated ?s = 0x100000000"
    "NextBufId ?s = 1" "VirtualVramGb ?s = 51" "pool_next ?s = 1"
    using alloc_good [OF ge _ up(1), of "DriverEntry None" 1]
    by (simp_all add: four_gib_def entry_caps)
  have len: "ulong_len 0xFFFFFFFF00001000 = 4096" by (simp add: ulong_len_def)
  have room: "PoolAllocated ?s + 0xFFFFFFFF00001000 \<le> gib (VirtualVramGb ?s)"
    by (simp add: s entry_caps)
  have "\<exists>s'. GbHandlePinUserPtr good_env
        \<lparr>pin_vaddr = 0x10000, pin_size = 0xFFFFFFFF00001000, pin_flags = 0\<rparr> ?s
      = (STATUS_SUCCESS, Some \<lparr>out_size = 0xFFFFFFFF00001000, out_user_va = 0x10000000,
          out_buf_id = 2, out_flags = 0\<rparr>, s')
    \<and> PoolAllocated s' = PoolAllocated ?s + 0xFFFFFFFF00001000
    \<and> (\<exists>b. heap s' = (heap ?s)(pool_next ?s \<mapsto> b)
         \<and> Mdl b = Some \<lparr>mdl_kind = Mdl_LockedUser, mdl_len = ulong_len 0xFFFFFFFF00001000\<rparr>)"
    by (rule pin_good [OF _ up(2) _ room]) (simp_all only: s, simp_all)
  then obtain s' b where
    r: "GbHandlePinUserPtr good_env
        \<lparr>pin_vaddr = 0x10000, pin_size = 0xFFFFFFFF00001000, pin_flags = 0\<rparr> ?s
      = (STATUS_SUCCESS, Some \<lparr>out_size = 0xFFFFFFFF00001000, out_user_va = 0x10000000,
          out_buf_id = 2, out_flags = 0\<rparr>, s')"
    and s': "PoolAllocated s' = PoolAllocated ?s + 0xFFFFFFFF00001000"
      "heap s' = (heap ?s)(pool_next ?s \<mapsto> b)"
    and m: "Mdl b = Some \<lparr>mdl_kind = Mdl_LockedUser, mdl_len = ulong_len 0xFFFFFFFF00001000\<rparr>"
    by blast
  have "PoolAllocated s' = 4096" unfolding s'(1) s(2) by simp
  moreover have "heap s' 0 = Some (contig_buf 0x100000000 1)" "heap s' 1 = Some b"
    unfolding s'(2) s by simp_all
  ultimately show ?thesis using r s(2) m len by metis
qed

section \<open>Identifiers after the wrap-around\<close>

text \<open>
  Once the identifier counter has run past the table, the driver finds a free slot and
  restarts the counter there, and the next registration takes the following slot without
  looking: when that slot is in use, its buffer loses its table entry (and with it any way to
  be freed by a request).
\<close>

theorem win_register_overwrites:
  assumes "NextBufId s = 4095" and "0 < i" and "i + 1 < 4096"
    and "\<forall>j. 0 < j \<longrightarrow> j < i \<longrightarrow> BufTable s j \<noteq> None" and "BufTable s i = None"
    and "BufTable s (i + 1) = Some q"
    and "GbRegisterBuf s p1 = (i1, s1)" and "GbRegisterBuf s1 p2 = (i2, s2)"
  shows "i1 = i \<and> i2 = i + 1 \<and> BufTable s2 (i + 1) = Some p2
    \<and> ActiveBufs s2 = s32_wrap (s32_wrap (ActiveBufs s + 1) + 1)"
proof -
  have w: "s32_wrap (4095 + 1) = 4096" "s32_wrap (i + 1) = i + 1"
    using assms(2,3) by (subst s32_wrap_id; simp)+
  have "for_until (nat GB_MAX_BUFS - 1)
      (\<lambda>i. if BufTable s (int i) = None then Some (int i) else None) 1 = Some i"
  proof (rule for_until_SomeI [of "nat i - 1"])
    show "nat i - 1 < nat GB_MAX_BUFS - 1" using assms(2,3) by (simp add: GB_MAX_BUFS_def)
    have "1 + (nat i - 1) = nat i" using assms(2) by simp
    then show "(if BufTable s (int (1 + (nat i - 1))) = None then Some (int (1 + (nat i - 1)))
        else None) = Some i"
      using assms(2,5) by simp
    show "\<forall>j<nat i - 1. (if BufTable s (int (1 + j)) = None then Some (int (1 + j)) else None)
        = None"
    proof (intro allI impI)
      fix j
      assume "j < nat i - 1"
      then have "0 < int (1 + j)" "int (1 + j) < i" by simp_all
      with assms(4) have "BufTable s (int (1 + j)) \<noteq> None" by blast
      then show "(if BufTable s (int (1 + j)) = None then Some (int (1 + j)) else None) = None"
        by simp
    qed
  qed
  then have 1: "i1 = i" "NextBufId s1 = i" "ActiveBufs s1 = s32_wrap (ActiveBufs s + 1)"
    "BufTable s1 = (BufTable s)(i \<mapsto> p1)"
    using assms(1,7) w(1)
    by (auto simp: GbRegisterBuf_def Let_def GB_MAX_BUFS_def upd_buf_def)
  then show ?thesis
    using assms(2,3,8) w(2) by (auto simp: GbRegisterBuf_def Let_def GB_MAX_BUFS_def upd_buf_def)
qed

theorem win_register_overwrites_witness:
  "BufTable (snd (GbRegisterBuf (snd (GbRegisterBuf ((DriverEntry None)\<lparr>NextBufId := 4095,
      BufTable := [1 \<mapsto> 11, 3 \<mapsto> 13]\<rparr>) 20)) 21)) 3 = Some 21"
proof -
  let ?s = "(DriverEntry None)\<lparr>NextBufId := 4095, BufTable := [1 \<mapsto> 11, 3 \<mapsto> 13]\<rparr>"
  have "\<forall>j. 0 < j \<longrightarrow> j < 2 \<longrightarrow> BufTable ?s j \<noteq> None"
  proof (intro allI impI)
    fix j :: int
    assume "0 < j" "j < 2"
    then have "j = 1" by simp
    then show "BufTable ?s j \<noteq> None" by simp
  qed
  from win_register_overwrites [OF _ _ _ this _ _ prod.collapse [symmetric] prod.collapse [symmetric],
      of 13 20 21]
  show ?thesis by simp
qed

section \<open>Eviction and the byte counters\<close>

text \<open>
  Evicting a tier 2 buffer and then freeing it takes its bytes from the tier 3 counter
  although they had been added to the tier 2 counter: the pool keeps counting a buffer that no
  longer exists, and the tier 3 counter falls by a size that was never added to it.
\<close>

theorem win_evict_then_free:
  assumes "dev_inv ev n {} s" and "GbLookupBuf s i = Some p" and "heap s p = Some b"
    and "Tier b = GB_TIER2_DDR4" and "in_status env = STATUS_SUCCESS"
    and "GbHandleEvict env i s = (st1, s1)" and "GbHandleFree env i s1 = (st2, s2)"
  shows "st1 = STATUS_SUCCESS \<and> st2 = STATUS_SUCCESS \<and> heap s2 p = None
    \<and> PoolAllocated s2 = PoolAllocated s \<and> NvmeAllocated s2 = NvmeAllocated s - Size b"
proof -
  let ?b = "b\<lparr>Tier := GB_TIER3_NVME\<rparr>"
  from lookup_found [OF assms(1,2)] assms(3) have
    id: "Id b = i" "BufTable s i = Some p" "in_table i" by auto
  from table_entry [OF assms(1) id(2)] assms(3) have act: "Active b" by auto
  have st1: "st1 = STATUS_SUCCESS" and
    s1: "s1 = (upd_buf p (\<lambda>b. b\<lparr>Tier := GB_TIER3_NVME\<rparr>) s)\<lparr>LruList := removeAll p (LruList s)\<rparr>"
    using assms(2-6) by (auto simp: GbHandleEvict_def)
  have h1: "heap s1 = (heap s)(p \<mapsto> ?b)" "BufTable s1 = BufTable s"
    "PoolAllocated s1 = PoolAllocated s" "NvmeAllocated s1 = NvmeAllocated s"
    using assms(3) by (simp_all add: s1 upd_buf_def)
  have "GbLookupBuf s1 i = Some p"
    using h1 id act by (simp add: GbLookupBuf_def in_table_def)
  then have st2: "st2 = STATUS_SUCCESS"
    and s2: "s2 = GbFreeBuf env (upd_file env (\<lambda>c. GbFileContextClearBuf c i) s1) p"
    using assms(5,7) by (auto simp: GbHandleFree_def)
  let ?s = "upd_file env (\<lambda>c. GbFileContextClearBuf c i) s1"
  have f: "heap ?s p = Some ?b" "PoolAllocated ?s = PoolAllocated s"
    "NvmeAllocated ?s = NvmeAllocated s"
    using h1 by (simp_all add: upd_file_def split: option.split)
  show ?thesis
    unfolding s2 GbFreeBuf_eq [OF f(1)] using st1 st2 f(2,3) by simp
qed

theorem win_evict_then_free_witness:
  "PoolAllocated (snd (GbHandleFree good_env 1
      (snd (GbHandleEvict good_env 1 (drv_step one_mib (DriverEntry None)))))) = 0x200000
    \<and> NvmeAllocated (snd (GbHandleFree good_env 1
      (snd (GbHandleEvict good_env 1 (drv_step one_mib (DriverEntry None))))))
      = NvmeAllocated (drv_step one_mib (DriverEntry None)) - 0x200000"
proof -
  let ?s = "drv_step one_mib (DriverEntry None)"
  have l: "GbLookupBuf ?s 1 = Some 0" "heap ?s 0 = Some one_buf"
    using one_mib_step by (simp_all add: GbLookupBuf_def GB_MAX_BUFS_def one_buf_def contig_buf_def)
  from win_evict_then_free [OF reach_inv [OF one_mib_reach] l _ _ prod.collapse [symmetric]
      prod.collapse [symmetric], of good_env]
  show ?thesis using one_mib_step by (simp add: one_buf_def contig_buf_def)
qed

section \<open>Reported numbers\<close>

text \<open>
  The reply of a GET INFO request is exact: while the reserve and the pool counter do not
  overflow together, the available memory is what is left of the free memory after both (and
  zero rather than negative), and the combined capacity is the sum of the three configured
  sizes in mebibytes, for every configuration.
\<close>

theorem win_get_info_exact:
  assumes "GbHandleGetInfo env s = (STATUS_SUCCESS, Some info)"
    and "unat (gib (SafetyReserveGb s)) + unat (PoolAllocated s) < 2 ^ 64"
  shows "unat (available_mb info) = (unat (snd (GbQueryMemoryStatus env))
        - unat (gib (SafetyReserveGb s)) - unat (PoolAllocated s)) div 2 ^ 20
    \<and> unat (allocated_mb info) = unat (PoolAllocated s) div 2 ^ 20
    \<and> unat (total_combined_mb info)
        = (unat (PhysicalVramGb s) + unat (VirtualVramGb s) + unat (NvmeSwapGb s)) * 1024"
proof -
  obtain total avail where m: "GbQueryMemoryStatus env = (total, avail)" by fastforce
  let ?r = "gib (SafetyReserveGb s)" and ?a = "PoolAllocated s"
  have sum: "unat (?r + ?a) = unat ?r + unat ?a" using assms(2) by (rule unat_plus_small)
  have avail: "available_mb info = (if ?r + ?a < avail then mib_of (avail - ?r - ?a) else 0)"
    and alloc: "allocated_mb info = mib_of ?a"
    and comb: "total_combined_mb info = ucast (PhysicalVramGb s) * 1024
      + ucast (VirtualVramGb s) * 1024 + ucast (NvmeSwapGb s) * 1024"
    using assms(1) by (auto simp: GbHandleGetInfo_def m Let_def split: if_splits)
  have "unat (available_mb info) = (unat avail - unat ?r - unat ?a) div 2 ^ 20"
  proof (cases "?r + ?a < avail")
    case True
    then have lt: "unat ?r + unat ?a < unat avail" by (simp add: word_less_nat_alt sum)
    have "unat (avail - (?r + ?a)) = unat avail - (unat ?r + unat ?a)"
      using lt by (subst unat_sub) (simp_all add: word_le_nat_alt sum)
    with True show ?thesis by (simp add: avail unat_mib_of diff_diff_eq)
  next
    case False
    then have "unat avail \<le> unat ?r + unat ?a" by (simp add: not_less word_le_nat_alt sum)
    with False show ?thesis by (simp add: avail)
  qed
  moreover have kb: "unat (ucast x * 1024 :: u64) = unat x * 1024" for x :: u32
    using unat_u32_less [of x]
    by (simp add: unat_word_ariths unsigned_ucast_eq take_bit_nat_eq_self)
  have "unat (total_combined_mb info)
      = (unat (PhysicalVramGb s) + unat (VirtualVramGb s) + unat (NvmeSwapGb s)) * 1024"
    using unat_u32_less [of "PhysicalVramGb s"] unat_u32_less [of "VirtualVramGb s"]
      unat_u32_less [of "NvmeSwapGb s"]
    unfolding comb by (subst unat_plus_small; (subst unat_plus_small)?; simp add: kb)
  ultimately show ?thesis by (simp add: m alloc unat_mib_of)
qed

theorem win_get_info_exact_witness:
  "case snd (GbHandleGetInfo good_env (DriverEntry None)) of
     None \<Rightarrow> False
   | Some info \<Rightarrow> unat (available_mb info) = (0x800000000 - 0x300000000) div 2 ^ 20
       \<and> unat (total_combined_mb info) = (12 + 51 + 64) * 1024"
proof -
  have d: "PhysicalVramGb (DriverEntry None) = 12" "NvmeSwapGb (DriverEntry None) = 64"
    by (simp_all add: DriverEntry_def GbReadConfig_def zero_device_def)
  obtain info where i: "GbHandleGetInfo good_env (DriverEntry None) = (STATUS_SUCCESS, Some info)"
    by (simp add: GbHandleGetInfo_def good_memory Let_def)
  from win_get_info_exact [OF i] show ?thesis by (simp add: i d good_memory entry_caps)
qed

section \<open>The watchdog\<close>

lemma pressure_nat:
  assumes "CommitLimit p \<noteq> 0"
  shows "pressure_level p = (let used = unat (CommittedPages p) * 100 div unat (CommitLimit p) in
    if 90 \<le> used then 2 else if 75 \<le> used then 1 else 0)"
proof -
  have c: "unat (ucast (CommittedPages p) * 100 :: u64) = unat (CommittedPages p) * 100"
    using unat_u32_less [of "CommittedPages p"]
    by (simp add: unat_word_ariths unsigned_ucast_eq take_bit_nat_eq_self)
  have l: "unat (ucast (CommitLimit p) :: u64) = unat (CommitLimit p)"
    using unat_u32_less [of "CommitLimit p"]
    by (simp add: unsigned_ucast_eq take_bit_nat_eq_self)
  show ?thesis
    by (simp add: pressure_level_def Let_def word_le_nat_alt unat_div_distrib c l)
qed

text \<open>
  A round of the running watchdog sets the pressure level from the share of committed
  memory (critical from 90 percent, warning from 75, computed without overflow for every pair
  of page counts), signals the pressure event exactly when the level changes, and a further
  round over the same numbers signals nothing. The out-of-memory flag says whether the
  available memory is below the safety reserve.
\<close>

theorem win_watchdog_round:
  assumes "WatchdogRunning s" and "PressureEvent s" and "perf env = Some p"
    and "CommitLimit p \<noteq> 0" and "watchdog_round env s = (sig, s')"
  shows "SwapPressure s' = (let used = unat (CommittedPages p) * 100 div unat (CommitLimit p) in
        if 90 \<le> used then 2 else if 75 \<le> used then 1 else 0)
    \<and> (sig \<longleftrightarrow> SwapPressure s' \<noteq> SwapPressure s)
    \<and> \<not> fst (watchdog_round env s')
    \<and> (OomActive s' \<longleftrightarrow> unat (snd (GbQueryMemoryStatus env)) < unat (gib (SafetyReserveGb s)))"
proof -
  obtain total avail where m: "GbQueryMemoryStatus env = (total, avail)" by fastforce
  show ?thesis
    using assms pressure_nat [OF assms(4)]
    by (auto simp: watchdog_round_def m Let_def word_less_nat_alt)
qed

theorem win_watchdog_round_witness:
  "let s = (DriverEntry None)\<lparr>WatchdogRunning := True, PressureEvent := True\<rparr>;
       env = good_env\<lparr>perf := Some \<lparr>AvailablePages = 0x800000, CommittedPages = 90,
         CommitLimit = 100\<rparr>\<rparr>
   in SwapPressure (snd (watchdog_round env s)) = 2 \<and> fst (watchdog_round env s)"
proof -
  let ?s = "(DriverEntry None)\<lparr>WatchdogRunning := True, PressureEvent := True\<rparr>"
  let ?p = "\<lparr>AvailablePages = 0x800000, CommittedPages = 90, CommitLimit = 100\<rparr>"
  have z: "SwapPressure (DriverEntry None) = 0"
    by (simp add: DriverEntry_def GbReadConfig_def zero_device_def)
  from win_watchdog_round [OF _ _ _ _ prod.collapse [symmetric], of ?s "good_env\<lparr>perf := Some ?p\<rparr>" ?p]
  show ?thesis by (simp add: z Let_def)
qed

end
