(* ===== verification/Win_Driver_Owners.thy ===== *)
theory Win_Driver_Owners
  imports Win_Driver_Limits
begin

text \<open>
  Ownership of buffers in the Windows driver: the bitmap of a file handle as a set of
  identifiers with a counter, the cleanup of a closing handle, and what happens when a buffer
  is freed through a handle that does not own it.
\<close>

section \<open>Sets of identifiers\<close>

text \<open>
  The interface of the bitmap: membership, insertion and removal of valid identifiers. The
  second locale adds the counter that the C code keeps beside the bits; it is exact as long
  as only new identifiers are added and only members are removed.
\<close>

locale id_set =
  fixes member :: "'s \<Rightarrow> int \<Rightarrow> bool"
    and add :: "'s \<Rightarrow> int \<Rightarrow> 's"
    and drop :: "'s \<Rightarrow> int \<Rightarrow> 's"
    and valid :: "int \<Rightarrow> bool"
  assumes member_valid: "member s i \<Longrightarrow> valid i"
    and member_add: "valid i \<Longrightarrow> member (add s i) j \<longleftrightarrow> j = i \<or> member s j"
    and member_drop: "valid i \<Longrightarrow> member (drop s i) j \<longleftrightarrow> j \<noteq> i \<and> member s j"
    and add_invalid: "\<not> valid i \<Longrightarrow> add s i = s"
    and drop_invalid: "\<not> valid i \<Longrightarrow> drop s i = s"
begin

lemma add_iff: "member (add s i) j \<longleftrightarrow> (valid i \<and> j = i) \<or> member s j"
  using member_add [of i s j] add_invalid [of i s] by (cases "valid i") auto

lemma drop_iff: "member (drop s i) j \<longleftrightarrow> j \<noteq> i \<and> member s j"
  using member_drop [of i s j] drop_invalid [of i s] member_valid [of s i] by (cases "valid i") auto

lemma drop_add: "member (drop (add s i) i) j \<longleftrightarrow> j \<noteq> i \<and> member s j"
  by (auto simp: drop_iff add_iff)

end

locale counted_id_set = id_set member add drop valid
  for member :: "'s \<Rightarrow> int \<Rightarrow> bool" and add :: "'s \<Rightarrow> int \<Rightarrow> 's"
    and drop :: "'s \<Rightarrow> int \<Rightarrow> 's" and valid :: "int \<Rightarrow> bool" +
  fixes count :: "'s \<Rightarrow> int"
  assumes finite_valid: "finite {i. valid i}"
    and few_valid: "card {i. valid i} < 2 ^ 31"
    and count_add: "valid i \<Longrightarrow> count (add s i) = s32_wrap (count s + 1)"
    and count_drop: "valid i \<Longrightarrow> count (drop s i) = s32_wrap (count s - 1)"
begin

definition exact :: "'s \<Rightarrow> bool" where
  "exact s \<longleftrightarrow> count s = int (card {i. member s i})"

lemma finite_members: "finite {i. member s i}"
  by (rule finite_subset [OF _ finite_valid]) (auto dest: member_valid)

lemma card_members: "int (card {i. member s i}) < 2 ^ 31"
proof -
  have "card {i. member s i} \<le> card {i. valid i}"
    by (rule card_mono [OF finite_valid]) (auto dest: member_valid)
  then have "card {i. member s i} < 2 ^ 31" using few_valid by (rule order_le_less_trans)
  then show ?thesis by simp
qed

lemma exact_add: "exact s \<Longrightarrow> valid i \<Longrightarrow> \<not> member s i \<Longrightarrow> exact (add s i)"
proof -
  assume *: "exact s" "valid i" "\<not> member s i"
  have "{j. member (add s i) j} = insert i {j. member s j}"
    using *(2) by (auto simp: add_iff)
  then have c: "card {j. member (add s i) j} = Suc (card {j. member s j})"
    using *(3) finite_members by simp
  moreover have "s32_wrap (count s + 1) = count s + 1"
    using * c card_members [of "add s i"] by (subst s32_wrap_id) (auto simp: exact_def)
  ultimately show ?thesis using * by (simp add: exact_def count_add)
qed

lemma exact_drop: "exact s \<Longrightarrow> member s i \<Longrightarrow> exact (drop s i)"
proof -
  assume *: "exact s" "member s i"
  have "insert i {j. member (drop s i) j} = {j. member s j}"
    using *(2) by (auto simp: drop_iff)
  moreover have "i \<notin> {j. member (drop s i) j}" by (simp add: drop_iff)
  ultimately have c: "card {j. member s j} = Suc (card {j. member (drop s i) j})"
    using finite_members [of "drop s i"] by (metis card_insert_disjoint)
  moreover have "s32_wrap (count s - 1) = count s - 1"
    using * c card_members [of s] by (subst s32_wrap_id) (auto simp: exact_def)
  ultimately show ?thesis using * member_valid [OF *(2)] by (simp add: exact_def count_drop)
qed

end

section \<open>The bitmap of a file handle\<close>

lemma owner_bit_test: "0 \<le> i \<Longrightarrow> (w AND owner_bit i \<noteq> 0) = bit w (nat (i mod 32))"
proof -
  assume "0 \<le> i"
  have k: "nat (i mod 32) < 32" by (simp add: nat_less_iff)
  have "w AND owner_bit i = (if bit w (nat (i mod 32)) then owner_bit i else 0)"
    by (rule bit_eqI) (auto simp: owner_bit_def bit_simps)
  moreover have "owner_bit i \<noteq> 0"
  proof -
    have "bit (owner_bit i) (nat (i mod 32))" using k by (simp add: owner_bit_def bit_simps)
    then show ?thesis by auto
  qed
  ultimately show ?thesis by simp
qed

lemma owner_bits:
  assumes "0 \<le> i" and "0 \<le> j"
  shows "bit (w OR owner_bit i) (nat (j mod 32)) \<longleftrightarrow> bit w (nat (j mod 32)) \<or> i mod 32 = j mod 32"
    and "bit (w AND NOT (owner_bit i)) (nat (j mod 32))
      \<longleftrightarrow> bit w (nat (j mod 32)) \<and> i mod 32 \<noteq> j mod 32"
proof -
  have "nat (j mod 32) < 32" by (simp add: nat_less_iff)
  then show "bit (w OR owner_bit i) (nat (j mod 32)) \<longleftrightarrow> bit w (nat (j mod 32)) \<or> i mod 32 = j mod 32"
    and "bit (w AND NOT (owner_bit i)) (nat (j mod 32))
      \<longleftrightarrow> bit w (nat (j mod 32)) \<and> i mod 32 \<noteq> j mod 32"
    by (auto simp: owner_bit_def bit_simps)
qed

lemma same_slot: "0 < i \<Longrightarrow> 0 < j \<Longrightarrow> nat (i div 32) = nat (j div 32) \<Longrightarrow> i mod 32 = j mod 32 \<Longrightarrow> i = j"
proof -
  assume "0 < i" "0 < j" "nat (i div 32) = nat (j div 32)" "i mod 32 = j mod 32"
  then have "i div 32 = j div 32" by (simp add: nat_eq_iff pos_imp_zdiv_nonneg_iff)
  with \<open>i mod 32 = j mod 32\<close> show ?thesis by (metis div_mult_mod_eq)
qed

interpretation owners: counted_id_set GbFileContextOwnsBuf GbFileContextSetBuf
    GbFileContextClearBuf in_table OwnedCount
proof unfold_locales
  fix s :: gb_file_context and i j :: int
  show "GbFileContextOwnsBuf s i \<Longrightarrow> in_table i"
    by (simp add: GbFileContextOwnsBuf_def in_table_def split: if_splits)
  show "\<not> in_table i \<Longrightarrow> GbFileContextSetBuf s i = s" "\<not> in_table i \<Longrightarrow> GbFileContextClearBuf s i = s"
    by (auto simp: GbFileContextSetBuf_def GbFileContextClearBuf_def in_table_def)
  show "in_table i \<Longrightarrow> OwnedCount (GbFileContextSetBuf s i) = s32_wrap (OwnedCount s + 1)"
    "in_table i \<Longrightarrow> OwnedCount (GbFileContextClearBuf s i) = s32_wrap (OwnedCount s - 1)"
    by (simp_all add: GbFileContextSetBuf_def GbFileContextClearBuf_def in_table_def)
  show "GbFileContextOwnsBuf (GbFileContextSetBuf s i) j \<longleftrightarrow> j = i \<or> GbFileContextOwnsBuf s j"
    if "in_table i"
    using that same_slot [of i j]
    by (auto simp: GbFileContextOwnsBuf_def GbFileContextSetBuf_def in_table_def owner_bit_test
        owner_bits)
  show "GbFileContextOwnsBuf (GbFileContextClearBuf s i) j \<longleftrightarrow> j \<noteq> i \<and> GbFileContextOwnsBuf s j"
    if "in_table i"
    using that same_slot [of i j]
    by (auto simp: GbFileContextOwnsBuf_def GbFileContextClearBuf_def in_table_def owner_bit_test
        owner_bits)
  have tab: "{i. in_table i} = {1..4095}" by (auto simp: in_table_def GB_MAX_BUFS_def)
  show "finite {i. in_table i}" "card {i. in_table i} < 2 ^ 31" by (simp_all add: tab)
qed

text \<open>
  The ownership bitmap of a file handle is a set of buffer identifiers: setting an
  identifier of the table adds it and nothing else, clearing one removes it and nothing else
  (for identifiers in the same 32-bit word and in others), and identifiers outside of the
  table change nothing.
\<close>

theorem win_owner_bitmap:
  "(GbFileContextOwnsBuf (GbFileContextSetBuf c i) j
      \<longleftrightarrow> (in_table i \<and> j = i) \<or> GbFileContextOwnsBuf c j)
    \<and> (GbFileContextOwnsBuf (GbFileContextClearBuf c i) j
      \<longleftrightarrow> j \<noteq> i \<and> GbFileContextOwnsBuf c j)
    \<and> (GbFileContextOwnsBuf (GbFileContextClearBuf (GbFileContextSetBuf c i) i) j
      \<longleftrightarrow> j \<noteq> i \<and> GbFileContextOwnsBuf c j)"
  using owners.add_iff owners.drop_iff owners.drop_add by blast

section \<open>The cleanup of a closing handle\<close>

lemma owned_below_Suc:
  "{i. GbFileContextOwnsBuf c i \<and> i < int (Suc k)} = (if GbFileContextOwnsBuf c (int k)
    then insert (int k) {i. GbFileContextOwnsBuf c i \<and> i < int k}
    else {i. GbFileContextOwnsBuf c i \<and> i < int k})"
  by (auto simp: less_le)

lemma cleanup_round:
  assumes inv: "dev_inv ev n {} t" and owns: "GbFileContextOwnsBuf c (int k)"
    and few: "f < OwnedCount c"
    and r: "file_cleanup_slot env c k (f, t) = (f', t')"
  shows "f' = f + 1 \<and> dev_inv ev n {} t' \<and> BufTable t' = (BufTable t)(int k := None)"
proof (cases "BufTable t (int k)")
  case None
  then have "GbLookupBuf t (int k) = None" by (simp add: GbLookupBuf_def)
  with r owns few inv None show ?thesis by (auto simp: file_cleanup_slot_def)
next
  case (Some p)
  from table_entry [OF inv Some] obtain b where
    b: "heap t p = Some b" "Id b = int k" "Active b" "in_table (int k)" by blast
  then have "GbLookupBuf t (int k) = Some p"
    using Some by (simp add: GbLookupBuf_def in_table_def)
  with r owns few have "f' = f + 1" "t' = GbFreeBuf env t p"
    by (auto simp: file_cleanup_slot_def)
  moreover have "dev_inv ev n {} (GbFreeBuf env t p)"
    using free_inv [OF inv b(1)] Some b(2) by simp
  moreover have "BufTable (GbFreeBuf env t p) = (BufTable t)(int k := None)"
    using b by (simp add: GbFreeBuf_eq)
  ultimately show ?thesis by simp
qed

text \<open>
  The state of the cleanup loop before slot \<open>k\<close>: it has counted and released the owned
  buffers below \<open>k\<close>.
\<close>

definition owned_below :: "gb_file_context \<Rightarrow> nat \<Rightarrow> int set" where
  "owned_below c k = {i. GbFileContextOwnsBuf c i \<and> i < int k}"

definition cleaned :: "bool \<Rightarrow> nat \<Rightarrow> gb_file_context \<Rightarrow> gb_device_win \<Rightarrow> nat
    \<Rightarrow> int \<times> gb_device_win \<Rightarrow> bool" where
  "cleaned ev n c s k st \<longleftrightarrow> dev_inv ev n {} (snd st) \<and> fst st = int (card (owned_below c k))
     \<and> (\<forall>i. BufTable (snd st) i = (if i \<in> owned_below c k then None else BufTable s i))"

lemma owned_below_finite: "finite (owned_below c k)"
  by (rule finite_subset [OF _ owners.finite_members [of c]]) (auto simp: owned_below_def)

lemma owned_below_step:
  "owned_below c (Suc k) = (if GbFileContextOwnsBuf c (int k) then insert (int k) (owned_below c k)
     else owned_below c k)"
  using owned_below_Suc [of c k] by (simp add: owned_below_def)

lemma cleaned_step:
  assumes P: "cleaned ev n c s k st"
    and exact: "OwnedCount c = int (card {i. GbFileContextOwnsBuf c i})"
  shows "cleaned ev n c s (Suc k) (file_cleanup_slot env c k st)"
proof (cases "GbFileContextOwnsBuf c (int k)")
  case False
  then have "file_cleanup_slot env c k st = st"
    by (cases st) (simp add: file_cleanup_slot_def)
  with P False show ?thesis by (simp add: cleaned_def owned_below_step)
next
  case True
  obtain f t where st: "st = (f, t)" by fastforce
  have "insert (int k) (owned_below c k) \<subseteq> {i. GbFileContextOwnsBuf c i}"
    using True by (auto simp: owned_below_def)
  then have "card (insert (int k) (owned_below c k)) \<le> card {i. GbFileContextOwnsBuf c i}"
    by (intro card_mono owners.finite_members)
  moreover have c: "card (insert (int k) (owned_below c k)) = Suc (card (owned_below c k))"
    using owned_below_finite by (simp add: owned_below_def)
  ultimately have few: "f < OwnedCount c" using P exact by (simp add: st cleaned_def)
  obtain f' t' where r: "file_cleanup_slot env c k (f, t) = (f', t')" by fastforce
  have i: "dev_inv ev n {} t" using P by (simp add: st cleaned_def)
  note round = cleanup_round [OF i True few r]
  have "f' = int (card (owned_below c (Suc k)))"
    using round P c True by (simp add: st cleaned_def owned_below_step)
  moreover have "\<forall>i. BufTable t' i = (if i \<in> owned_below c (Suc k) then None else BufTable s i)"
    using round P True by (auto simp: st cleaned_def owned_below_step)
  ultimately show ?thesis using round by (simp add: st r cleaned_def)
qed


lemma one_mib_owner: "file_ctx (drv_step one_mib (DriverEntry None)) 7
    = GbFileContextSetBuf \<lparr>OwnedBufs = (\<lambda>_. 0), OwnedCount = 0\<rparr> 1"
  using alloc_good [of good_env 7 "0x100000" "0x200000" "DriverEntry None" 1]
  by (simp add: one_mib_def block_up entry_caps)

lemma no_owner: "\<not> GbFileContextOwnsBuf \<lparr>OwnedBufs = (\<lambda>_. 0), OwnedCount = k\<rparr> i"
  by (simp add: GbFileContextOwnsBuf_def)


section \<open>Freeing through another handle\<close>

definition other_env :: kenv where
  "other_env = good_env\<lparr>file_obj := Some 8\<rparr>"

text \<open>
  Handle 7 allocates buffer 1; handle 8 frees it, allocates a buffer of its own and is closed.
\<close>

definition foreign_free :: gb_device_win where
  "foreign_free = drv_step (Io_control other_env (GB_IOCTL_ALLOC \<lparr>req_size = 0x100000,
     req_flags = 0\<rparr>)) (drv_step (Io_control other_env (GB_IOCTL_FREE 1))
       (drv_step one_mib (DriverEntry None)))"

lemma one_mib_fields: "pool_next (drv_step one_mib (DriverEntry None)) = 1"
  "NextBufId (drv_step one_mib (DriverEntry None)) = 1"
  "VirtualVramGb (drv_step one_mib (DriverEntry None)) = 51"
  "NvmePoolGb (drv_step one_mib (DriverEntry None)) = 58"
  "SafetyReserveGb (drv_step one_mib (DriverEntry None)) = 12"
  "file_ctx (drv_step one_mib (DriverEntry None)) 8 = \<lparr>OwnedBufs = (\<lambda>_. 0), OwnedCount = 0\<rparr>"
  using alloc_good [of good_env 7 "0x100000" "0x200000" "DriverEntry None" 1]
  by (simp_all add: one_mib_def block_up entry_caps)

text \<open>
  A FREE request does not look at the owner of the buffer and takes one from the counter
  of the handle it comes through. After handle 8 has freed a buffer of handle 7 and allocated
  one of its own, it owns buffer 2 with a counter of zero, and closing it releases nothing:
  buffer 2 stays allocated and in the table.
\<close>

theorem win_foreign_free_leaks:
  "GbFileContextOwnsBuf (file_ctx foreign_free 8) 2 \<and> OwnedCount (file_ctx foreign_free 8) = 0
    \<and> GbEvtFileCleanup other_env 8 foreign_free = foreign_free
    \<and> GbLookupBuf foreign_free 2 = Some 1"
proof -
  let ?s1 = "drv_step one_mib (DriverEntry None)"
  define s2 where "s2 = drv_step (Io_control other_env (GB_IOCTL_FREE 1)) ?s1"
  let ?z = "\<lparr>OwnedBufs = (\<lambda>_. 0), OwnedCount = 0\<rparr>"
  have l: "GbLookupBuf ?s1 1 = Some 0"
    using one_mib_step by (simp add: GbLookupBuf_def GB_MAX_BUFS_def one_buf_def contig_buf_def)
  define t where "t = upd_file other_env (\<lambda>c. GbFileContextClearBuf c 1) ?s1"
  have th: "heap t 0 = Some one_buf" using one_mib_step by (simp add: t_def upd_file_def other_env_def)
  have s2: "s2 = GbFreeBuf other_env t 0"
    by (simp add: s2_def GbHandleFree_def l t_def) (simp add: other_env_def l)
  have f2: "pool_next s2 = 1" "NextBufId s2 = 1" "VirtualVramGb s2 = 51" "NvmePoolGb s2 = 58"
    "SafetyReserveGb s2 = 12" "PoolAllocated s2 = 0"
    "file_ctx s2 8 = GbFileContextClearBuf ?z 1"
    using one_mib_step one_mib_fields unfolding s2 GbFreeBuf_eq [OF th]
    by (simp_all add: t_def upd_file_def other_env_def one_buf_def contig_buf_def)
  have e: "GbHandleAlloc other_env \<lparr>req_size = 0x100000, req_flags = 0\<rparr> s2 = (STATUS_SUCCESS,
    Some \<lparr>out_size = 0x200000, out_user_va = 0x10000000, out_buf_id = 2, out_flags = 0\<rparr>,
    s2\<lparr>heap := (heap s2)(pool_next s2 \<mapsto> contig_buf 0x200000 2), pool_next := pool_next s2 + 1,
      PoolAllocated := PoolAllocated s2 + 0x200000, LruList := LruList s2 @ [pool_next s2],
      NextBufId := 2, BufTable := (BufTable s2)(2 \<mapsto> pool_next s2),
      ActiveBufs := s32_wrap (ActiveBufs s2 + 1),
      file_ctx := (file_ctx s2)(8 := GbFileContextSetBuf (file_ctx s2 8) 2)\<rparr>)"
    by (rule alloc_good [OF other_env_def]) (simp_all add: f2 block_up entry_caps)
  have "heap foreign_free = (heap s2)(1 \<mapsto> contig_buf 0x200000 2)
      \<and> BufTable foreign_free = (BufTable s2)(2 \<mapsto> 1)
      \<and> file_ctx foreign_free = (file_ctx s2)(8 := GbFileContextSetBuf (file_ctx s2 8) 2)"
    unfolding foreign_free_def s2_def [symmetric] by (simp add: e) (simp add: f2)
  then have ff: "heap foreign_free 1 = Some (contig_buf 0x200000 2)"
    "BufTable foreign_free 2 = Some 1"
    "file_ctx foreign_free 8 = GbFileContextSetBuf (GbFileContextClearBuf ?z 1) 2"
    by (simp_all add: f2)
  have own: "GbFileContextOwnsBuf (file_ctx foreign_free 8) 2"
    unfolding ff by (simp add: owners.add_iff in_table_def GB_MAX_BUFS_def)
  moreover have cnt: "OwnedCount (file_ctx foreign_free 8) = 0"
    unfolding ff by (simp add: GbFileContextSetBuf_def GbFileContextClearBuf_def GB_MAX_BUFS_def
        s32_wrap_def)
  moreover have "GbEvtFileCleanup other_env 8 foreign_free = foreign_free"
    by (simp add: GbEvtFileCleanup_def cnt)
  moreover have "GbLookupBuf foreign_free 2 = Some 1"
    by (simp add: GbLookupBuf_def GB_MAX_BUFS_def ff(2) ff(1) [unfolded One_nat_def]
        contig_buf_def)
  ultimately show ?thesis by blast
qed

end
