(* ===== verification/Linux_Driver.thy ===== *)
theory Linux_Driver
  imports GB_Prelude
begin

text \<open>
  The Linux kernel module, \<^verbatim>\<open>greenboost.c\<close> with the requests of
  \<^verbatim>\<open>greenboost_ioctl.h\<close>: buffers of 4 KiB pages or 2 MiB compound pages that are exported as
  DMA-BUFs, their allocation, release and views, and the ioctl handler.

  A \<^verbatim>\<open>struct gb_buf *\<close> is the number of a descriptor in \<open>lx_heap\<close>. A
  \<^verbatim>\<open>struct page *\<close> is its index in the page map, so that \<open>h + j\<close> is the \<open>j\<close>-th 4 KiB page of the
  compound page \<open>h\<close>, as in the C code. What the kernel answers to the calls of one request
  is the record \<open>lx_env\<close>. Every resource that the module takes from the kernel or gives back
  is recorded in the ledger \<open>ledger\<close>; a \<^verbatim>\<open>NULL\<close> page array that is dereferenced ends
  the request with \<open>Oops\<close>.
\<close>

section \<open>Constants and parameters\<close>

definition GB_HPAGE_ORDER :: nat where "GB_HPAGE_ORDER = 9"
definition LX_PAGE_SIZE :: u64 where "LX_PAGE_SIZE = 4096"
definition GB_HPAGE_SIZE :: u64 where "GB_HPAGE_SIZE = push_bit GB_HPAGE_ORDER LX_PAGE_SIZE"
definition GB_HPAGES_PER :: u32 where "GB_HPAGES_PER = push_bit GB_HPAGE_ORDER 1"

definition LX_ALLOC_FROZEN :: u32 where "LX_ALLOC_FROZEN = push_bit 3 1"
definition LX_ALLOC_NO_HUGEPAGE :: u32 where "LX_ALLOC_NO_HUGEPAGE = push_bit 4 1"

definition LX_MADVISE_COLD :: u32 where "LX_MADVISE_COLD = 0"
definition LX_MADVISE_HOT :: u32 where "LX_MADVISE_HOT = 1"
definition LX_MADVISE_FREEZE :: u32 where "LX_MADVISE_FREEZE = 2"

definition ENOENT :: int where "ENOENT = 2"
definition ENOMEM :: int where "ENOMEM = 12"
definition EFAULT :: int where "EFAULT = 14"
definition EINVAL :: int where "EINVAL = 22"
definition ENOTTY :: int where "ENOTTY = 25"
definition ENOSPC :: int where "ENOSPC = 28"

datatype lx_tier = LX_TIER2_DDR4 | LX_TIER3_NVME

text \<open>The module parameters are C \<^verbatim>\<open>int\<close>s; all but the debug level are read-only.\<close>

record lx_params =
  physical_vram_gb :: int
  virtual_vram_gb :: int
  safety_reserve_gb :: int
  nvme_swap_gb :: int
  nvme_pool_gb :: int
  pcores_max_cpu :: int
  pcores_only :: bool
  use_hugepages :: bool

definition default_params :: lx_params where
  "default_params = \<lparr>physical_vram_gb = 12, virtual_vram_gb = 51, safety_reserve_gb = 12,
     nvme_swap_gb = 64, nvme_pool_gb = 58, pcores_max_cpu = 15, pcores_only = True,
     use_hugepages = True\<rparr>"

text \<open>\<^verbatim>\<open>(u64)x * (1ULL << 30)\<close> and \<^verbatim>\<open>(u64)x * 1024ULL\<close>: the sign is extended first.\<close>

definition gb_bytes :: "int \<Rightarrow> u64" where "gb_bytes x = word_of_int x * 2 ^ 30"
definition gb_mbytes :: "int \<Rightarrow> u64" where "gb_mbytes x = word_of_int x * 1024"

definition div_round_up :: "u64 \<Rightarrow> u64 \<Rightarrow> u64" where
  "div_round_up x k = (x + k - 1) div k"

section \<open>Data\<close>

datatype lx_res =
    Descriptor nat          \<comment> \<open>\<^verbatim>\<open>kzalloc\<close> of the descriptor\<close>
  | Pages_array nat         \<comment> \<open>\<^verbatim>\<open>kvcalloc\<close> of \<^verbatim>\<open>pages\<close>, for a descriptor\<close>
  | Hpages_array nat        \<comment> \<open>\<^verbatim>\<open>kvcalloc\<close> of \<^verbatim>\<open>hpages\<close>\<close>
  | Page4k nat              \<comment> \<open>\<^verbatim>\<open>alloc_page\<close>\<close>
  | Hpage nat               \<comment> \<open>\<^verbatim>\<open>alloc_pages\<close> of order 9\<close>
  | Pinned nat              \<comment> \<open>one page of \<^verbatim>\<open>pin_user_pages\<close>\<close>
  | Efd nat                 \<comment> \<open>\<^verbatim>\<open>eventfd_ctx_fdget\<close>\<close>
  | Sg_struct | Sg_table | Dma_mapping
  | Chrdev | Cdev | Class_dev | Device_node | Watchdog_thread | Cpumask

datatype lx_call = Get lx_res | Put lx_res | Signal nat | Null_deref

record lx_buf =
  pages :: "nat list option"      \<comment> \<open>\<open>None\<close> is \<^verbatim>\<open>NULL\<close>\<close>
  hpages :: "nat list option"
  nhpages :: u32
  hugepages :: bool
  user_pinned :: bool
  npages :: u32
  bsize :: u64
  bid :: int
  btier :: lx_tier
  exported :: bool                \<comment> \<open>\<^verbatim>\<open>dmabuf\<close> is set\<close>
  alloc_jiffies :: u64
  last_jiffies :: u64
  alloc_flags :: u32
  frozen :: bool

definition zero_buf :: lx_buf where
  "zero_buf = \<lparr>pages = None, hpages = None, nhpages = 0, hugepages = False, user_pinned = False,
     npages = 0, bsize = 0, bid = 0, btier = LX_TIER2_DDR4, exported = False, alloc_jiffies = 0,
     last_jiffies = 0, alloc_flags = 0, frozen = False\<rparr>"

record lx_device =
  idr :: "int \<Rightarrow> nat option"
  lx_heap :: "nat \<Rightarrow> lx_buf option"
  lx_next :: nat
  active_bufs :: u32              \<comment> \<open>\<^verbatim>\<open>atomic_t\<close>\<close>
  pool_allocated :: u64           \<comment> \<open>\<^verbatim>\<open>atomic64_t\<close>\<close>
  nvme_allocated :: u64
  oom_active :: bool
  swap_pressure :: nat
  watchdog :: bool
  watchdog_cpus :: "nat list option"
  lru_list :: "nat list"
  pressure_efd :: "nat option"
  ledger :: "lx_call list"

record lx_env =
  copy_in_ok :: bool
  copy_out_ok :: bool
  freeram :: u64
  totalram :: u64
  mem_unit :: u32
  nr_swap_pages :: int
  jiffies :: u64
  kzalloc_ok :: bool
  parr_ok :: bool                  \<comment> \<open>\<^verbatim>\<open>kvcalloc\<close> of \<^verbatim>\<open>pages\<close>\<close>
  hparr_ok :: bool
  page_of :: "nat \<Rightarrow> nat option"   \<comment> \<open>the \<open>i\<close>-th \<^verbatim>\<open>alloc_page\<close>\<close>
  hpage_of :: "nat \<Rightarrow> nat option"  \<comment> \<open>the \<open>i\<close>-th \<^verbatim>\<open>alloc_pages\<close>\<close>
  pin_ret :: int
  pin_page :: "nat \<Rightarrow> nat"
  export_ret :: int                \<comment> \<open>negative: \<^verbatim>\<open>dma_buf_export\<close> failed\<close>
  idr_ret :: int
  fd_ret :: int
  efd_ret :: "int + nat"

definition lx_upd :: "nat \<Rightarrow> (lx_buf \<Rightarrow> lx_buf) \<Rightarrow> lx_device \<Rightarrow> lx_device" where
  "lx_upd p f s = s\<lparr>lx_heap := (lx_heap s)(p \<mapsto> f (the (lx_heap s p)))\<rparr>"

abbreviation logged :: "lx_call list \<Rightarrow> lx_device \<Rightarrow> lx_device" where
  "logged cs s \<equiv> s\<lparr>ledger := ledger s @ cs\<rparr>"

section \<open>Swap state\<close>

definition gb_read_swap_mb :: "lx_params \<Rightarrow> lx_env \<Rightarrow> u64 \<times> u64" where
  "gb_read_swap_mb P env =
     (let total_mb = gb_mbytes (nvme_swap_gb P);
          free_mb = drop_bit 20 (word_of_int (nr_swap_pages env) * LX_PAGE_SIZE)
      in (total_mb, if total_mb < free_mb then total_mb else free_mb))"

section \<open>Release\<close>

text \<open>
  A loop that gives back the first \<open>n\<close> entries of a page array; \<open>None\<close> when it reads through
  a \<^verbatim>\<open>NULL\<close> array.
\<close>

definition put_array :: "(nat \<Rightarrow> lx_res) \<Rightarrow> nat list option \<Rightarrow> nat \<Rightarrow> lx_call list option" where
  "put_array K arr n = (case arr of
     None \<Rightarrow> (if n = 0 then Some [] else None)
   | Some ps \<Rightarrow> Some (map (\<lambda>i. Put (K (ps ! i))) [0..<n]))"

definition release_pages :: "nat \<Rightarrow> lx_buf \<Rightarrow> lx_call list option" where
  "release_pages p b =
     (if user_pinned b then
        map_option (\<lambda>cs. cs @ [Put (Pages_array p)]) (put_array Pinned (pages b) (unat (npages b)))
      else if hugepages b then
        map_option (\<lambda>cs. cs @ [Put (Hpages_array p)]) (put_array Hpage (hpages b) (unat (nhpages b)))
      else
        map_option (\<lambda>cs. cs @ [Put (Pages_array p)]) (put_array Page4k (pages b) (unat (npages b))))"

definition gb_release :: "lx_device \<Rightarrow> nat \<Rightarrow> lx_device" where
  "gb_release s p =
     (let b = the (lx_heap s p);
          s1 = s\<lparr>lru_list := removeAll p (lru_list s)\<rparr>;
          s2 = (if 0 < bid b then s1\<lparr>idr := (idr s1)(bid b := None)\<rparr> else s1);
          s3 = s2\<lparr>active_bufs := active_bufs s2 - 1\<rparr>;
          s4 = (case btier b of
              LX_TIER3_NVME \<Rightarrow> s3\<lparr>nvme_allocated := nvme_allocated s3 - bsize b\<rparr>
            | LX_TIER2_DDR4 \<Rightarrow> s3\<lparr>pool_allocated := pool_allocated s3 - bsize b\<rparr>)
      in case release_pages p b of
           None \<Rightarrow> logged [Null_deref] s4
         | Some cs \<Rightarrow> logged (cs @ [Put (Descriptor p)]) (s4\<lparr>lx_heap := (lx_heap s4)(p := None)\<rparr>))"

section \<open>Views of a buffer: DMA mapping, user mapping, kernel mapping\<close>

definition subpages :: "nat \<Rightarrow> nat list" where
  "subpages h = map (\<lambda>j. h + j) [0..<unat GB_HPAGES_PER]"

text \<open>
  The scatter table is the list of its entries. \<open>merge\<close> stands for
  \<^verbatim>\<open>sg_alloc_table_from_pages\<close> of the kernel, which may join neighbouring pages.
\<close>

record sg_env =
  sgt_ok :: bool
  sg_ret :: int
  map_ret :: int
  merge :: "nat list \<Rightarrow> u64 \<Rightarrow> (nat \<times> u64) list"

definition gb_map_dma_buf :: "sg_env \<Rightarrow> lx_buf \<Rightarrow> (int + (nat \<times> u64) list) \<times> lx_call list" where
  "gb_map_dma_buf env b =
     (if \<not> sgt_ok env then (Inl (- ENOMEM), [])
      else if sg_ret env \<noteq> 0 then (Inl (sg_ret env), [Get Sg_struct, Put Sg_struct])
      else
        let sgl = (if hugepages b
              then map (\<lambda>i. (the (hpages b) ! i, GB_HPAGE_SIZE)) [0..<unat (nhpages b)]
              else merge env (take (unat (npages b)) (the (pages b))) (bsize b))
        in if map_ret env \<noteq> 0
           then (Inl (map_ret env),
                 [Get Sg_struct, Get Sg_table, Put Sg_table, Put Sg_struct])
           else (Inr sgl, [Get Sg_struct, Get Sg_table, Get Dma_mapping]))"

definition gb_unmap_dma_buf :: "lx_call list" where
  "gb_unmap_dma_buf = [Put Dma_mapping, Put Sg_table, Put Sg_struct]"

text \<open>
  The inner loop of \<^verbatim>\<open>gb_mmap\<close> over a list of 4 KiB pages. The result holds the error
  of \<^verbatim>\<open>vm_insert_page\<close>, the address reached and the pages that were inserted.
\<close>

primrec insert_pages ::
  "(u64 \<Rightarrow> int) \<Rightarrow> u64 \<Rightarrow> nat list \<Rightarrow> u64 \<Rightarrow> (u64 \<times> nat) list \<Rightarrow> int option \<times> u64 \<times> (u64 \<times> nat) list" where
  "insert_pages ins vend [] addr m = (None, addr, m)"
| "insert_pages ins vend (q # qs) addr m =
     (if addr < vend then
        if ins addr \<noteq> 0 then (Some (ins addr), addr, m)
        else insert_pages ins vend qs (addr + LX_PAGE_SIZE) (m @ [(addr, q)])
      else (None, addr, m))"

primrec insert_hpages ::
  "(u64 \<Rightarrow> int) \<Rightarrow> u64 \<Rightarrow> nat list \<Rightarrow> u64 \<Rightarrow> (u64 \<times> nat) list \<Rightarrow> int option \<times> u64 \<times> (u64 \<times> nat) list" where
  "insert_hpages ins vend [] addr m = (None, addr, m)"
| "insert_hpages ins vend (h # hs) addr m =
     (if addr < vend then
        case insert_pages ins vend (subpages h) addr m of
          (Some e, a, m') \<Rightarrow> (Some e, a, m')
        | (None, a, m') \<Rightarrow> insert_hpages ins vend hs a m'
      else (None, addr, m))"

definition gb_mmap :: "(u64 \<Rightarrow> int) \<Rightarrow> lx_buf \<Rightarrow> u64 \<Rightarrow> u64 \<Rightarrow> int \<times> (u64 \<times> nat) list" where
  "gb_mmap ins b vstart vend =
     (if bsize b < vend - vstart then (- EINVAL, [])
      else
        let (e, _, m) = (if hugepages b
             then insert_hpages ins vend (take (unat (nhpages b)) (the (hpages b))) vstart []
             else insert_pages ins vend (take (unat (npages b)) (the (pages b))) vstart [])
        in (case e of Some r \<Rightarrow> r | None \<Rightarrow> 0, m))"

text \<open>The flat array that \<^verbatim>\<open>vmap\<close> receives, when the temporary array can be had.\<close>

definition gb_vmap_op :: "bool \<Rightarrow> bool \<Rightarrow> lx_buf \<Rightarrow> int + nat list" where
  "gb_vmap_op tmp_ok vmap_ok b =
     (if hugepages b then
        if \<not> tmp_ok then Inl (- ENOMEM)
        else
          let tmp = concat (map subpages (take (unat (nhpages b)) (the (hpages b)))) in
          if vmap_ok then Inr (take (unat (npages b)) tmp) else Inl (- ENOMEM)
      else if vmap_ok then Inr (take (unat (npages b)) (the (pages b))) else Inl (- ENOMEM))"

section \<open>Pinning pages of the caller\<close>

text \<open>A finished buffer is counted in its tier and put at the tail of the LRU list.\<close>

definition add_buf :: "lx_device \<Rightarrow> nat \<Rightarrow> lx_buf \<Rightarrow> lx_device" where
  "add_buf s p b =
     (let s1 = (case btier b of
            LX_TIER3_NVME \<Rightarrow> s\<lparr>nvme_allocated := nvme_allocated s + bsize b\<rparr>
          | LX_TIER2_DDR4 \<Rightarrow> s\<lparr>pool_allocated := pool_allocated s + bsize b\<rparr>)
      in s1\<lparr>lx_heap := (lx_heap s1)(p \<mapsto> b), active_bufs := active_bufs s1 + 1,
            lru_list := lru_list s1 @ [p]\<rparr>)"

definition gb_pin_user_buf ::
  "lx_params \<Rightarrow> lx_env \<Rightarrow> lx_device \<Rightarrow> u64 \<Rightarrow> u32 \<Rightarrow> (int + nat) \<times> lx_device" where
  "gb_pin_user_buf P env s sz flags =
     (let np = (ucast (div_round_up sz LX_PAGE_SIZE) :: u32);
          aligned_size = ucast np * LX_PAGE_SIZE;
          t2_max = gb_bytes (virtual_vram_gb P); t2_used = pool_allocated s
      in
      if t2_max < t2_used + aligned_size then (Inl (- ENOMEM), s)
      else if \<not> kzalloc_ok env then (Inl (- ENOMEM), s)
      else
        let p = lx_next s; s1 = logged [Get (Descriptor p)] (s\<lparr>lx_next := p + 1\<rparr>) in
        if \<not> parr_ok env then (Inl (- ENOMEM), logged [Put (Descriptor p)] s1)
        else
          let ret = pin_ret env; ps = map (pin_page env) [0..<nat ret];
              s2 = logged (Get (Pages_array p) # map (\<lambda>q. Get (Pinned q)) ps) s1
          in
          if ret < 0 \<or> word_of_int ret \<noteq> np then
            (Inl (if ret < 0 then ret else - ENOMEM),
             logged (map (\<lambda>q. Put (Pinned q)) ps @ [Put (Pages_array p), Put (Descriptor p)]) s2)
          else
            (Inr p, add_buf s2 p (zero_buf\<lparr>pages := Some ps, user_pinned := True, npages := np,
               bsize := aligned_size, alloc_flags := flags, alloc_jiffies := jiffies env,
               last_jiffies := jiffies env, frozen := (flags AND LX_ALLOC_FROZEN \<noteq> 0)\<rparr>)))"

section \<open>Page pool allocator\<close>

text \<open>
  The loops that fill a page array: the entries obtained, and whether the loop reached its
  end.
\<close>

primrec grab :: "(nat \<Rightarrow> nat option) \<Rightarrow> nat \<Rightarrow> nat list \<times> bool" where
  "grab f 0 = ([], True)"
| "grab f (Suc n) = (case grab f n of
     (ps, False) \<Rightarrow> (ps, False)
   | (ps, True) \<Rightarrow> (case f n of Some q \<Rightarrow> (ps @ [q], True) | None \<Rightarrow> (ps, False)))"

text \<open>The 2 MiB path: its calls, and the compound pages when all of them were obtained.\<close>

definition try_hugepages :: "lx_env \<Rightarrow> nat \<Rightarrow> u32 \<Rightarrow> lx_call list \<times> nat list option" where
  "try_hugepages env p nhp =
     (if \<not> hparr_ok env then ([], None)
      else case grab (hpage_of env) (unat nhp) of
        (hs, True) \<Rightarrow> (Get (Hpages_array p) # map (\<lambda>h. Get (Hpage h)) hs, Some hs)
      | (hs, False) \<Rightarrow>
          (Get (Hpages_array p) # map (\<lambda>h. Get (Hpage h)) hs
             @ map (\<lambda>h. Put (Hpage h)) hs @ [Put (Hpages_array p)], None))"

text \<open>The 4 KiB path, for a descriptor \<open>p\<close>: calls, and the pages when all were obtained.\<close>

definition try_4k :: "lx_env \<Rightarrow> nat \<Rightarrow> u32 \<Rightarrow> lx_call list \<times> nat list option" where
  "try_4k env p np =
     (if \<not> parr_ok env then ([Put (Descriptor p)], None)
      else case grab (page_of env) (unat np) of
        (ps, True) \<Rightarrow> (Get (Pages_array p) # map (\<lambda>q. Get (Page4k q)) ps, Some ps)
      | (ps, False) \<Rightarrow>
          (Get (Pages_array p) # map (\<lambda>q. Get (Page4k q)) ps
             @ map (\<lambda>q. Put (Page4k q)) ps @ [Put (Pages_array p), Put (Descriptor p)], None))"

text \<open>The tier that the capacity tests choose, or the error.\<close>

definition choose_tier :: "lx_params \<Rightarrow> lx_device \<Rightarrow> u64 \<Rightarrow> int + lx_tier" where
  "choose_tier P s sz =
     (if gb_bytes (virtual_vram_gb P) < pool_allocated s + sz then
        if gb_bytes (nvme_pool_gb P) < nvme_allocated s + sz then Inl (- ENOSPC)
        else Inr LX_TIER3_NVME
      else Inr LX_TIER2_DDR4)"

text \<open>The fields that both kinds of buffer set at the label \<^verbatim>\<open>done\<close>.\<close>

definition done_buf :: "lx_env \<Rightarrow> lx_tier \<Rightarrow> u32 \<Rightarrow> lx_buf" where
  "done_buf env t flags = zero_buf\<lparr>btier := t, alloc_flags := flags, alloc_jiffies := jiffies env,
     last_jiffies := jiffies env, frozen := (flags AND LX_ALLOC_FROZEN \<noteq> 0)\<rparr>"

text \<open>The two page paths for the descriptor \<open>p\<close>; tier 3 takes 4 KiB pages only.\<close>

definition fill_buf ::
  "lx_params \<Rightarrow> lx_env \<Rightarrow> lx_device \<Rightarrow> nat \<Rightarrow> lx_tier \<Rightarrow> u64 \<Rightarrow> u32 \<Rightarrow> (int + nat) \<times> lx_device" where
  "fill_buf P env s p t sz flags =
     (let nhp = (ucast (div_round_up sz GB_HPAGE_SIZE) :: u32);
          np = (ucast (div_round_up sz LX_PAGE_SIZE) :: u32) in
      case (if t = LX_TIER2_DDR4 \<and> use_hugepages P \<and> flags AND LX_ALLOC_NO_HUGEPAGE = 0
            then try_hugepages env p nhp else ([], None)) of
        (hcalls, Some hs) \<Rightarrow>
          (Inr p, add_buf (logged hcalls s) p (done_buf env t flags\<lparr>hpages := Some hs,
             hugepages := True, nhpages := nhp, npages := nhp * GB_HPAGES_PER,
             bsize := ucast nhp * GB_HPAGE_SIZE\<rparr>))
      | (hcalls, None) \<Rightarrow>
          (case try_4k env p np of
             (pcalls, None) \<Rightarrow> (Inl (- ENOMEM), logged pcalls (logged hcalls s))
           | (pcalls, Some ps) \<Rightarrow>
               (Inr p, add_buf (logged pcalls (logged hcalls s)) p (done_buf env t flags\<lparr>
                  pages := Some ps, npages := np, bsize := ucast np * LX_PAGE_SIZE\<rparr>))))"

definition gb_alloc_buf ::
  "lx_params \<Rightarrow> lx_env \<Rightarrow> lx_device \<Rightarrow> u64 \<Rightarrow> u32 \<Rightarrow> (int + nat) \<times> lx_device" where
  "gb_alloc_buf P env s sz flags =
     (let free_bytes = freeram env * ucast (mem_unit env);
          reserve_bytes = gb_bytes (safety_reserve_gb P) in
      if free_bytes < reserve_bytes + sz then (Inl (- ENOMEM), s\<lparr>oom_active := True\<rparr>)
      else case choose_tier P s sz of
        Inl e \<Rightarrow> (Inl e, s)
      | Inr t \<Rightarrow>
        (if \<not> kzalloc_ok env then (Inl (- ENOMEM), s)
         else fill_buf P env
           (logged [Get (Descriptor (lx_next s))] (s\<lparr>lx_next := lx_next s + 1\<rparr>))
           (lx_next s) t sz flags))"

section \<open>The ioctl handler\<close>

record lx_info =
  i_vram_physical_mb :: u64
  i_total_ram_mb :: u64
  i_free_ram_mb :: u64
  i_allocated_mb :: u64
  i_max_pool_mb :: u64
  i_safety_reserve_mb :: u64
  i_available_mb :: u64
  i_active_buffers :: u32
  i_oom_active :: bool
  i_nvme_swap_total_mb :: u64
  i_nvme_swap_used_mb :: u64
  i_nvme_swap_free_mb :: u64
  i_nvme_t3_allocated_mb :: u64
  i_swap_pressure :: nat
  i_total_combined_mb :: u64

datatype lx_request =
    IOCTL_ALLOC u64 u32
  | IOCTL_PIN_USER_PTR u64 u64 u32     \<comment> \<open>address, sz, flags\<close>
  | IOCTL_GET_INFO
  | IOCTL_RESET
  | IOCTL_MADVISE int u32
  | IOCTL_EVICT int
  | IOCTL_POLL_FD int
  | IOCTL_OTHER

datatype lx_reply = Ret int | Ret_fd int | Ret_info lx_info | Oops

text \<open>
  Steps 2 to 4 of the two allocating requests: export, registration, file descriptor.
  \<open>undo\<close> is the loop that gives the pages back when the export fails.
\<close>

definition export_buf ::
  "(lx_buf \<Rightarrow> lx_call list option) \<Rightarrow> lx_env \<Rightarrow> lx_device \<Rightarrow> nat \<Rightarrow> lx_reply \<times> lx_device" where
  "export_buf undo env s p =
     (let b = the (lx_heap s p) in
      if export_ret env < 0 then
        let s1 = s\<lparr>active_bufs := active_bufs s - 1, pool_allocated := pool_allocated s - bsize b\<rparr>
        in case undo b of
             None \<Rightarrow> (Oops, logged [Null_deref] s1)
           | Some cs \<Rightarrow> (Ret (export_ret env),
               logged (cs @ [Put (Pages_array p), Put (Descriptor p)])
                 (s1\<lparr>lx_heap := (lx_heap s1)(p := None)\<rparr>))
      else
        let s1 = lx_upd p (\<lambda>b. b\<lparr>exported := True\<rparr>) s in
        if idr_ret env < 0 then (Ret (idr_ret env), gb_release s1 p)
        else
          let s2 = (lx_upd p (\<lambda>b. b\<lparr>bid := idr_ret env\<rparr>) s1)\<lparr>idr := (idr s1)(idr_ret env \<mapsto> p)\<rparr>
          in
          if fd_ret env < 0 then
            let s3 = s2\<lparr>idr := (idr s2)(idr_ret env := None)\<rparr>;
                s4 = lx_upd p (\<lambda>b. b\<lparr>bid := 0\<rparr>) s3
            in (Ret (fd_ret env), gb_release s4 p)
          else if \<not> copy_out_ok env then (Ret (- EFAULT), s2)
          else (Ret_fd (fd_ret env), s2))"

definition ioctl_alloc ::
  "lx_params \<Rightarrow> lx_env \<Rightarrow> lx_device \<Rightarrow> u64 \<Rightarrow> u32 \<Rightarrow> lx_reply \<times> lx_device" where
  "ioctl_alloc P env s sz flags =
     (if \<not> copy_in_ok env then (Ret (- EFAULT), s)
      else if sz = 0 \<or> gb_bytes (virtual_vram_gb P) < sz then (Ret (- EINVAL), s)
      else case gb_alloc_buf P env s sz flags of
        (Inl e, s1) \<Rightarrow> (Ret e, s1)
      | (Inr p, s1) \<Rightarrow>
          export_buf (\<lambda>b. put_array Page4k (pages b) (unat (npages b))) env s1 p)"

definition ioctl_pin ::
  "lx_params \<Rightarrow> lx_env \<Rightarrow> lx_device \<Rightarrow> u64 \<Rightarrow> u64 \<Rightarrow> u32 \<Rightarrow> lx_reply \<times> lx_device" where
  "ioctl_pin P env s vaddr sz flags =
     (if \<not> copy_in_ok env then (Ret (- EFAULT), s)
      else if sz = 0 \<or> vaddr = 0 \<or> gb_bytes (virtual_vram_gb P) < sz
      then (Ret (- EINVAL), s)
      else case gb_pin_user_buf P env s sz flags of
        (Inl e, s1) \<Rightarrow> (Ret e, s1)
      | (Inr p, s1) \<Rightarrow>
          export_buf (\<lambda>b. put_array Pinned (pages b) (unat (npages b))) env s1 p)"

definition ioctl_get_info :: "lx_params \<Rightarrow> lx_env \<Rightarrow> lx_device \<Rightarrow> lx_reply" where
  "ioctl_get_info P env s =
     (let (swap_total, swap_free) = gb_read_swap_mb P env;
          free_bytes = freeram env * ucast (mem_unit env);
          reserve_bytes = gb_bytes (safety_reserve_gb P);
          alloc_bytes = pool_allocated s
      in if \<not> copy_out_ok env then Ret (- EFAULT)
         else Ret_info \<lparr>
           i_vram_physical_mb = gb_mbytes (physical_vram_gb P),
           i_total_ram_mb = drop_bit 20 (totalram env * ucast (mem_unit env)),
           i_free_ram_mb = drop_bit 20 free_bytes,
           i_allocated_mb = drop_bit 20 alloc_bytes,
           i_max_pool_mb = gb_mbytes (virtual_vram_gb P),
           i_safety_reserve_mb = drop_bit 20 reserve_bytes,
           i_available_mb = (if reserve_bytes + alloc_bytes < free_bytes
             then drop_bit 20 (free_bytes - reserve_bytes - alloc_bytes) else 0),
           i_active_buffers = active_bufs s,
           i_oom_active = oom_active s,
           i_nvme_swap_total_mb = gb_mbytes (nvme_swap_gb P),
           i_nvme_swap_used_mb = swap_total - swap_free,
           i_nvme_swap_free_mb = swap_free,
           i_nvme_t3_allocated_mb = drop_bit 20 (nvme_allocated s),
           i_swap_pressure = swap_pressure s,
           i_total_combined_mb = gb_mbytes (physical_vram_gb P) + gb_mbytes (virtual_vram_gb P)
             + gb_mbytes (nvme_swap_gb P)\<rparr>)"

definition ioctl_madvise :: "lx_env \<Rightarrow> lx_device \<Rightarrow> int \<Rightarrow> u32 \<Rightarrow> lx_reply \<times> lx_device" where
  "ioctl_madvise env s i advise =
     (if \<not> copy_in_ok env then (Ret (- EFAULT), s)
      else case idr s i of
        None \<Rightarrow> (Ret (- ENOENT), s)
      | Some p \<Rightarrow>
        (if advise = LX_MADVISE_HOT then
           (Ret 0, (lx_upd p (\<lambda>b. b\<lparr>last_jiffies := jiffies env\<rparr>) s)
              \<lparr>lru_list := p # removeAll p (lru_list s)\<rparr>)
         else if advise = LX_MADVISE_COLD then
           (Ret 0, s\<lparr>lru_list := removeAll p (lru_list s) @ [p]\<rparr>)
         else if advise = LX_MADVISE_FREEZE then
           (Ret 0, lx_upd p (\<lambda>b. b\<lparr>frozen := True\<rparr>) s)
         else (Ret (- EINVAL), s)))"

definition ioctl_evict :: "lx_env \<Rightarrow> lx_device \<Rightarrow> int \<Rightarrow> lx_reply \<times> lx_device" where
  "ioctl_evict env s i =
     (if \<not> copy_in_ok env then (Ret (- EFAULT), s)
      else case idr s i of
        None \<Rightarrow> (Ret (- ENOENT), s)
      | Some p \<Rightarrow>
        (let b = the (lx_heap s p) in
         if btier b = LX_TIER2_DDR4 then
           (Ret 0, (lx_upd p (\<lambda>b. b\<lparr>btier := LX_TIER3_NVME\<rparr>) s)
              \<lparr>pool_allocated := pool_allocated s - bsize b,
               nvme_allocated := nvme_allocated s + bsize b,
               lru_list := removeAll p (lru_list s)\<rparr>)
         else (Ret 0, s)))"

definition ioctl_poll_fd :: "lx_env \<Rightarrow> lx_device \<Rightarrow> lx_reply \<times> lx_device" where
  "ioctl_poll_fd env s =
     (if \<not> copy_in_ok env then (Ret (- EFAULT), s)
      else case efd_ret env of
        Inl e \<Rightarrow> (Ret e, s)
      | Inr c \<Rightarrow>
          (Ret 0, (logged (Get (Efd c) # (case pressure_efd s of Some d \<Rightarrow> [Put (Efd d)] | None \<Rightarrow> [])) s)
             \<lparr>pressure_efd := Some c\<rparr>))"

fun gb_ioctl :: "lx_params \<Rightarrow> lx_env \<Rightarrow> lx_device \<Rightarrow> lx_request \<Rightarrow> lx_reply \<times> lx_device" where
  "gb_ioctl P env s (IOCTL_ALLOC sz flags) = ioctl_alloc P env s sz flags"
| "gb_ioctl P env s (IOCTL_PIN_USER_PTR vaddr sz flags) = ioctl_pin P env s vaddr sz flags"
| "gb_ioctl P env s IOCTL_GET_INFO = (ioctl_get_info P env s, s)"
| "gb_ioctl P env s IOCTL_RESET = (Ret 0, s)"
| "gb_ioctl P env s (IOCTL_MADVISE i advise) = ioctl_madvise env s i advise"
| "gb_ioctl P env s (IOCTL_EVICT i) = ioctl_evict env s i"
| "gb_ioctl P env s (IOCTL_POLL_FD efd) = ioctl_poll_fd env s"
| "gb_ioctl P env s IOCTL_OTHER = (Ret (- ENOTTY), s)"

end
