(* ===== verification/Linux_Module.thy ===== *)
theory Linux_Module
  imports Linux_Driver
begin

text \<open>
  The Linux kernel module, \<^verbatim>\<open>greenboost.c\<close>, continued: the watchdog thread, the numbers
  of the sysfs report, and the start and exit of the module with the unwinding of a start
  that fails half-way.
\<close>

section \<open>Watchdog\<close>

definition swap_level :: "u64 \<Rightarrow> nat" where
  "swap_level pct = (if 90 \<le> pct then 2 else if 75 \<le> pct then 1 else 0)"

definition watchdog_step :: "lx_params \<Rightarrow> lx_env \<Rightarrow> lx_device \<Rightarrow> lx_device" where
  "watchdog_step P env s =
     (let free_bytes = freeram env * ucast (mem_unit env);
          reserve_bytes = gb_bytes (safety_reserve_gb P);
          s1 = (if free_bytes < reserve_bytes
            then (if \<not> oom_active s then s\<lparr>oom_active := True\<rparr> else s)
            else (if oom_active s then s\<lparr>oom_active := False\<rparr> else s));
          (swap_total, swap_free) = gb_read_swap_mb P env
      in if 0 < swap_total then
           let pct = (swap_total - swap_free) * 100 div swap_total;
               new_pressure = swap_level pct
           in if new_pressure \<noteq> swap_pressure s1 then
                logged (case pressure_efd s1 of Some c \<Rightarrow> [Signal c] | None \<Rightarrow> [])
                  (s1\<lparr>swap_pressure := new_pressure\<rparr>)
              else s1
         else s1)"

text \<open>The thread runs one round after each sleep until it is asked to stop.\<close>

definition gb_watchdog :: "lx_params \<Rightarrow> lx_env list \<Rightarrow> lx_device \<Rightarrow> lx_device" where
  "gb_watchdog P envs s = fold (watchdog_step P) envs s"

section \<open>The sysfs report\<close>

record pool_info =
  r_ram_total_mb :: u64
  r_ram_free_mb :: u64
  r_reserve_mb :: u64
  r_t2_alloc_mb :: u64
  r_t2_avail_mb :: u64
  r_t3_alloc_mb :: u64
  r_swap_total_mb :: u64
  r_swap_used_mb :: u64
  r_swap_free_mb :: u64
  r_combined_gb :: u64
  r_active_bufs :: u32
  r_oom :: bool
  r_pressure :: string

definition pool_info_show :: "lx_params \<Rightarrow> lx_env \<Rightarrow> lx_device \<Rightarrow> pool_info" where
  "pool_info_show P env s =
     (let (swap_total_mb, swap_free_mb) = gb_read_swap_mb P env;
          ram_total_mb = drop_bit 20 (totalram env * ucast (mem_unit env));
          ram_free_mb = drop_bit 20 (freeram env * ucast (mem_unit env));
          t2_alloc_mb = drop_bit 20 (pool_allocated s);
          reserve_mb = gb_mbytes (safety_reserve_gb P);
          combined_mb = gb_mbytes (physical_vram_gb P) + gb_mbytes (virtual_vram_gb P)
            + gb_mbytes (nvme_swap_gb P)
      in \<lparr>r_ram_total_mb = ram_total_mb, r_ram_free_mb = ram_free_mb, r_reserve_mb = reserve_mb,
          r_t2_alloc_mb = t2_alloc_mb,
          r_t2_avail_mb = (if reserve_mb + t2_alloc_mb < ram_free_mb
            then ram_free_mb - reserve_mb - t2_alloc_mb else 0),
          r_t3_alloc_mb = drop_bit 20 (nvme_allocated s),
          r_swap_total_mb = swap_total_mb, r_swap_used_mb = swap_total_mb - swap_free_mb,
          r_swap_free_mb = swap_free_mb, r_combined_gb = combined_mb div 1024,
          r_active_bufs = active_bufs s, r_oom = oom_active s,
          r_pressure = (if swap_pressure s = 2 then ''CRITICAL (>90%)''
            else if swap_pressure s = 1 then ''warn (>75%)'' else ''ok'')\<rparr>)"

section \<open>Start\<close>

text \<open>What the kernel answers during the start: a negative value is an error pointer.\<close>

record init_env =
  chrdev_ret :: int
  cdev_ret :: int
  class_ret :: int
  device_ret :: int
  kthread_ret :: int
  cpumask_ok :: bool
  nr_cpu_ids :: nat
  cpu_online :: "nat \<Rightarrow> bool"

text \<open>
  The processors the watchdog may run on. The loop variable is compared as an unsigned
  number, so that a negative start leaves the mask empty.
\<close>

definition watchdog_mask :: "lx_params \<Rightarrow> init_env \<Rightarrow> nat list" where
  "watchdog_mask P ie =
     (let emask = (if pcores_max_cpu P + 1 < 0 then []
            else filter (cpu_online ie) [nat (pcores_max_cpu P + 1)..<nr_cpu_ids ie])
      in if emask = [] then filter (cpu_online ie) [0..<nr_cpu_ids ie] else emask)"

definition err_chrdev :: "lx_call list" where "err_chrdev = [Put Chrdev]"
definition err_cdev :: "lx_call list" where "err_cdev = Put Cdev # err_chrdev"
definition err_class :: "lx_call list" where "err_class = Put Class_dev # err_cdev"
definition err_device :: "lx_call list" where "err_device = Put Device_node # err_class"

definition reset_device :: "lx_device \<Rightarrow> lx_device" where
  "reset_device s = s\<lparr>idr := Map.empty, active_bufs := 0, pool_allocated := 0,
     nvme_allocated := 0, oom_active := False, swap_pressure := 0, lru_list := [],
     pressure_efd := None\<rparr>"

definition gb_init :: "lx_params \<Rightarrow> init_env \<Rightarrow> lx_device \<Rightarrow> int \<times> lx_device" where
  "gb_init P ie s0 =
     (let s = reset_device s0 in
      if chrdev_ret ie \<noteq> 0 then (chrdev_ret ie, s)
      else
        let s = logged [Get Chrdev] s in
        if cdev_ret ie \<noteq> 0 then (cdev_ret ie, logged err_chrdev s)
        else
          let s = logged [Get Cdev] s in
          if class_ret ie < 0 then (class_ret ie, logged err_cdev s)
          else
            let s = logged [Get Class_dev] s in
            if device_ret ie < 0 then (device_ret ie, logged err_class s)
            else
              let s = logged [Get Device_node] s in
              if kthread_ret ie < 0 then
                (kthread_ret ie, logged err_device (s\<lparr>watchdog := False\<rparr>))
              else
                let s = logged [Get Watchdog_thread] (s\<lparr>watchdog := True\<rparr>) in
                (0, if pcores_only P \<and> cpumask_ok ie
                    then logged [Get Cpumask, Put Cpumask]
                      (s\<lparr>watchdog_cpus := Some (watchdog_mask P ie)\<rparr>)
                    else s))"

section \<open>Exit\<close>

definition gb_exit :: "lx_device \<Rightarrow> lx_device" where
  "gb_exit s =
     (let s1 = (case pressure_efd s of
            Some c \<Rightarrow> logged [Put (Efd c)] (s\<lparr>pressure_efd := None\<rparr>) | None \<Rightarrow> s);
          s2 = (if watchdog s1 then logged [Put Watchdog_thread] (s1\<lparr>watchdog := False\<rparr>) else s1)
      in logged err_device s2\<lparr>idr := Map.empty\<rparr>)"

end
