(* ===== verification/Resource_Ledger.thy ===== *)
theory Resource_Ledger
  imports GB_Prelude
begin

text \<open>
  The contract of a component that keeps a ledger of what it takes from the kernel and what
  it gives back: in every good state the difference is what the component still owns. The
  lemmas are what a client of the contract uses: nothing is given back twice or without
  having been taken, and a component that owns nothing has given everything back.
\<close>

locale resource_ledger =
  fixes good :: "'s \<Rightarrow> bool"
    and taken :: "'s \<Rightarrow> 'r multiset"
    and given :: "'s \<Rightarrow> 'r multiset"
    and owned :: "'s \<Rightarrow> 'r multiset"
  assumes balance: "good s \<Longrightarrow> taken s = given s + owned s"
begin

lemma given_taken: "good s \<Longrightarrow> given s \<subseteq># taken s"
  by (simp add: balance)

lemma drained: "good s \<Longrightarrow> owned s = {#} \<Longrightarrow> taken s = given s"
  by (simp add: balance)

lemma outstanding: "good s \<Longrightarrow> count (taken s) r = count (given s) r + count (owned s) r"
  by (simp add: balance)

lemma never_twice: "good s \<Longrightarrow> count (given s) r \<le> count (taken s) r"
  by (simp add: balance)

lemma held_while_owned: "good s \<Longrightarrow> r \<in># owned s \<Longrightarrow> count (given s) r < count (taken s) r"
  by (simp add: balance)

end

text \<open>
  A ledger with steps: every step keeps a state good, so the contract holds along a run.
\<close>

locale stepping_ledger = resource_ledger good taken given owned
  for good :: "'s \<Rightarrow> bool"
    and taken :: "'s \<Rightarrow> 'r multiset" and given :: "'s \<Rightarrow> 'r multiset"
    and owned :: "'s \<Rightarrow> 'r multiset" +
  fixes step :: "'s \<Rightarrow> 's \<Rightarrow> bool"
  assumes step_good: "good s \<Longrightarrow> step s s' \<Longrightarrow> good s'"
begin

lemma run_good: "good s \<Longrightarrow> step\<^sup>*\<^sup>* s s' \<Longrightarrow> good s'"
proof -
  assume g: "good s" and r: "step\<^sup>*\<^sup>* s s'"
  from r show "good s'"
    by (induction rule: rtranclp_induct) (use g step_good in blast)+
qed

lemma run_drained: "good s \<Longrightarrow> step\<^sup>*\<^sup>* s s' \<Longrightarrow> owned s' = {#} \<Longrightarrow> taken s' = given s'"
  by (rule drained [OF run_good])

end

end
