(* ===== verification/Linux_Driver_Inv.thy ===== *)
theory Linux_Driver_Inv
  imports Linux_Module Resource_Ledger
begin

text \<open>
  The invariant of the Linux driver and its preservation by every operation: well-formed
  buffers, exact counters, an identifier table and an LRU list of live buffers only, and a
  ledger in which everything taken is either given back or owned.
\<close>

section \<open>Ledgers\<close>

fun gets :: "lx_call list \<Rightarrow> lx_res multiset" where
  "gets [] = {#}"
| "gets (Get r # cs) = add_mset r (gets cs)"
| "gets (Put r # cs) = gets cs"
| "gets (Signal c # cs) = gets cs"
| "gets (Null_deref # cs) = gets cs"

fun puts :: "lx_call list \<Rightarrow> lx_res multiset" where
  "puts [] = {#}"
| "puts (Get r # cs) = puts cs"
| "puts (Put r # cs) = add_mset r (puts cs)"
| "puts (Signal c # cs) = puts cs"
| "puts (Null_deref # cs) = puts cs"

lemma gets_append [simp]: "gets (xs @ ys) = gets xs + gets ys"
  by (induction xs rule: gets.induct) auto

lemma puts_append [simp]: "puts (xs @ ys) = puts xs + puts ys"
  by (induction xs rule: puts.induct) auto

lemma gets_map_Get [simp]: "gets (map (\<lambda>x. Get (K x)) xs) = image_mset K (mset xs)"
  by (induction xs) auto

lemma gets_map_Put [simp]: "gets (map (\<lambda>x. Put (K x)) xs) = {#}"
  by (induction xs) auto

lemma puts_map_Get [simp]: "puts (map (\<lambda>x. Get (K x)) xs) = {#}"
  by (induction xs) auto

lemma puts_map_Put [simp]: "puts (map (\<lambda>x. Put (K x)) xs) = image_mset K (mset xs)"
  by (induction xs) auto

lemma puts_index: "n = length ps \<Longrightarrow> puts (map (\<lambda>i. Put (K (ps ! i))) [0..<n]) = image_mset K (mset ps)"
proof -
  assume n: "n = length ps"
  have "map (\<lambda>i. Put (K (ps ! i))) [0..<n] = map (\<lambda>x. Put (K x)) (map (\<lambda>i. ps ! i) [0..<n])"
    by simp
  also have "\<dots> = map (\<lambda>x. Put (K x)) ps" using n by (simp only: map_nth)
  finally show ?thesis by simp
qed

section \<open>Well-formed buffers\<close>

text \<open>
  A buffer has exactly one page array, as long as its count says, and its size is that of
  its pages.
\<close>

definition wf_array :: "nat list option \<Rightarrow> u32 \<Rightarrow> bool" where
  "wf_array arr n = (case arr of None \<Rightarrow> False | Some ps \<Rightarrow> length ps = unat n)"

definition wf_buf :: "lx_buf \<Rightarrow> bool" where
  "wf_buf b \<longleftrightarrow>
     (if hugepages b
      then \<not> user_pinned b \<and> pages b = None \<and> wf_array (hpages b) (nhpages b)
        \<and> unat (npages b) = 512 * unat (nhpages b)
      else hpages b = None \<and> nhpages b = 0 \<and> wf_array (pages b) (npages b))
     \<and> unat (bsize b) = 4096 * unat (npages b) \<and> 0 \<le> bid b"

definition buf_owned :: "nat \<Rightarrow> lx_buf \<Rightarrow> lx_res multiset" where
  "buf_owned p b = add_mset (Descriptor p)
     (if hugepages b then add_mset (Hpages_array p) (image_mset Hpage (mset (the (hpages b))))
      else add_mset (Pages_array p)
        (image_mset (if user_pinned b then Pinned else Page4k) (mset (the (pages b)))))"

text \<open>Neither depends on the bookkeeping fields.\<close>

lemma buf_owned_frame [simp]:
  "buf_owned p (b\<lparr>bid := i\<rparr>) = buf_owned p b"
  "buf_owned p (b\<lparr>exported := e\<rparr>) = buf_owned p b"
  "buf_owned p (b\<lparr>btier := t\<rparr>) = buf_owned p b"
  "buf_owned p (b\<lparr>last_jiffies := j\<rparr>) = buf_owned p b"
  "buf_owned p (b\<lparr>frozen := f\<rparr>) = buf_owned p b"
  by (simp_all add: buf_owned_def)

lemma wf_buf_frame [simp]:
  "wf_buf (b\<lparr>exported := e\<rparr>) = wf_buf b"
  "wf_buf (b\<lparr>btier := t\<rparr>) = wf_buf b"
  "wf_buf (b\<lparr>last_jiffies := j\<rparr>) = wf_buf b"
  "wf_buf (b\<lparr>frozen := f\<rparr>) = wf_buf b"
  by (simp_all add: wf_buf_def)

definition module_owned :: "lx_device \<Rightarrow> lx_res multiset" where
  "module_owned s = (case pressure_efd s of Some c \<Rightarrow> {#Efd c#} | None \<Rightarrow> {#})
     + (if watchdog s then {#Chrdev, Cdev, Class_dev, Device_node, Watchdog_thread#} else {#})"

definition lx_owned :: "lx_device \<Rightarrow> lx_res multiset" where
  "lx_owned s = heap_sum buf_owned (lx_heap s) + module_owned s"

definition tier_bytes :: "lx_tier \<Rightarrow> nat \<Rightarrow> lx_buf \<Rightarrow> nat" where
  "tier_bytes t p b = (if btier b = t then unat (bsize b) else 0)"

section \<open>The invariant\<close>

type_synonym lx_heap_map = "nat \<Rightarrow> lx_buf option"

definition counters_ok :: "lx_heap_map \<Rightarrow> u64 \<Rightarrow> u64 \<Rightarrow> u32 \<Rightarrow> bool" where
  "counters_ok h pool nvme active \<longleftrightarrow>
     pool = of_nat (heap_sum (tier_bytes LX_TIER2_DDR4) h)
     \<and> nvme = of_nat (heap_sum (tier_bytes LX_TIER3_NVME) h)
     \<and> active = of_nat (card (dom h))"

definition idr_ok :: "lx_heap_map \<Rightarrow> (int \<Rightarrow> nat option) \<Rightarrow> bool" where
  "idr_ok h ids \<longleftrightarrow>
     (\<forall>i p. ids i = Some p \<longrightarrow> 0 < i \<and> (\<exists>b. h p = Some b \<and> bid b = i))
     \<and> (\<forall>p b. h p = Some b \<longrightarrow> 0 < bid b \<longrightarrow> ids (bid b) = Some p)"

definition lru_ok :: "lx_heap_map \<Rightarrow> nat list \<Rightarrow> bool" where
  "lru_ok h l \<longleftrightarrow> distinct l \<and> set l \<subseteq> dom h
     \<and> (\<forall>p b. h p = Some b \<longrightarrow> btier b = LX_TIER2_DDR4 \<longrightarrow> p \<in> set l)"

definition heap_ok :: "lx_heap_map \<Rightarrow> nat \<Rightarrow> bool" where
  "heap_ok h n \<longleftrightarrow> finite (dom h) \<and> (\<forall>p b. h p = Some b \<longrightarrow> wf_buf b \<and> p < n)"

text \<open>\<open>X\<close> is what the operation in progress holds beside what the state owns.\<close>

definition lx_inv_plus :: "lx_res multiset \<Rightarrow> lx_device \<Rightarrow> bool" where
  "lx_inv_plus X s \<longleftrightarrow> heap_ok (lx_heap s) (lx_next s)
     \<and> counters_ok (lx_heap s) (pool_allocated s) (nvme_allocated s) (active_bufs s)
     \<and> idr_ok (lx_heap s) (idr s) \<and> lru_ok (lx_heap s) (lru_list s)
     \<and> gets (ledger s) = puts (ledger s) + lx_owned s + X"

abbreviation lx_inv :: "lx_device \<Rightarrow> bool" where
  "lx_inv \<equiv> lx_inv_plus {#}"

lemmas lx_inv_unfold = lx_inv_plus_def lx_owned_def module_owned_def

lemma lx_inv_logged:
  assumes "lx_inv_plus X s" and "gets cs + X = puts cs + Y"
  shows "lx_inv_plus Y (logged cs s)"
proof -
  have "gets (ledger s) = puts (ledger s) + lx_owned s + X"
    using assms(1) by (simp add: lx_inv_plus_def)
  then have "gets (ledger s) + gets cs = puts (ledger s) + puts cs + lx_owned s + Y"
    using assms(2) by (simp add: ac_simps)
  then show ?thesis using assms(1) by (simp add: lx_inv_unfold)
qed

text \<open>The fields the invariant does not speak of.\<close>

lemma lx_inv_frame [simp]:
  "lx_inv_plus X (s\<lparr>oom_active := o'\<rparr>) = lx_inv_plus X s"
  "lx_inv_plus X (s\<lparr>swap_pressure := n\<rparr>) = lx_inv_plus X s"
  "lx_inv_plus X (s\<lparr>watchdog_cpus := c\<rparr>) = lx_inv_plus X s"
  by (simp_all add: lx_inv_unfold)

lemma heap_ok_Suc: "heap_ok h n \<Longrightarrow> heap_ok h (Suc n)"
  by (auto simp: heap_ok_def less_Suc_eq)

lemma lx_inv_next: "lx_inv_plus X s \<Longrightarrow> lx_inv_plus X (s\<lparr>lx_next := lx_next s + 1\<rparr>)"
  by (simp add: lx_inv_unfold heap_ok_Suc)

lemma lx_inv_fresh: "lx_inv_plus X s \<Longrightarrow> lx_next s \<le> p \<Longrightarrow> lx_heap s p = None"
  by (cases "lx_heap s p") (fastforce simp: lx_inv_plus_def heap_ok_def)+

lemma lx_inv_finite: "lx_inv_plus X s \<Longrightarrow> finite (dom (lx_heap s))"
  by (simp add: lx_inv_plus_def heap_ok_def)

lemma lx_inv_wf: "lx_inv_plus X s \<Longrightarrow> lx_heap s p = Some b \<Longrightarrow> wf_buf b"
  by (auto simp: lx_inv_plus_def heap_ok_def)

lemma lx_inv_lru:
  assumes "lx_inv_plus X s" and "distinct l" and "set l \<subseteq> dom (lx_heap s)"
    and "set (lru_list s) \<subseteq> set l"
  shows "lx_inv_plus X (s\<lparr>lru_list := l\<rparr>)"
proof -
  have "lru_ok (lx_heap s) l"
    using assms unfolding lx_inv_plus_def lru_ok_def by blast
  then show ?thesis using assms(1) by (simp add: lx_inv_unfold)
qed

text \<open>A change to one live buffer that keeps its pages, its tier and its identifier.\<close>

lemma heap_ok_upd: "heap_ok h n \<Longrightarrow> h p = Some b \<Longrightarrow> wf_buf b' \<Longrightarrow> heap_ok (h(p \<mapsto> b')) n"
  by (auto simp: heap_ok_def)

lemma idr_ok_cong:
  assumes "idr_ok h ids" and "\<And>q. map_option bid (h' q) = map_option bid (h q)"
  shows "idr_ok h' ids"
  unfolding idr_ok_def
proof (intro conjI allI impI)
  fix i q
  assume "ids i = Some q"
  with assms(1) obtain b where "0 < i" "h q = Some b" "bid b = i" by (auto simp: idr_ok_def)
  then show "0 < i" and "\<exists>b. h' q = Some b \<and> bid b = i"
    using assms(2) [of q] by (auto simp: map_option_case split: option.splits)
next
  fix q b
  assume b: "h' q = Some b" "0 < bid b"
  then obtain c where "h q = Some c" "bid c = bid b"
    using assms(2) [of q] by (auto simp: map_option_case split: option.splits)
  with b assms(1) show "ids (bid b) = Some q" unfolding idr_ok_def by metis
qed

lemma idr_ok_upd: "idr_ok h ids \<Longrightarrow> h p = Some b \<Longrightarrow> bid b' = bid b \<Longrightarrow> idr_ok (h(p \<mapsto> b')) ids"
  by (erule idr_ok_cong) simp

lemma lru_ok_upd: "lru_ok h l \<Longrightarrow> h p = Some b \<Longrightarrow> btier b' = btier b \<Longrightarrow> lru_ok (h(p \<mapsto> b')) l"
  unfolding lru_ok_def by auto

lemma counters_ok_upd:
  assumes "counters_ok h x y a" and "finite (dom h)" and "h p = Some b"
    and "btier b' = btier b" and "bsize b' = bsize b"
  shows "counters_ok (h(p \<mapsto> b')) x y a"
proof -
  have "heap_sum (tier_bytes t) (h(p \<mapsto> b')) = heap_sum (tier_bytes t) h" for t
    using assms by (intro heap_sum_same) (auto simp: tier_bytes_def)
  moreover have "dom (h(p \<mapsto> b')) = dom h" using assms(3) by auto
  ultimately show ?thesis using assms(1) unfolding counters_ok_def by presburger
qed

lemma lx_inv_upd:
  assumes "lx_inv_plus X s" and "lx_heap s p = Some b" and "wf_buf (f b)"
    and "bid (f b) = bid b" and "btier (f b) = btier b" and "bsize (f b) = bsize b"
    and "buf_owned p (f b) = buf_owned p b"
  shows "lx_inv_plus X (lx_upd p f s)"
proof -
  have fin: "finite (dom (lx_heap s))" using assms(1) by (rule lx_inv_finite)
  have "heap_sum buf_owned ((lx_heap s)(p \<mapsto> f b)) = heap_sum buf_owned (lx_heap s)"
    using assms by (intro heap_sum_same [OF fin]) auto
  moreover have "heap_ok ((lx_heap s)(p \<mapsto> f b)) (lx_next s)"
    by (rule heap_ok_upd [where b = b]) (use assms in \<open>simp_all add: lx_inv_plus_def\<close>)
  moreover have "idr_ok ((lx_heap s)(p \<mapsto> f b)) (idr s)"
    by (rule idr_ok_upd [where b = b]) (use assms in \<open>simp_all add: lx_inv_plus_def\<close>)
  moreover have "lru_ok ((lx_heap s)(p \<mapsto> f b)) (lru_list s)"
    by (rule lru_ok_upd [where b = b]) (use assms in \<open>simp_all add: lx_inv_plus_def\<close>)
  moreover have "counters_ok ((lx_heap s)(p \<mapsto> f b)) (pool_allocated s) (nvme_allocated s)
      (active_bufs s)"
    by (rule counters_ok_upd [where b = b]) (use assms fin in \<open>simp_all add: lx_inv_plus_def\<close>)
  ultimately show ?thesis using assms(1,2) by (simp add: lx_upd_def lx_inv_unfold)
qed

section \<open>A buffer joins and leaves\<close>

lemma counters_ok_new:
  assumes "counters_ok h x y a" and "finite (dom h)" and "h p = None"
  shows "counters_ok (h(p \<mapsto> b))
     (x + (if btier b = LX_TIER2_DDR4 then bsize b else 0))
     (y + (if btier b = LX_TIER3_NVME then bsize b else 0)) (a + 1)"
proof -
  have "card (dom (h(p \<mapsto> b))) = card (dom h) + 1"
    using assms(2,3) by (simp add: domIff)
  then show ?thesis
    using assms(1) unfolding counters_ok_def heap_sum_new [OF assms(2,3)]
    by (simp add: tier_bytes_def)
qed

lemma idr_ok_new:
  assumes "idr_ok h ids" and "h p = None" and "bid b = 0"
  shows "idr_ok (h(p \<mapsto> b)) ids"
  unfolding idr_ok_def
proof (intro conjI allI impI)
  fix i q
  assume "ids i = Some q"
  with assms(1) obtain c where c: "0 < i" "h q = Some c" "bid c = i" by (auto simp: idr_ok_def)
  with assms(2) have "q \<noteq> p" by auto
  with c show "0 < i" and "\<exists>c. (h(p \<mapsto> b)) q = Some c \<and> bid c = i" by auto
next
  fix q c
  assume c: "(h(p \<mapsto> b)) q = Some c" "0 < bid c"
  with assms(3) have "h q = Some c" by (cases "q = p") auto
  with c(2) assms(1) show "ids (bid c) = Some q" unfolding idr_ok_def by blast
qed

lemma lru_ok_new: "lru_ok h l \<Longrightarrow> h p = None \<Longrightarrow> lru_ok (h(p \<mapsto> b)) (l @ [p])"
  unfolding lru_ok_def by auto

lemma lx_inv_add:
  assumes "lx_inv_plus (buf_owned p b + X) s" and "lx_heap s p = None" and "p < lx_next s"
    and "wf_buf b" and "bid b = 0"
  shows "lx_inv_plus X (add_buf s p b)"
proof -
  have fin: "finite (dom (lx_heap s))" using assms(1) by (rule lx_inv_finite)
  let ?h = "(lx_heap s)(p \<mapsto> b)"
  have "heap_ok ?h (lx_next s)" using assms by (auto simp: lx_inv_plus_def heap_ok_def)
  moreover have "idr_ok ?h (idr s)" using assms by (auto simp: lx_inv_plus_def intro: idr_ok_new)
  moreover have "lru_ok ?h (lru_list s @ [p])"
    using assms by (auto simp: lx_inv_plus_def intro: lru_ok_new)
  moreover have "counters_ok ?h
     (pool_allocated s + (if btier b = LX_TIER2_DDR4 then bsize b else 0))
     (nvme_allocated s + (if btier b = LX_TIER3_NVME then bsize b else 0)) (active_bufs s + 1)"
    using assms fin by (intro counters_ok_new) (simp_all add: lx_inv_plus_def)
  ultimately show ?thesis
    using assms(1) heap_sum_new [OF fin assms(2), of buf_owned b]
    by (cases "btier b") (simp_all add: add_buf_def lx_inv_unfold ac_simps)
qed

lemma counters_ok_del:
  assumes "counters_ok h x y a" and "finite (dom h)" and "h p = Some b"
  shows "counters_ok (h(p := None))
     (x - (if btier b = LX_TIER2_DDR4 then bsize b else 0))
     (y - (if btier b = LX_TIER3_NVME then bsize b else 0)) (a - 1)"
proof -
  have "card (dom h) = card (dom (h(p := None))) + 1"
    using card.remove [OF assms(2), of p] assms(3) by (simp add: domIff)
  moreover have "heap_sum (tier_bytes t) h = heap_sum (tier_bytes t) (h(p := None)) + tier_bytes t p b"
    for t using assms(2,3) by (rule heap_sum_del)
  ultimately show ?thesis
    using assms(1) unfolding counters_ok_def by (simp add: tier_bytes_def)
qed

lemma idr_ok_del:
  assumes "idr_ok h ids" and "h p = Some b" and "0 \<le> bid b"
  shows "idr_ok (h(p := None)) (if 0 < bid b then ids(bid b := None) else ids)"
  unfolding idr_ok_def
proof (intro conjI allI impI)
  fix i q
  assume "(if 0 < bid b then ids(bid b := None) else ids) i = Some q"
  then have i: "ids i = Some q" "0 < bid b \<longrightarrow> i \<noteq> bid b" by (auto split: if_splits)
  with assms(1) obtain c where c: "0 < i" "h q = Some c" "bid c = i" by (auto simp: idr_ok_def)
  with i(2) assms(2) have "q \<noteq> p" by auto
  with c show "0 < i" and "\<exists>b. (h(p := None)) q = Some b \<and> bid b = i" by auto
next
  fix q c
  assume c: "(h(p := None)) q = Some c" "0 < bid c"
  then have q: "h q = Some c" "q \<noteq> p" by (auto split: if_splits)
  with c assms(1) have ids: "ids (bid c) = Some q" unfolding idr_ok_def by metis
  have "bid c \<noteq> bid b \<or> \<not> 0 < bid b"
  proof (rule ccontr)
    assume "\<not> ?thesis"
    with assms(1,2) have "ids (bid c) = Some p" unfolding idr_ok_def by metis
    with ids q(2) show False by simp
  qed
  with ids show "(if 0 < bid b then ids(bid b := None) else ids) (bid c) = Some q" by auto
qed

lemma lru_ok_del: "lru_ok h l \<Longrightarrow> lru_ok (h(p := None)) (removeAll p l)"
  unfolding lru_ok_def by (auto simp: distinct_removeAll)

text \<open>A well-formed buffer is released without a fault, and all it owns is given back.\<close>

lemma put_array_wf:
  assumes "wf_array arr n"
  shows "\<exists>cs. put_array K arr (unat n) = Some cs \<and> gets cs = {#}
    \<and> puts cs = image_mset K (mset (the arr))"
proof -
  from assms obtain ps where ps: "arr = Some ps" "unat n = length ps"
    by (auto simp: wf_array_def split: option.splits)
  then show ?thesis
    using puts_index [of "unat n" ps K] gets_map_Put [of "\<lambda>i. K (ps ! i)" "[0..<unat n]"]
    by (simp only: put_array_def option.case option.sel) auto
qed

lemma release_pages_wf:
  assumes "wf_buf b"
  shows "\<exists>cs. release_pages p b = Some cs \<and> gets cs = {#}
    \<and> add_mset (Descriptor p) (puts cs) = buf_owned p b"
proof (cases "hugepages b")
  case True
  with assms have "wf_array (hpages b) (nhpages b)" "\<not> user_pinned b" by (auto simp: wf_buf_def)
  with True put_array_wf [of "hpages b" "nhpages b" Hpage] show ?thesis
    by (auto simp: release_pages_def buf_owned_def)
next
  case False
  with assms have "wf_array (pages b) (npages b)" by (auto simp: wf_buf_def)
  with False put_array_wf [of "pages b" "npages b" Pinned]
    put_array_wf [of "pages b" "npages b" Page4k]
  show ?thesis by (auto simp: release_pages_def buf_owned_def)
qed

lemma gb_release_eq:
  assumes "lx_heap s p = Some b" and "release_pages p b = Some cs"
  shows "gb_release s p = logged (cs @ [Put (Descriptor p)]) (s\<lparr>
     lru_list := removeAll p (lru_list s),
     idr := (if 0 < bid b then (idr s)(bid b := None) else idr s),
     active_bufs := active_bufs s - 1,
     pool_allocated := pool_allocated s - (if btier b = LX_TIER2_DDR4 then bsize b else 0),
     nvme_allocated := nvme_allocated s - (if btier b = LX_TIER3_NVME then bsize b else 0),
     lx_heap := (lx_heap s)(p := None)\<rparr>)"
  using assms by (cases "btier b") (simp_all add: gb_release_def)

lemma lx_inv_release:
  assumes "lx_inv_plus X s" and "lx_heap s p = Some b"
  shows "lx_inv_plus X (gb_release s p)"
proof -
  have fin: "finite (dom (lx_heap s))" using assms(1) by (rule lx_inv_finite)
  have wf: "wf_buf b" using assms by (rule lx_inv_wf)
  then obtain cs where cs: "release_pages p b = Some cs" "gets cs = {#}"
    "add_mset (Descriptor p) (puts cs) = buf_owned p b" using release_pages_wf by blast
  let ?s = "s\<lparr>lru_list := removeAll p (lru_list s),
     idr := (if 0 < bid b then (idr s)(bid b := None) else idr s),
     active_bufs := active_bufs s - 1,
     pool_allocated := pool_allocated s - (if btier b = LX_TIER2_DDR4 then bsize b else 0),
     nvme_allocated := nvme_allocated s - (if btier b = LX_TIER3_NVME then bsize b else 0),
     lx_heap := (lx_heap s)(p := None)\<rparr>"
  have "heap_ok ((lx_heap s)(p := None)) (lx_next s)"
    using assms(1) by (auto simp: lx_inv_plus_def heap_ok_def)
  moreover have "idr_ok ((lx_heap s)(p := None)) (idr ?s)"
    using idr_ok_del [of "lx_heap s" "idr s" p b] assms wf
    by (simp add: lx_inv_plus_def wf_buf_def)
  moreover have "lru_ok ((lx_heap s)(p := None)) (lru_list ?s)"
    using assms(1) by (simp add: lx_inv_plus_def lru_ok_del)
  moreover have "counters_ok ((lx_heap s)(p := None)) (pool_allocated ?s) (nvme_allocated ?s)
      (active_bufs ?s)"
    using counters_ok_del [of "lx_heap s" _ _ _ p b] assms fin by (simp add: lx_inv_plus_def)
  ultimately have "lx_inv_plus (buf_owned p b + X) ?s"
    using assms(1) heap_sum_del [OF fin assms(2), of buf_owned]
    by (simp add: lx_inv_unfold ac_simps)
  then have "lx_inv_plus X (logged (cs @ [Put (Descriptor p)]) ?s)"
    by (rule lx_inv_logged) (use cs in \<open>simp flip: cs(3)\<close>)
  then show ?thesis by (simp only: gb_release_eq [OF assms(2) cs(1)])
qed

end
