(* ===== verification/Linux_Driver_Alloc.thy ===== *)
theory Linux_Driver_Alloc
  imports Linux_Driver_Inv
begin

text \<open>
  The two allocators of the Linux driver keep the invariant, and what they return: the size
  of a new buffer, its tier, its place in the heap.
\<close>

section \<open>Sizes\<close>

text \<open>
  With the pool cap between 0 and 8191 GiB a request is below \<open>2 ^ 43\<close> bytes, and its page
  counts fit the 32-bit fields of the buffer.
\<close>

definition good_params :: "lx_params \<Rightarrow> bool" where
  "good_params P \<longleftrightarrow> 0 \<le> virtual_vram_gb P \<and> virtual_vram_gb P < 8192"

definition fits :: "u64 \<Rightarrow> bool" where
  "fits x \<longleftrightarrow> 0 < x \<and> unat x < 2 ^ 43"

lemma unat_gb_bytes:
  assumes "0 \<le> x" and "x < 8192"
  shows "unat (gb_bytes x) = nat x * 2 ^ 30"
proof -
  have x: "unat (word_of_int x :: u64) = nat x"
    using assms by (simp add: unsigned_of_int take_bit_int_eq_self)
  moreover have "nat x * 2 ^ 30 < 2 ^ 64" using assms(2) by auto
  ultimately show ?thesis by (simp add: gb_bytes_def unat_word_ariths)
qed

lemma good_params_cap: "good_params P \<Longrightarrow> unat (gb_bytes (virtual_vram_gb P)) < 2 ^ 43"
proof -
  assume g: "good_params P"
  then have "nat (virtual_vram_gb P) < 8192" by (auto simp: good_params_def)
  then have "nat (virtual_vram_gb P) * 2 ^ 30 < 8192 * 2 ^ 30" by simp
  also have "(8192::nat) * 2 ^ 30 = 2 ^ 43" by simp
  finally show ?thesis using g unat_gb_bytes by (simp add: good_params_def)
qed

lemma good_params_fits:
  "good_params P \<Longrightarrow> sz \<noteq> 0 \<Longrightarrow> \<not> gb_bytes (virtual_vram_gb P) < sz \<Longrightarrow> fits sz"
  using good_params_cap [of P]
  by (auto simp: fits_def word_le_nat not_less word_neq_0_conv intro: order_le_less_trans)

lemma unat_div_round_up:
  assumes "fits x" and "0 < unat k" and "unat k \<le> 2 ^ 21"
  shows "unat (div_round_up x k) = (unat x + unat k - 1) div unat k"
proof -
  have s: "unat x + unat k < 2 ^ 64" using assms by (simp add: fits_def)
  have "k \<noteq> 0" using assms(2) by auto
  then have "unat (x + k - 1) = unat x + unat k - 1"
  proof -
    have "unat (x + k) = unat x + unat k" using s by (rule unat_plus_small)
    then show ?thesis using assms(2) by (subst unat_sub) (auto simp: word_le_nat)
  qed
  then show ?thesis by (simp add: div_round_up_def unat_div_distrib)
qed

lemma unat_hpage_size: "unat GB_HPAGE_SIZE = 2 ^ 21"
  by (simp add: GB_HPAGE_SIZE_def GB_HPAGE_ORDER_def LX_PAGE_SIZE_def)

lemma unat_hpages_per: "unat GB_HPAGES_PER = 512"
  by (simp add: GB_HPAGES_PER_def GB_HPAGE_ORDER_def)

lemma unat_page_size: "unat LX_PAGE_SIZE = 2 ^ 12"
  by (simp add: LX_PAGE_SIZE_def)

definition np_of :: "u64 \<Rightarrow> u32" where
  "np_of sz = ucast (div_round_up sz LX_PAGE_SIZE)"

definition nhp_of :: "u64 \<Rightarrow> u32" where
  "nhp_of sz = ucast (div_round_up sz GB_HPAGE_SIZE)"

lemma unat_np_of:
  assumes "fits sz"
  shows "unat (np_of sz) = (unat sz + 4095) div 4096" and "unat (np_of sz) < 2 ^ 32"
    and "unat (ucast (np_of sz) * LX_PAGE_SIZE) = 4096 * unat (np_of sz)"
proof -
  have d: "unat (div_round_up sz LX_PAGE_SIZE) = (unat sz + 4095) div 4096"
    using unat_div_round_up [OF assms, of LX_PAGE_SIZE] by (simp add: unat_page_size)
  have b: "(unat sz + 4095) div 4096 < 2 ^ 32"
    using assms by (simp add: fits_def div_less_iff_less_mult)
  then show "unat (np_of sz) = (unat sz + 4095) div 4096"
    using d by (simp add: np_of_def unat_ucast_down)
  show "unat (np_of sz) < 2 ^ 32" by (rule unat_u32_less)
  then show "unat (ucast (np_of sz) * LX_PAGE_SIZE) = 4096 * unat (np_of sz)"
    by (simp add: unat_word_ariths unat_ucast_up unat_page_size)
qed

lemma unat_nhp_of:
  assumes "fits sz"
  shows "unat (nhp_of sz) = (unat sz + (2 ^ 21 - 1)) div 2 ^ 21" and "unat (nhp_of sz) \<le> 2 ^ 22"
    and "unat (ucast (nhp_of sz) * GB_HPAGE_SIZE) = 2 ^ 21 * unat (nhp_of sz)"
    and "unat (nhp_of sz * GB_HPAGES_PER) = 512 * unat (nhp_of sz)"
proof -
  have d: "unat (div_round_up sz GB_HPAGE_SIZE) = (unat sz + (2 ^ 21 - 1)) div 2 ^ 21"
    using unat_div_round_up [OF assms, of GB_HPAGE_SIZE] by (simp add: unat_hpage_size)
  have "unat sz + (2 ^ 21 - 1) < (2 ^ 22 + 1) * 2 ^ 21"
    using assms by (simp add: fits_def)
  then have b: "(unat sz + (2 ^ 21 - 1)) div 2 ^ 21 < 2 ^ 22 + 1"
    by (subst div_less_iff_less_mult) simp_all
  then show e: "unat (nhp_of sz) = (unat sz + (2 ^ 21 - 1)) div 2 ^ 21"
    using d by (simp add: nhp_of_def unat_ucast_down)
  with b show le: "unat (nhp_of sz) \<le> 2 ^ 22" by simp
  then show "unat (ucast (nhp_of sz) * GB_HPAGE_SIZE) = 2 ^ 21 * unat (nhp_of sz)"
    by (simp add: unat_word_ariths unat_ucast_up unat_hpage_size)
  from le show "unat (nhp_of sz * GB_HPAGES_PER) = 512 * unat (nhp_of sz)"
    by (simp add: unat_word_ariths unat_hpages_per)
qed

section \<open>Filling a page array\<close>

lemma grab_True: "grab f n = (ps, True) \<Longrightarrow> length ps = n \<and> (\<forall>i<n. f i = Some (ps ! i))"
proof (induction n arbitrary: ps)
  case 0
  then show ?case by simp
next
  case (Suc n)
  then obtain qs q where qs: "grab f n = (qs, True)" "f n = Some q" "ps = qs @ [q]"
    by (auto split: prod.splits bool.splits option.splits)
  from Suc.IH [OF qs(1)] qs(2,3) show ?case by (auto simp: nth_append less_Suc_eq)
qed

lemma lx_inv_extra:
  assumes "lx_inv_plus X s" and "gets cs = puts cs + Y"
  shows "lx_inv_plus (Y + X) (logged cs s)"
  by (rule lx_inv_logged [OF assms(1)]) (use assms(2) in \<open>simp add: ac_simps\<close>)

lemma try_hugepages_calls:
  assumes "try_hugepages env p n = (cs, r)"
  shows "case r of
     None \<Rightarrow> gets cs = puts cs
   | Some hs \<Rightarrow> length hs = unat n
       \<and> gets cs = puts cs + add_mset (Hpages_array p) (image_mset Hpage (mset hs))"
proof (cases "hparr_ok env")
  case True
  obtain hs ok where g: "grab (hpage_of env) (unat n) = (hs, ok)" by force
  with True assms grab_True [of "hpage_of env" "unat n" hs] show ?thesis
    by (cases ok) (auto simp: try_hugepages_def)
qed (use assms in \<open>auto simp: try_hugepages_def\<close>)

lemma try_4k_calls:
  assumes "try_4k env p n = (cs, r)"
  shows "case r of
     None \<Rightarrow> add_mset (Descriptor p) (gets cs) = puts cs
   | Some ps \<Rightarrow> length ps = unat n
       \<and> gets cs = puts cs + add_mset (Pages_array p) (image_mset Page4k (mset ps))"
proof (cases "parr_ok env")
  case True
  obtain ps ok where g: "grab (page_of env) (unat n) = (ps, ok)" by force
  with True assms grab_True [of "page_of env" "unat n" ps] show ?thesis
    by (cases ok) (auto simp: try_4k_def)
qed (use assms in \<open>auto simp: try_4k_def\<close>)

section \<open>The allocators\<close>

text \<open>What a successful allocation of \<open>sz\<close> bytes adds to the heap.\<close>

definition grants :: "lx_device \<Rightarrow> u64 \<Rightarrow> lx_buf \<Rightarrow> lx_device \<Rightarrow> bool" where
  "grants s sz b s' \<longleftrightarrow> lx_inv s' \<and> lx_heap s' = (lx_heap s)(lx_next s \<mapsto> b) \<and> idr s' = idr s
     \<and> bid b = 0 \<and> unat sz \<le> unat (bsize b) \<and> unat (bsize b) < unat sz + 2 ^ 21"

definition refuses :: "lx_device \<Rightarrow> lx_device \<Rightarrow> bool" where
  "refuses s s' \<longleftrightarrow> lx_inv s' \<and> lx_heap s' = lx_heap s \<and> idr s' = idr s"

lemma add_buf_fields [simp]:
  "lx_heap (add_buf s p b) = (lx_heap s)(p \<mapsto> b)"
  "idr (add_buf s p b) = idr s"
  "ledger (add_buf s p b) = ledger s"
  "lru_list (add_buf s p b) = lru_list s @ [p]"
  by (cases "btier b"; simp add: add_buf_def)+

lemma lx_inv_kzalloc:
  assumes "lx_inv s"
  shows "lx_inv_plus {#Descriptor (lx_next s)#}
    (logged [Get (Descriptor (lx_next s))] (s\<lparr>lx_next := lx_next s + 1\<rparr>))"
  by (rule lx_inv_logged [OF lx_inv_next [OF assms]]) simp

lemma grants_huge:
  assumes "lx_inv_plus {#Descriptor (lx_next s)#} s1" and "lx_heap s1 = lx_heap s" and "idr s1 = idr s"
    and "lx_next s1 = lx_next s + 1" and "lx_heap s (lx_next s) = None"
    and "fits sz" and "length hs = unat (nhp_of sz)"
    and "gets cs = puts cs + add_mset (Hpages_array (lx_next s)) (image_mset Hpage (mset hs))"
    and b: "b = base\<lparr>hpages := Some hs, hugepages := True, nhpages := nhp_of sz,
      npages := nhp_of sz * GB_HPAGES_PER, bsize := ucast (nhp_of sz) * GB_HPAGE_SIZE\<rparr>"
    and base: "pages base = None" "\<not> user_pinned base" "bid base = 0"
  shows "grants s sz b (add_buf (logged cs s1) (lx_next s) b)"
proof -
  note n = unat_nhp_of [OF assms(6)]
  have "wf_buf b"
    using assms(7) n(2-4) b base by (simp add: wf_buf_def wf_array_def)
  moreover have "buf_owned (lx_next s) b = add_mset (Descriptor (lx_next s))
      (add_mset (Hpages_array (lx_next s)) (image_mset Hpage (mset hs)))"
    by (simp add: buf_owned_def b)
  moreover have "unat sz \<le> unat (bsize b) \<and> unat (bsize b) < unat sz + 2 ^ 21"
    using round_up_ge [of "2 ^ 21" "unat sz"] round_up_lt [of "2 ^ 21" "unat sz"] n(1,3)
    by (simp add: b mult.commute add.commute)
  ultimately show ?thesis
    using lx_inv_extra [OF assms(1,8)] assms(2-5) b base
    unfolding grants_def
    by (auto intro!: lx_inv_add)
qed

lemma grants_small:
  assumes "lx_inv_plus {#Descriptor (lx_next s)#} s1" and "lx_heap s1 = lx_heap s" and "idr s1 = idr s"
    and "lx_next s1 = lx_next s + 1" and "lx_heap s (lx_next s) = None"
    and "fits sz" and "length ps = unat (np_of sz)"
    and "gets cs = puts cs + add_mset (Pages_array (lx_next s))
      (image_mset (if user_pinned b then Pinned else Page4k) (mset ps))"
    and b: "b = base\<lparr>pages := Some ps, npages := np_of sz, bsize := ucast (np_of sz) * LX_PAGE_SIZE\<rparr>"
    and base: "hpages base = None" "nhpages base = 0" "\<not> hugepages base" "bid base = 0"
  shows "grants s sz b (add_buf (logged cs s1) (lx_next s) b)"
proof -
  note n = unat_np_of [OF assms(6)]
  have "wf_buf b"
    using assms(7) n(2,3) b base by (simp add: wf_buf_def wf_array_def)
  moreover have "buf_owned (lx_next s) b = add_mset (Descriptor (lx_next s))
      (add_mset (Pages_array (lx_next s))
        (image_mset (if user_pinned b then Pinned else Page4k) (mset ps)))"
    by (simp add: buf_owned_def b base)
  moreover have "unat sz \<le> unat (bsize b) \<and> unat (bsize b) < unat sz + 2 ^ 21"
    using round_up_ge [of 4096 "unat sz"] round_up_lt [of 4096 "unat sz"] n(1,3)
    by (simp add: b mult.commute add.commute)
  ultimately show ?thesis
    using lx_inv_extra [OF assms(1,8)] assms(2-5) b base
    unfolding grants_def
    by (auto intro!: lx_inv_add)
qed

lemma done_buf_fields [simp]:
  "pages (done_buf env t flags) = None" "hpages (done_buf env t flags) = None"
  "nhpages (done_buf env t flags) = 0" "hugepages (done_buf env t flags) = False"
  "user_pinned (done_buf env t flags) = False" "bid (done_buf env t flags) = 0"
  "btier (done_buf env t flags) = t"
  "frozen (done_buf env t flags) = (flags AND LX_ALLOC_FROZEN \<noteq> 0)"
  by (simp_all add: done_buf_def zero_buf_def)

lemma fill_buf_outcome:
  assumes inv: "lx_inv_plus {#Descriptor (lx_next s)#} s1"
    and s1: "lx_heap s1 = lx_heap s" "idr s1 = idr s" "lx_next s1 = lx_next s + 1"
    and fresh: "lx_heap s (lx_next s) = None" and sz: "fits sz"
    and run: "fill_buf P env s1 (lx_next s) t sz flags = (r, s')"
  shows "(\<exists>e. r = Inl e \<and> refuses s s')
    \<or> (\<exists>b. r = Inr (lx_next s) \<and> grants s sz b s' \<and> btier b = t
          \<and> frozen b = (flags AND LX_ALLOC_FROZEN \<noteq> 0) \<and> \<not> user_pinned b
          \<and> (hugepages b \<longrightarrow> btier b = LX_TIER2_DDR4))"
proof -
  let ?p = "lx_next s"
  obtain hcalls huge where h: "(if t = LX_TIER2_DDR4 \<and> use_hugepages P
      \<and> flags AND LX_ALLOC_NO_HUGEPAGE = 0
    then try_hugepages env ?p (nhp_of sz) else ([], None)) = (hcalls, huge)" by force
  have hc: "case huge of None \<Rightarrow> gets hcalls = puts hcalls | Some hs \<Rightarrow> length hs = unat (nhp_of sz)
      \<and> gets hcalls = puts hcalls + add_mset (Hpages_array ?p) (image_mset Hpage (mset hs))"
    using h try_hugepages_calls [of env ?p "nhp_of sz" hcalls huge] by (auto split: if_splits)
  note run' = run [unfolded fill_buf_def Let_def, folded nhp_of_def np_of_def, unfolded h prod.case]
  show ?thesis
  proof (cases huge)
    case (Some hs)
    then have "grants s sz (done_buf env t flags\<lparr>hpages := Some hs, hugepages := True,
        nhpages := nhp_of sz, npages := nhp_of sz * GB_HPAGES_PER,
        bsize := ucast (nhp_of sz) * GB_HPAGE_SIZE\<rparr>) s'"
      using run' hc grants_huge [OF inv s1 fresh sz, where base = "done_buf env t flags"] by auto
    moreover have "t = LX_TIER2_DDR4" using h Some by (auto split: if_splits)
    ultimately show ?thesis using run' Some by force
  next
    case None
    then have i2: "lx_inv_plus {#Descriptor ?p#} (logged hcalls s1)"
      using hc by (intro lx_inv_logged [OF inv]) simp
    obtain pcalls small where k: "try_4k env ?p (np_of sz) = (pcalls, small)" by force
    note pc = try_4k_calls [OF k]
    show ?thesis
    proof (cases small)
      case None
      then have "lx_inv (logged pcalls (logged hcalls s1))"
        using pc by (intro lx_inv_logged [OF i2]) simp
      then show ?thesis using run' \<open>huge = None\<close> None k s1 by (auto simp: refuses_def)
    next
      case (Some ps)
      let ?b = "done_buf env t flags\<lparr>pages := Some ps, npages := np_of sz,
          bsize := ucast (np_of sz) * LX_PAGE_SIZE\<rparr>"
      have "grants s sz ?b (add_buf (logged pcalls (logged hcalls s1)) ?p ?b)"
        using Some pc s1 fresh sz
        by (intro grants_small [OF i2, where base = "done_buf env t flags"]) simp_all
      then show ?thesis using run' Some \<open>huge = None\<close> k by force
    qed
  qed
qed

text \<open>The outcome of the page pool allocator.\<close>

lemma gb_alloc_buf_outcome:
  assumes inv: "lx_inv s" and sz: "fits sz" and run: "gb_alloc_buf P env s sz flags = (r, s')"
  shows "(\<exists>e. r = Inl e \<and> refuses s s')
    \<or> (\<exists>b. r = Inr (lx_next s) \<and> grants s sz b s' \<and> choose_tier P s sz = Inr (btier b)
          \<and> frozen b = (flags AND LX_ALLOC_FROZEN \<noteq> 0) \<and> \<not> user_pinned b
          \<and> (hugepages b \<longrightarrow> btier b = LX_TIER2_DDR4))"
proof (cases "choose_tier P s sz")
  case (Inl e)
  with inv run show ?thesis
    by (auto simp: gb_alloc_buf_def Let_def refuses_def split: if_splits)
next
  case (Inr t)
  let ?s1 = "logged [Get (Descriptor (lx_next s))] (s\<lparr>lx_next := lx_next s + 1\<rparr>)"
  show ?thesis
  proof (cases "freeram env * ucast (mem_unit env) < gb_bytes (safety_reserve_gb P) + sz
      \<or> \<not> kzalloc_ok env")
    case True
    with inv run Inr show ?thesis
      by (auto simp: gb_alloc_buf_def Let_def refuses_def split: if_splits)
  next
    case False
    with run Inr have "fill_buf P env ?s1 (lx_next s) t sz flags = (r, s')"
      by (simp add: gb_alloc_buf_def Let_def)
    from fill_buf_outcome [OF lx_inv_kzalloc [OF inv] _ _ _ _ sz this] lx_inv_fresh [OF inv]
    show ?thesis using Inr by auto
  qed
qed

text \<open>The outcome of pinning pages of the caller.\<close>

lemma gb_pin_user_buf_outcome:
  assumes inv: "lx_inv s" and sz: "fits sz" and ret: "pin_ret env < 2 ^ 31"
    and run: "gb_pin_user_buf P env s sz flags = (r, s')"
  shows "(\<exists>e. r = Inl e \<and> refuses s s')
    \<or> (\<exists>b. r = Inr (lx_next s) \<and> grants s sz b s' \<and> btier b = LX_TIER2_DDR4 \<and> user_pinned b
          \<and> \<not> gb_bytes (virtual_vram_gb P) < pool_allocated s + bsize b)"
proof -
  let ?p = "lx_next s" and ?np = "np_of sz" and ?ps = "map (pin_page env) [0..<nat (pin_ret env)]"
  let ?s1 = "logged [Get (Descriptor (lx_next s))] (s\<lparr>lx_next := lx_next s + 1\<rparr>)"
  let ?got = "Get (Pages_array ?p) # map (\<lambda>q. Get (Pinned q)) ?ps"
  note i1 = lx_inv_kzalloc [OF inv] and fresh = lx_inv_fresh [OF inv, of ?p, simplified]
  note run' = run [unfolded gb_pin_user_buf_def Let_def, folded np_of_def]
  consider (refuse) "gb_bytes (virtual_vram_gb P) < pool_allocated s + ucast ?np * LX_PAGE_SIZE
      \<or> \<not> kzalloc_ok env"
    | (array) "\<not> gb_bytes (virtual_vram_gb P) < pool_allocated s + ucast ?np * LX_PAGE_SIZE"
      "kzalloc_ok env" "\<not> parr_ok env"
    | (pin) "\<not> gb_bytes (virtual_vram_gb P) < pool_allocated s + ucast ?np * LX_PAGE_SIZE"
      "kzalloc_ok env" "parr_ok env" "pin_ret env < 0 \<or> word_of_int (pin_ret env) \<noteq> ?np"
    | (ok) "\<not> gb_bytes (virtual_vram_gb P) < pool_allocated s + ucast ?np * LX_PAGE_SIZE"
      "kzalloc_ok env" "parr_ok env" "0 \<le> pin_ret env" "word_of_int (pin_ret env) = ?np"
    by linarith
  then show ?thesis
  proof cases
    case refuse
    with inv run' show ?thesis by (auto simp: refuses_def split: if_splits)
  next
    case array
    have "lx_inv (logged [Put (Descriptor ?p)] ?s1)" by (rule lx_inv_logged [OF i1]) simp
    with array run' show ?thesis by (auto simp: refuses_def)
  next
    case pin
    have "lx_inv (logged (map (\<lambda>q. Put (Pinned q)) ?ps @ [Put (Pages_array ?p), Put (Descriptor ?p)])
        (logged ?got ?s1))"
      by (rule lx_inv_logged [OF lx_inv_extra [OF i1, where cs = ?got]])
        (simp only: gets.simps puts.simps gets_append puts_append gets_map_Get puts_map_Get
          gets_map_Put puts_map_Put, simp)+
    with pin run' show ?thesis by (auto simp: refuses_def)
  next
    case ok
    let ?b = "zero_buf\<lparr>pages := Some ?ps, user_pinned := True, npages := ?np,
      bsize := ucast ?np * LX_PAGE_SIZE, alloc_flags := flags, alloc_jiffies := jiffies env,
      last_jiffies := jiffies env, frozen := (flags AND LX_ALLOC_FROZEN \<noteq> 0)\<rparr>"
    have "unat ?np = nat (pin_ret env)"
      using ok(4) ret by (simp add: ok(5) [symmetric] unsigned_of_int take_bit_int_eq_self)
    then have "grants s sz ?b (add_buf (logged ?got ?s1) ?p ?b)"
      using fresh sz by (intro grants_small [OF i1, where ps = ?ps and
        base = "zero_buf\<lparr>user_pinned := True, alloc_flags := flags, alloc_jiffies := jiffies env,
          last_jiffies := jiffies env, frozen := (flags AND LX_ALLOC_FROZEN \<noteq> 0)\<rparr>"])
        (simp_all add: zero_buf_def del: map_map)
    then show ?thesis using ok run' by (intro disjI2 exI [of _ ?b]) (auto simp: zero_buf_def)
  qed
qed

end
