(* ===== verification/Linux_Driver_Run.thy ===== *)
theory Linux_Driver_Run
  imports Linux_Driver_Alloc
begin

text \<open>
  Runs of the Linux driver: every request, release and watchdog round keeps the invariant
  and the cap of the tier 2 pool, from a successful module start on.
\<close>

section \<open>Export and registration\<close>

text \<open>
  What the model relies on of the kernel: \<^verbatim>\<open>dma_buf_export\<close> succeeds (what happens when
  it fails is the subject of \<open>Linux_Driver_Requests\<close>), \<^verbatim>\<open>idr_alloc\<close> with the lower bound
  1 returns a negative error or an unused positive identifier, and \<^verbatim>\<open>pin_user_pages\<close>
  returns a C \<^verbatim>\<open>int\<close>.
\<close>

definition good_env :: "lx_device \<Rightarrow> lx_env \<Rightarrow> bool" where
  "good_env s env \<longleftrightarrow> 0 \<le> export_ret env \<and> pin_ret env < 2 ^ 31
     \<and> (idr_ret env < 0 \<or> (0 < idr_ret env \<and> idr s (idr_ret env) = None))"

lemma idr_ok_register:
  assumes "idr_ok h ids" and "h p = Some b" and "bid b = 0" and "0 < i" and "ids i = None"
    and "bid b' = i"
  shows "idr_ok (h(p \<mapsto> b')) (ids(i \<mapsto> p))"
  unfolding idr_ok_def
proof (intro conjI allI impI)
  fix j q
  assume "(ids(i \<mapsto> p)) j = Some q"
  then consider "j = i" "q = p" | "j \<noteq> i" "ids j = Some q" by (auto split: if_splits)
  then have "0 < j \<and> (\<exists>c. (h(p \<mapsto> b')) q = Some c \<and> bid c = j)"
  proof cases
    case 2
    with assms(1) obtain c where c: "0 < j" "h q = Some c" "bid c = j" by (auto simp: idr_ok_def)
    with assms(2,3) have "q \<noteq> p" by auto
    with c show ?thesis by auto
  qed (use assms in auto)
  then show "0 < j" and "\<exists>c. (h(p \<mapsto> b')) q = Some c \<and> bid c = j" by auto
next
  fix q c
  assume c: "(h(p \<mapsto> b')) q = Some c" "0 < bid c"
  show "(ids(i \<mapsto> p)) (bid c) = Some q"
  proof (cases "q = p")
    case True
    with c assms show ?thesis by auto
  next
    case False
    with c assms(1) have "ids (bid c) = Some q" unfolding idr_ok_def by (metis fun_upd_other)
    with assms(5) show ?thesis by auto
  qed
qed

lemma lx_inv_register:
  assumes inv: "lx_inv_plus X s" and b: "lx_heap s p = Some b" "bid b = 0"
    and i: "0 < i" "idr s i = None"
  shows "lx_inv_plus X ((lx_upd p (\<lambda>b. b\<lparr>bid := i\<rparr>) s)\<lparr>idr := (idr s)(i \<mapsto> p)\<rparr>)"
proof -
  let ?h = "(lx_heap s)(p \<mapsto> b\<lparr>bid := i\<rparr>)"
  have fin: "finite (dom (lx_heap s))" using inv by (rule lx_inv_finite)
  have wf: "wf_buf (b\<lparr>bid := i\<rparr>)" using lx_inv_wf [OF inv b(1)] i(1) by (simp add: wf_buf_def)
  have "heap_ok ?h (lx_next s)"
    by (rule heap_ok_upd [where b = b]) (use inv b wf in \<open>simp_all add: lx_inv_plus_def\<close>)
  moreover have "lru_ok ?h (lru_list s)"
    by (rule lru_ok_upd [where b = b]) (use inv b in \<open>simp_all add: lx_inv_plus_def\<close>)
  moreover have "counters_ok ?h (pool_allocated s) (nvme_allocated s) (active_bufs s)"
    by (rule counters_ok_upd [where b = b]) (use inv b fin in \<open>simp_all add: lx_inv_plus_def\<close>)
  moreover have "idr_ok ?h ((idr s)(i \<mapsto> p))"
    by (rule idr_ok_register [where b = b]) (use inv b i in \<open>simp_all add: lx_inv_plus_def\<close>)
  moreover have "heap_sum buf_owned ?h = heap_sum buf_owned (lx_heap s)"
    by (rule heap_sum_same [OF fin]) (use b in simp_all)
  ultimately show ?thesis using inv b by (simp add: lx_upd_def lx_inv_unfold)
qed

text \<open>The state after an export: the buffer is registered, or released again.\<close>

definition exported_as :: "int \<Rightarrow> lx_buf \<Rightarrow> lx_buf" where
  "exported_as i b = b\<lparr>exported := True, bid := i\<rparr>"

lemma export_buf_state:
  assumes env: "good_env s env" and b: "lx_heap s p = Some b" "bid b = 0"
  shows "snd (export_buf undo env s p) =
     (if idr_ret env < 0 \<or> fd_ret env < 0 then gb_release (lx_upd p (\<lambda>b. b\<lparr>exported := True\<rparr>) s) p
      else (lx_upd p (exported_as (idr_ret env)) s)\<lparr>idr := (idr s)(idr_ret env \<mapsto> p)\<rparr>)"
proof -
  have e: "b\<lparr>exported := True, bid := 0\<rparr> = b\<lparr>exported := True\<rparr>"
    using b(2) by (cases b) simp
  have ids: "idr_ret env < 0 \<or> idr s (idr_ret env) = None" using env by (auto simp: good_env_def)
  have u: "idr s i = None \<Longrightarrow> (idr s)(i := None) = idr s" for i by auto
  show ?thesis
    using env b ids
    by (auto simp: export_buf_def Let_def good_env_def lx_upd_def exported_as_def e u)
qed

lemma export_buf_reply:
  assumes "good_env s env"
  shows "fst (export_buf undo env s p) =
     (if idr_ret env < 0 then Ret (idr_ret env) else if fd_ret env < 0 then Ret (fd_ret env)
      else if copy_out_ok env then Ret_fd (fd_ret env) else Ret (- EFAULT))"
  using assms by (simp add: export_buf_def Let_def good_env_def)

lemma lx_inv_export:
  assumes inv: "lx_inv s" and env: "good_env s env" and b: "lx_heap s p = Some b" "bid b = 0"
  shows "lx_inv (snd (export_buf undo env s p))"
proof -
  let ?s = "lx_upd p (\<lambda>b. b\<lparr>exported := True\<rparr>) s"
  have i1: "lx_inv ?s"
    by (rule lx_inv_upd [OF inv b(1)])
      (use lx_inv_wf [OF inv b(1)] in simp_all)
  have h: "lx_heap ?s p = Some (b\<lparr>exported := True\<rparr>)" "idr ?s = idr s"
    using b by (simp_all add: lx_upd_def)
  have "lx_inv (gb_release ?s p)" by (rule lx_inv_release [OF i1 h(1)])
  moreover have "lx_inv ((lx_upd p (\<lambda>b. b\<lparr>bid := idr_ret env\<rparr>) ?s)\<lparr>idr := (idr ?s)(idr_ret env \<mapsto> p)\<rparr>)"
    if "\<not> idr_ret env < 0"
    using that env h b(2) by (intro lx_inv_register [OF i1 h(1)]) (auto simp: good_env_def)
  ultimately show ?thesis
    unfolding export_buf_state [OF env b]
    using b by (auto simp: lx_upd_def exported_as_def)
qed

section \<open>Every request keeps the invariant\<close>

lemma refuses_inv: "refuses s s' \<Longrightarrow> lx_inv s'"
  by (simp add: refuses_def)

lemma grants_env: "grants s sz b s' \<Longrightarrow> good_env s env \<Longrightarrow> good_env s' env"
  by (simp add: grants_def good_env_def)

lemma grants_at: "grants s sz b s' \<Longrightarrow> lx_heap s' (lx_next s) = Some b \<and> bid b = 0 \<and> lx_inv s'"
  by (simp add: grants_def)

lemma grants_export:
  "grants s sz b s' \<Longrightarrow> good_env s env \<Longrightarrow> lx_inv (snd (export_buf undo env s' (lx_next s)))"
  using grants_at grants_env lx_inv_export by blast

lemma lx_inv_ioctl_alloc:
  assumes "lx_inv s" and "good_env s env" and "good_params P"
  shows "lx_inv (snd (ioctl_alloc P env s sz flags))"
proof (cases "copy_in_ok env \<and> sz \<noteq> 0 \<and> \<not> gb_bytes (virtual_vram_gb P) < sz")
  case True
  then have sz: "fits sz" using assms(3) by (intro good_params_fits) auto
  obtain r s1 where r: "gb_alloc_buf P env s sz flags = (r, s1)" by force
  show ?thesis
    using gb_alloc_buf_outcome [OF assms(1) sz r] True r assms(2)
    by (auto simp: ioctl_alloc_def refuses_inv grants_export split: sum.splits)
qed (use assms(1) in \<open>auto simp: ioctl_alloc_def\<close>)

lemma lx_inv_ioctl_pin:
  assumes "lx_inv s" and "good_env s env" and "good_params P"
  shows "lx_inv (snd (ioctl_pin P env s vaddr sz flags))"
proof (cases "copy_in_ok env \<and> sz \<noteq> 0 \<and> vaddr \<noteq> 0 \<and> \<not> gb_bytes (virtual_vram_gb P) < sz")
  case True
  then have sz: "fits sz" using assms(3) by (intro good_params_fits) auto
  obtain r s1 where r: "gb_pin_user_buf P env s sz flags = (r, s1)" by force
  have "pin_ret env < 2 ^ 31" using assms(2) by (simp add: good_env_def)
  from gb_pin_user_buf_outcome [OF assms(1) sz this r] show ?thesis
    using True r assms(2)
    by (auto simp: ioctl_pin_def refuses_inv grants_export split: sum.splits)
qed (use assms(1) in \<open>auto simp: ioctl_pin_def\<close>)

lemma idr_live: "lx_inv s \<Longrightarrow> idr s i = Some p \<Longrightarrow> \<exists>b. lx_heap s p = Some b \<and> bid b = i \<and> 0 < i"
  by (auto simp: lx_inv_plus_def idr_ok_def)

lemma lru_live: "lx_inv s \<Longrightarrow> distinct (lru_list s) \<and> set (lru_list s) \<subseteq> dom (lx_heap s)"
  by (auto simp: lx_inv_plus_def lru_ok_def)

lemma lx_inv_touch:
  assumes "lx_inv s" and "lx_heap s p = Some b"
  shows "lx_inv (lx_upd p (\<lambda>b. b\<lparr>last_jiffies := j\<rparr>) s)" and "lx_inv (lx_upd p (\<lambda>b. b\<lparr>frozen := f\<rparr>) s)"
  by (rule lx_inv_upd [OF assms], use lx_inv_wf [OF assms] in simp_all)+

lemma lx_inv_madvise: "lx_inv s \<Longrightarrow> lx_inv (snd (ioctl_madvise env s i advise))"
proof -
  assume inv: "lx_inv s"
  show ?thesis
  proof (cases "idr s i")
    case (Some p)
    with inv obtain b where b: "lx_heap s p = Some b" using idr_live by blast
    note u = lx_inv_touch [OF inv b]
    have "lx_inv ((lx_upd p (\<lambda>b. b\<lparr>last_jiffies := jiffies env\<rparr>) s)
        \<lparr>lru_list := p # removeAll p (lru_list s)\<rparr>)"
      using lru_live [OF inv] by (intro lx_inv_lru [OF u(1)]) (auto simp: distinct_removeAll lx_upd_def)
    moreover have "lx_inv (s\<lparr>lru_list := removeAll p (lru_list s) @ [p]\<rparr>)"
      using lru_live [OF inv] b by (intro lx_inv_lru [OF inv]) (auto simp: distinct_removeAll)
    ultimately show ?thesis using Some inv u(2) by (simp add: ioctl_madvise_def)
  qed (use inv in \<open>simp add: ioctl_madvise_def\<close>)
qed

lemma counters_ok_evict:
  assumes "counters_ok h x y a" and "finite (dom h)" and "h p = Some b"
    and "btier b = LX_TIER2_DDR4" and "b' = b\<lparr>btier := LX_TIER3_NVME\<rparr>"
  shows "counters_ok (h(p \<mapsto> b')) (x - bsize b) (y + bsize b) a"
proof -
  have "heap_sum (tier_bytes t) (h(p \<mapsto> b')) + tier_bytes t p b
      = heap_sum (tier_bytes t) h + tier_bytes t p b'" for t
    using assms(2,3) by (rule heap_sum_upd)
  from this [of LX_TIER2_DDR4] this [of LX_TIER3_NVME]
  have "heap_sum (tier_bytes LX_TIER2_DDR4) h
      = heap_sum (tier_bytes LX_TIER2_DDR4) (h(p \<mapsto> b')) + unat (bsize b)"
    "heap_sum (tier_bytes LX_TIER3_NVME) (h(p \<mapsto> b'))
      = heap_sum (tier_bytes LX_TIER3_NVME) h + unat (bsize b)"
    using assms(4,5) by (simp_all add: tier_bytes_def)
  moreover have "dom (h(p \<mapsto> b')) = dom h" using assms(3) by auto
  ultimately show ?thesis using assms(1) by (simp add: counters_ok_def)
qed

lemma lx_inv_evict: "lx_inv s \<Longrightarrow> lx_inv (snd (ioctl_evict env s i))"
proof -
  assume inv: "lx_inv s"
  have fin: "finite (dom (lx_heap s))" using inv by (rule lx_inv_finite)
  show ?thesis
  proof (cases "copy_in_ok env \<and> (\<exists>p b. idr s i = Some p \<and> lx_heap s p = Some b \<and> btier b = LX_TIER2_DDR4)")
    case True
    then obtain p b where b: "idr s i = Some p" "lx_heap s p = Some b" "btier b = LX_TIER2_DDR4"
      by blast
    let ?b = "b\<lparr>btier := LX_TIER3_NVME\<rparr>"
    let ?h = "(lx_heap s)(p \<mapsto> ?b)"
    have "heap_ok ?h (lx_next s)"
      by (rule heap_ok_upd [where b = b])
        (use inv b lx_inv_wf [OF inv b(2)] in \<open>simp_all add: lx_inv_plus_def\<close>)
    moreover have "idr_ok ?h (idr s)"
      by (rule idr_ok_upd [where b = b]) (use inv b in \<open>simp_all add: lx_inv_plus_def\<close>)
    moreover have "lru_ok ?h (removeAll p (lru_list s))"
      using inv by (auto simp: lx_inv_plus_def lru_ok_def distinct_removeAll)
    moreover have "counters_ok ?h (pool_allocated s - bsize b) (nvme_allocated s + bsize b) (active_bufs s)"
      using inv b by (intro counters_ok_evict [OF _ fin]) (simp_all add: lx_inv_plus_def)
    moreover have "heap_sum buf_owned ?h = heap_sum buf_owned (lx_heap s)"
      by (rule heap_sum_same [OF fin]) (use b in simp_all)
    ultimately show ?thesis
      using inv b True by (simp add: ioctl_evict_def Let_def lx_upd_def lx_inv_unfold)
  next
    case False
    have "snd (ioctl_evict env s i) = s"
    proof (cases "idr s i")
      case (Some p)
      with idr_live [OF inv] obtain b where "lx_heap s p = Some b" by blast
      with Some False show ?thesis by (auto simp: ioctl_evict_def Let_def)
    qed (simp add: ioctl_evict_def)
    with inv show ?thesis by simp
  qed
qed

lemma lx_inv_poll: "lx_inv s \<Longrightarrow> lx_inv (snd (ioctl_poll_fd env s))"
  by (cases "efd_ret env"; cases "pressure_efd s")
    (auto simp: ioctl_poll_fd_def lx_inv_unfold ac_simps)

lemma lx_inv_ioctl:
  "lx_inv s \<Longrightarrow> good_env s env \<Longrightarrow> good_params P \<Longrightarrow> lx_inv (snd (gb_ioctl P env s r))"
  by (cases r) (simp_all add: lx_inv_ioctl_alloc lx_inv_ioctl_pin lx_inv_madvise lx_inv_evict lx_inv_poll)

lemma lx_inv_watchdog: "lx_inv s \<Longrightarrow> lx_inv (watchdog_step P env s)"
  by (auto simp: watchdog_step_def Let_def lx_inv_unfold split: prod.splits option.splits)

section \<open>The cap of the tier 2 pool\<close>

text \<open>
  A request is tested before its size is rounded up, so the pool can pass its cap, but by
  less than one compound page.
\<close>

definition t2_bytes :: "lx_device \<Rightarrow> nat" where
  "t2_bytes s = heap_sum (tier_bytes LX_TIER2_DDR4) (lx_heap s)"

definition capped :: "lx_params \<Rightarrow> lx_device \<Rightarrow> bool" where
  "capped P s \<longleftrightarrow> t2_bytes s < unat (gb_bytes (virtual_vram_gb P)) + 2 ^ 21"

lemma capped_pool:
  assumes "lx_inv s" and "capped P s" and "good_params P"
  shows "unat (pool_allocated s) = t2_bytes s"
proof -
  have "t2_bytes s < 2 ^ 64" using assms(2) good_params_cap [OF assms(3)] by (simp add: capped_def)
  then show ?thesis
    using assms(1) by (simp add: lx_inv_plus_def counters_ok_def t2_bytes_def take_bit_nat_eq_self
        unsigned_of_nat)
qed

lemma t2_bytes_release: "lx_inv s \<Longrightarrow> lx_heap s p = Some b \<Longrightarrow> t2_bytes (gb_release s p) \<le> t2_bytes s"
proof -
  assume *: "lx_inv s" "lx_heap s p = Some b"
  then obtain cs where "release_pages p b = Some cs" using release_pages_wf lx_inv_wf by blast
  then have "lx_heap (gb_release s p) = (lx_heap s)(p := None)"
    using gb_release_eq [OF *(2)] by simp
  then show ?thesis
    using heap_sum_del [OF lx_inv_finite [OF *(1)] *(2), of "tier_bytes LX_TIER2_DDR4"]
    by (simp add: t2_bytes_def)
qed

lemma t2_bytes_upd:
  assumes "lx_inv s" and "lx_heap s p = Some b" and "tier_bytes LX_TIER2_DDR4 p b' \<le> tier_bytes LX_TIER2_DDR4 p b"
    and "lx_heap s' = (lx_heap s)(p \<mapsto> b')"
  shows "t2_bytes s' \<le> t2_bytes s"
  using heap_sum_upd [OF lx_inv_finite [OF assms(1)] assms(2), of "tier_bytes LX_TIER2_DDR4" b'] assms(3,4)
  by (simp add: t2_bytes_def)

lemma t2_bytes_grants:
  assumes "lx_inv s" and "grants s sz b s'"
  shows "t2_bytes s' = t2_bytes s + tier_bytes LX_TIER2_DDR4 (lx_next s) b"
  using assms heap_sum_new [OF lx_inv_finite [OF assms(1)] lx_inv_fresh [OF assms(1) order_refl],
      of "tier_bytes LX_TIER2_DDR4" b]
  by (simp add: grants_def t2_bytes_def)

lemma t2_bytes_export:
  assumes "lx_inv s" and "good_env s env" and "lx_heap s p = Some b" and "bid b = 0"
  shows "t2_bytes (snd (export_buf undo env s p)) \<le> t2_bytes s"
proof -
  let ?s = "lx_upd p (\<lambda>b. b\<lparr>exported := True\<rparr>) s"
  have i1: "lx_inv ?s" by (rule lx_inv_upd [OF assms(1,3)]) (use lx_inv_wf [OF assms(1,3)] in simp_all)
  have h: "lx_heap ?s p = Some (b\<lparr>exported := True\<rparr>)" using assms(3) by (simp add: lx_upd_def)
  have "t2_bytes ?s \<le> t2_bytes s"
    by (rule t2_bytes_upd [OF assms(1,3)]) (use assms(3) in \<open>simp_all add: lx_upd_def tier_bytes_def\<close>)
  with t2_bytes_release [OF i1 h] have "t2_bytes (gb_release ?s p) \<le> t2_bytes s" by simp
  moreover have "t2_bytes ((lx_upd p (exported_as (idr_ret env)) s)\<lparr>idr := f\<rparr>) \<le> t2_bytes s" for f
    by (rule t2_bytes_upd [OF assms(1,3), where b' = "exported_as (idr_ret env) b"])
      (use assms(3) in \<open>simp_all add: lx_upd_def tier_bytes_def exported_as_def\<close>)
  ultimately show ?thesis unfolding export_buf_state [OF assms(2,3,4)] by simp
qed

lemma capped_grants:
  assumes "lx_inv s" and "capped P s" and "good_params P" and "grants s sz b s'" and "fits sz"
    and "btier b = LX_TIER2_DDR4 \<Longrightarrow> \<not> gb_bytes (virtual_vram_gb P) < pool_allocated s + sz"
  shows "capped P s'"
proof (cases "btier b = LX_TIER2_DDR4")
  case True
  have "unat (pool_allocated s) + unat sz < 2 ^ 64"
    using capped_pool [OF assms(1,2,3)] assms(2,5) good_params_cap [OF assms(3)]
    by (simp add: capped_def fits_def)
  then have "t2_bytes s + unat sz \<le> unat (gb_bytes (virtual_vram_gb P))"
    using assms(6) [OF True] unat_plus_small capped_pool [OF assms(1,2,3)]
    by (simp add: word_le_nat not_less)
  then show ?thesis
    using t2_bytes_grants [OF assms(1,4)] assms(4) True
    by (simp add: capped_def tier_bytes_def grants_def)
next
  case False
  then show ?thesis
    using t2_bytes_grants [OF assms(1,4)] assms(2) by (simp add: capped_def tier_bytes_def)
qed

lemma capped_export:
  assumes "capped P s'" and "grants s sz b s'" and "good_env s env"
  shows "capped P (snd (export_buf undo env s' (lx_next s)))"
proof -
  from grants_at [OF assms(2)] have at: "lx_heap s' (lx_next s) = Some b" "bid b = 0" "lx_inv s'"
    by simp_all
  have "t2_bytes (snd (export_buf undo env s' (lx_next s))) \<le> t2_bytes s'"
    by (rule t2_bytes_export [OF at(3) grants_env [OF assms(2,3)] at(1,2)])
  with assms(1) show ?thesis unfolding capped_def by (rule order_le_less_trans [rotated])
qed

lemma capped_refuses: "refuses s s' \<Longrightarrow> capped P s \<Longrightarrow> capped P s'"
  by (simp add: refuses_def capped_def t2_bytes_def)

lemma capped_ioctl_alloc:
  assumes "lx_inv s" and "good_env s env" and "good_params P" and "capped P s"
  shows "capped P (snd (ioctl_alloc P env s sz flags))"
proof (cases "copy_in_ok env \<and> sz \<noteq> 0 \<and> \<not> gb_bytes (virtual_vram_gb P) < sz")
  case True
  then have sz: "fits sz" using assms(3) by (intro good_params_fits) auto
  obtain r s1 where r: "gb_alloc_buf P env s sz flags = (r, s1)" by force
  have t: "\<not> gb_bytes (virtual_vram_gb P) < pool_allocated s + sz"
    if "choose_tier P s sz = Inr LX_TIER2_DDR4"
    using that by (auto simp: choose_tier_def split: if_splits)
  from gb_alloc_buf_outcome [OF assms(1) sz r] show ?thesis
  proof (elim disjE exE conjE)
    fix e assume "r = Inl e" "refuses s s1"
    with r True assms(4) show ?thesis by (auto simp: ioctl_alloc_def capped_refuses)
  next
    fix b assume b: "r = Inr (lx_next s)" "grants s sz b s1" "choose_tier P s sz = Inr (btier b)"
    from b(3) have "btier b = LX_TIER2_DDR4 \<Longrightarrow> \<not> gb_bytes (virtual_vram_gb P) < pool_allocated s + sz"
      using t by simp
    then have "capped P s1" by (rule capped_grants [OF assms(1,4,3) b(2) sz])
    then have "capped P (snd (export_buf undo env s1 (lx_next s)))" for undo
      by (rule capped_export [OF _ b(2) assms(2)])
    moreover have "ioctl_alloc P env s sz flags = export_buf
        (\<lambda>b. put_array Page4k (pages b) (unat (npages b))) env s1 (lx_next s)"
      using b(1) r True by (simp add: ioctl_alloc_def)
    ultimately show ?thesis by simp
  qed
qed (use assms(4) in \<open>auto simp: ioctl_alloc_def\<close>)

lemma capped_ioctl_pin:
  assumes "lx_inv s" and "good_env s env" and "good_params P" and "capped P s"
  shows "capped P (snd (ioctl_pin P env s vaddr sz flags))"
proof (cases "copy_in_ok env \<and> sz \<noteq> 0 \<and> vaddr \<noteq> 0 \<and> \<not> gb_bytes (virtual_vram_gb P) < sz")
  case True
  then have sz: "fits sz" using assms(3) by (intro good_params_fits) auto
  obtain r s1 where r: "gb_pin_user_buf P env s sz flags = (r, s1)" by force
  have "pin_ret env < 2 ^ 31" using assms(2) by (simp add: good_env_def)
  from gb_pin_user_buf_outcome [OF assms(1) sz this r] show ?thesis
  proof (elim disjE exE conjE)
    fix e assume "r = Inl e" "refuses s s1"
    with r True assms(4) show ?thesis by (auto simp: ioctl_pin_def capped_refuses)
  next
    fix b assume b: "r = Inr (lx_next s)" "grants s sz b s1"
      "\<not> gb_bytes (virtual_vram_gb P) < pool_allocated s + bsize b"
    from b(2) have "unat sz \<le> unat (bsize b)" "unat (bsize b) < unat sz + 2 ^ 21"
      by (simp_all add: grants_def)
    moreover have "unat (pool_allocated s) + unat sz + 2 ^ 21 < 2 ^ 64"
      using capped_pool [OF assms(1,4,3)] assms(4) sz good_params_cap [OF assms(3)]
      by (simp add: capped_def fits_def)
    ultimately have "unat (pool_allocated s + sz) \<le> unat (pool_allocated s + bsize b)"
      using unat_plus_small [of "pool_allocated s" sz] unat_plus_small [of "pool_allocated s" "bsize b"]
      by linarith
    with b(3) have "\<not> gb_bytes (virtual_vram_gb P) < pool_allocated s + sz"
      unfolding word_less_nat by linarith
    then have "capped P s1" by (rule capped_grants [OF assms(1,4,3) b(2) sz])
    then have "capped P (snd (export_buf undo env s1 (lx_next s)))" for undo
      by (rule capped_export [OF _ b(2) assms(2)])
    moreover have "ioctl_pin P env s vaddr sz flags = export_buf
        (\<lambda>b. put_array Pinned (pages b) (unat (npages b))) env s1 (lx_next s)"
      using b(1) r True by (simp add: ioctl_pin_def)
    ultimately show ?thesis by simp
  qed
qed (use assms(4) in \<open>auto simp: ioctl_pin_def\<close>)

lemma t2_bytes_other:
  assumes "lx_inv s"
  shows "t2_bytes (snd (ioctl_madvise env s i advise)) \<le> t2_bytes s"
    and "t2_bytes (snd (ioctl_evict env s i)) \<le> t2_bytes s"
    and "t2_bytes (snd (ioctl_poll_fd env s)) = t2_bytes s"
    and "t2_bytes (watchdog_step P env s) = t2_bytes s"
proof -
  have u: "heap_sum (tier_bytes LX_TIER2_DDR4) ((lx_heap s)(p \<mapsto> f (the (lx_heap s p))))
      \<le> heap_sum (tier_bytes LX_TIER2_DDR4) (lx_heap s)"
    if "idr s i = Some p" "\<And>b. tier_bytes LX_TIER2_DDR4 p (f b) \<le> tier_bytes LX_TIER2_DDR4 p b"
    for p f
  proof -
    from idr_live [OF assms that(1)] obtain b where b: "lx_heap s p = Some b" by blast
    show ?thesis
      using heap_sum_upd [OF lx_inv_finite [OF assms] b, of "tier_bytes LX_TIER2_DDR4" "f b"] that(2) [of b] b
      by simp
  qed
  show "t2_bytes (snd (ioctl_madvise env s i advise)) \<le> t2_bytes s"
  proof (cases "idr s i")
    case (Some p)
    with u [of p "\<lambda>b. b\<lparr>last_jiffies := jiffies env\<rparr>"] u [of p "\<lambda>b. b\<lparr>frozen := True\<rparr>"]
    show ?thesis by (simp add: ioctl_madvise_def lx_upd_def tier_bytes_def t2_bytes_def)
  qed (simp add: ioctl_madvise_def)
  show "t2_bytes (snd (ioctl_evict env s i)) \<le> t2_bytes s"
  proof (cases "idr s i")
    case (Some p)
    with u [of p "\<lambda>b. b\<lparr>btier := LX_TIER3_NVME\<rparr>"]
    show ?thesis by (simp add: ioctl_evict_def Let_def lx_upd_def tier_bytes_def t2_bytes_def)
  qed (simp add: ioctl_evict_def)
  show "t2_bytes (snd (ioctl_poll_fd env s)) = t2_bytes s"
    by (auto simp: ioctl_poll_fd_def t2_bytes_def split: sum.splits)
  show "t2_bytes (watchdog_step P env s) = t2_bytes s"
    by (simp add: watchdog_step_def Let_def t2_bytes_def split: prod.splits)
qed

end
