(* ===== verification/Linux_Driver_Props.thy ===== *)
theory Linux_Driver_Props
  imports Linux_Driver_Run
begin

text \<open>
  Properties of the Linux driver over runs: from a successful module start, over any
  requests, releases and watchdog rounds, to the exit of the module.
\<close>

section \<open>Runs\<close>

text \<open>No request, release or watchdog round touches the thread handle.\<close>

lemma watchdog_frame [simp]:
  "watchdog (gb_release s p) = watchdog s"
  "watchdog (add_buf s p b) = watchdog s"
  "watchdog (lx_upd p f s) = watchdog s"
  "watchdog (watchdog_step P env s) = watchdog s"
  by (simp_all add: gb_release_def add_buf_def lx_upd_def watchdog_step_def Let_def
      split: option.splits lx_tier.splits prod.splits)

lemma watchdog_export [simp]: "watchdog (snd (export_buf undo env s p)) = watchdog s"
  by (simp add: export_buf_def Let_def split: option.splits)

lemma watchdog_alloc: "gb_alloc_buf P env s sz flags = (r, s') \<Longrightarrow> watchdog s' = watchdog s"
  by (auto simp: gb_alloc_buf_def fill_buf_def Let_def
      split: if_splits sum.splits prod.splits option.splits)

lemma watchdog_pin: "gb_pin_user_buf P env s sz flags = (r, s') \<Longrightarrow> watchdog s' = watchdog s"
  by (auto simp: gb_pin_user_buf_def Let_def split: if_splits)

lemma watchdog_ioctl: "watchdog (snd (gb_ioctl P env s r)) = watchdog s"
  by (cases r) (auto simp: ioctl_alloc_def ioctl_pin_def ioctl_madvise_def ioctl_evict_def
      ioctl_poll_fd_def Let_def watchdog_alloc watchdog_pin
      split: prod.splits sum.splits option.splits)

text \<open>
  One step: a request, the release of a live buffer (the last reference to its DMA-BUF is
  dropped), or a round of the watchdog.
\<close>

inductive lx_step :: "lx_params \<Rightarrow> lx_device \<Rightarrow> lx_device \<Rightarrow> bool" for P where
  request: "good_env s env \<Longrightarrow> lx_step P s (snd (gb_ioctl P env s r))"
| release: "p \<in> dom (lx_heap s) \<Longrightarrow> lx_step P s (gb_release s p)"
| watch: "lx_step P s (watchdog_step P env s)"

definition blank_device :: lx_device where
  "blank_device = \<lparr>idr = Map.empty, lx_heap = Map.empty, lx_next = 0, active_bufs = 0,
     pool_allocated = 0, nvme_allocated = 0, oom_active = False, swap_pressure = 0,
     watchdog = False, watchdog_cpus = None, lru_list = [], pressure_efd = None, ledger = []\<rparr>"

definition lx_good :: "lx_params \<Rightarrow> lx_device \<Rightarrow> bool" where
  "lx_good P s \<longleftrightarrow> good_params P \<and> lx_inv s \<and> capped P s \<and> watchdog s"

lemma lx_good_step: "lx_good P s \<Longrightarrow> lx_step P s s' \<Longrightarrow> lx_good P s'"
proof -
  assume g: "lx_good P s" and st: "lx_step P s s'"
  from g have inv: "lx_inv s" and P: "good_params P" and cap: "capped P s"
    and w: "watchdog s" by (simp_all add: lx_good_def)
  from st show "lx_good P s'"
  proof cases
    case (request env r)
    have le: "capped P x" if "t2_bytes x \<le> t2_bytes s" for x
      using that cap unfolding capped_def by (rule order_le_less_trans)
    have "capped P (snd (gb_ioctl P env s r))"
      using capped_ioctl_alloc [OF inv request(2) P cap] capped_ioctl_pin [OF inv request(2) P cap]
        le [OF t2_bytes_other(1) [OF inv]] le [OF t2_bytes_other(2) [OF inv]] t2_bytes_other(3) [OF inv] cap
      by (cases r) (simp_all add: capped_def)
    with lx_inv_ioctl [OF inv request(2) P] P w request(1) watchdog_ioctl show ?thesis by (simp add: lx_good_def)
  next
    case (release p)
    then obtain b where b: "lx_heap s p = Some b" by auto
    have "capped P (gb_release s p)"
      using t2_bytes_release [OF inv b] cap unfolding capped_def by (rule order_le_less_trans)
    with lx_inv_release [OF inv b] P w release(1) show ?thesis by (simp add: lx_good_def)
  next
    case (watch env)
    then show ?thesis
      using lx_inv_watchdog [OF inv] t2_bytes_other(4) [OF inv] P cap w
      by (simp add: lx_good_def capped_def)
  qed
qed

lemma lx_good_balance: "lx_good P s \<Longrightarrow> gets (ledger s) = puts (ledger s) + lx_owned s"
  by (simp add: lx_good_def lx_inv_plus_def)

interpretation lxl: stepping_ledger "lx_good P" "\<lambda>s. gets (ledger s)" "\<lambda>s. puts (ledger s)" lx_owned
  "lx_step P" for P
  by unfold_locales (erule lx_good_balance, erule lx_good_step)

text \<open>A successful start gives a good state.\<close>

lemma gb_init_ok:
  assumes "gb_init P ie s0 = (0, s)"
  shows "chrdev_ret ie = 0" "cdev_ret ie = 0" "0 \<le> class_ret ie" "0 \<le> device_ret ie"
    "0 \<le> kthread_ret ie"
    and "s = (let t = (reset_device s0)\<lparr>watchdog := True, ledger := ledger s0 @
        [Get Chrdev, Get Cdev, Get Class_dev, Get Device_node, Get Watchdog_thread]\<rparr>
      in if pcores_only P \<and> cpumask_ok ie
         then logged [Get Cpumask, Put Cpumask] (t\<lparr>watchdog_cpus := Some (watchdog_mask P ie)\<rparr>)
         else t)"
  using assms by (auto simp: gb_init_def Let_def reset_device_def split: if_splits)

lemma lx_good_init:
  assumes "good_params P" and "gb_init P ie blank_device = (0, s)"
  shows "lx_good P s"
proof -
  have e: "heap_ok Map.empty 0" "counters_ok Map.empty 0 0 0" "idr_ok Map.empty Map.empty"
    "lru_ok Map.empty []"
    by (simp_all add: heap_ok_def counters_ok_def idr_ok_def lru_ok_def)
  have "lx_inv s \<and> lx_heap s = Map.empty \<and> watchdog s"
    unfolding gb_init_ok(6) [OF assms(2)]
    using e by (simp add: lx_inv_unfold blank_device_def reset_device_def Let_def)
  then show ?thesis
    using assms(1) by (simp add: lx_good_def capped_def t2_bytes_def)
qed

lemma lx_good_reach:
  "good_params P \<Longrightarrow> gb_init P ie blank_device = (0, s0) \<Longrightarrow> (lx_step P)\<^sup>*\<^sup>* s0 s \<Longrightarrow> lx_good P s"
  by (rule lxl.run_good [OF lx_good_init])

text \<open>A concrete run for the witnesses: start, allocate 4 MiB, pin one page, evict.\<close>

definition wit_init :: init_env where
  "wit_init = \<lparr>chrdev_ret = 0, cdev_ret = 0, class_ret = 0, device_ret = 0, kthread_ret = 0,
     cpumask_ok = True, nr_cpu_ids = 24, cpu_online = (\<lambda>_. True)\<rparr>"

definition wit_env :: lx_env where
  "wit_env = \<lparr>copy_in_ok = True, copy_out_ok = True, freeram = 2 ^ 23, totalram = 2 ^ 24,
     mem_unit = 4096, nr_swap_pages = 2 ^ 20, jiffies = 7, kzalloc_ok = True, parr_ok = True,
     hparr_ok = True, page_of = (\<lambda>i. Some (100 + i)), hpage_of = (\<lambda>i. Some (512 * (i + 1))),
     pin_ret = 1, pin_page = (\<lambda>i. 9000 + i), export_ret = 0, idr_ret = 1, fd_ret = 5,
     efd_ret = Inr 3\<rparr>"

definition wit_boot :: lx_device where
  "wit_boot = snd (gb_init default_params wit_init blank_device)"

lemma wit_boot_ok: "gb_init default_params wit_init blank_device = (0, wit_boot)"
  by (simp add: wit_boot_def gb_init_def Let_def wit_init_def)

lemma default_good: "good_params default_params"
  by (simp add: good_params_def default_params_def)

definition wit_run :: lx_device where
  "wit_run = snd (gb_ioctl default_params wit_env wit_boot (IOCTL_ALLOC 4194304 0))"

lemma wit_boot_fields:
  "lx_heap wit_boot = Map.empty" "idr wit_boot = Map.empty" "lx_next wit_boot = 0"
  "pool_allocated wit_boot = 0" "nvme_allocated wit_boot = 0" "active_bufs wit_boot = 0"
  "lru_list wit_boot = []" "pressure_efd wit_boot = None" "watchdog wit_boot = True"
  unfolding gb_init_ok(6) [OF wit_boot_ok]
  by (simp_all add: reset_device_def blank_device_def Let_def)

lemma wit_env_fields [simp]: "copy_in_ok wit_env" "copy_out_ok wit_env" "freeram wit_env = 2 ^ 23"
  "mem_unit wit_env = 4096" "kzalloc_ok wit_env" "parr_ok wit_env" "hparr_ok wit_env"
  "page_of wit_env = (\<lambda>i. Some (100 + i))" "hpage_of wit_env = (\<lambda>i. Some (512 * (i + 1)))"
  "pin_ret wit_env = 1" "pin_page wit_env = (\<lambda>i. 9000 + i)" "export_ret wit_env = 0"
  "idr_ret wit_env = 1" "fd_ret wit_env = 5" "efd_ret wit_env = Inr 3" "jiffies wit_env = 7"
  by (simp_all add: wit_env_def)

lemma default_fields [simp]: "virtual_vram_gb default_params = 51"
  "safety_reserve_gb default_params = 12" "nvme_pool_gb default_params = 58"
  "nvme_swap_gb default_params = 64" "use_hugepages default_params"
  "physical_vram_gb default_params = 12"
  by (simp_all add: default_params_def)

lemma grab_2: "grab f 2 = (case f 0 of None \<Rightarrow> ([], False) | Some a \<Rightarrow>
    (case f 1 of None \<Rightarrow> ([a], False) | Some b \<Rightarrow> ([a, b], True)))"
  by (simp add: numeral_2_eq_2 split: option.splits)

lemma try_hugepages_wit: "try_hugepages wit_env 0 2
  = ([Get (Hpages_array 0), Get (Hpage 512), Get (Hpage 1024)], Some [512, 1024])"
  by (simp add: try_hugepages_def grab_2)

definition wit_buf :: lx_buf where
  "wit_buf = zero_buf\<lparr>hpages := Some [512, 1024], hugepages := True, nhpages := 2, npages := 1024,
     bsize := 4194304, alloc_jiffies := 7, last_jiffies := 7\<rparr>"

definition wit_alloc :: lx_device where
  "wit_alloc = add_buf (logged [Get (Descriptor 0), Get (Hpages_array 0), Get (Hpage 512),
     Get (Hpage 1024)] (wit_boot\<lparr>lx_next := 1\<rparr>)) 0 wit_buf"

lemma wit_alloc_ok: "gb_alloc_buf default_params wit_env wit_boot 4194304 0 = (Inr 0, wit_alloc)"
  by (simp add: gb_alloc_buf_def choose_tier_def wit_boot_fields fill_buf_def div_round_up_def
      Let_def gb_bytes_def GB_HPAGE_SIZE_def GB_HPAGE_ORDER_def LX_PAGE_SIZE_def try_hugepages_wit
      wit_alloc_def wit_buf_def done_buf_def zero_buf_def GB_HPAGES_PER_def LX_ALLOC_FROZEN_def)

lemma wit_run_step: "(lx_step default_params)\<^sup>*\<^sup>* wit_boot wit_run"
proof -
  have "good_env wit_boot wit_env" by (simp add: good_env_def wit_boot_fields wit_env_def)
  then show ?thesis
    unfolding wit_run_def by (intro r_into_rtranclp lx_step.request)
qed



text \<open>The state after the allocation of the concrete run.\<close>

lemma wit_run_fields:
  "lx_heap wit_run = [0 \<mapsto> wit_buf\<lparr>exported := True, bid := 1\<rparr>]" "idr wit_run = [1 \<mapsto> 0]"
  "pool_allocated wit_run = 4194304" "lru_list wit_run = [0]" "lx_next wit_run = 1"
  by (simp_all add: wit_run_def ioctl_alloc_def wit_alloc_ok export_buf_def Let_def wit_alloc_def
      lx_upd_def wit_boot_fields gb_bytes_def add_buf_def wit_buf_def zero_buf_def)

section \<open>Accounting, types and leaks\<close>



text \<open>
  C20: Every buffer that lives in a reachable state is well-typed: it has exactly one page
  array, of compound pages or of 4 KiB pages, whose length is the stored count, its 4 KiB
  page count agrees with the array and its size is that of its pages.
\<close>

theorem lx_buffers_typed:
  assumes "good_params P" and "gb_init P ie blank_device = (0, s0)" and "(lx_step P)\<^sup>*\<^sup>* s0 s"
    and "lx_heap s p = Some b"
  shows "unat (bsize b) = 4096 * unat (npages b)
    \<and> (if hugepages b
       then (\<exists>hs. hpages b = Some hs \<and> length hs = unat (nhpages b)
           \<and> unat (npages b) = 512 * length hs) \<and> pages b = None \<and> \<not> user_pinned b
       else (\<exists>ps. pages b = Some ps \<and> length ps = unat (npages b)) \<and> hpages b = None)"
proof -
  have "lx_inv s" using lx_good_reach [OF assms(1-3)] by (simp add: lx_good_def)
  from lx_inv_wf [OF this assms(4)] show ?thesis
    by (auto simp: wf_buf_def wf_array_def split: if_splits option.splits)
qed

lemma lx_buffers_typed_witness:
  "unat (bsize (wit_buf\<lparr>exported := True, bid := 1\<rparr>))
    = 4096 * unat (npages (wit_buf\<lparr>exported := True, bid := 1\<rparr>))"
  using lx_buffers_typed [OF default_good wit_boot_ok wit_run_step, of 0
      "wit_buf\<lparr>exported := True, bid := 1\<rparr>"] wit_run_fields(1) by simp

lemma gb_exit_ledger:
  assumes "watchdog s"
  shows "gets (ledger (gb_exit s)) = gets (ledger s)"
    and "puts (ledger (gb_exit s)) = puts (ledger s) + module_owned s"
  using assms
  by (cases "pressure_efd s"; simp add: gb_exit_def err_device_def err_class_def err_cdev_def
      err_chrdev_def module_owned_def)+



section \<open>Start and exit of the module\<close>

text \<open>
  C19: A start of the module that fails returns the error of the call that failed and gives
  back exactly what was acquired, in reverse order; a start that succeeds has acquired the
  five registrations in order, and the exit gives them back in reverse order.
\<close>

theorem lx_init_unwinds:
  assumes "gb_init P ie s0 = (r, s)"
  shows "if r \<noteq> 0
    then (\<exists>acq. ledger s = ledger s0 @ map Get acq @ map Put (rev acq)
      \<and> acq = take (length acq) [Chrdev, Cdev, Class_dev, Device_node]
      \<and> r = [chrdev_ret ie, cdev_ret ie, class_ret ie, device_ret ie, kthread_ret ie] ! length acq)
    else (\<exists>mask. mask \<in> {[], [Get Cpumask, Put Cpumask]}
      \<and> ledger s = ledger s0
          @ map Get [Chrdev, Cdev, Class_dev, Device_node, Watchdog_thread] @ mask
      \<and> ledger (gb_exit s) = ledger s
          @ map Put (rev [Chrdev, Cdev, Class_dev, Device_node, Watchdog_thread]))"
proof -
  let ?all = "[Chrdev, Cdev, Class_dev, Device_node]"
  note d = gb_init_def Let_def reset_device_def err_chrdev_def err_cdev_def err_class_def err_device_def
  consider (chrdev) "chrdev_ret ie \<noteq> 0" | (cdev) "chrdev_ret ie = 0" "cdev_ret ie \<noteq> 0"
    | (cls) "chrdev_ret ie = 0" "cdev_ret ie = 0" "class_ret ie < 0"
    | (dev) "chrdev_ret ie = 0" "cdev_ret ie = 0" "0 \<le> class_ret ie" "device_ret ie < 0"
    | (thr) "chrdev_ret ie = 0" "cdev_ret ie = 0" "0 \<le> class_ret ie" "0 \<le> device_ret ie"
        "kthread_ret ie < 0"
    | (ok) "chrdev_ret ie = 0" "cdev_ret ie = 0" "0 \<le> class_ret ie" "0 \<le> device_ret ie"
        "0 \<le> kthread_ret ie" by linarith
  then show ?thesis
  proof cases
    case chrdev
    with assms show ?thesis by (auto simp: d intro!: exI [of _ "take 0 ?all"])
  next
    case cdev
    with assms show ?thesis by (auto simp: d intro!: exI [of _ "[Chrdev]"])
  next
    case cls
    with assms show ?thesis by (auto simp: d intro!: exI [of _ "[Chrdev, Cdev]"])
  next
    case dev
    with assms show ?thesis by (auto simp: d intro!: exI [of _ "[Chrdev, Cdev, Class_dev]"])
  next
    case thr
    with assms show ?thesis by (auto simp: d intro!: exI [of _ ?all])
  next
    case ok
    with assms have r: "r = 0" by (auto simp: d split: if_splits)
    note eq = gb_init_ok(6) [OF assms [unfolded r]]
    have w: "watchdog s" "pressure_efd s = None"
      unfolding eq by (simp_all add: reset_device_def Let_def)
    have "\<exists>mask. mask \<in> {[], [Get Cpumask, Put Cpumask]} \<and> ledger s = ledger s0
        @ map Get [Chrdev, Cdev, Class_dev, Device_node, Watchdog_thread] @ mask"
      unfolding eq by (simp add: Let_def)
    moreover have "ledger (gb_exit s) = ledger s
        @ map Put (rev [Chrdev, Cdev, Class_dev, Device_node, Watchdog_thread])"
      using w by (simp add: gb_exit_def err_device_def err_class_def err_cdev_def err_chrdev_def)
    ultimately show ?thesis using r by auto
  qed
qed

lemma lx_init_unwinds_witness:
  "\<exists>acq. ledger (snd (gb_init default_params (wit_init\<lparr>device_ret := - 12\<rparr>) blank_device))
    = ledger blank_device @ map Get acq @ map Put (rev acq) \<and> length acq = 3"
proof -
  have i: "gb_init default_params (wit_init\<lparr>device_ret := - 12\<rparr>) blank_device
    = (- 12, snd (gb_init default_params (wit_init\<lparr>device_ret := - 12\<rparr>) blank_device))"
    by (simp add: gb_init_def wit_init_def Let_def)
  have "(- 12 :: int) \<noteq> 0" by simp
  from lx_init_unwinds [OF i, unfolded if_P [OF this]]
  obtain acq where a: "ledger (snd (gb_init default_params (wit_init\<lparr>device_ret := - 12\<rparr>) blank_device))
      = ledger blank_device @ map Get acq @ map Put (rev acq)"
    and t: "acq = take (length acq) [Chrdev, Cdev, Class_dev, Device_node]"
    and e: "(- 12 :: int) = [0, 0, 0, - 12, 0] ! length acq"
    by (auto simp only: wit_init_def init_env.simps init_env.update_convs)
  have "length acq \<le> 4" using arg_cong [OF t, of length] by simp
  then have "length acq = 3" using e
    by (auto simp: le_Suc_eq numeral_eq_Suc nth_Cons split: nat.splits)
  with a show ?thesis by blast
qed

text \<open>
  The watchdog is kept off the P-cores whenever another processor is online, and always has
  a processor to run on.
\<close>

lemma watchdog_mask_cores:
  assumes "0 \<le> pcores_max_cpu P" and "c < nr_cpu_ids ie" and "cpu_online ie c"
  shows "watchdog_mask P ie \<noteq> []
    \<and> (pcores_max_cpu P < int c \<longrightarrow> (\<forall>k\<in>set (watchdog_mask P ie). pcores_max_cpu P < int k))"
proof (cases "filter (cpu_online ie) [nat (pcores_max_cpu P + 1)..<nr_cpu_ids ie] = []")
  case True
  then have "\<not> (pcores_max_cpu P < int c)"
    using assms by (auto simp: filter_empty_conv nat_le_iff)
  with True assms show ?thesis
    by (auto simp: watchdog_mask_def Let_def filter_empty_conv)
next
  case False
  with assms(1) show ?thesis by (auto simp: watchdog_mask_def Let_def nat_le_iff)
qed

end
