(* ===== verification/Linux_Driver_Views.thy ===== *)
theory Linux_Driver_Views
  imports Linux_Driver_Props
begin

text \<open>
  The views that a DMA-BUF of the Linux driver offers: the scatter table for devices, the
  mapping into a process and the flat kernel mapping show the same pages in the same order.
\<close>

section \<open>Exporters\<close>

text \<open>
  What an importer of a DMA-BUF relies on: the kernel mapping lists all pages, and a user
  mapping of \<open>n\<close> pages from an address shows the first \<open>n\<close> of them, one page apart.
\<close>

primrec placed :: "u64 \<Rightarrow> nat list \<Rightarrow> (u64 \<times> nat) list" where
  "placed addr [] = []"
| "placed addr (q # qs) = (addr, q) # placed (addr + LX_PAGE_SIZE) qs"

locale dma_exporter =
  fixes wf :: "'b \<Rightarrow> bool"
    and page_count :: "'b \<Rightarrow> nat"
    and flat :: "'b \<Rightarrow> nat list"
    and mapped :: "'b \<Rightarrow> u64 \<Rightarrow> nat \<Rightarrow> (u64 \<times> nat) list"
    and device :: "'b \<Rightarrow> nat list"
  assumes flat_length: "wf b \<Longrightarrow> length (flat b) = page_count b"
    and mapped_prefix: "wf b \<Longrightarrow> n \<le> page_count b \<Longrightarrow> unat addr + n * 4096 < 2 ^ 64 \<Longrightarrow>
      mapped b addr n = placed addr (take n (flat b))"
    and device_flat: "wf b \<Longrightarrow> device b = flat b"
begin

lemma mapped_pages:
  "wf b \<Longrightarrow> n \<le> page_count b \<Longrightarrow> unat addr + n * 4096 < 2 ^ 64 \<Longrightarrow>
    map snd (mapped b addr n) = take n (flat b)"
proof -
  have "map snd (placed a qs) = qs" for a qs by (induction qs arbitrary: a) auto
  then show "wf b \<Longrightarrow> n \<le> page_count b \<Longrightarrow> unat addr + n * 4096 < 2 ^ 64 \<Longrightarrow>
    map snd (mapped b addr n) = take n (flat b)" by (simp add: mapped_prefix)
qed

lemma mapped_device:
  "wf b \<Longrightarrow> unat addr + page_count b * 4096 < 2 ^ 64 \<Longrightarrow>
    map snd (mapped b addr (page_count b)) = device b"
  using mapped_pages [of b "page_count b"] flat_length [of b] device_flat [of b] by simp

lemma mapped_shared:
  assumes "wf b" and "n \<le> m" and "m \<le> page_count b" and "unat addr + m * 4096 < 2 ^ 64"
  shows "mapped b addr n = take n (mapped b addr m)"
proof -
  have "take n (placed a qs) = placed a (take n qs)" for a qs n
    by (induction qs arbitrary: a n) (auto simp: take_Cons' split: nat.splits)
  then show ?thesis using assms by (simp add: mapped_prefix min_absorb1)
qed

end

section \<open>The user mapping\<close>

lemma placed_append: "placed a (xs @ ys) = placed a xs @ placed (a + of_nat (length xs) * LX_PAGE_SIZE) ys"
  by (induction xs arbitrary: a) (simp_all add: algebra_simps)

lemma unat_offset: "unat addr + n * 4096 < 2 ^ 64 \<Longrightarrow> unat (addr + of_nat n * LX_PAGE_SIZE) = unat addr + n * 4096"
  by (simp add: LX_PAGE_SIZE_def unat_word_ariths unat_of_nat take_bit_nat_eq_self mod_mult_right_eq
      mult.commute)

lemma insert_pages_ok:
  assumes "\<And>a. ins a = 0" and "unat addr + n * 4096 < 2 ^ 64"
  shows "insert_pages ins (addr + of_nat n * LX_PAGE_SIZE) qs addr m
    = (None, addr + of_nat (min n (length qs)) * LX_PAGE_SIZE, m @ placed addr (take n qs))"
  using assms(2)
proof (induction qs arbitrary: addr n m)
  case Nil
  then show ?case by simp
next
  case (Cons q qs)
  show ?case
  proof (cases n)
    case 0
    then show ?thesis by simp
  next
    case (Suc k)
    have lt: "addr < addr + of_nat n * LX_PAGE_SIZE"
      using unat_offset [OF Cons.prems] Suc by (simp add: word_less_nat)
    have a: "unat (addr + LX_PAGE_SIZE) = unat addr + 4096"
      using unat_offset [of addr 1] Cons.prems Suc by simp
    have v: "addr + of_nat n * LX_PAGE_SIZE = (addr + LX_PAGE_SIZE) + of_nat k * LX_PAGE_SIZE"
      using Suc by (simp add: algebra_simps)
    have "insert_pages ins (addr + LX_PAGE_SIZE + of_nat k * LX_PAGE_SIZE) qs (addr + LX_PAGE_SIZE)
        (m @ [(addr, q)])
      = (None, addr + LX_PAGE_SIZE + of_nat (min k (length qs)) * LX_PAGE_SIZE,
          (m @ [(addr, q)]) @ placed (addr + LX_PAGE_SIZE) (take k qs))"
      using Cons.prems Suc a by (intro Cons.IH) simp
    then show ?thesis
      using lt assms(1) [of addr] Suc unfolding v by (simp add: algebra_simps)
  qed
qed

lemma length_subpages: "length (subpages h) = 512"
  by (simp add: subpages_def unat_hpages_per)

lemma insert_hpages_ok:
  assumes "\<And>a. ins a = 0" and "unat addr + n * 4096 < 2 ^ 64"
  shows "\<exists>a. insert_hpages ins (addr + of_nat n * LX_PAGE_SIZE) hs addr m
    = (None, a, m @ placed addr (take n (concat (map subpages hs))))"
  using assms(2)
proof (induction hs arbitrary: addr n m)
  case Nil
  then show ?case by simp
next
  case (Cons h hs)
  let ?vend = "addr + of_nat n * LX_PAGE_SIZE" and ?k = "min n 512"
  let ?addr = "addr + of_nat ?k * LX_PAGE_SIZE"
  show ?case
  proof (cases "addr < ?vend")
    case False
    then have "n = 0" using unat_offset [OF Cons.prems] by (auto simp: word_less_nat)
    with False show ?thesis by simp
  next
    case True
    have e: "?vend = ?addr + of_nat (n - ?k) * LX_PAGE_SIZE"
      by (simp add: of_nat_diff min_def algebra_simps)
    have "unat addr + ?k * 4096 < 2 ^ 64" using Cons.prems by simp
    then have "unat ?addr + (n - ?k) * 4096 < 2 ^ 64"
      using Cons.prems unat_offset [of addr ?k] by simp
    from Cons.IH [OF this, of "m @ placed addr (take n (subpages h))"] obtain a where
      "insert_hpages ins ?vend hs ?addr (m @ placed addr (take n (subpages h)))
        = (None, a, (m @ placed addr (take n (subpages h)))
            @ placed ?addr (take (n - ?k) (concat (map subpages hs))))"
      unfolding e by blast
    moreover have "placed ?addr (take (n - ?k) ps) = placed (addr + of_nat (min n 512) * LX_PAGE_SIZE) (take (n - 512) ps)" for ps
      by (cases "n \<le> 512") (auto simp: min_def)
    ultimately show ?thesis
      using True insert_pages_ok [where ins = ins, OF assms(1) Cons.prems, of "subpages h" m]
      by (simp add: length_subpages placed_append min.commute)
  qed
qed

section \<open>The exporter of the driver\<close>

definition flat_pages :: "lx_buf \<Rightarrow> nat list" where
  "flat_pages b = (case gb_vmap_op True True b of Inr ps \<Rightarrow> ps | Inl e \<Rightarrow> [])"

lemma length_concat_subpages: "length (concat (map subpages hs)) = 512 * length hs"
  by (induction hs) (simp_all add: length_subpages)

lemma wf_buf_flat:
  assumes "wf_buf b"
  shows "length (flat_pages b) = unat (npages b)"
    and "hugepages b \<Longrightarrow> \<exists>hs. hpages b = Some hs \<and> length hs = unat (nhpages b)
      \<and> flat_pages b = concat (map subpages hs)"
    and "\<not> hugepages b \<Longrightarrow> \<exists>ps. pages b = Some ps \<and> length ps = unat (npages b) \<and> flat_pages b = ps"
proof -
  show huge: "\<exists>hs. hpages b = Some hs \<and> length hs = unat (nhpages b)
      \<and> flat_pages b = concat (map subpages hs)" if "hugepages b"
    using assms that
    by (auto simp: wf_buf_def wf_array_def flat_pages_def gb_vmap_op_def length_concat_subpages
        split: option.splits)
  show small: "\<exists>ps. pages b = Some ps \<and> length ps = unat (npages b) \<and> flat_pages b = ps"
    if "\<not> hugepages b"
    using assms that
    by (auto simp: wf_buf_def wf_array_def flat_pages_def gb_vmap_op_def split: option.splits)
  show "length (flat_pages b) = unat (npages b)"
  proof (cases "hugepages b")
    case True
    with assms huge show ?thesis by (auto simp: wf_buf_def length_concat_subpages)
  next
    case False
    with small show ?thesis by auto
  qed
qed

lemma gb_mmap_ok:
  assumes "wf_buf b" and "\<And>a. ins a = 0" and "n \<le> unat (npages b)" and "unat addr + n * 4096 < 2 ^ 64"
  shows "gb_mmap ins b addr (addr + of_nat n * LX_PAGE_SIZE) = (0, placed addr (take n (flat_pages b)))"
proof -
  have "unat (of_nat n * LX_PAGE_SIZE :: u64) = n * 4096"
    using unat_offset [of 0 n] assms(4) by simp
  then have le: "\<not> bsize b < addr + of_nat n * LX_PAGE_SIZE - addr"
    using assms(1,3) by (simp add: word_less_nat wf_buf_def)
  show ?thesis
  proof (cases "hugepages b")
    case True
    with wf_buf_flat(2) [OF assms(1)] obtain hs where hs: "hpages b = Some hs"
      "length hs = unat (nhpages b)" "flat_pages b = concat (map subpages hs)" by blast
    obtain a where "insert_hpages ins (addr + of_nat n * LX_PAGE_SIZE) hs addr []
        = (None, a, placed addr (take n (concat (map subpages hs))))"
      using insert_hpages_ok [where ins = ins, OF assms(2,4), of hs "[]"] by auto
    with hs le True show ?thesis by (simp add: gb_mmap_def)
  next
    case False
    with wf_buf_flat(3) [OF assms(1)] obtain ps where ps: "pages b = Some ps"
      "length ps = unat (npages b)" "flat_pages b = ps" by blast
    with le False show ?thesis
      using insert_pages_ok [where ins = ins, OF assms(2,4), of ps "[]"] by (simp add: gb_mmap_def)
  qed
qed

text \<open>The pages that the entries of a scatter table cover, in order.\<close>

definition sg_pages :: "(nat \<times> u64) list \<Rightarrow> nat list" where
  "sg_pages sgl = concat (map (\<lambda>(q, len). map (\<lambda>j. q + j) [0..<unat len div 4096]) sgl)"

text \<open>
  \<^verbatim>\<open>sg_alloc_table_from_pages\<close> covers the pages it is given, in order.
\<close>

definition merge_ok :: "sg_env \<Rightarrow> bool" where
  "merge_ok env \<longleftrightarrow> sgt_ok env \<and> sg_ret env = 0 \<and> map_ret env = 0
     \<and> (\<forall>ps len. sg_pages (merge env ps len) = ps)"

definition device_pages :: "sg_env \<Rightarrow> lx_buf \<Rightarrow> nat list" where
  "device_pages env b = (case fst (gb_map_dma_buf env b) of Inr sgl \<Rightarrow> sg_pages sgl | Inl e \<Rightarrow> [])"

lemma gb_map_ok:
  assumes "wf_buf b" and "merge_ok env"
  shows "device_pages env b = flat_pages b"
proof (cases "hugepages b")
  case True
  with wf_buf_flat(2) [OF assms(1)] obtain hs where hs: "hpages b = Some hs"
    "length hs = unat (nhpages b)" "flat_pages b = concat (map subpages hs)" by blast
  have "map (\<lambda>i. (hs ! i, GB_HPAGE_SIZE)) [0..<length hs]
      = map (\<lambda>h. (h, GB_HPAGE_SIZE)) (map (\<lambda>i. hs ! i) [0..<length hs])" by simp
  also have "\<dots> = map (\<lambda>h. (h, GB_HPAGE_SIZE)) hs" by (simp only: map_nth)
  finally have "sg_pages (map (\<lambda>i. (hs ! i, GB_HPAGE_SIZE)) [0..<length hs])
      = concat (map subpages hs)"
    by (simp only:) (simp add: sg_pages_def subpages_def [abs_def] unat_hpages_per unat_hpage_size o_def)
  with True hs assms(2) show ?thesis
    by (simp add: device_pages_def gb_map_dma_buf_def merge_ok_def hs(2) [symmetric] del: map_map)
next
  case False
  with wf_buf_flat(3) [OF assms(1)] assms(2) show ?thesis
    by (auto simp: device_pages_def gb_map_dma_buf_def merge_ok_def)
qed

definition mapped_pages_of :: "lx_buf \<Rightarrow> u64 \<Rightarrow> nat \<Rightarrow> (u64 \<times> nat) list" where
  "mapped_pages_of b addr n = snd (gb_mmap (\<lambda>_. 0) b addr (addr + of_nat n * LX_PAGE_SIZE))"

interpretation lxv: dma_exporter "\<lambda>b. wf_buf b \<and> merge_ok env" "\<lambda>b. unat (npages b)" flat_pages
  mapped_pages_of "device_pages env" for env
proof unfold_locales
  fix b n and addr :: u64
  assume b: "wf_buf b \<and> merge_ok env"
  then show "length (flat_pages b) = unat (npages b)" by (simp add: wf_buf_flat)
  from b show "device_pages env b = flat_pages b" by (simp add: gb_map_ok)
  assume "n \<le> unat (npages b)" "unat addr + n * 4096 < 2 ^ 64"
  with b show "mapped_pages_of b addr n = placed addr (take n (flat_pages b))"
    by (simp add: mapped_pages_of_def gb_mmap_ok [where ins = "\<lambda>_. 0"])
qed


definition wit_sg :: sg_env where
  "wit_sg = \<lparr>sgt_ok = True, sg_ret = 0, map_ret = 0, merge = (\<lambda>ps len. map (\<lambda>q. (q, 4096)) ps)\<rparr>"

lemma wit_sg_ok: "merge_ok wit_sg"
proof -
  have "sg_pages (map (\<lambda>q. (q, 4096)) ps) = ps" for ps
    by (induction ps) (simp_all add: sg_pages_def)
  then show ?thesis by (simp add: merge_ok_def wit_sg_def)
qed

lemma wit_buf_wf: "wf_buf wit_buf"
  by (simp add: wf_buf_def wf_array_def wit_buf_def zero_buf_def)


end
