(* ===== verification/Linux_Driver_Requests.thy ===== *)
theory Linux_Driver_Requests
  imports Linux_Driver_Views
begin

text \<open>
  What single requests of the Linux driver do: the tier of an allocation, its release, an
  eviction, the two reports, and the fault when an export fails.
\<close>

section \<open>Allocation\<close>

lemma choose_tier_nat:
  assumes "lx_good P s" and "fits sz"
  shows "choose_tier P s sz = Inr LX_TIER2_DDR4
    \<longleftrightarrow> unat (pool_allocated s) + unat sz \<le> nat (virtual_vram_gb P) * 2 ^ 30"
proof -
  from assms(1) have g: "lx_inv s" "capped P s" "good_params P" by (simp_all add: lx_good_def)
  have "unat (pool_allocated s) + unat sz < 2 ^ 64"
    using capped_pool [OF g] g(2) assms(2) good_params_cap [OF g(3)]
    by (simp add: capped_def fits_def)
  then have "unat (pool_allocated s + sz) = unat (pool_allocated s) + unat sz" by (rule unat_plus_small)
  moreover have "unat (gb_bytes (virtual_vram_gb P)) = nat (virtual_vram_gb P) * 2 ^ 30"
    using g(3) by (intro unat_gb_bytes) (simp_all add: good_params_def)
  ultimately show ?thesis by (auto simp: choose_tier_def word_less_nat)
qed

text \<open>
  C21: In a good state, a successful allocation leaves the safety reserve free, covers the
  request with less than 2 MiB of rounding, goes to tier 2 exactly when the pool has room
  below its cap and to tier 3 within the tier 3 cap otherwise; tier 3 buffers and requests
  without huge pages never get compound pages. A refused one changes neither buffers nor
  identifiers and says no memory, or no space when both caps are reached.
\<close>

theorem lx_alloc_tiers:
  assumes "lx_good P s" and "fits sz" and "gb_alloc_buf P env s sz flags = (r, s')"
  shows "case r of
      Inr p \<Rightarrow> \<not> freeram env * ucast (mem_unit env) < gb_bytes (safety_reserve_gb P) + sz
        \<and> (\<exists>b. lx_heap s' = (lx_heap s)(p \<mapsto> b) \<and> lx_heap s p = None
          \<and> unat sz \<le> unat (bsize b) \<and> unat (bsize b) < unat sz + 2 ^ 21
          \<and> (if unat (pool_allocated s) + unat sz \<le> nat (virtual_vram_gb P) * 2 ^ 30
             then btier b = LX_TIER2_DDR4
             else btier b = LX_TIER3_NVME \<and> \<not> hugepages b
               \<and> \<not> gb_bytes (nvme_pool_gb P) < nvme_allocated s + sz))
    | Inl e \<Rightarrow> lx_heap s' = lx_heap s \<and> idr s' = idr s \<and> pool_allocated s' = pool_allocated s
        \<and> nvme_allocated s' = nvme_allocated s
        \<and> (e = - ENOMEM \<or> (e = - ENOSPC \<and> choose_tier P s sz = Inl e))"
proof -
  from assms(1) have inv: "lx_inv s" by (simp add: lx_good_def)
  note t2 = choose_tier_nat [OF assms(1,2)]
  from gb_alloc_buf_outcome [OF inv assms(2,3)] show ?thesis
  proof (elim disjE exE conjE)
    fix e
    assume e: "r = Inl e" "refuses s s'"
    then have c: "counters_ok (lx_heap s) (pool_allocated s') (nvme_allocated s') (active_bufs s')"
      "counters_ok (lx_heap s) (pool_allocated s) (nvme_allocated s) (active_bufs s)"
      using inv by (auto simp: refuses_def lx_inv_plus_def)
    have "e = - ENOMEM \<or> (e = - ENOSPC \<and> choose_tier P s sz = Inl e)"
      using assms(3) e(1)
      by (auto simp: gb_alloc_buf_def fill_buf_def choose_tier_def Let_def
          split: if_splits prod.splits option.splits)
    with e c show ?thesis by (simp add: refuses_def counters_ok_def)
  next
    fix b
    assume b: "r = Inr (lx_next s)" "grants s sz b s'" "choose_tier P s sz = Inr (btier b)"
      "hugepages b \<longrightarrow> btier b = LX_TIER2_DDR4"
    have free: "\<not> freeram env * ucast (mem_unit env) < gb_bytes (safety_reserve_gb P) + sz"
      using assms(3) b(1) by (auto simp: gb_alloc_buf_def Let_def split: if_splits)
    have t3: "\<not> gb_bytes (nvme_pool_gb P) < nvme_allocated s + sz" if "btier b \<noteq> LX_TIER2_DDR4"
      using b(3) that by (auto simp: choose_tier_def split: if_splits)
    have "lx_heap s (lx_next s) = None" by (rule lx_inv_fresh [OF inv order_refl])
    then show ?thesis
      using b free t3 t2 by (cases "btier b") (auto simp: grants_def)
  qed
qed

lemma wit_good: "lx_good default_params wit_boot"
  by (rule lx_good_init [OF default_good wit_boot_ok])

lemma lx_alloc_tiers_witness:
  "\<exists>b. lx_heap wit_alloc = (lx_heap wit_boot)(0 \<mapsto> b) \<and> btier b = LX_TIER2_DDR4
    \<and> 4194304 \<le> unat (bsize b)"
proof -
  have "fits 4194304" by (simp add: fits_def)
  from lx_alloc_tiers [OF wit_good this wit_alloc_ok] show ?thesis
    by (auto simp: wit_boot_fields)
qed

text \<open>The entries that an allocation adds to the ledger come after the old ones.\<close>

lemma ledger_alloc:
  "gb_alloc_buf P env s sz flags = (r, s') \<Longrightarrow> \<exists>cs. ledger s' = ledger s @ cs"
  by (auto simp: gb_alloc_buf_def fill_buf_def Let_def
      split: if_splits sum.splits prod.splits option.splits)

lemma lru_alloc:
  "gb_alloc_buf P env s sz flags = (Inr p, s') \<Longrightarrow> lru_list s' = lru_list s @ [p]"
  by (auto simp: gb_alloc_buf_def fill_buf_def Let_def
      split: if_splits sum.splits prod.splits option.splits)

lemma module_alloc:
  "gb_alloc_buf P env s sz flags = (r, s') \<Longrightarrow> module_owned s' = module_owned s"
  by (auto simp: gb_alloc_buf_def fill_buf_def Let_def module_owned_def add_buf_def
      split: if_splits sum.splits prod.splits option.splits lx_tier.splits)

text \<open>
  C24: Releasing a buffer that was just allocated restores the buffers, the identifiers, the
  LRU list and all three counters, and the calls of the two operations are balanced: every
  page, array and descriptor that the allocation took, also on an abandoned huge page
  attempt, is given back once.
\<close>

theorem lx_alloc_release:
  assumes "lx_good P s" and "fits sz" and "gb_alloc_buf P env s sz flags = (Inr p, s1)"
    and "s2 = gb_release s1 p"
  shows "lx_heap s2 = lx_heap s \<and> idr s2 = idr s \<and> lru_list s2 = lru_list s
    \<and> pool_allocated s2 = pool_allocated s \<and> nvme_allocated s2 = nvme_allocated s
    \<and> active_bufs s2 = active_bufs s
    \<and> (\<exists>cs. ledger s2 = ledger s @ cs \<and> gets cs = puts cs)"
proof -
  from assms(1) have inv: "lx_inv s" by (simp add: lx_good_def)
  from gb_alloc_buf_outcome [OF inv assms(2,3)] obtain b where
    p: "p = lx_next s" and g: "grants s sz b s1" by auto
  have fresh: "lx_heap s p = None" using p lx_inv_fresh [OF inv] by simp
  have b: "lx_heap s1 p = Some b" "bid b = 0" "lx_inv s1" "idr s1 = idr s"
    "lx_heap s1 = (lx_heap s)(p \<mapsto> b)"
    using g p by (simp_all add: grants_def)
  obtain cs where cs: "release_pages p b = Some cs" using release_pages_wf lx_inv_wf [OF b(3,1)] by blast
  note r = gb_release_eq [OF b(1) cs, folded assms(4)]
  have i2: "lx_inv s2" unfolding assms(4) by (rule lx_inv_release [OF b(3,1)])
  have h: "lx_heap s2 = lx_heap s" using r b(5) fresh by (auto simp: fun_eq_iff)
  have "p \<notin> set (lru_list s)" using lru_live [OF inv] fresh by auto
  then have l: "lru_list s2 = lru_list s"
    using r lru_alloc [OF assms(3)] by simp
  have m: "lx_owned s2 = lx_owned s"
    using r h module_alloc [OF assms(3)] by (simp add: lx_owned_def module_owned_def)
  obtain ds where ds: "ledger s2 = ledger s @ ds" using r ledger_alloc [OF assms(3)] by auto
  have "gets (ledger s2) = puts (ledger s2) + lx_owned s" "gets (ledger s) = puts (ledger s) + lx_owned s"
    using i2 inv m by (simp_all add: lx_inv_plus_def)
  then have "gets ds = puts ds" using ds by simp
  moreover have "counters_ok (lx_heap s) (pool_allocated s2) (nvme_allocated s2) (active_bufs s2)"
    "counters_ok (lx_heap s) (pool_allocated s) (nvme_allocated s) (active_bufs s)"
    using i2 inv h by (simp_all add: lx_inv_plus_def)
  ultimately show ?thesis using h l ds r b(2,4) by (simp add: counters_ok_def)
qed

lemma lx_alloc_release_witness:
  "lx_heap (gb_release wit_alloc 0) = Map.empty \<and> pool_allocated (gb_release wit_alloc 0) = 0"
proof -
  have "fits 4194304" by (simp add: fits_def)
  from lx_alloc_release [OF wit_good this wit_alloc_ok refl] show ?thesis
    by (simp add: wit_boot_fields)
qed

section \<open>Eviction\<close>



section \<open>The two reports\<close>

lemma sub_div_le:
  fixes f a b c :: nat
  assumes "0 < c"
  shows "(f - c * b - a) div c \<le> f div c - b - a div c"
    and "f div c - b - a div c \<le> (f - c * b - a) div c + 1"
proof -
  obtain q r where f: "f = c * q + r" "r < c" using assms by (metis mod_less_divisor mult_div_mod_eq)
  obtain k t where a: "a = c * k + t" "t < c" using assms by (metis mod_less_divisor mult_div_mod_eq)
  have d: "f div c = q" "a div c = k" using f a by simp_all
  show "(f - c * b - a) div c \<le> f div c - b - a div c"
  proof (cases "b + k \<le> q")
    case True
    then obtain n where "q = b + k + n" by (metis le_Suc_ex)
    then have "f - c * b - a = c * n + r - t" using f a by (simp add: algebra_simps)
    then have "f - c * b - a < c * (n + 1)" using f(2) by (simp add: algebra_simps)
    then have "(f - c * b - a) div c < n + 1"
      using assms by (simp add: div_less_iff_less_mult mult.commute)
    then show ?thesis using d \<open>q = b + k + n\<close> by simp
  next
    case False
    then have "q + 1 \<le> b + k" by simp
    then have "c * (q + 1) \<le> c * (b + k)" by (rule mult_le_mono2)
    then have "f - c * b - a = 0" using f a by (simp add: algebra_simps)
    then show ?thesis by simp
  qed
  show "f div c - b - a div c \<le> (f - c * b - a) div c + 1"
  proof (cases "b + k < q")
    case True
    then obtain n where "q = b + k + Suc n" by (metis less_iff_Suc_add add_Suc_right)
    then have "c * n \<le> f - c * b - a" using f a by (simp add: algebra_simps)
    then have "n \<le> (f - c * b - a) div c" using assms by (simp add: less_eq_div_iff_mult_less_eq mult.commute)
    then show ?thesis using d \<open>q = b + k + Suc n\<close> by simp
  next
    case False
    then show ?thesis using d by simp
  qed
qed

lemma unat_mib: "unat (drop_bit 20 (x :: u64)) = unat x div 2 ^ 20"
  using unat_mib_of [of x] by (simp add: mib_of_def)

lemma unat_gb_mbytes:
  assumes "0 \<le> x" and "x < 8192"
  shows "unat (gb_mbytes x) = nat x * 1024"
proof -
  have "unat (word_of_int x :: u64) = nat x"
    using assms by (simp add: unsigned_of_int take_bit_int_eq_self)
  moreover have "nat x * 1024 < 2 ^ 64" using assms(2) by auto
  ultimately show ?thesis by (simp add: gb_mbytes_def unat_word_ariths)
qed

lemma unat_clip:
  fixes f a b :: u64
  assumes "unat (a + b) = unat a + unat b"
  shows "unat (if a + b < f then f - a - b else 0) = unat f - unat a - unat b"
    and "unat (if a + b < f then drop_bit 20 (f - a - b) else 0) = (unat f - unat a - unat b) div 2 ^ 20"
proof -
  have "unat (f - a - b) = unat f - unat a - unat b" if "a + b < f"
  proof -
    have "f - a - b = f - (a + b)" by (simp add: diff_diff_eq)
    then show ?thesis using that assms by (simp add: unat_sub word_le_nat word_less_nat)
  qed
  then show "unat (if a + b < f then f - a - b else 0) = unat f - unat a - unat b"
    "unat (if a + b < f then drop_bit 20 (f - a - b) else 0) = (unat f - unat a - unat b) div 2 ^ 20"
    using assms by (auto simp: unat_mib word_less_nat)
qed

text \<open>
  The sysfs report and the GET INFO reply agree on the same state and the same memory
  figures: the totals, free, allocated and swap megabytes are equal, and the available
  megabytes, which the two compute in megabytes and in bytes, differ by at most one.
\<close>

theorem lx_reports_agree:
  assumes "0 \<le> safety_reserve_gb P" and "safety_reserve_gb P < 8192"
    and "unat (pool_allocated s) < 2 ^ 62" and "ioctl_get_info P env s = Ret_info i"
    and "r = pool_info_show P env s"
  shows "i_total_ram_mb i = r_ram_total_mb r \<and> i_free_ram_mb i = r_ram_free_mb r
    \<and> i_allocated_mb i = r_t2_alloc_mb r \<and> i_safety_reserve_mb i = r_reserve_mb r
    \<and> i_nvme_swap_used_mb i = r_swap_used_mb r \<and> i_nvme_t3_allocated_mb i = r_t3_alloc_mb r
    \<and> i_active_buffers i = r_active_bufs r
    \<and> unat (i_available_mb i) \<le> unat (r_t2_avail_mb r)
    \<and> unat (r_t2_avail_mb r) \<le> unat (i_available_mb i) + 1"
proof -
  let ?f = "freeram env * ucast (mem_unit env)" and ?a = "pool_allocated s"
  let ?R = "nat (safety_reserve_gb P)"
  have rb: "unat (gb_bytes (safety_reserve_gb P)) = ?R * 2 ^ 30"
    and rm: "unat (gb_mbytes (safety_reserve_gb P)) = ?R * 1024"
    using assms(1,2) by (rule unat_gb_bytes, rule unat_gb_mbytes)
  have R: "?R < 8192" using assms(1,2) by auto
  have eq: "drop_bit 20 (gb_bytes (safety_reserve_gb P)) = gb_mbytes (safety_reserve_gb P)"
    by (rule word_unat_eq_iff [THEN iffD2]) (simp add: unat_mib rb rm)
  have i: "unat (i_available_mb i) = (unat ?f - 2 ^ 20 * (?R * 1024) - unat ?a) div 2 ^ 20"
  proof -
    have "unat (gb_bytes (safety_reserve_gb P) + ?a) = ?R * 2 ^ 30 + unat ?a"
      using rb R assms(3) by (subst unat_plus_small) simp_all
    then have "unat (gb_bytes (safety_reserve_gb P) + ?a)
        = unat (gb_bytes (safety_reserve_gb P)) + unat ?a" using rb by simp
    from unat_clip(2) [OF this, of ?f] show ?thesis using assms(4) rb
      by (cases "gb_read_swap_mb P env")
        (auto simp: ioctl_get_info_def Let_def mult.commute split: if_splits)
  qed
  have p: "unat (r_t2_avail_mb r) = unat ?f div 2 ^ 20 - ?R * 1024 - unat ?a div 2 ^ 20"
  proof -
    have "unat (gb_mbytes (safety_reserve_gb P) + drop_bit 20 ?a) = ?R * 1024 + unat ?a div 2 ^ 20"
      using rm R assms(3) unat_u64_less [of ?a]
      by (subst unat_plus_small) (simp_all add: unat_mib)
    then have "unat (gb_mbytes (safety_reserve_gb P) + drop_bit 20 ?a)
        = unat (gb_mbytes (safety_reserve_gb P)) + unat (drop_bit 20 ?a)" using rm by (simp add: unat_mib)
    from unat_clip(1) [OF this, of "drop_bit 20 ?f"] show ?thesis using assms(5) rm
      by (cases "gb_read_swap_mb P env") (simp add: pool_info_show_def Let_def unat_mib)
  qed
  have "i_total_ram_mb i = r_ram_total_mb r \<and> i_free_ram_mb i = r_ram_free_mb r
    \<and> i_allocated_mb i = r_t2_alloc_mb r \<and> i_safety_reserve_mb i = r_reserve_mb r
    \<and> i_nvme_swap_used_mb i = r_swap_used_mb r \<and> i_nvme_t3_allocated_mb i = r_t3_alloc_mb r
    \<and> i_active_buffers i = r_active_bufs r"
    using assms(4,5) eq
    by (auto simp: ioctl_get_info_def pool_info_show_def Let_def split: prod.splits if_splits)
  then show ?thesis
    unfolding i p using sub_div_le [of "2 ^ 20" "unat ?f" "?R * 1024" "unat ?a"] by simp
qed

lemma lx_reports_agree_witness:
  "\<exists>i. ioctl_get_info default_params wit_env wit_run = Ret_info i
    \<and> i_free_ram_mb i = r_ram_free_mb (pool_info_show default_params wit_env wit_run)"
proof -
  obtain i where i: "ioctl_get_info default_params wit_env wit_run = Ret_info i"
    by (cases "gb_read_swap_mb default_params wit_env") (auto simp: ioctl_get_info_def Let_def)
  from lx_reports_agree [OF _ _ _ i refl] i show ?thesis
    by (simp add: wit_run_fields)
qed

section \<open>When the export fails\<close>

text \<open>
  When \<^verbatim>\<open>dma_buf_export\<close> fails, the clean-up of ALLOC is wrong in three ways. For a
  buffer of compound pages it reads through the \<^verbatim>\<open>NULL\<close> array of 4 KiB pages, so the
  request never returns and the buffer is never freed; for the others it frees the buffer
  but leaves its freed descriptor on the LRU list; and the bytes are taken from the tier 2
  counter even when they were added to the tier 3 counter.
\<close>

theorem lx_export_failure:
  assumes "lx_good P s" and "fits sz" and "gb_alloc_buf P env s sz flags = (Inr p, s1)"
    and "lx_heap s1 p = Some b" and "export_ret env < 0"
    and "copy_in_ok env" and "\<not> gb_bytes (virtual_vram_gb P) < sz"
    and "ioctl_alloc P env s sz flags = (rep, s')"
  shows "pool_allocated s' = pool_allocated s1 - bsize b \<and> nvme_allocated s' = nvme_allocated s1
    \<and> p \<in> set (lru_list s')
    \<and> (if hugepages b then rep = Oops \<and> lx_heap s' p = Some b
       else rep = Ret (export_ret env) \<and> lx_heap s' p = None)"
proof -
  from assms(1) have inv: "lx_inv s" by (simp add: lx_good_def)
  have i1: "lx_inv s1" using gb_alloc_buf_outcome [OF inv assms(2,3)] by (auto simp: grants_def)
  have wf: "wf_buf b" by (rule lx_inv_wf [OF i1 assms(4)])
  have big: "unat (bsize b) \<noteq> 0"
    using gb_alloc_buf_outcome [OF inv assms(2,3)] assms(2,4) by (auto simp: grants_def fits_def word_less_nat)
  then have np: "unat (npages b) \<noteq> 0" using wf by (simp add: wf_buf_def)
  have nz: "sz \<noteq> 0" using assms(2) by (auto simp: fits_def)
  have run: "export_buf (\<lambda>b. put_array Page4k (pages b) (unat (npages b))) env s1 p = (rep, s')"
    using assms(3,6,7,8) nz by (simp add: ioctl_alloc_def)
  have lru: "p \<in> set (lru_list s1)" using lru_alloc [OF assms(3)] by simp
  show ?thesis
  proof (cases "hugepages b")
    case True
    with wf have "pages b = None" by (simp add: wf_buf_def)
    with True run np lru assms(4,5) show ?thesis
      by (auto simp: export_buf_def Let_def put_array_def)
  next
    case False
    with wf have "wf_array (pages b) (npages b)" by (simp add: wf_buf_def)
    then obtain ps where "pages b = Some ps" by (auto simp: wf_array_def split: option.splits)
    with False run lru assms(4,5) show ?thesis
      by (auto simp: export_buf_def Let_def put_array_def)
  qed
qed

lemma lx_export_failure_witness:
  "\<exists>s'. ioctl_alloc default_params (wit_env\<lparr>export_ret := - 12\<rparr>) wit_boot 4194304 0 = (Oops, s')
    \<and> lx_heap s' 0 = Some wit_buf"
proof -
  have f: "fits 4194304" by (simp add: fits_def)
  have h: "try_hugepages (wit_env\<lparr>export_ret := - 12\<rparr>) p n = try_hugepages wit_env p n" for p n
    by (simp add: try_hugepages_def)
  have a: "gb_alloc_buf default_params (wit_env\<lparr>export_ret := - 12\<rparr>) wit_boot 4194304 0
      = (Inr 0, wit_alloc)"
    by (simp add: gb_alloc_buf_def choose_tier_def wit_boot_fields fill_buf_def div_round_up_def
        Let_def gb_bytes_def GB_HPAGE_SIZE_def GB_HPAGE_ORDER_def LX_PAGE_SIZE_def h
        try_hugepages_wit wit_alloc_def wit_buf_def done_buf_def zero_buf_def GB_HPAGES_PER_def
        LX_ALLOC_FROZEN_def)
  obtain rep s' where r:
    "ioctl_alloc default_params (wit_env\<lparr>export_ret := - 12\<rparr>) wit_boot 4194304 0 = (rep, s')" by force
  have "lx_heap wit_alloc 0 = Some wit_buf" "hugepages wit_buf"
    by (simp_all add: wit_alloc_def wit_buf_def)
  with lx_export_failure [OF wit_good f a _ _ _ _ r] show ?thesis
    using r by (simp add: gb_bytes_def)
qed

text \<open>
  The identifier that MADVISE and EVICT expect is not the file descriptor that ALLOC
  returns, and ALLOC returns nothing else.
\<close>

lemma lx_fd_is_no_id:
  "fst (gb_ioctl default_params wit_env wit_boot (IOCTL_ALLOC 4194304 0)) = Ret_fd 5
    \<and> fst (gb_ioctl default_params wit_env wit_run (IOCTL_MADVISE 5 0)) = Ret (- ENOENT)"
proof -
  have "good_env wit_alloc wit_env" by (simp add: good_env_def wit_alloc_def wit_boot_fields)
  then have "fst (ioctl_alloc default_params wit_env wit_boot 4194304 0) = Ret_fd 5"
    using export_buf_reply [of wit_alloc wit_env]
    by (simp add: ioctl_alloc_def wit_alloc_ok gb_bytes_def)
  then show ?thesis by (simp add: ioctl_madvise_def wit_run_fields)
qed

end
