(* ===== verification/Linux_Hash_Table.thy ===== *)
theory Linux_Hash_Table
  imports Win_Hash_Table
begin

text \<open>
  The allocation table of the Linux CUDA shim, \<^verbatim>\<open>greenboost_cuda_shim.c\<close>: the same
  geometry and hash as the Windows table, whose probe lemmas are used here, but a removal
  zeroes the slot instead of leaving a tombstone. The table is a function of the slot index;
  the 64 slot locks are not modelled.
\<close>

section \<open>The table\<close>

definition LX_HT_BITS :: nat where "LX_HT_BITS = 17"
definition LX_HT_SIZE :: nat where "LX_HT_SIZE = 2 ^ LX_HT_BITS"

record lx_entry =
  l_ptr :: u64            \<comment> \<open>0 = empty slot\<close>
  l_size :: u64
  l_managed :: int
  l_buf_id :: int
  l_mapped :: u64
  l_fd :: int

type_synonym lx_table = "nat \<Rightarrow> lx_entry"

text \<open>What \<^verbatim>\<open>memset(e, 0, sizeof *e)\<close> leaves.\<close>

definition zero_entry :: lx_entry where
  "zero_entry = \<lparr>l_ptr = 0, l_size = 0, l_managed = 0, l_buf_id = 0, l_mapped = 0, l_fd = 0\<rparr>"

definition lx_ht_hash :: "u64 \<Rightarrow> u32" where
  "lx_ht_hash p = ucast (drop_bit (64 - LX_HT_BITS) (p * 0x9E3779B97F4A7C15))"

definition lx_ht_insert :: "lx_table \<Rightarrow> u64 \<Rightarrow> u64 \<Rightarrow> int \<Rightarrow> int \<Rightarrow> u64 \<Rightarrow> int \<Rightarrow> bool \<times> lx_table" where
  "lx_ht_insert t p sz managed buf_id mapped fd =
     (case for_until LX_HT_SIZE
        (\<lambda>i. let idx = ht_slot (lx_ht_hash p) i in
             if l_ptr (t idx) = 0 then Some idx else None) 0 of
        Some idx \<Rightarrow> (True, t(idx := \<lparr>l_ptr = p, l_size = sz, l_managed = managed,
          l_buf_id = buf_id, l_mapped = mapped, l_fd = fd\<rparr>))
      | None \<Rightarrow> (False, t))"

text \<open>The key is compared before the slot is tested for emptiness.\<close>

definition lx_ht_remove :: "lx_table \<Rightarrow> u64 \<Rightarrow> lx_entry option \<times> lx_table" where
  "lx_ht_remove t p =
     (case for_until LX_HT_SIZE
        (\<lambda>i. let idx = ht_slot (lx_ht_hash p) i in
             if l_ptr (t idx) = p then Some (Some idx)
             else if l_ptr (t idx) = 0 then Some None else None) 0 of
        Some (Some idx) \<Rightarrow> (Some (t idx), t(idx := zero_entry))
      | _ \<Rightarrow> (None, t))"

lemma LX_HT_SIZE_eq [simp]: "LX_HT_SIZE = HT_SIZE"
  by (simp add: LX_HT_SIZE_def LX_HT_BITS_def HT_SIZE_def HT_BITS_def)

lemma lx_ht_hash_eq [simp]: "lx_ht_hash p = ht_hash p"
  by (simp add: lx_ht_hash_def LX_HT_BITS_def ht_hash_def HT_BITS_def)

section \<open>Contents and invariants\<close>

definition lx_distinct :: "lx_table \<Rightarrow> bool" where
  "lx_distinct t \<longleftrightarrow> (\<forall>i<HT_SIZE. \<forall>j<HT_SIZE.
     l_ptr (t i) \<noteq> 0 \<longrightarrow> l_ptr (t i) = l_ptr (t j) \<longrightarrow> i = j)"

text \<open>No empty slot lies between the home slot of a key and its slot.\<close>

definition lx_chained :: "lx_table \<Rightarrow> bool" where
  "lx_chained t \<longleftrightarrow> (\<forall>i<HT_SIZE. l_ptr (t i) \<noteq> 0 \<longrightarrow>
     (\<forall>k<ht_dist (l_ptr (t i)) i. l_ptr (t (ht_probe (l_ptr (t i)) k)) \<noteq> 0))"

definition lx_contents :: "lx_table \<Rightarrow> u64 \<Rightarrow> lx_entry option" where
  "lx_contents t = map_of (map (\<lambda>i. (l_ptr (t i), t i)) (filter (\<lambda>i. l_ptr (t i) \<noteq> 0) [0..<HT_SIZE]))"

text \<open>What a caller finds: the entry that a removal would hand out.\<close>

definition lx_find :: "lx_table \<Rightarrow> u64 \<Rightarrow> lx_entry option" where
  "lx_find t p = fst (lx_ht_remove t p)"

lemma lx_contents_None_iff: "lx_contents t p = None \<longleftrightarrow> (\<forall>i<HT_SIZE. l_ptr (t i) \<noteq> 0 \<longrightarrow> l_ptr (t i) \<noteq> p)"
  by (auto simp: lx_contents_def map_of_eq_None_iff image_iff)

lemma lx_contents_SomeD: "lx_contents t p = Some e \<Longrightarrow> \<exists>i<HT_SIZE. t i = e \<and> l_ptr e = p \<and> p \<noteq> 0"
  by (auto simp: lx_contents_def dest!: map_of_SomeD)

lemma lx_contents_Some_iff:
  assumes "lx_distinct t"
  shows "lx_contents t p = Some e \<longleftrightarrow> (\<exists>i<HT_SIZE. t i = e \<and> l_ptr e = p \<and> p \<noteq> 0)"
proof
  assume "\<exists>i<HT_SIZE. t i = e \<and> l_ptr e = p \<and> p \<noteq> 0"
  then obtain i where i: "i < HT_SIZE" "t i = e" "l_ptr e = p" "p \<noteq> 0" by blast
  then have "lx_contents t p \<noteq> None" by (auto simp: lx_contents_None_iff)
  then obtain e' where e': "lx_contents t p = Some e'" by blast
  from lx_contents_SomeD [OF this] obtain j where "j < HT_SIZE" "t j = e'" "l_ptr e' = p" by blast
  with i assms have "j = i" by (metis lx_distinct_def)
  with e' i \<open>t j = e'\<close> show "lx_contents t p = Some e" by simp
qed (rule lx_contents_SomeD)

lemma lx_contents_zero: "lx_contents t 0 = None"
  by (simp add: lx_contents_None_iff)

lemma lx_distinct_put:
  assumes "lx_distinct t" and "i < HT_SIZE" and "\<forall>j<HT_SIZE. j \<noteq> i \<longrightarrow> l_ptr (t j) \<noteq> l_ptr e"
  shows "lx_distinct (t(i := e))"
  unfolding lx_distinct_def
proof (intro allI impI)
  fix j k
  assume jk: "j < HT_SIZE" "k < HT_SIZE" "l_ptr ((t(i := e)) j) \<noteq> 0"
    "l_ptr ((t(i := e)) j) = l_ptr ((t(i := e)) k)"
  then show "j = k"
    using assms unfolding lx_distinct_def
    by (cases "j = i"; cases "k = i") (simp_all, metis+)
qed

lemma lx_distinct_zero: "lx_distinct t \<Longrightarrow> lx_distinct (t(i := zero_entry))"
  unfolding lx_distinct_def by (auto simp: zero_entry_def)

lemma lx_contents_put:
  assumes "lx_distinct t" and "i < HT_SIZE" and "l_ptr (t i) = 0" and "l_ptr e \<noteq> 0"
    and "lx_contents t (l_ptr e) = None"
  shows "lx_distinct (t(i := e)) \<and> lx_contents (t(i := e)) = (lx_contents t)(l_ptr e \<mapsto> e)"
proof -
  have d: "lx_distinct (t(i := e))"
    using assms by (intro lx_distinct_put) (auto simp: lx_contents_None_iff)
  have "lx_contents (t(i := e)) q = ((lx_contents t)(l_ptr e \<mapsto> e)) q" for q
  proof (rule option_eqI)
    fix x
    show "lx_contents (t(i := e)) q = Some x \<longleftrightarrow> ((lx_contents t)(l_ptr e \<mapsto> e)) q = Some x"
    proof (cases "q = l_ptr e")
      case True
      moreover have "lx_contents (t(i := e)) (l_ptr e) = Some e"
        using assms(2,4) unfolding lx_contents_Some_iff [OF d] by (intro exI [of _ i]) simp
      ultimately show ?thesis by simp
    next
      case False
      have "(\<exists>j<HT_SIZE. (t(i := e)) j = x \<and> l_ptr x = q \<and> q \<noteq> 0)
          \<longleftrightarrow> (\<exists>j<HT_SIZE. t j = x \<and> l_ptr x = q \<and> q \<noteq> 0)"
        using False assms(3) by (auto split: if_splits)
      then show ?thesis
        using False by (simp add: lx_contents_Some_iff [OF d] lx_contents_Some_iff [OF assms(1)])
    qed
  qed
  with d show ?thesis by (simp add: fun_eq_iff)
qed

lemma lx_contents_del:
  assumes "lx_distinct t" and "i < HT_SIZE" and "l_ptr (t i) \<noteq> 0"
  shows "lx_contents (t(i := zero_entry)) = (lx_contents t)(l_ptr (t i) := None)"
proof
  fix q
  note d = lx_distinct_zero [OF assms(1), of i]
  show "lx_contents (t(i := zero_entry)) q = ((lx_contents t)(l_ptr (t i) := None)) q"
  proof (rule option_eqI)
    fix x
    have "(\<exists>j<HT_SIZE. (t(i := zero_entry)) j = x \<and> l_ptr x = q \<and> q \<noteq> 0)
        \<longleftrightarrow> q \<noteq> l_ptr (t i) \<and> (\<exists>j<HT_SIZE. t j = x \<and> l_ptr x = q \<and> q \<noteq> 0)"
      (is "?l = ?r")
    proof
      assume ?l
      then obtain j where j: "j < HT_SIZE" "(t(i := zero_entry)) j = x" "l_ptr x = q" "q \<noteq> 0" by blast
      then have "j \<noteq> i" by (auto simp: zero_entry_def)
      with j assms show ?r unfolding lx_distinct_def by (metis fun_upd_other)
    next
      assume ?r
      then show ?l by auto
    qed
    then show "lx_contents (t(i := zero_entry)) q = Some x
        \<longleftrightarrow> ((lx_contents t)(l_ptr (t i) := None)) q = Some x"
      by (simp add: lx_contents_Some_iff [OF d] lx_contents_Some_iff [OF assms(1)])
  qed
qed

section \<open>Probing\<close>

definition lx_scan :: "lx_table \<Rightarrow> u64 \<Rightarrow> nat option option" where
  "lx_scan t p = for_until HT_SIZE
     (\<lambda>i. let idx = ht_slot (ht_hash p) i in
          if l_ptr (t idx) = p then Some (Some idx)
          else if l_ptr (t idx) = 0 then Some None else None) 0"

lemma lx_ht_remove_scan:
  "lx_ht_remove t p = (case lx_scan t p of
     Some (Some i) \<Rightarrow> (Some (t i), t(i := zero_entry)) | _ \<Rightarrow> (None, t))"
  by (simp add: lx_ht_remove_def lx_scan_def)

lemma lx_scan_SomeD: "lx_scan t p = Some (Some i) \<Longrightarrow> i < HT_SIZE \<and> l_ptr (t i) = p"
  unfolding lx_scan_def for_until_Some_iff
  by (auto simp: Let_def split: if_splits)

text \<open>
  For a key that is stored, the scan finds it exactly when no slot before it on its probe
  path is empty.
\<close>

lemma lx_scan_iff:
  assumes "lx_distinct t" and "i < HT_SIZE" and "l_ptr (t i) = p" and "p \<noteq> 0"
  shows "lx_scan t p = Some (Some i)
      \<longleftrightarrow> (\<forall>k<ht_dist p i. l_ptr (t (ht_probe p k)) \<noteq> 0)"
    and "lx_scan t p \<noteq> Some (Some i) \<Longrightarrow> lx_scan t p = Some None"
proof -
  let ?d = "ht_dist p i"
  have d: "?d < HT_SIZE" by (rule ht_dist_bound [OF assms(2)])
  have other: "l_ptr (t (ht_probe p k)) \<noteq> p" if "k < ?d" for k
  proof
    assume "l_ptr (t (ht_probe p k)) = p"
    then have "ht_probe p k = i"
      using assms that d unfolding lx_distinct_def
      by (metis ht_probe_bound order.strict_trans)
    then show False using that d by (metis ht_dist_probe less_irrefl order.strict_trans)
  qed
  let ?body = "\<lambda>k. let idx = ht_slot (ht_hash p) k in
      if l_ptr (t idx) = p then Some (Some idx) else if l_ptr (t idx) = 0 then Some None else None"
  have bd: "?body ?d = Some (Some i)" using assms(2,3) by simp
  show "lx_scan t p = Some (Some i) \<longleftrightarrow> (\<forall>k<?d. l_ptr (t (ht_probe p k)) \<noteq> 0)"
  proof
    assume "lx_scan t p = Some (Some i)"
    then obtain k where k: "k < HT_SIZE" "?body k = Some (Some i)" "\<forall>j<k. ?body j = None"
      unfolding lx_scan_def for_until_Some_iff by blast
    then have "ht_probe p k = i" by (auto simp: Let_def split: if_splits)
    then have "k = ?d" using k(1) by auto
    with k(3) show "\<forall>k<?d. l_ptr (t (ht_probe p k)) \<noteq> 0"
      by (auto simp: Let_def split: if_splits)
  next
    assume *: "\<forall>k<?d. l_ptr (t (ht_probe p k)) \<noteq> 0"
    show "lx_scan t p = Some (Some i)"
      unfolding lx_scan_def for_until_Some_iff
      using d bd * other by (intro exI [of _ ?d]) (simp add: Let_def)
  qed
  assume no: "lx_scan t p \<noteq> Some (Some i)"
  have "lx_scan t p \<noteq> None"
    using bd d unfolding lx_scan_def for_until_None_iff by (metis add_0 option.distinct(1))
  then obtain r where r: "lx_scan t p = Some r" by blast
  have "r = None"
  proof (rule ccontr)
    assume "r \<noteq> None"
    then obtain j where "r = Some j" by blast
    with r lx_scan_SomeD [of t p j] assms have "j = i"
      unfolding lx_distinct_def by metis
    with no r \<open>r = Some j\<close> show False by simp
  qed
  with r show "lx_scan t p = Some None" by simp
qed

lemma lx_scan_chained:
  "lx_distinct t \<Longrightarrow> lx_chained t \<Longrightarrow> i < HT_SIZE \<Longrightarrow> l_ptr (t i) = p \<Longrightarrow> p \<noteq> 0 \<Longrightarrow>
    lx_scan t p = Some (Some i)"
  by (subst lx_scan_iff(1)) (auto simp: lx_chained_def)

section \<open>The operations against the contents\<close>

lemma lx_ht_insert_eq:
  "lx_ht_insert t p sz m b mp fd =
    (case for_until HT_SIZE (\<lambda>k. if l_ptr (t (ht_probe p k)) = 0 then Some k else None) 0 of
       Some k \<Rightarrow> (True, t(ht_probe p k := \<lparr>l_ptr = p, l_size = sz, l_managed = m, l_buf_id = b,
          l_mapped = mp, l_fd = fd\<rparr>))
     | None \<Rightarrow> (False, t))"
proof -
  have "for_until n (\<lambda>i. let idx = ht_slot (ht_hash p) i in if l_ptr (t idx) = 0 then Some idx else None) j
      = map_option (ht_probe p) (for_until n (\<lambda>k. if l_ptr (t (ht_probe p k)) = 0 then Some k else None) j)"
    for n j by (induction n arbitrary: j) (auto simp: Let_def)
  then show ?thesis by (simp add: lx_ht_insert_def option.map_sel split: option.splits)
qed

lemma lx_ht_insert_True:
  assumes "lx_ht_insert t p sz m b mp fd = (True, t')"
  shows "\<exists>k<HT_SIZE. l_ptr (t (ht_probe p k)) = 0 \<and> (\<forall>j<k. l_ptr (t (ht_probe p j)) \<noteq> 0)
    \<and> t' = t(ht_probe p k := \<lparr>l_ptr = p, l_size = sz, l_managed = m, l_buf_id = b, l_mapped = mp,
        l_fd = fd\<rparr>)"
proof -
  obtain k where k: "for_until HT_SIZE (\<lambda>k. if l_ptr (t (ht_probe p k)) = 0 then Some k else None) 0
      = Some k"
    using assms by (auto simp: lx_ht_insert_eq split: option.splits)
  then obtain j where "j < HT_SIZE" "l_ptr (t (ht_probe p j)) = 0" "j = k"
    "\<forall>i<j. l_ptr (t (ht_probe p i)) \<noteq> 0"
    unfolding for_until_Some_iff by (auto split: if_splits)
  with k assms show ?thesis by (auto simp: lx_ht_insert_eq)
qed

lemma lx_ht_insert_False: "lx_ht_insert t p sz m b mp fd = (False, t') \<Longrightarrow> t' = t"
  by (auto simp: lx_ht_insert_def split: option.splits)

abbreviation put_entry :: "lx_table \<Rightarrow> lx_entry \<Rightarrow> bool \<times> lx_table" where
  "put_entry t e \<equiv> lx_ht_insert t (l_ptr e) (l_size e) (l_managed e) (l_buf_id e) (l_mapped e) (l_fd e)"

lemma lx_entry_eta: "\<lparr>l_ptr = l_ptr e, l_size = l_size e, l_managed = l_managed e,
    l_buf_id = l_buf_id e, l_mapped = l_mapped e, l_fd = l_fd e\<rparr> = e"
  by (cases e) simp

lemma put_entry_done:
  assumes "lx_distinct t" and "l_ptr e \<noteq> 0" and "lx_contents t (l_ptr e) = None"
    and "put_entry t e = (True, t')"
  shows "lx_distinct t' \<and> lx_contents t' = (lx_contents t)(l_ptr e \<mapsto> e)"
proof -
  obtain k where "k < HT_SIZE" "l_ptr (t (ht_probe (l_ptr e) k)) = 0" "t' = t(ht_probe (l_ptr e) k := e)"
    using lx_ht_insert_True [OF assms(4), unfolded lx_entry_eta] by blast
  with lx_contents_put [OF assms(1), of "ht_probe (l_ptr e) k" e] assms(2,3) show ?thesis by simp
qed

lemma lx_ht_remove_hit:
  assumes "lx_distinct t" and "p \<noteq> 0" and "lx_ht_remove t p = (Some e, t')"
  shows "lx_distinct t' \<and> lx_contents t p = Some e \<and> l_ptr e = p
    \<and> lx_contents t' = (lx_contents t)(p := None)"
proof -
  obtain i where i: "lx_scan t p = Some (Some i)" "e = t i" "t' = t(i := zero_entry)"
    using assms(3) by (auto simp: lx_ht_remove_scan split: option.splits)
  from lx_scan_SomeD [OF i(1)] have "i < HT_SIZE" "l_ptr (t i) = p" by simp_all
  with i assms(1,2) lx_distinct_zero [OF assms(1)] lx_contents_del [OF assms(1), of i]
  show ?thesis by (auto simp: lx_contents_Some_iff [OF assms(1)])
qed

lemma lx_ht_remove_miss: "lx_ht_remove t p = (None, t') \<Longrightarrow> t' = t"
  by (auto simp: lx_ht_remove_scan split: option.splits)

text \<open>
  The Linux table provides the registry interface of the hooks: what it stores. That every
  stored entry can be found is not part of it, and does not hold of this table.
\<close>

interpretation lxr: alloc_registry lx_distinct lx_contents "\<lambda>p. p \<noteq> 0" l_ptr put_entry lx_ht_remove
proof
  fix t
  have "dom (lx_contents t) \<subseteq> (\<lambda>i. l_ptr (t i)) ` {..<HT_SIZE}"
    by (auto dest!: lx_contents_SomeD)
  then show "finite (dom (lx_contents t))" by (rule finite_subset) simp
qed (erule put_entry_done lx_ht_insert_False lx_ht_remove_hit lx_ht_remove_miss; assumption)+

text \<open>Without broken chains the search finds what the table stores.\<close>

lemma lx_find_contents:
  assumes "lx_distinct t" and "lx_chained t" and "q \<noteq> 0"
  shows "lx_find t q = lx_contents t q"
proof (cases "lx_contents t q")
  case None
  then have "lx_scan t q \<noteq> Some (Some i)" for i
    using lx_scan_SomeD [of t q i] assms(3) by (auto simp: lx_contents_None_iff)
  with None show ?thesis by (auto simp: lx_find_def lx_ht_remove_scan split: option.splits)
next
  case (Some e)
  then obtain i where "i < HT_SIZE" "t i = e" "l_ptr e = q" by (auto dest: lx_contents_SomeD)
  with lx_scan_chained [OF assms(1,2), of i q] assms(3) Some show ?thesis
    by (simp add: lx_find_def lx_ht_remove_scan)
qed

text \<open>An insertion leaves no broken chain, and is refused only by a full table.\<close>

lemma lx_insert_chained:
  assumes "lx_chained t" and "p \<noteq> 0" and "lx_ht_insert t p sz m b mp fd = (True, t')"
  shows "lx_chained t'"
proof -
  let ?e = "\<lparr>l_ptr = p, l_size = sz, l_managed = m, l_buf_id = b, l_mapped = mp, l_fd = fd\<rparr>"
  from lx_ht_insert_True [OF assms(3)] obtain k where k: "k < HT_SIZE" "l_ptr (t (ht_probe p k)) = 0"
    "t' = t(ht_probe p k := ?e)" and before: "\<forall>j<k. l_ptr (t (ht_probe p j)) \<noteq> 0" by blast
  show ?thesis
    unfolding lx_chained_def
  proof (intro allI impI)
    fix i j
    assume i: "i < HT_SIZE" "l_ptr (t' i) \<noteq> 0" "j < ht_dist (l_ptr (t' i)) i"
    show "l_ptr (t' (ht_probe (l_ptr (t' i)) j)) \<noteq> 0"
    proof (cases "i = ht_probe p k")
      case True
      with i k assms(2) before show ?thesis by simp
    next
      case False
      with i k(3) assms(1) have "l_ptr (t (ht_probe (l_ptr (t i)) j)) \<noteq> 0"
        by (simp add: lx_chained_def)
      with False k(3) assms(2) show ?thesis by simp
    qed
  qed
qed

lemma lx_insert_full:
  assumes "lx_ht_insert t p sz m b mp fd = (False, t')" and "i < HT_SIZE"
  shows "l_ptr (t i) \<noteq> 0"
proof -
  have "for_until HT_SIZE (\<lambda>k. if l_ptr (t (ht_probe p k)) = 0 then Some k else None) 0 = None"
    using assms(1) by (auto simp: lx_ht_insert_eq split: option.splits)
  then have "l_ptr (t (ht_probe p (ht_dist p i))) \<noteq> 0"
    unfolding for_until_None_iff using ht_dist_bound [OF assms(2), of p] by (auto split: if_splits)
  with assms(2) show ?thesis by simp
qed

text \<open>
  C28: On a table of the Linux shim without broken probe chains, an insertion of a new
  non-null pointer refines the update of a finite map and leaves no broken chain, fails only
  when all 131072 slots are taken, and the search finds exactly what the table stores.
\<close>

theorem lx_ht_insert_refines:
  assumes "lx_distinct t" and "lx_chained t" and "p \<noteq> 0" and "lx_contents t p = None"
    and "lx_ht_insert t p sz m b mp fd = (ok, t')"
  shows "lx_distinct t' \<and> lx_chained t' \<and> (\<forall>q. q \<noteq> 0 \<longrightarrow> lx_find t' q = lx_contents t' q)
    \<and> (if ok then lx_contents t' = (lx_contents t)(p \<mapsto> \<lparr>l_ptr = p, l_size = sz, l_managed = m,
          l_buf_id = b, l_mapped = mp, l_fd = fd\<rparr>)
       else t' = t \<and> (\<forall>i<HT_SIZE. l_ptr (t i) \<noteq> 0))"
proof (cases ok)
  case True
  with assms(5) have ins: "lx_ht_insert t p sz m b mp fd = (True, t')" by simp
  let ?e = "\<lparr>l_ptr = p, l_size = sz, l_managed = m, l_buf_id = b, l_mapped = mp, l_fd = fd\<rparr>"
  from put_entry_done [of t ?e t'] assms(1,3,4) ins
  have "lx_distinct t'" "lx_contents t' = (lx_contents t)(p \<mapsto> ?e)" by simp_all
  with lx_insert_chained [OF assms(2,3) ins] True show ?thesis by (simp add: lx_find_contents)
next
  case False
  with assms(5) have ins: "lx_ht_insert t p sz m b mp fd = (False, t')" by simp
  from lx_ht_insert_False [OF this] lx_insert_full [OF ins] assms(1,2) False
  show ?thesis by (simp add: lx_find_contents)
qed

definition lx_ht_zero :: lx_table where "lx_ht_zero = (\<lambda>_. zero_entry)"

lemma lx_ht_zero_wf: "lx_distinct lx_ht_zero" "lx_chained lx_ht_zero" "lx_contents lx_ht_zero p = None"
  by (simp_all add: lx_distinct_def lx_chained_def lx_ht_zero_def zero_entry_def lx_contents_None_iff)

lemma lx_ht_insert_refines_witness:
  "lx_find (snd (lx_ht_insert lx_ht_zero 4096 64 0 (- 1) 0 (- 1))) 4096
    = Some \<lparr>l_ptr = 4096, l_size = 64, l_managed = 0, l_buf_id = - 1, l_mapped = 0, l_fd = - 1\<rparr>"
proof -
  obtain ok t' where i: "lx_ht_insert lx_ht_zero 4096 64 0 (- 1) 0 (- 1) = (ok, t')" by force
  have "l_ptr (lx_ht_zero 0) = 0" by (simp add: lx_ht_zero_def zero_entry_def)
  with lx_ht_insert_refines [OF lx_ht_zero_wf(1,2) _ lx_ht_zero_wf(3) i] i show ?thesis
    by (cases ok) auto
qed

text \<open>
  C29: A removal from the Linux table deletes exactly the key it is asked for from what the
  table stores. Another stored allocation can still be found afterwards exactly when the
  emptied slot does not come before its own slot on its probe path: since no tombstone is
  left, an allocation that was displaced past that slot is lost to every later search.
\<close>

theorem lx_ht_remove_reachability:
  assumes "lx_distinct t" and "lx_chained t" and "i < HT_SIZE" and "l_ptr (t i) = p" and "p \<noteq> 0"
    and "j < HT_SIZE" and "l_ptr (t j) = q" and "q \<noteq> 0" and "q \<noteq> p"
  shows "fst (lx_ht_remove t p) = Some (t i)
    \<and> lx_contents (snd (lx_ht_remove t p)) = (lx_contents t)(p := None)
    \<and> lx_find (snd (lx_ht_remove t p)) q = (if ht_dist q i < ht_dist q j then None else Some (t j))"
proof -
  have r: "lx_ht_remove t p = (Some (t i), t(i := zero_entry))"
    using lx_scan_chained [OF assms(1-5)] by (simp add: lx_ht_remove_scan)
  let ?t = "t(i := zero_entry)"
  have ne: "j \<noteq> i" using assms(4,7,9) by auto
  have d: "lx_distinct ?t" by (rule lx_distinct_zero [OF assms(1)])
  have tj: "?t j = t j" "l_ptr (?t j) = q" using ne assms(7) by simp_all
  note iff = lx_scan_iff [where t = ?t and i = j and p = q, OF d assms(6) tj(2) assms(8)]
  have "lx_scan ?t q = Some (Some j) \<longleftrightarrow> \<not> ht_dist q i < ht_dist q j"
  proof
    assume s: "lx_scan ?t q = Some (Some j)"
    show "\<not> ht_dist q i < ht_dist q j"
    proof
      assume "ht_dist q i < ht_dist q j"
      with s have "l_ptr (?t (ht_probe q (ht_dist q i))) \<noteq> 0" using iff(1) by blast
      then show False using assms(3) by (simp add: zero_entry_def)
    qed
  next
    assume n: "\<not> ht_dist q i < ht_dist q j"
    have "l_ptr (?t (ht_probe q k)) \<noteq> 0" if k: "k < ht_dist q j" for k
    proof -
      have kb: "k < HT_SIZE" using k ht_dist_bound [OF assms(6), of q] by simp
      then have "ht_probe q k \<noteq> i" using n k by auto
      moreover have "l_ptr (t (ht_probe q k)) \<noteq> 0"
        using assms(2,6,7,8) k unfolding lx_chained_def by metis
      ultimately show ?thesis by simp
    qed
    with iff(1) show "lx_scan ?t q = Some (Some j)" by blast
  qed
  moreover have "lx_find ?t q = (if lx_scan ?t q = Some (Some j) then Some (t j) else None)"
  proof (cases "lx_scan ?t q = Some (Some j)")
    case True
    then show ?thesis unfolding lx_find_def lx_ht_remove_scan using tj(1) by simp
  next
    case False
    from iff(2) [OF this] False show ?thesis unfolding lx_find_def lx_ht_remove_scan by simp
  qed
  ultimately show ?thesis
    using r lx_contents_del [OF assms(1,3)] assms(4,5) by simp
qed

text \<open>Two managed allocations of the same home slot; the first is freed.\<close>

definition uvm_entry :: "u64 \<Rightarrow> lx_entry" where
  "uvm_entry p = \<lparr>l_ptr = p, l_size = 0x20000000, l_managed = 1, l_buf_id = - 1, l_mapped = 0,
     l_fd = - 1\<rparr>"

definition two_table :: lx_table where
  "two_table = snd (put_entry (snd (put_entry lx_ht_zero (uvm_entry wrapX))) (uvm_entry wrapB))"

lemma two_table_eq: "two_table = lx_ht_zero(131070 := uvm_entry wrapX, 131071 := uvm_entry wrapB)"
proof -
  have X: "put_entry lx_ht_zero (uvm_entry wrapX) = (True, lx_ht_zero(131070 := uvm_entry wrapX))"
    by (simp add: lx_ht_insert_def wrap_simps lx_ht_zero_def zero_entry_def uvm_entry_def)
  have B: "put_entry (lx_ht_zero(131070 := uvm_entry wrapX)) (uvm_entry wrapB)
      = (True, lx_ht_zero(131070 := uvm_entry wrapX, 131071 := uvm_entry wrapB))"
    by (simp add: lx_ht_insert_def wrap_simps lx_ht_zero_def zero_entry_def uvm_entry_def)
  show ?thesis unfolding two_table_def X snd_conv B ..
qed

lemma two_table_wf: "lx_distinct two_table" "lx_chained two_table"
proof -
  have k: "l_ptr (two_table i) \<noteq> 0 \<Longrightarrow> i = 131070 \<and> l_ptr (two_table i) = wrapX
      \<or> i = 131071 \<and> l_ptr (two_table i) = wrapB" for i
    by (auto simp: two_table_eq lx_ht_zero_def zero_entry_def uvm_entry_def split: if_splits)
  show "lx_distinct two_table"
    unfolding lx_distinct_def
  proof (intro allI impI)
    fix i j
    assume "l_ptr (two_table i) \<noteq> 0" "l_ptr (two_table i) = l_ptr (two_table j)"
    with k [of i] k [of j] wrap_neq(7) show "i = j" by auto
  qed
  show "lx_chained two_table"
    unfolding lx_chained_def
  proof (intro allI impI)
    fix i n
    assume *: "l_ptr (two_table i) \<noteq> 0" "n < ht_dist (l_ptr (two_table i)) i"
    from k [OF *(1)] show "l_ptr (two_table (ht_probe (l_ptr (two_table i)) n)) \<noteq> 0"
    proof (elim disjE conjE)
      assume "i = 131070" "l_ptr (two_table i) = wrapX"
      with *(2) show ?thesis by (simp add: ht_dist_def wrap_homes)
    next
      assume "i = 131071" "l_ptr (two_table i) = wrapB"
      moreover from this *(2) have "n = 0" by (simp add: ht_dist_def wrap_homes)
      ultimately show ?thesis
        by (simp add: wrap_homes two_table_eq uvm_entry_def wrap_neq)
    qed
  qed
qed

lemma lx_ht_remove_reachability_witness:
  "lx_contents (snd (lx_ht_remove two_table wrapX)) wrapB = Some (uvm_entry wrapB)
    \<and> lx_find (snd (lx_ht_remove two_table wrapX)) wrapB = None"
proof -
  have i: "(131070::nat) < HT_SIZE" "(131071::nat) < HT_SIZE" by (simp_all add: HT_SIZE_val)
  have t: "two_table 131070 = uvm_entry wrapX" "two_table 131071 = uvm_entry wrapB"
    by (simp_all add: two_table_eq)
  have p: "l_ptr (two_table 131070) = wrapX" "l_ptr (two_table 131071) = wrapB"
    by (simp_all add: t uvm_entry_def)
  have c: "lx_contents two_table wrapB = Some (uvm_entry wrapB)"
    unfolding lx_contents_Some_iff [OF two_table_wf(1)]
    using i(2) t(2) wrap_neq(3) by (intro exI [of _ 131071]) (simp add: uvm_entry_def)
  show ?thesis
    using lx_ht_remove_reachability [OF two_table_wf i(1) p(1) wrap_neq(1) i(2) p(2) wrap_neq(3,10)] c
      wrap_neq(10)
    by (simp add: ht_dist_def wrap_homes)
qed

section \<open>Looking without removing\<close>

text \<open>
  The prefetch hooks look an allocation up by removing and re-inserting it. The entry goes
  back into its own slot, so that only its buffer identifier, which the hooks do not pass
  on, is lost.
\<close>

lemma lx_peek_same_slot:
  assumes "lx_ht_remove t p = (Some e, t1)" and "p \<noteq> 0"
  shows "\<exists>i<HT_SIZE. t i = e \<and> l_ptr e = p
    \<and> lx_ht_insert t1 p (l_size e) (l_managed e) (- 1) (l_mapped e) (l_fd e)
        = (True, t(i := e\<lparr>l_buf_id := - 1\<rparr>))"
proof -
  obtain i where i: "lx_scan t p = Some (Some i)" "e = t i" "t1 = t(i := zero_entry)"
    using assms(1) by (auto simp: lx_ht_remove_scan split: option.splits)
  from lx_scan_SomeD [OF i(1)] have ib: "i < HT_SIZE" "l_ptr (t i) = p" by simp_all
  from i(1) obtain k where k: "k < HT_SIZE" "ht_probe p k = i"
    "\<forall>j<k. l_ptr (t (ht_probe p j)) \<noteq> 0 \<and> l_ptr (t (ht_probe p j)) \<noteq> p"
    unfolding lx_scan_def for_until_Some_iff by (auto simp: Let_def split: if_splits)
  have "for_until HT_SIZE (\<lambda>k. if l_ptr (t1 (ht_probe p k)) = 0 then Some k else None) 0 = Some k"
    unfolding for_until_Some_iff
  proof (intro exI [of _ k] conjI allI impI)
    show "(if l_ptr (t1 (ht_probe p k)) = 0 then Some k else None) = Some k"
      using k(2) i(3) by (simp add: zero_entry_def)
    show "(if l_ptr (t1 (ht_probe p j)) = 0 then Some j else None) = None" if "j < k" for j
      using k(3) ib(2) i(3) that by (metis fun_upd_other)
  qed (rule k(1))
  then have "lx_ht_insert t1 p (l_size e) (l_managed e) (- 1) (l_mapped e) (l_fd e)
      = (True, t1(i := \<lparr>l_ptr = p, l_size = l_size e, l_managed = l_managed e, l_buf_id = - 1,
          l_mapped = l_mapped e, l_fd = l_fd e\<rparr>))"
    using k(2) by (simp add: lx_ht_insert_eq)
  moreover have "\<lparr>l_ptr = p, l_size = l_size e, l_managed = l_managed e, l_buf_id = - 1,
      l_mapped = l_mapped e, l_fd = l_fd e\<rparr> = e\<lparr>l_buf_id := - 1\<rparr>"
    using ib(2) i(2) by (cases e) auto
  ultimately have "lx_ht_insert t1 p (l_size e) (l_managed e) (- 1) (l_mapped e) (l_fd e)
      = (True, t1(i := e\<lparr>l_buf_id := - 1\<rparr>))" by (simp only:)
  then show ?thesis using ib i(2,3) by (intro exI [of _ i]) (simp del: fun_upd_apply)
qed

end
