(* ===== verification/Linux_Shim.thy ===== *)
theory Linux_Shim
  imports Linux_Hash_Table Win_Shim_Config
begin

text \<open>
  The Linux CUDA shim, \<^verbatim>\<open>greenboost_cuda_shim.c\<close>: a preloaded library that overrides the
  allocation, free, prefetch and memory report functions of CUDA and NVML and the symbol
  lookup itself. The CUDA libraries and the operating system are a record of functions over
  an opaque state \<open>'c\<close>; an entry that the shim may fail to resolve is an \<open>option\<close>, resolved
  eagerly or on the first use. The trace records what the shim takes from the system and
  gives back. Status codes and the text scanner are those of the Windows shim's theories.
\<close>

section \<open>Interfaces and state\<close>

record nvml_memory =
  nv_total :: u64
  nv_free :: u64
  nv_used :: u64

record 'c lx_api =
  lib_cuMemAlloc_v2 :: "('c \<Rightarrow> u64 \<Rightarrow> int \<times> u64 \<times> 'c) option"
  lib_cuMemFree_v2 :: "('c \<Rightarrow> u64 \<Rightarrow> int \<times> 'c) option"
  lib_cuMemAllocManaged :: "('c \<Rightarrow> u64 \<Rightarrow> int \<times> u64 \<times> 'c) option"
  lib_cuMemAllocAsync :: "('c \<Rightarrow> u64 \<Rightarrow> nat \<Rightarrow> int \<times> u64 \<times> 'c) option"
  lib_cudaMalloc :: "('c \<Rightarrow> u64 \<Rightarrow> int \<times> u64 \<times> 'c) option"
  lib_cudaMallocAsync :: "('c \<Rightarrow> u64 \<Rightarrow> nat \<Rightarrow> int \<times> u64 \<times> 'c) option"
  lib_cudaFree :: "('c \<Rightarrow> u64 \<Rightarrow> int \<times> 'c) option"
  lib_cuMemGetInfo :: "('c \<Rightarrow> int \<times> u64 \<times> u64) option"      \<comment> \<open>status, free, total\<close>
  lib_cuDeviceTotalMem_v2 :: "('c \<Rightarrow> int \<Rightarrow> int \<times> u64) option"
  lib_nvmlDeviceGetMemoryInfo :: "('c \<Rightarrow> nat \<Rightarrow> int \<times> nvml_memory) option"
  lib_nvmlDeviceGetMemoryInfo_v2 :: "('c \<Rightarrow> nat \<Rightarrow> int \<times> nvml_memory) option"
  lib_cuMemHostRegister :: "('c \<Rightarrow> u64 \<Rightarrow> u64 \<Rightarrow> int \<times> 'c) option"
  lib_cuMemHostGetDevicePointer :: "('c \<Rightarrow> u64 \<Rightarrow> int \<times> u64 \<times> 'c) option"
  lib_cuMemHostUnregister :: "('c \<Rightarrow> u64 \<Rightarrow> 'c) option"      \<comment> \<open>\<^verbatim>\<open>dlsym(RTLD_NEXT, ...)\<close>\<close>
  lib_cuMemPrefetchAsync :: "('c \<Rightarrow> u64 \<Rightarrow> u64 \<Rightarrow> int \<Rightarrow> nat \<Rightarrow> int \<times> 'c) option"
  lib_cudaMemPrefetchAsync :: "('c \<Rightarrow> u64 \<Rightarrow> u64 \<Rightarrow> int \<Rightarrow> nat \<Rightarrow> int \<times> 'c) option"
  sys_mmap_anon :: "'c \<Rightarrow> u64 \<Rightarrow> u64 option \<times> 'c"            \<comment> \<open>\<open>None\<close> is \<^verbatim>\<open>MAP_FAILED\<close>\<close>
  sys_mmap_fd :: "'c \<Rightarrow> u64 \<Rightarrow> int \<Rightarrow> u64 option \<times> 'c"
  sys_munmap :: "'c \<Rightarrow> u64 \<Rightarrow> u64 \<Rightarrow> 'c"
  sys_open :: "'c \<Rightarrow> int \<times> 'c"
  sys_close :: "'c \<Rightarrow> int \<Rightarrow> 'c"
  sys_ioctl_alloc :: "'c \<Rightarrow> u64 \<Rightarrow> int option \<times> 'c"             \<comment> \<open>the DMA-BUF descriptor\<close>
  sys_ioctl_pin :: "'c \<Rightarrow> u64 \<Rightarrow> u64 \<Rightarrow> int option \<times> 'c"

datatype lx_sys = Mapped u64 u64 | Unmapped u64 u64 | Fd_got int | Fd_closed int

record 'c lx_shim =
  ready :: bool                 \<comment> \<open>\<^verbatim>\<open>initialized\<close>\<close>
  table :: lx_table
  vram_headroom_bytes :: u64
  gb_virtual_vram_bytes :: u64
  gb_use_dmabuf :: bool
  gb_debug :: bool
  gb_dev_fd :: int
  queue :: "lx_prefetch_req prefetch_ring"
  world :: 'c
  trace :: "lx_sys list"

section \<open>System calls\<close>

definition do_munmap :: "'c lx_api \<Rightarrow> u64 \<Rightarrow> u64 \<Rightarrow> 'c lx_shim \<Rightarrow> 'c lx_shim" where
  "do_munmap api m sz s = s\<lparr>world := sys_munmap api (world s) m sz, trace := trace s @ [Unmapped m sz]\<rparr>"

definition do_close :: "'c lx_api \<Rightarrow> int \<Rightarrow> 'c lx_shim \<Rightarrow> 'c lx_shim" where
  "do_close api fd s = s\<lparr>world := sys_close api (world s) fd, trace := trace s @ [Fd_closed fd]\<rparr>"

definition do_unregister :: "'c lx_api \<Rightarrow> u64 \<Rightarrow> 'c lx_shim \<Rightarrow> 'c lx_shim" where
  "do_unregister api m s = (case lib_cuMemHostUnregister api of
     Some f \<Rightarrow> s\<lparr>world := f (world s) m\<rparr> | None \<Rightarrow> s)"

definition lx_open_device :: "'c lx_api \<Rightarrow> 'c lx_shim \<Rightarrow> 'c lx_shim" where
  "lx_open_device api s =
     (if gb_dev_fd s < 0
      then (case sys_open api (world s) of (fd, c) \<Rightarrow> s\<lparr>gb_dev_fd := fd, world := c\<rparr>) else s)"

section \<open>Driver memory\<close>

text \<open>
  The common tail of the two ways to system memory: register the mapping with CUDA and get
  its device pointer; on failure the mapping and the descriptor are given back.
\<close>

definition register_mapping ::
  "'c lx_api \<Rightarrow> 'c lx_shim \<Rightarrow> u64 \<Rightarrow> u64 \<Rightarrow> int \<Rightarrow> int \<times> u64 option \<times> 'c lx_shim" where
  "register_mapping api s m sz fd =
     (case the (lib_cuMemHostRegister api) (world s) m sz of (ret, c) \<Rightarrow>
       let s1 = s\<lparr>world := c\<rparr> in
       if ret \<noteq> CUDA_SUCCESS
       then (CUDA_ERROR_OUT_OF_MEMORY, None, do_close api fd (do_munmap api m sz s1))
       else case the (lib_cuMemHostGetDevicePointer api) c m of (ret2, dptr, c2) \<Rightarrow>
         let s2 = s1\<lparr>world := c2\<rparr> in
         if ret2 \<noteq> CUDA_SUCCESS
         then (CUDA_ERROR_OUT_OF_MEMORY, None,
               do_close api fd (do_munmap api m sz (do_unregister api m s2)))
         else (CUDA_SUCCESS, Some dptr, s2))"

text \<open>The result holds the device pointer, the mapping and the descriptor.\<close>

definition gb_import_as_cuda_ptr ::
  "'c lx_api \<Rightarrow> 'c lx_shim \<Rightarrow> u64 \<Rightarrow> int \<times> (u64 \<times> u64 \<times> int) option \<times> 'c lx_shim" where
  "gb_import_as_cuda_ptr api s sz =
     (if lib_cuMemHostRegister api = None \<or> lib_cuMemHostGetDevicePointer api = None
      then (CUDA_ERROR_NOT_SUPPORTED, None, s)
      else
        let s1 = lx_open_device api s in
        if gb_dev_fd s1 < 0 then (CUDA_ERROR_NOT_SUPPORTED, None, s1)
        else case sys_ioctl_alloc api (world s1) sz of
          (None, c) \<Rightarrow> (CUDA_ERROR_OUT_OF_MEMORY, None, s1\<lparr>world := c\<rparr>)
        | (Some fd, c) \<Rightarrow>
          (let s2 = s1\<lparr>world := c, trace := trace s1 @ [Fd_got fd]\<rparr> in
           case sys_mmap_fd api (world s2) sz fd of
             (None, c3) \<Rightarrow> (CUDA_ERROR_OUT_OF_MEMORY, None, do_close api fd (s2\<lparr>world := c3\<rparr>))
           | (Some m, c3) \<Rightarrow>
             (case register_mapping api (s2\<lparr>world := c3, trace := trace s2 @ [Mapped m sz]\<rparr>) m sz fd of
                (ret, Some dptr, s3) \<Rightarrow> (ret, Some (dptr, m, fd), s3)
              | (ret, None, s3) \<Rightarrow> (ret, None, s3))))"

section \<open>The overflow decision and the overflow allocation\<close>

definition gb_needs_overflow :: "'c lx_api \<Rightarrow> 'c lx_shim \<Rightarrow> u64 \<Rightarrow> bool" where
  "gb_needs_overflow api s sz =
     (case lib_cuMemGetInfo api of
        None \<Rightarrow> False
      | Some f \<Rightarrow> (case f (world s) of (ret, free_vram, total_vram) \<Rightarrow>
          if ret \<noteq> CUDA_SUCCESS then False else free_vram < sz + vram_headroom_bytes s))"

text \<open>The result of \<^verbatim>\<open>ht_insert\<close> is not tested.\<close>

definition record_alloc ::
  "u64 \<Rightarrow> u64 \<Rightarrow> int \<Rightarrow> u64 \<Rightarrow> int \<Rightarrow> 'c lx_shim \<Rightarrow> 'c lx_shim" where
  "record_alloc dptr sz managed m fd s =
     s\<lparr>table := snd (lx_ht_insert (table s) dptr sz managed (- 1) m fd)\<rparr>"

definition uvm_alloc :: "'c lx_api \<Rightarrow> 'c lx_shim \<Rightarrow> u64 \<Rightarrow> int \<times> u64 option \<times> 'c lx_shim" where
  "uvm_alloc api s sz =
     (case lib_cuMemAllocManaged api of
        None \<Rightarrow> (CUDA_ERROR_OUT_OF_MEMORY, None, s)
      | Some f \<Rightarrow> (case f (world s) sz of (ret, dptr, c) \<Rightarrow>
          if ret = CUDA_SUCCESS
          then (CUDA_SUCCESS, Some dptr, record_alloc dptr sz 1 0 (- 1) (s\<lparr>world := c\<rparr>))
          else (CUDA_ERROR_OUT_OF_MEMORY, None, s\<lparr>world := c\<rparr>)))"

definition gb_overflow_alloc :: "'c lx_api \<Rightarrow> 'c lx_shim \<Rightarrow> u64 \<Rightarrow> int \<times> u64 option \<times> 'c lx_shim" where
  "gb_overflow_alloc api s sz =
     (if gb_use_dmabuf s \<and> lib_cuMemHostRegister api \<noteq> None then
        case sys_mmap_anon api (world s) sz of
          (None, c) \<Rightarrow> (CUDA_ERROR_OUT_OF_MEMORY, None, s\<lparr>world := c\<rparr>)
        | (Some m, c) \<Rightarrow>
          (let s1 = lx_open_device api (s\<lparr>world := c, trace := trace s @ [Mapped m sz]\<rparr>) in
           if 0 \<le> gb_dev_fd s1 then
             case sys_ioctl_pin api (world s1) m sz of
               (None, c2) \<Rightarrow> uvm_alloc api (do_munmap api m sz (s1\<lparr>world := c2\<rparr>)) sz
             | (Some fd, c2) \<Rightarrow>
               (case register_mapping api (s1\<lparr>world := c2, trace := trace s1 @ [Fd_got fd]\<rparr>) m sz fd of
                  (ret, Some dptr, s2) \<Rightarrow> (ret, Some dptr, record_alloc dptr sz 0 m fd s2)
                | (ret, None, s2) \<Rightarrow> (ret, None, s2))
           else uvm_alloc api s1 sz)
      else uvm_alloc api s sz)"

section \<open>Allocation overrides\<close>

text \<open>A call of the real allocator, whose success is recorded.\<close>

definition device_alloc ::
  "('c \<Rightarrow> u64 \<Rightarrow> int \<times> u64 \<times> 'c) \<Rightarrow> 'c lx_shim \<Rightarrow> u64 \<Rightarrow> int \<times> u64 option \<times> 'c lx_shim" where
  "device_alloc f s sz = (case f (world s) sz of (ret, dptr, c) \<Rightarrow>
     if ret = CUDA_SUCCESS
     then (ret, Some dptr, record_alloc dptr sz 0 0 (- 1) (s\<lparr>world := c\<rparr>))
     else (ret, None, s\<lparr>world := c\<rparr>))"

text \<open>Overflow first when the device is short of memory, the real allocator otherwise.\<close>

definition alloc_or_overflow ::
  "'c lx_api \<Rightarrow> ('c \<Rightarrow> u64 \<Rightarrow> int \<times> u64 \<times> 'c) \<Rightarrow> 'c lx_shim \<Rightarrow> u64 \<Rightarrow> int \<times> u64 option \<times> 'c lx_shim" where
  "alloc_or_overflow api f s sz =
     (if gb_needs_overflow api s sz then
        case gb_overflow_alloc api s sz of
          (ret, Some dptr, s1) \<Rightarrow> (CUDA_SUCCESS, Some dptr, s1)
        | (ret, None, s1) \<Rightarrow> device_alloc f s1 sz
      else device_alloc f s sz)"

definition cuMemAlloc_v2 :: "'c lx_api \<Rightarrow> 'c lx_shim \<Rightarrow> u64 \<Rightarrow> int \<times> u64 option \<times> 'c lx_shim" where
  "cuMemAlloc_v2 api s sz =
     (if \<not> ready s then (CUDA_ERROR_OUT_OF_MEMORY, None, s)
      else case lib_cuMemAlloc_v2 api of
        None \<Rightarrow> (CUDA_ERROR_OUT_OF_MEMORY, None, s)
      | Some f \<Rightarrow> alloc_or_overflow api f s sz)"

definition cuMemAllocAsync ::
  "'c lx_api \<Rightarrow> 'c lx_shim \<Rightarrow> u64 \<Rightarrow> nat \<Rightarrow> int \<times> u64 option \<times> 'c lx_shim" where
  "cuMemAllocAsync api s sz stream =
     (if \<not> ready s then (CUDA_ERROR_OUT_OF_MEMORY, None, s)
      else case lib_cuMemAllocAsync api of
        None \<Rightarrow> cuMemAlloc_v2 api s sz
      | Some f \<Rightarrow> alloc_or_overflow api (\<lambda>c n. f c n stream) s sz)"

definition cudaMalloc :: "'c lx_api \<Rightarrow> 'c lx_shim \<Rightarrow> u64 \<Rightarrow> int \<times> u64 option \<times> 'c lx_shim" where
  "cudaMalloc api s sz =
     (if \<not> ready s then (CUDA_ERROR_OUT_OF_MEMORY, None, s)
      else case lib_cudaMalloc api of
        None \<Rightarrow> (CUDA_ERROR_OUT_OF_MEMORY, None, s)
      | Some f \<Rightarrow> alloc_or_overflow api f s sz)"

definition cudaMallocAsync ::
  "'c lx_api \<Rightarrow> 'c lx_shim \<Rightarrow> u64 \<Rightarrow> nat \<Rightarrow> int \<times> u64 option \<times> 'c lx_shim" where
  "cudaMallocAsync api s sz stream =
     (if \<not> ready s then (CUDA_ERROR_OUT_OF_MEMORY, None, s)
      else case lib_cudaMallocAsync api of
        None \<Rightarrow> cudaMalloc api s sz
      | Some f \<Rightarrow> alloc_or_overflow api (\<lambda>c n. f c n stream) s sz)"

section \<open>Free overrides\<close>

text \<open>A tracked mapping is unregistered and unmapped, a descriptor closed.\<close>

definition forget_buffer :: "'c lx_api \<Rightarrow> 'c lx_shim \<Rightarrow> u64 \<Rightarrow> 'c lx_shim" where
  "forget_buffer api s p =
     (case lx_ht_remove (table s) p of
        (None, t) \<Rightarrow> s\<lparr>table := t\<rparr>
      | (Some e, t) \<Rightarrow>
        (let s1 = s\<lparr>table := t\<rparr>;
             s2 = (if l_mapped e \<noteq> 0
               then do_munmap api (l_mapped e) (l_size e) (do_unregister api (l_mapped e) s1) else s1)
         in if 0 \<le> l_fd e then do_close api (l_fd e) s2 else s2))"

definition free_with :: "'c lx_api \<Rightarrow> ('c \<Rightarrow> u64 \<Rightarrow> int \<times> 'c) option \<Rightarrow> 'c lx_shim \<Rightarrow> u64 \<Rightarrow> int \<times> 'c lx_shim" where
  "free_with api fo s p =
     (if \<not> ready s then (CUDA_SUCCESS, s)
      else case fo of
        None \<Rightarrow> (CUDA_SUCCESS, s)
      | Some f \<Rightarrow>
        (let s1 = forget_buffer api s p in
         case f (world s1) p of (r, c) \<Rightarrow> (r, s1\<lparr>world := c\<rparr>)))"

definition cuMemFree_v2 :: "'c lx_api \<Rightarrow> 'c lx_shim \<Rightarrow> u64 \<Rightarrow> int \<times> 'c lx_shim" where
  "cuMemFree_v2 api = free_with api (lib_cuMemFree_v2 api)"

definition cudaFree :: "'c lx_api \<Rightarrow> 'c lx_shim \<Rightarrow> u64 \<Rightarrow> int \<times> 'c lx_shim" where
  "cudaFree api = free_with api (lib_cudaFree api)"

section \<open>Prefetch overrides\<close>

text \<open>A tracked allocation is looked up by removal and re-insertion; \<open>None\<close> when it is not tracked.\<close>

definition peek_prefetch :: "'c lx_shim \<Rightarrow> u64 \<Rightarrow> u64 \<Rightarrow> 'c lx_shim option" where
  "peek_prefetch s p n =
     (case lx_ht_remove (table s) p of
        (None, t) \<Rightarrow> None
      | (Some e, t) \<Rightarrow> Some (s\<lparr>
          queue := (if l_mapped e \<noteq> 0
            then lx_enqueue_prefetch (queue s) (l_mapped e) (if n < l_size e then n else l_size e)
            else queue s),
          table := snd (lx_ht_insert t p (l_size e) (l_managed e) (- 1) (l_mapped e) (l_fd e))\<rparr>))"

definition cuMemPrefetchAsync ::
  "'c lx_api \<Rightarrow> 'c lx_shim \<Rightarrow> u64 \<Rightarrow> u64 \<Rightarrow> int \<Rightarrow> nat \<Rightarrow> int \<times> 'c lx_shim" where
  "cuMemPrefetchAsync api s p n dev stream =
     (if \<not> ready s then (CUDA_SUCCESS, s)
      else case lib_cuMemPrefetchAsync api of
        None \<Rightarrow> (CUDA_SUCCESS, s)
      | Some f \<Rightarrow>
        (case peek_prefetch s p n of
           Some s1 \<Rightarrow> (CUDA_SUCCESS, s1)
         | None \<Rightarrow> (case f (world s) p n dev stream of (r, c) \<Rightarrow> (r, s\<lparr>world := c\<rparr>))))"

definition cudaMemPrefetchAsync ::
  "'c lx_api \<Rightarrow> 'c lx_shim \<Rightarrow> u64 \<Rightarrow> u64 \<Rightarrow> int \<Rightarrow> nat \<Rightarrow> int \<times> 'c lx_shim" where
  "cudaMemPrefetchAsync api s p n dev stream =
     (if \<not> ready s then (CUDA_SUCCESS, s)
      else case peek_prefetch s p n of
        Some s1 \<Rightarrow> (CUDA_SUCCESS, s1)
      | None \<Rightarrow>
        (case lib_cudaMemPrefetchAsync api of
           Some f \<Rightarrow> (case f (world s) p n dev stream of (r, c) \<Rightarrow> (r, s\<lparr>world := c\<rparr>))
         | None \<Rightarrow> (CUDA_SUCCESS, s)))"

section \<open>Memory reports\<close>

text \<open>Status, free and total; the out parameters keep their values on failure.\<close>

definition cuMemGetInfo_v2 :: "'c lx_api \<Rightarrow> 'c lx_shim \<Rightarrow> int \<times> (u64 \<times> u64) option" where
  "cuMemGetInfo_v2 api s =
     (if \<not> ready s then (CUDA_ERROR_NOT_SUPPORTED, None)
      else case lib_cuMemGetInfo api of
        None \<Rightarrow> (CUDA_ERROR_NOT_SUPPORTED, None)
      | Some f \<Rightarrow> (case f (world s) of (ret, real_free, real_total) \<Rightarrow>
          if ret \<noteq> CUDA_SUCCESS then (ret, None)
          else (CUDA_SUCCESS, Some (real_free + gb_virtual_vram_bytes s,
                                    real_total + gb_virtual_vram_bytes s))))"

definition cuMemGetInfo :: "'c lx_api \<Rightarrow> 'c lx_shim \<Rightarrow> int \<times> (u64 \<times> u64) option" where
  "cuMemGetInfo api s = cuMemGetInfo_v2 api s"

definition cudaMemGetInfo :: "'c lx_api \<Rightarrow> 'c lx_shim \<Rightarrow> int \<times> (u64 \<times> u64) option" where
  "cudaMemGetInfo api s =
     (if \<not> ready s then (CUDA_ERROR_NOT_SUPPORTED, None)
      else case lib_cuMemGetInfo api of
        None \<Rightarrow> (CUDA_ERROR_NOT_SUPPORTED, None)
      | Some f \<Rightarrow> (case f (world s) of (ret, real_free, real_total) \<Rightarrow>
          if ret \<noteq> CUDA_SUCCESS then (ret, None)
          else (CUDA_SUCCESS, Some (real_free + gb_virtual_vram_bytes s,
                                    real_total + gb_virtual_vram_bytes s))))"

definition cuDeviceTotalMem_v2 :: "'c lx_api \<Rightarrow> 'c lx_shim \<Rightarrow> int \<Rightarrow> int \<times> u64 option" where
  "cuDeviceTotalMem_v2 api s dev =
     (if \<not> ready s then (CUDA_ERROR_NOT_SUPPORTED, None)
      else case lib_cuDeviceTotalMem_v2 api of
        None \<Rightarrow> (CUDA_ERROR_NOT_SUPPORTED, None)
      | Some f \<Rightarrow> (case f (world s) dev of (ret, bytes) \<Rightarrow>
          (ret, if ret = CUDA_SUCCESS then Some (bytes + gb_virtual_vram_bytes s) else Some bytes)))"

definition cuDeviceTotalMem :: "'c lx_api \<Rightarrow> 'c lx_shim \<Rightarrow> int \<Rightarrow> int \<times> u64 option" where
  "cuDeviceTotalMem api s dev = cuDeviceTotalMem_v2 api s dev"

definition inflate_nvml :: "'c lx_shim \<Rightarrow> int \<times> nvml_memory \<Rightarrow> int \<times> nvml_memory" where
  "inflate_nvml s r = (case r of (ret, m) \<Rightarrow>
     (ret, if ret = 0 then m\<lparr>nv_total := nv_total m + gb_virtual_vram_bytes s,
                             nv_free := nv_free m + gb_virtual_vram_bytes s\<rparr> else m))"

definition nvmlDeviceGetMemoryInfo ::
  "'c lx_api \<Rightarrow> 'c lx_shim \<Rightarrow> nat \<Rightarrow> int \<times> nvml_memory option" where
  "nvmlDeviceGetMemoryInfo api s dev =
     (case lib_nvmlDeviceGetMemoryInfo api of
        None \<Rightarrow> (999, None)
      | Some f \<Rightarrow> (case inflate_nvml s (f (world s) dev) of (r, m) \<Rightarrow> (r, Some m)))"

definition nvmlDeviceGetMemoryInfo_v2 ::
  "'c lx_api \<Rightarrow> 'c lx_shim \<Rightarrow> nat \<Rightarrow> int \<times> nvml_memory option" where
  "nvmlDeviceGetMemoryInfo_v2 api s dev =
     (case lib_nvmlDeviceGetMemoryInfo_v2 api of
        None \<Rightarrow> (999, None)
      | Some f \<Rightarrow> (case inflate_nvml s (f (world s) dev) of (r, m) \<Rightarrow> (r, Some m)))"

section \<open>Symbol lookup\<close>

text \<open>
  An address is the shim's function of a name or what the real lookup returns. The
  overrides have the names of the functions they replace.
\<close>

datatype code_ptr = Shim_fn string | Real_fn nat

datatype dl_handle = RTLD_NEXT | Handle nat

definition hook_names :: "string list" where
  "hook_names = [''nvmlDeviceGetMemoryInfo'', ''nvmlDeviceGetMemoryInfo_v2'',
     ''cuDeviceTotalMem_v2'', ''cuDeviceTotalMem'', ''cuMemGetInfo_v2'', ''cuMemGetInfo'',
     ''cudaMemGetInfo'', ''cudaMalloc'', ''cudaMallocAsync'', ''cudaFree'', ''cuMemAlloc_v2'',
     ''cuMemAllocAsync'', ''cuMemFree_v2'', ''cuMemPrefetchAsync'', ''cudaMemPrefetchAsync'']"

definition gb_get_hook :: "string option \<Rightarrow> code_ptr option" where
  "gb_get_hook name = (case name of
     None \<Rightarrow> None | Some n \<Rightarrow> (if n \<in> set hook_names then Some (Shim_fn n) else None))"

definition lx_dlsym ::
  "(dl_handle \<Rightarrow> string option \<Rightarrow> nat option) option \<Rightarrow> bool \<Rightarrow> dl_handle \<Rightarrow> string option
    \<Rightarrow> code_ptr option" where
  "lx_dlsym real initialized handle name =
     (case (if initialized \<and> handle \<noteq> RTLD_NEXT then gb_get_hook name else None) of
        Some h \<Rightarrow> Some h
      | None \<Rightarrow> (case real of Some f \<Rightarrow> map_option Real_fn (f handle name) | None \<Rightarrow> None))"

definition RTLD_DEEPBIND :: u32 where "RTLD_DEEPBIND = 8"

definition lx_dlopen :: "(string option \<Rightarrow> u32 \<Rightarrow> nat option) option \<Rightarrow> string option \<Rightarrow> u32 \<Rightarrow> nat option" where
  "lx_dlopen real filename flags =
     (let fl = (if flags AND RTLD_DEEPBIND \<noteq> 0 then flags AND NOT RTLD_DEEPBIND else flags) in
      case real of Some f \<Rightarrow> f filename fl | None \<Rightarrow> None)"

text \<open>The versions of the C library that are asked for the real functions, in order.\<close>

definition glibc_versions :: "string list" where
  "glibc_versions = [''GLIBC_2.34'', ''GLIBC_2.2.5'', ''GLIBC_2.17'', ''GLIBC_2.0'']"

fun first_some :: "('a \<Rightarrow> 'b option) \<Rightarrow> 'a list \<Rightarrow> 'b option" where
  "first_some f [] = None"
| "first_some f (x # xs) = (case f x of Some y \<Rightarrow> Some y | None \<Rightarrow> first_some f xs)"

definition gb_dlsym_bootstrap :: "(string \<Rightarrow> string \<Rightarrow> 'f option) \<Rightarrow> 'f option \<times> 'f option" where
  "gb_dlsym_bootstrap dlvsym_next =
     (first_some (dlvsym_next ''dlsym'') glibc_versions,
      first_some (dlvsym_next ''dlopen'') glibc_versions)"

section \<open>Start and end\<close>

text \<open>\<^verbatim>\<open>atoll\<close> of the C library: white space, a sign, digits; glibc stops at the limits.\<close>

definition atoll :: "string \<Rightarrow> int" where
  "atoll txt =
     (let rest = dropWhile is_space txt;
          neg = (rest \<noteq> [] \<and> hd rest = CHR ''-'');
          body = (if rest \<noteq> [] \<and> (hd rest = CHR ''-'' \<or> hd rest = CHR ''+'') then tl rest else rest);
          v = int (fst (scan_digits 0 body))
      in if neg then max (- (2 ^ 63)) (- v) else min (2 ^ 63 - 1) v)"

definition env_mb :: "(string \<Rightarrow> string option) \<Rightarrow> string \<Rightarrow> u64 \<Rightarrow> u64" where
  "env_mb getenv name old = (case getenv name of
     Some txt \<Rightarrow> word_of_int (atoll txt) * 1024 * 1024 | None \<Rightarrow> old)"

text \<open>
  A library is the partial map of the symbols it exports. A symbol of the runtime library
  that is missing there, or the whole library, falls back to the driver library for some
  names.
\<close>

type_synonym symbols = "string \<Rightarrow> nat option"

definition cudart_paths :: "string list" where
  "cudart_paths = [''libcudart.so'', ''libcudart.so.13'', ''libcudart.so.12'',
     ''/usr/local/lib/ollama/cuda_v13/libcudart.so.13.0.96'',
     ''/usr/local/lib/ollama/mlx_cuda_v13/libcudart.so'',
     ''/usr/local/lib/ollama/cuda_v12/libcudart.so.12'']"

definition driver_names :: "string list" where
  "driver_names = [''cuMemAlloc_v2'', ''cuMemFree_v2'', ''cuMemAllocManaged'', ''cuMemAllocAsync'',
     ''cuMemGetInfo'', ''cuDeviceTotalMem_v2'', ''cuMemHostRegister'', ''cuMemHostGetDevicePointer'',
     ''cuMemPrefetchAsync'']"

definition nvml_names :: "string list" where
  "nvml_names = [''nvmlDeviceGetMemoryInfo'', ''nvmlDeviceGetMemoryInfo_v2'']"

definition runtime_fallback :: "string list" where
  "runtime_fallback = [''cudaMalloc'', ''cudaFree'', ''cudaMallocManaged'', ''cudaMallocAsync'',
     ''cudaMemGetInfo'', ''cudaMemPrefetchAsync'']"

definition runtime_names :: "string list" where
  "runtime_names = runtime_fallback @ [''cudaImportExternalMemory'',
     ''cudaExternalMemoryGetMappedBuffer'', ''cudaDestroyExternalMemory'']"

definition resolve_driver :: "symbols \<Rightarrow> string \<Rightarrow> nat option" where
  "resolve_driver libcuda name =
     (if name = ''cuMemGetInfo'' then first_some libcuda [''cuMemGetInfo_v2'', ''cuMemGetInfo'']
      else if name = ''cuDeviceTotalMem_v2''
      then first_some libcuda [''cuDeviceTotalMem_v2'', ''cuDeviceTotalMem'']
      else libcuda name)"

definition resolve_nvml :: "(string \<Rightarrow> symbols option) \<Rightarrow> string \<Rightarrow> nat option" where
  "resolve_nvml dlopen_lib name =
     (case first_some dlopen_lib [''libnvidia-ml.so.1'', ''libnvidia-ml.so''] of
        Some l \<Rightarrow> l name | None \<Rightarrow> None)"

definition resolve_runtime :: "symbols \<Rightarrow> symbols option \<Rightarrow> string \<Rightarrow> nat option" where
  "resolve_runtime libcuda libcudart name =
     (case (case libcudart of Some l \<Rightarrow> l name | None \<Rightarrow> None) of
        Some a \<Rightarrow> Some a
      | None \<Rightarrow> (if name \<in> set runtime_fallback then libcuda name else None))"

text \<open>
  The constructor: the environment, the libraries in the order in which they are tried, and
  the real entry points, by the name of the pointer that holds each of them.
\<close>

definition lx_shim_init ::
  "(string \<Rightarrow> string option) \<Rightarrow> (string \<Rightarrow> symbols option) \<Rightarrow> 'c lx_shim
    \<Rightarrow> (string \<Rightarrow> nat option) \<times> 'c lx_shim" where
  "lx_shim_init getenv dlopen_lib s =
     (let s1 = s\<lparr>
        gb_use_dmabuf := (case getenv ''GREENBOOST_USE_DMA_BUF'' of
            Some txt \<Rightarrow> txt = [] \<or> hd txt \<noteq> CHR ''0'' | None \<Rightarrow> gb_use_dmabuf s),
        vram_headroom_bytes := env_mb getenv ''GREENBOOST_VRAM_HEADROOM_MB'' (vram_headroom_bytes s),
        gb_virtual_vram_bytes := env_mb getenv ''GREENBOOST_VIRTUAL_VRAM_MB'' (gb_virtual_vram_bytes s),
        gb_debug := (case getenv ''GREENBOOST_DEBUG'' of
            Some txt \<Rightarrow> (txt \<noteq> [] \<and> hd txt = CHR ''1'') \<or> gb_debug s | None \<Rightarrow> gb_debug s)\<rparr>
      in case dlopen_lib ''libcuda.so.1'' of
           None \<Rightarrow> (Map.empty, s1)
         | Some libcuda \<Rightarrow>
           (let libcudart = first_some dlopen_lib cudart_paths;
                entry = (\<lambda>name.
                  if name \<in> set driver_names then resolve_driver libcuda name
                  else if name \<in> set nvml_names then resolve_nvml dlopen_lib name
                  else if name \<in> set runtime_names then resolve_runtime libcuda libcudart name
                  else None)
            in (entry,
                if entry ''cuMemAlloc_v2'' = None \<or> entry ''cuMemFree_v2'' = None
                then s1 else s1\<lparr>ready := True\<rparr>)))"

definition lx_shim_fini :: "'c lx_api \<Rightarrow> 'c lx_shim \<Rightarrow> 'c lx_shim" where
  "lx_shim_fini api s =
     (if 0 \<le> gb_dev_fd s then (s\<lparr>world := sys_close api (world s) (gb_dev_fd s), gb_dev_fd := - 1\<rparr>) else s)"

end
