(* ===== verification/Linux_Shim_Props.thy ===== *)
theory Linux_Shim_Props
  imports Linux_Shim Resource_Ledger
begin

text \<open>
  Properties of the Linux CUDA shim: what it takes from the system belongs to the recorded
  allocations, the prefetch hooks, the memory reports and the symbol lookup.
\<close>

section \<open>Mappings and descriptors\<close>

datatype shim_res = Map_res u64 u64 | Fd_res int

definition got :: "shim_res \<Rightarrow> lx_sys list \<Rightarrow> nat" where
  "got r tr = count_list tr (case r of Map_res m n \<Rightarrow> Mapped m n | Fd_res fd \<Rightarrow> Fd_got fd)"

definition gave :: "shim_res \<Rightarrow> lx_sys list \<Rightarrow> nat" where
  "gave r tr = count_list tr (case r of Map_res m n \<Rightarrow> Unmapped m n | Fd_res fd \<Rightarrow> Fd_closed fd)"

text \<open>The resources that exist: mappings are not at address 0, descriptors not negative.\<close>

definition real_res :: "shim_res \<Rightarrow> bool" where
  "real_res r = (case r of Map_res m n \<Rightarrow> m \<noteq> 0 | Fd_res fd \<Rightarrow> 0 \<le> fd)"

definition owns :: "shim_res \<Rightarrow> lx_entry \<Rightarrow> nat" where
  "owns r e = (case r of
     Map_res m n \<Rightarrow> (if l_mapped e = m \<and> l_size e = n then 1 else 0)
   | Fd_res fd \<Rightarrow> (if l_fd e = fd then 1 else 0))"

lemma got_append [simp]: "got r (xs @ ys) = got r xs + got r ys"
  by (simp add: got_def)

lemma gave_append [simp]: "gave r (xs @ ys) = gave r xs + gave r ys"
  by (simp add: gave_def)

lemma got_Nil [simp]: "got r [] = 0" and gave_Nil [simp]: "gave r [] = 0"
  by (simp_all add: got_def gave_def)

lemma got_one [simp]:
  "got r [Mapped m n] = (if r = Map_res m n then 1 else 0)"
  "got r [Fd_got fd] = (if r = Fd_res fd then 1 else 0)"
  "got r [Unmapped m n] = 0" "got r [Fd_closed fd] = 0"
  by (cases r; auto simp: got_def)+

lemma gave_one [simp]:
  "gave r [Unmapped m n] = (if r = Map_res m n then 1 else 0)"
  "gave r [Fd_closed fd] = (if r = Fd_res fd then 1 else 0)"
  "gave r [Mapped m n] = 0" "gave r [Fd_got fd] = 0"
  by (cases r; auto simp: gave_def)+

text \<open>\<open>n\<close> is how often the operation in progress holds the resource beside the table.\<close>

definition holds :: "shim_res \<Rightarrow> nat \<Rightarrow> 'c lx_shim \<Rightarrow> bool" where
  "holds r n s \<longleftrightarrow> got r (trace s) = gave r (trace s) + lxr.total (owns r) (table s) + n"

definition shim_ok :: "shim_res \<Rightarrow> 'c lx_shim \<Rightarrow> bool" where
  "shim_ok r s \<longleftrightarrow> lx_distinct (table s) \<and> holds r 0 s"

text \<open>A new allocation is recorded when its pointer is new and the table has room.\<close>

definition can_record :: "'c lx_shim \<Rightarrow> u64 option \<Rightarrow> bool" where
  "can_record s dp \<longleftrightarrow> (\<exists>i<HT_SIZE. l_ptr (table s i) = 0)
     \<and> (\<forall>p. dp = Some p \<longrightarrow> p \<noteq> 0 \<and> lx_contents (table s) p = None)"

lemma insert_room:
  assumes "i < HT_SIZE" and "l_ptr (t i) = 0"
  shows "fst (lx_ht_insert t p sz m b mp fd)"
  using lx_insert_full [of t p sz m b mp fd _ i] assms
  by (cases "lx_ht_insert t p sz m b mp fd") auto

lemma record_ok:
  assumes "lx_distinct (table s)" and "can_record s (Some p)" and "holds r n s"
    and "owns r \<lparr>l_ptr = p, l_size = sz, l_managed = mg, l_buf_id = - 1, l_mapped = m, l_fd = fd\<rparr> = n"
  shows "shim_ok r (record_alloc p sz mg m fd s)"
proof -
  let ?e = "\<lparr>l_ptr = p, l_size = sz, l_managed = mg, l_buf_id = - 1, l_mapped = m, l_fd = fd\<rparr>"
  from assms(2) obtain i where i: "i < HT_SIZE" "l_ptr (table s i) = 0"
    and p: "p \<noteq> 0" "lx_contents (table s) p = None" by (auto simp: can_record_def)
  obtain t where t: "put_entry (table s) ?e = (True, t)"
    using insert_room [where t = "table s" and i = i and p = p and sz = sz and m = mg
      and b = "- 1" and mp = m and fd = fd, OF i]
    by (cases "put_entry (table s) ?e") simp
  have "lxr.total (owns r) t = lxr.total (owns r) (table s) + n"
    using lxr.total_insert [OF assms(1), of ?e t "owns r"] p t assms(4) by simp
  moreover have "lx_distinct t" using put_entry_done [OF assms(1) _ _ t] p by simp
  ultimately show ?thesis using assms(3) t by (simp add: shim_ok_def holds_def record_alloc_def)
qed

lemma holds_frame [simp]:
  "holds r n (s\<lparr>world := c\<rparr>) = holds r n s" "holds r n (s\<lparr>gb_dev_fd := fd\<rparr>) = holds r n s"
  "holds r n (s\<lparr>queue := q\<rparr>) = holds r n s" "holds r n (do_unregister api m s) = holds r n s"
  by (simp_all add: holds_def do_unregister_def split: option.splits)

lemma open_frame [simp]:
  "table (lx_open_device api s) = table s" "trace (lx_open_device api s) = trace s"
  "holds r n (lx_open_device api s) = holds r n s"
  by (simp_all add: lx_open_device_def holds_def split: prod.splits)

lemma table_frame [simp]:
  "table (do_munmap api m sz s) = table s" "table (do_close api fd s) = table s"
  "table (do_unregister api m s) = table s"
  by (simp_all add: do_munmap_def do_close_def do_unregister_def split: option.splits)

lemma holds_munmap: "holds r (n + (if r = Map_res m sz then 1 else 0)) s \<Longrightarrow> holds r n (do_munmap api m sz s)"
  by (simp add: holds_def do_munmap_def)

lemma holds_close: "holds r (n + (if r = Fd_res fd then 1 else 0)) s \<Longrightarrow> holds r n (do_close api fd s)"
  by (simp add: holds_def do_close_def)

lemma register_mapping_ok:
  assumes "register_mapping api s m sz fd = (ret, dp, s')"
    and "holds r ((if r = Map_res m sz then 1 else 0) + (if r = Fd_res fd then 1 else 0)) s"
  shows "table s' = table s
    \<and> (case dp of
         None \<Rightarrow> ret = CUDA_ERROR_OUT_OF_MEMORY \<and> holds r 0 s'
       | Some p \<Rightarrow> ret = CUDA_SUCCESS
           \<and> holds r ((if r = Map_res m sz then 1 else 0) + (if r = Fd_res fd then 1 else 0)) s')"
proof -
  have undo: "holds r 0 (do_close api fd (do_munmap api m sz s1))"
    if "holds r ((if r = Map_res m sz then 1 else 0) + (if r = Fd_res fd then 1 else 0)) s1" for s1
    using that by (intro holds_close holds_munmap) (simp add: add.commute)
  show ?thesis
    using assms undo
    by (auto simp: register_mapping_def Let_def split: prod.splits if_splits)
qed


text \<open>An allocation keeps the balance; without a pointer it leaves the table as it was.\<close>

definition alloc_ok :: "shim_res \<Rightarrow> 'c lx_shim \<Rightarrow> u64 option \<Rightarrow> 'c lx_shim \<Rightarrow> bool" where
  "alloc_ok r s dp s' \<longleftrightarrow> shim_ok r s' \<and> (dp = None \<longrightarrow> table s' = table s)"

lemma can_record_table: "table s1 = table s \<Longrightarrow> can_record s1 dp = can_record s dp"
  by (simp add: can_record_def)

lemma owns_plain: "real_res r \<Longrightarrow> owns r \<lparr>l_ptr = p, l_size = n, l_managed = k, l_buf_id = b,
    l_mapped = 0, l_fd = - 1\<rparr> = 0"
  by (auto simp: real_res_def owns_def split: shim_res.splits)

lemma record_plain:
  "real_res r \<Longrightarrow> shim_ok r s \<Longrightarrow> can_record s (Some p) \<Longrightarrow> shim_ok r (record_alloc p n k 0 (- 1) s)"
  by (rule record_ok [where n = 0]) (simp_all add: shim_ok_def owns_plain)

lemma shim_ok_world [simp]: "shim_ok r (s\<lparr>world := c\<rparr>) = shim_ok r s"
  by (simp add: shim_ok_def)

lemma can_record_world [simp]: "can_record (s\<lparr>world := c\<rparr>) dp = can_record s dp"
  by (simp add: can_record_def)

lemma uvm_alloc_ok:
  assumes "real_res r" and "shim_ok r s" and "uvm_alloc api s sz = (ret, dp, s')" and "can_record s dp"
  shows "alloc_ok r s dp s'"
  using assms(2-4)
  by (auto intro!: record_plain [OF assms(1)] simp: uvm_alloc_def alloc_ok_def split: option.splits prod.splits if_splits)

lemma device_alloc_ok:
  assumes "real_res r" and "shim_ok r s" and "device_alloc f s sz = (ret, dp, s')" and "can_record s dp"
  shows "alloc_ok r s dp s'"
  using assms(2-4)
  by (auto intro!: record_plain [OF assms(1)] simp: device_alloc_def alloc_ok_def split: option.splits prod.splits if_splits)

text \<open>The device node of the module can be opened.\<close>

definition device_ok :: "'c lx_api \<Rightarrow> bool" where
  "device_ok api \<longleftrightarrow> (\<forall>c. 0 \<le> fst (sys_open api c))"

lemma open_device_ok: "device_ok api \<Longrightarrow> 0 \<le> gb_dev_fd (lx_open_device api s)"
  by (cases "sys_open api (world s)") (metis (no_types, lifting) device_ok_def fst_conv
      lx_open_device_def case_prod_conv linorder_not_less lx_shim.select_convs(7)
      lx_shim.surjective lx_shim.update_convs(7) lx_shim.update_convs(9))

lemma gb_overflow_alloc_ok:
  assumes "real_res r" and "device_ok api" and "shim_ok r s"
    and "gb_overflow_alloc api s sz = (ret, dp, s')" and "can_record s dp"
  shows "alloc_ok r s dp s'"
proof (cases "gb_use_dmabuf s \<and> lib_cuMemHostRegister api \<noteq> None")
  case False
  with assms(4) have "uvm_alloc api s sz = (ret, dp, s')" by (auto simp: gb_overflow_alloc_def)
  then show ?thesis by (rule uvm_alloc_ok [OF assms(1,3) _ assms(5)])
next
  case True
  obtain mo c where mm: "sys_mmap_anon api (world s) sz = (mo, c)" by force
  show ?thesis
  proof (cases mo)
    case None
    with True mm assms(3,4) show ?thesis by (auto simp: gb_overflow_alloc_def alloc_ok_def)
  next
    case (Some m)
    define s1 where "s1 = lx_open_device api (s\<lparr>world := c, trace := trace s @ [Mapped m sz]\<rparr>)"
    have t1: "table s1 = table s" by (simp add: s1_def)
    have h1: "holds r (if r = Map_res m sz then 1 else 0) s1"
      using assms(3) by (auto simp: s1_def shim_ok_def holds_def)
    have fd1: "0 \<le> gb_dev_fd s1" unfolding s1_def by (rule open_device_ok [OF assms(2)])
    obtain fo c2 where pin: "sys_ioctl_pin api (world s1) m sz = (fo, c2)" by force
    show ?thesis
    proof (cases fo)
      case None
      let ?s = "do_munmap api m sz (s1\<lparr>world := c2\<rparr>)"
      have "uvm_alloc api ?s sz = (ret, dp, s')"
        using assms(4) True mm Some pin None fd1 by (simp add: gb_overflow_alloc_def Let_def s1_def)
      moreover have "shim_ok r ?s"
        using assms(3) t1 h1 holds_munmap [of r 0 m sz "s1\<lparr>world := c2\<rparr>" api]
        by (simp add: shim_ok_def)
      moreover have "can_record ?s dp" using assms(5) t1 by (simp add: can_record_def)
      ultimately have "alloc_ok r ?s dp s'" by (intro uvm_alloc_ok [OF assms(1)])
      with t1 show ?thesis by (simp add: alloc_ok_def)
    next
      case (Some fd)
      let ?s = "s1\<lparr>world := c2, trace := trace s1 @ [Fd_got fd]\<rparr>"
      let ?n = "(if r = Map_res m sz then 1 else 0) + (if r = Fd_res fd then 1 else 0)"
      obtain ret1 dp1 s2 where reg: "register_mapping api ?s m sz fd = (ret1, dp1, s2)"
        by (cases "register_mapping api ?s m sz fd") force
      have "holds r ?n ?s" using h1 by (auto simp: holds_def)
      from register_mapping_ok [OF reg this] t1
      have reg': "table s2 = table s" "dp1 = None \<Longrightarrow> holds r 0 s2" "dp1 = Some p \<Longrightarrow> holds r ?n s2" for p
        by (auto split: option.splits)
      have res: "(ret, dp, s') = (case (ret1, dp1, s2) of
          (ret, Some dptr, s2) \<Rightarrow> (ret, Some dptr, record_alloc dptr sz 0 m fd s2)
        | (ret, None, s2) \<Rightarrow> (ret, None, s2))"
        using assms(4) True mm \<open>mo = Some m\<close> pin Some fd1 reg
        by (simp add: gb_overflow_alloc_def Let_def s1_def)
      show ?thesis
      proof (cases dp1)
        case None
        with res reg' assms(3) show ?thesis by (simp add: alloc_ok_def shim_ok_def)
      next
        case (Some p)
        have "shim_ok r (record_alloc p sz 0 m fd s2)"
        proof (rule record_ok [where n = ?n])
          show "lx_distinct (table s2)" using assms(3) reg'(1) by (simp add: shim_ok_def)
          show "can_record s2 (Some p)" using assms(5) res Some reg'(1) by (simp add: can_record_def)
          show "holds r ?n s2" by (rule reg'(3) [OF Some])
        qed (auto simp: owns_def split: shim_res.splits)
        with res Some show ?thesis by (simp add: alloc_ok_def)
      qed
    qed
  qed
qed

lemma alloc_or_overflow_ok:
  assumes "real_res r" and "device_ok api" and "shim_ok r s"
    and "alloc_or_overflow api f s sz = (ret, dp, s')" and "can_record s dp"
  shows "alloc_ok r s dp s'"
proof (cases "gb_needs_overflow api s sz")
  case False
  with assms(4) have "device_alloc f s sz = (ret, dp, s')" by (simp add: alloc_or_overflow_def)
  then show ?thesis by (rule device_alloc_ok [OF assms(1,3) _ assms(5)])
next
  case True
  obtain ret1 dp1 s1 where o: "gb_overflow_alloc api s sz = (ret1, dp1, s1)"
    by (cases "gb_overflow_alloc api s sz") force
  show ?thesis
  proof (cases dp1)
    case (Some p)
    with True o assms(4) have "dp = Some p" "s' = s1" by (simp_all add: alloc_or_overflow_def)
    with gb_overflow_alloc_ok [OF assms(1-3) o] Some assms(5) show ?thesis by simp
  next
    case None
    with True o assms(4) have d: "device_alloc f s1 sz = (ret, dp, s')"
      by (simp add: alloc_or_overflow_def)
    have "can_record s None" using assms(5) by (auto simp: can_record_def)
    with gb_overflow_alloc_ok [OF assms(1-3) o] None
    have "shim_ok r s1" "table s1 = table s" by (simp_all add: alloc_ok_def)
    with device_alloc_ok [OF assms(1) _ d] assms(5) show ?thesis
      by (simp add: alloc_ok_def can_record_def)
  qed
qed


lemma alloc_ok_same: "shim_ok r s \<Longrightarrow> alloc_ok r s None s"
  by (simp add: alloc_ok_def)

lemma alloc_hooks_ok:
  assumes "real_res r" and "device_ok api" and "shim_ok r s" and "can_record s dp"
  shows "cuMemAlloc_v2 api s sz = (ret, dp, s') \<Longrightarrow> alloc_ok r s dp s'"
    and "cudaMalloc api s sz = (ret, dp, s') \<Longrightarrow> alloc_ok r s dp s'"
    and "cuMemAllocAsync api s sz st = (ret, dp, s') \<Longrightarrow> alloc_ok r s dp s'"
    and "cudaMallocAsync api s sz st = (ret, dp, s') \<Longrightarrow> alloc_ok r s dp s'"
proof -
  note ok = alloc_or_overflow_ok [OF assms(1-3) _ assms(4)] alloc_ok_same
  show 1: "cuMemAlloc_v2 api s sz = (ret, dp, s') \<Longrightarrow> alloc_ok r s dp s'"
    using assms(3) by (auto simp: cuMemAlloc_v2_def intro: ok split: if_splits option.splits)
  show 2: "cudaMalloc api s sz = (ret, dp, s') \<Longrightarrow> alloc_ok r s dp s'"
    using assms(3) by (auto simp: cudaMalloc_def intro: ok split: if_splits option.splits)
  show "cuMemAllocAsync api s sz st = (ret, dp, s') \<Longrightarrow> alloc_ok r s dp s'"
    using 1 assms(3) by (auto simp: cuMemAllocAsync_def intro: ok split: if_splits option.splits)
  show "cudaMallocAsync api s sz st = (ret, dp, s') \<Longrightarrow> alloc_ok r s dp s'"
    using 2 assms(3) by (auto simp: cudaMallocAsync_def intro: ok split: if_splits option.splits)
qed

section \<open>Free and prefetch keep the balance\<close>

text \<open>Giving back the mapping and the descriptor of an entry that was taken out.\<close>

lemma give_back:
  assumes "real_res r" and "holds r (owns r e) s"
  shows "holds r 0 (let s2 = (if l_mapped e \<noteq> 0
      then do_munmap api (l_mapped e) (l_size e) (do_unregister api (l_mapped e) s) else s)
    in if 0 \<le> l_fd e then do_close api (l_fd e) s2 else s2)"
  using assms
  by (cases r) (auto simp: Let_def owns_def real_res_def intro!: holds_close holds_munmap split: if_splits)

lemma table_give_back:
  "table (let s2 = (if l_mapped e \<noteq> 0
      then do_munmap api (l_mapped e) (l_size e) (do_unregister api (l_mapped e) s) else s)
    in if 0 \<le> l_fd e then do_close api (l_fd e) s2 else s2) = table s"
  by (simp add: Let_def)

lemma forget_buffer_ok:
  assumes "real_res r" and "shim_ok r s" and "p \<noteq> 0"
  shows "shim_ok r (forget_buffer api s p)"
proof (cases "lx_ht_remove (table s) p")
  case (Pair eo t)
  show ?thesis
  proof (cases eo)
    case None
    with Pair have "t = table s" by (auto dest: lx_ht_remove_miss)
    with Pair None assms(2) show ?thesis by (simp add: forget_buffer_def)
  next
    case (Some e)
    with Pair have rm: "lx_ht_remove (table s) p = (Some e, t)" by simp
    have d: "lx_distinct (table s)" using assms(2) by (simp add: shim_ok_def)
    have "lx_distinct t" using lx_ht_remove_hit [OF d assms(3) rm] by simp
    moreover have "holds r (owns r e) (s\<lparr>table := t\<rparr>)"
      using assms(2) lxr.total_remove [OF d assms(3) rm, of "owns r"]
      by (simp add: shim_ok_def holds_def)
    ultimately show ?thesis
      using give_back [OF assms(1), of e "s\<lparr>table := t\<rparr>" api] table_give_back [of e api "s\<lparr>table := t\<rparr>"]
      by (simp add: forget_buffer_def rm shim_ok_def Let_def)
  qed
qed

lemma free_with_ok:
  "real_res r \<Longrightarrow> shim_ok r s \<Longrightarrow> p \<noteq> 0 \<Longrightarrow> shim_ok r (snd (free_with api fo s p))"
  by (simp add: free_with_def forget_buffer_ok Let_def split: option.splits prod.splits)

text \<open>
  A hit of the prefetch lookup leaves the table as it was, but for the buffer identifier,
  and touches nothing but the queue.
\<close>

lemma peek_prefetch_hit:
  assumes "peek_prefetch s p n = Some s1" and "p \<noteq> 0"
  shows "\<exists>i<HT_SIZE. l_ptr (table s i) = p
    \<and> fst (lx_ht_remove (table s) p) = Some (table s i)
    \<and> s1 = s\<lparr>queue := (if l_mapped (table s i) \<noteq> 0
          then lx_enqueue_prefetch (queue s) (l_mapped (table s i)) (min n (l_size (table s i)))
          else queue s),
        table := (table s)(i := (table s i)\<lparr>l_buf_id := - 1\<rparr>)\<rparr>"
proof -
  from assms(1) obtain e t where rm: "lx_ht_remove (table s) p = (Some e, t)"
    and s1: "s1 = s\<lparr>queue := (if l_mapped e \<noteq> 0
          then lx_enqueue_prefetch (queue s) (l_mapped e) (if n < l_size e then n else l_size e)
          else queue s),
        table := snd (lx_ht_insert t p (l_size e) (l_managed e) (- 1) (l_mapped e) (l_fd e))\<rparr>"
    by (auto simp: peek_prefetch_def split: prod.splits option.splits)
  from lx_peek_same_slot [OF rm assms(2)] obtain i where i: "i < HT_SIZE" "table s i = e" "l_ptr e = p"
    "lx_ht_insert t p (l_size e) (l_managed e) (- 1) (l_mapped e) (l_fd e)
      = (True, (table s)(i := e\<lparr>l_buf_id := - 1\<rparr>))" by blast
  have "(if n < l_size e then n else l_size e) = min n (l_size e)" by (auto simp: min_def)
  with s1 i rm show ?thesis by (intro exI [of _ i]) (simp del: fun_upd_apply)
qed

lemma owns_buf_id [simp]: "owns r (e\<lparr>l_buf_id := b\<rparr>) = owns r e"
  by (simp add: owns_def split: shim_res.splits)

lemma total_buf_id:
  assumes "lx_distinct t" and "p \<noteq> 0" and "lx_ht_remove t p = (Some e, t1)"
    and "put_entry t1 (e\<lparr>l_buf_id := b\<rparr>) = (True, t2)"
  shows "lx_distinct t2 \<and> lxr.total (owns r) t2 = lxr.total (owns r) t"
proof -
  from lx_ht_remove_hit [OF assms(1-3)] have
    d: "lx_distinct t1" "l_ptr e = p" "lx_contents t1 p = None" by simp_all
  let ?e = "e\<lparr>l_buf_id := b\<rparr>"
  have k: "l_ptr ?e \<noteq> 0" "lx_contents t1 (l_ptr ?e) = None" using d assms(2) by simp_all
  from put_entry_done [OF d(1) k assms(4)] lxr.total_insert [OF d(1) k assms(4), of "owns r"]
    lxr.total_remove [OF assms(1-3), of "owns r"]
  show ?thesis by simp
qed

lemma peek_prefetch_ok:
  assumes "shim_ok r s" and "p \<noteq> 0" and "peek_prefetch s p n = Some s1"
  shows "shim_ok r s1"
proof -
  from assms(3) obtain e t where rm: "lx_ht_remove (table s) p = (Some e, t)"
    by (auto simp: peek_prefetch_def split: prod.splits option.splits)
  from lx_peek_same_slot [OF rm assms(2)] obtain t2 where
    t2: "lx_ht_insert t p (l_size e) (l_managed e) (- 1) (l_mapped e) (l_fd e) = (True, t2)"
    and e: "l_ptr e = p" by blast
  have tr: "trace s1 = trace s" "table s1 = t2"
    using assms(3) rm t2 by (auto simp: peek_prefetch_def)
  have "lx_distinct (table s)" using assms(1) by (simp add: shim_ok_def)
  from total_buf_id [OF this assms(2) rm, of "- 1" t2 r] t2 e tr assms(1)
  show ?thesis by (simp add: shim_ok_def holds_def)
qed


section \<open>Runs of the hooks\<close>

datatype shim_call =
    Malloc_drv u64 | Malloc_drv_async u64 nat | Malloc_rt u64 | Malloc_rt_async u64 nat
  | Free_drv u64 | Free_rt u64
  | Prefetch_drv u64 u64 int nat | Prefetch_rt u64 u64 int nat

text \<open>The pointer handed out, if any, and the new state.\<close>

fun run_call :: "'c lx_api \<Rightarrow> shim_call \<Rightarrow> 'c lx_shim \<Rightarrow> u64 option \<times> 'c lx_shim" where
  "run_call api (Malloc_drv n) s = snd (cuMemAlloc_v2 api s n)"
| "run_call api (Malloc_drv_async n st) s = snd (cuMemAllocAsync api s n st)"
| "run_call api (Malloc_rt n) s = snd (cudaMalloc api s n)"
| "run_call api (Malloc_rt_async n st) s = snd (cudaMallocAsync api s n st)"
| "run_call api (Free_drv p) s = (None, snd (cuMemFree_v2 api s p))"
| "run_call api (Free_rt p) s = (None, snd (cudaFree api s p))"
| "run_call api (Prefetch_drv p n dev st) s = (None, snd (cuMemPrefetchAsync api s p n dev st))"
| "run_call api (Prefetch_rt p n dev st) s = (None, snd (cudaMemPrefetchAsync api s p n dev st))"

text \<open>
  What is asked of the program and of the CUDA library: a pointer that is handed out is new
  and the table is not full; the null pointer is neither freed nor prefetched.
\<close>

fun call_fits :: "shim_call \<Rightarrow> u64 option \<Rightarrow> 'c lx_shim \<Rightarrow> bool" where
  "call_fits (Free_drv p) dp s = (p \<noteq> 0)"
| "call_fits (Free_rt p) dp s = (p \<noteq> 0)"
| "call_fits (Prefetch_drv p n dev st) dp s = (p \<noteq> 0)"
| "call_fits (Prefetch_rt p n dev st) dp s = (p \<noteq> 0)"
| "call_fits c dp s = can_record s dp"

inductive shim_step :: "'c lx_api \<Rightarrow> 'c lx_shim \<Rightarrow> 'c lx_shim \<Rightarrow> bool" for api where
  hook: "run_call api c s = (dp, s') \<Longrightarrow> call_fits c dp s \<Longrightarrow> shim_step api s s'"

inductive_cases shim_stepE: "shim_step api s s'"

lemma prefetch_hooks_ok:
  assumes "shim_ok r s" and "p \<noteq> 0"
  shows "shim_ok r (snd (cuMemPrefetchAsync api s p n dev st))"
    and "shim_ok r (snd (cudaMemPrefetchAsync api s p n dev st))"
  using assms peek_prefetch_ok [OF assms]
  by (auto simp: cuMemPrefetchAsync_def cudaMemPrefetchAsync_def split: option.splits prod.splits)

lemma run_call_ok:
  assumes "real_res r" and "device_ok api" and "shim_ok r s" and "run_call api c s = (dp, s')"
    and "call_fits c dp s"
  shows "shim_ok r s'"
proof -
  have hook: "shim_ok r s'"
    if "snd (h :: int \<times> u64 option \<times> 'a lx_shim) = (dp, s')"
      "\<And>ret. h = (ret, dp, s') \<Longrightarrow> alloc_ok r s dp s'" for h
    using that by (cases h) (auto simp: alloc_ok_def)
  note alloc = alloc_hooks_ok [OF assms(1-3)]
  show ?thesis
    using assms
    by (cases c) (auto intro: hook alloc prefetch_hooks_ok free_with_ok
      simp: cuMemFree_v2_def cudaFree_def)
qed

text \<open>The mappings and descriptors that the recorded allocations own.\<close>

definition owned_by :: "shim_res \<Rightarrow> lx_table \<Rightarrow> nat" where
  "owned_by r t = (\<Sum>p\<in>dom (lx_contents t). owns r (the (lx_contents t p)))"

lemma owned_by_total: "owned_by r t = lxr.total (owns r) t"
  by (simp add: owned_by_def lxr.total_def)

interpretation lxs: stepping_ledger
    "\<lambda>s. real_res r \<and> device_ok api \<and> shim_ok r s"
    "\<lambda>s. replicate_mset (got r (trace s)) r" "\<lambda>s. replicate_mset (gave r (trace s)) r"
    "\<lambda>s. replicate_mset (owned_by r (table s)) r" "shim_step api"
  for r api
  by unfold_locales
    (auto simp: shim_ok_def holds_def owned_by_total multiset_eq_iff elim!: shim_stepE
      dest: run_call_ok [unfolded shim_ok_def holds_def])



text \<open>A device without free memory and a system that serves every call.\<close>

definition full_gpu :: "unit lx_api" where
  "full_gpu = \<lparr>
     lib_cuMemAlloc_v2 = Some (\<lambda>c n. (CUDA_ERROR_OUT_OF_MEMORY, 0, c)),
     lib_cuMemFree_v2 = Some (\<lambda>c p. (CUDA_SUCCESS, c)), lib_cuMemAllocManaged = None,
     lib_cuMemAllocAsync = None, lib_cudaMalloc = None, lib_cudaMallocAsync = None,
     lib_cudaFree = None, lib_cuMemGetInfo = Some (\<lambda>c. (CUDA_SUCCESS, 0, 0x200000000)),
     lib_cuDeviceTotalMem_v2 = None, lib_nvmlDeviceGetMemoryInfo = None,
     lib_nvmlDeviceGetMemoryInfo_v2 = None,
     lib_cuMemHostRegister = Some (\<lambda>c m n. (CUDA_SUCCESS, c)),
     lib_cuMemHostGetDevicePointer = Some (\<lambda>c m. (CUDA_SUCCESS, m, c)),
     lib_cuMemHostUnregister = Some (\<lambda>c m. c), lib_cuMemPrefetchAsync = None,
     lib_cudaMemPrefetchAsync = None, sys_mmap_anon = (\<lambda>c n. (Some 0x7000, c)),
     sys_mmap_fd = (\<lambda>c n fd. (None, c)), sys_munmap = (\<lambda>c m n. c), sys_open = (\<lambda>c. (3, c)),
     sys_close = (\<lambda>c fd. c), sys_ioctl_alloc = (\<lambda>c n. (None, c)),
     sys_ioctl_pin = (\<lambda>c m n. (Some 4, c))\<rparr>"

definition fresh_shim :: "unit lx_shim" where
  "fresh_shim = \<lparr>ready = True, table = lx_ht_zero, vram_headroom_bytes = 0x40000000,
     gb_virtual_vram_bytes = 0, gb_use_dmabuf = True, gb_debug = False, gb_dev_fd = - 1,
     queue = ring_start \<lparr>lreq_mapped_ptr = 0, lreq_size = 0\<rparr>, world = (), trace = []\<rparr>"

lemma fresh_overflow: "run_call full_gpu (Malloc_drv 0x1000) fresh_shim
    = (Some 0x7000, record_alloc 0x7000 0x1000 0 0x7000 4 (fresh_shim\<lparr>gb_dev_fd := 3,
        trace := [Mapped 0x7000 0x1000, Fd_got 4]\<rparr>))"
  by (simp add: full_gpu_def fresh_shim_def cuMemAlloc_v2_def alloc_or_overflow_def
    gb_needs_overflow_def gb_overflow_alloc_def lx_open_device_def register_mapping_def)

lemma fresh_record: "can_record fresh_shim (Some 0x7000)"
  using HT_SIZE_val lx_ht_zero_wf(3)
  by (auto simp: can_record_def fresh_shim_def lx_ht_zero_def zero_entry_def intro!: exI [of _ 0])



section \<open>The prefetch hooks\<close>

text \<open>
  C32: Both prefetch hooks treat an allocation that the table finds in the same way: they
  report success without calling the CUDA library, queue for a mapped allocation, as long
  as the queue has room, one request of at most the recorded size, and leave every slot of
  the table as it was but for the buffer identifier of the one entry. An allocation that the
  table does not find goes to the CUDA library, whose status is returned.
\<close>

theorem lx_prefetch_hooks:
  assumes "ready s" and "p \<noteq> 0" and "ring_inv (queue s)"
    and "lib_cuMemPrefetchAsync api = Some f" and "lib_cudaMemPrefetchAsync api = Some g"
  shows "case lx_find (table s) p of
      None \<Rightarrow>
        cuMemPrefetchAsync api s p n dev st
          = (case f (world s) p n dev st of (r, c) \<Rightarrow> (r, s\<lparr>world := c\<rparr>))
        \<and> cudaMemPrefetchAsync api s p n dev st
          = (case g (world s) p n dev st of (r, c) \<Rightarrow> (r, s\<lparr>world := c\<rparr>))
    | Some e \<Rightarrow> \<exists>i<HT_SIZE. \<exists>q. table s i = e \<and> l_ptr e = p
        \<and> ring_list q = (if l_mapped e \<noteq> 0 \<and> length (ring_list (queue s)) < 255
            then ring_list (queue s) @ [\<lparr>lreq_mapped_ptr = l_mapped e, lreq_size = min n (l_size e)\<rparr>]
            else ring_list (queue s))
        \<and> (let s' = s\<lparr>queue := q, table := (table s)(i := e\<lparr>l_buf_id := - 1\<rparr>)\<rparr> in
           cuMemPrefetchAsync api s p n dev st = (CUDA_SUCCESS, s')
           \<and> cudaMemPrefetchAsync api s p n dev st = (CUDA_SUCCESS, s'))"
proof (cases "peek_prefetch s p n")
  case None
  then have "lx_find (table s) p = None"
    by (auto simp: peek_prefetch_def lx_find_def split: prod.splits option.splits)
  with None assms show ?thesis
    by (simp add: cuMemPrefetchAsync_def cudaMemPrefetchAsync_def)
next
  case (Some s1)
  from peek_prefetch_hit [OF Some assms(2)] obtain i where i: "i < HT_SIZE" "l_ptr (table s i) = p"
    "lx_find (table s) p = Some (table s i)"
    and s1: "s1 = s\<lparr>queue := (if l_mapped (table s i) \<noteq> 0
          then lx_enqueue_prefetch (queue s) (l_mapped (table s i)) (min n (l_size (table s i)))
          else queue s),
        table := (table s)(i := (table s i)\<lparr>l_buf_id := - 1\<rparr>)\<rparr>"
    by (auto simp: lx_find_def)
  let ?e = "table s i"
  define q where "q = (if l_mapped ?e \<noteq> 0
      then lx_enqueue_prefetch (queue s) (l_mapped ?e) (min n (l_size ?e)) else queue s)"
  have "ring_list q = (if l_mapped ?e \<noteq> 0 \<and> length (ring_list (queue s)) < 255
      then ring_list (queue s) @ [\<lparr>lreq_mapped_ptr = l_mapped ?e, lreq_size = min n (l_size ?e)\<rparr>]
      else ring_list (queue s))"
    using ring.put_room [OF assms(3)] ring.put_full [OF assms(3)]
    by (simp add: q_def lx_enqueue_prefetch_def)
  moreover have "cuMemPrefetchAsync api s p n dev st = (CUDA_SUCCESS, s1)"
    "cudaMemPrefetchAsync api s p n dev st = (CUDA_SUCCESS, s1)"
    using assms Some by (simp_all add: cuMemPrefetchAsync_def cudaMemPrefetchAsync_def)
  ultimately show ?thesis
    unfolding i(3) option.case Let_def using i(1,2) s1 [folded q_def] by blast
qed

section \<open>Overflow allocations and their release\<close>

lemma overflow_pinned:
  assumes "gb_overflow_alloc api s sz = (ret, Some p, s')"
    and "trace s' = trace s @ [Mapped m sz, Fd_got fd]"
  shows "ready s' = ready s \<and> table s' = snd (lx_ht_insert (table s) p sz 0 (- 1) m fd)"
  using assms
  by (auto simp: gb_overflow_alloc_def uvm_alloc_def register_mapping_def Let_def record_alloc_def
      do_munmap_def do_close_def lx_open_device_def split: if_splits option.splits prod.splits)


text \<open>What was inserted last is found, whatever the rest of the table.\<close>

lemma remove_inserted:
  assumes "lx_distinct t" and "l_ptr e \<noteq> 0" and "lx_contents t (l_ptr e) = None"
    and "put_entry t e = (True, t1)"
  shows "\<exists>t2. lx_ht_remove t1 (l_ptr e) = (Some e, t2) \<and> lx_contents t2 = lx_contents t"
proof -
  obtain k where k: "k < HT_SIZE" "\<forall>j<k. l_ptr (t (ht_probe (l_ptr e) j)) \<noteq> 0"
    "t1 = t(ht_probe (l_ptr e) k := e)"
    using lx_ht_insert_True [OF assms(4), unfolded lx_entry_eta] by blast
  let ?i = "ht_probe (l_ptr e) k"
  have d: "lx_distinct t1" and c: "lx_contents t1 = (lx_contents t)(l_ptr e \<mapsto> e)"
    using put_entry_done [OF assms] by simp_all
  have i: "?i < HT_SIZE" "l_ptr (t1 ?i) = l_ptr e" using k(1,3) by simp_all
  have "lx_scan t1 (l_ptr e) = Some (Some ?i)"
    unfolding lx_scan_iff(1) [where t = t1 and i = "?i" and p = "l_ptr e", OF d i assms(2)]
    using k assms(2) by simp
  then have rm: "lx_ht_remove t1 (l_ptr e) = (Some e, t1(?i := zero_entry))"
    using k(3) by (simp add: lx_ht_remove_scan)
  from lx_ht_remove_hit [OF d assms(2) rm] c assms(3)
  have "lx_contents (t1(?i := zero_entry)) = lx_contents t" by (auto simp: fun_eq_iff)
  with rm show ?thesis by blast
qed

text \<open>
  C22: What an overflow allocation takes from the system for a new pointer, a mapping and a
  DMA-BUF descriptor, the free of that pointer gives back, the mapping with its address and
  length before the descriptor, and the table records the same allocations as before.
\<close>

theorem lx_overflow_roundtrip:
  assumes "ready s" and "lx_distinct (table s)" and "can_record s (Some p)"
    and "gb_overflow_alloc api s sz = (ret, Some p, s1)"
    and "trace s1 = trace s @ [Mapped m sz, Fd_got fd]" and "m \<noteq> 0" and "0 \<le> fd"
    and "lib_cuMemFree_v2 api = Some f" and "cuMemFree_v2 api s1 p = (ret', s2)"
  shows "trace s2 = trace s @ [Mapped m sz, Fd_got fd, Unmapped m sz, Fd_closed fd]
    \<and> lx_contents (table s2) = lx_contents (table s)"
proof -
  let ?e = "\<lparr>l_ptr = p, l_size = sz, l_managed = 0, l_buf_id = - 1, l_mapped = m, l_fd = fd\<rparr>"
  from assms(3) obtain i where i: "i < HT_SIZE" "l_ptr (table s i) = 0"
    and p: "p \<noteq> 0" "lx_contents (table s) p = None" by (auto simp: can_record_def)
  from overflow_pinned [OF assms(4,5)] have s1: "ready s1" "table s1 = snd (put_entry (table s) ?e)"
    using assms(1) by simp_all
  moreover have "fst (put_entry (table s) ?e)"
    by (rule insert_room [where t = "table s" and i = i, OF i])
  ultimately have "put_entry (table s) ?e = (True, table s1)"
    by (cases "put_entry (table s) ?e") simp
  from remove_inserted [OF assms(2) _ _ this] p obtain t2 where
    t2: "lx_ht_remove (table s1) p = (Some ?e, t2)" "lx_contents t2 = lx_contents (table s)" by auto
  from assms(9) s1(1) t2(1) assms(6-8)
  have "trace s2 = trace s1 @ [Unmapped m sz, Fd_closed fd] \<and> table s2 = t2"
    by (auto simp: cuMemFree_v2_def free_with_def forget_buffer_def do_munmap_def do_close_def
        do_unregister_def Let_def split: prod.splits option.splits)
  with t2(2) assms(5) show ?thesis by simp
qed

lemma lx_overflow_roundtrip_witness:
  "trace (snd (cuMemFree_v2 full_gpu (snd (run_call full_gpu (Malloc_drv 0x1000) fresh_shim)) 0x7000))
    = [Mapped 0x7000 0x1000, Fd_got 4, Unmapped 0x7000 0x1000, Fd_closed 4]"
proof -
  let ?s1 = "snd (run_call full_gpu (Malloc_drv 0x1000) fresh_shim)"
  have f: "ready fresh_shim" "lx_distinct (table fresh_shim)" "trace fresh_shim = []"
    using lx_ht_zero_wf(1) by (simp_all add: fresh_shim_def)
  have g: "gb_overflow_alloc full_gpu fresh_shim 0x1000 = (CUDA_SUCCESS, Some 0x7000, ?s1)"
    unfolding fresh_overflow
    by (simp add: full_gpu_def fresh_shim_def gb_overflow_alloc_def lx_open_device_def
        register_mapping_def)
  have t: "trace ?s1 = trace fresh_shim @ [Mapped 0x7000 0x1000, Fd_got 4]"
    unfolding fresh_overflow by (simp add: record_alloc_def fresh_shim_def)
  have l: "lib_cuMemFree_v2 full_gpu = Some (\<lambda>c p. (CUDA_SUCCESS, c))" by (simp add: full_gpu_def)
  obtain ret' s2 where "cuMemFree_v2 full_gpu ?s1 0x7000 = (ret', s2)" by force
  with lx_overflow_roundtrip [OF f(1,2) fresh_record g t _ _ l this] f(3) show ?thesis by simp
qed

text \<open>The host-backed allocation of the witness above, found by the prefetch hooks.\<close>

definition prefetch_gpu :: "unit lx_api" where
  "prefetch_gpu = full_gpu\<lparr>lib_cuMemPrefetchAsync := Some (\<lambda>c p n d st. (1, c)),
     lib_cudaMemPrefetchAsync := Some (\<lambda>c p n d st. (2, c))\<rparr>"

lemma lx_prefetch_hooks_witness:
  "ring_list (queue (snd (cuMemPrefetchAsync prefetch_gpu
      (snd (run_call full_gpu (Malloc_drv 0x1000) fresh_shim)) 0x7000 8 0 0)))
    = [\<lparr>lreq_mapped_ptr = 0x7000, lreq_size = 8\<rparr>]"
proof -
  let ?s = "snd (run_call full_gpu (Malloc_drv 0x1000) fresh_shim)"
  let ?e = "\<lparr>l_ptr = 0x7000, l_size = 0x1000, l_managed = 0, l_buf_id = - 1, l_mapped = 0x7000, l_fd = 4\<rparr>"
  have s: "ready ?s" "queue ?s = ring_start \<lparr>lreq_mapped_ptr = 0, lreq_size = 0\<rparr>"
    "table ?s = snd (put_entry lx_ht_zero ?e)"
    unfolding fresh_overflow by (simp_all add: record_alloc_def fresh_shim_def)
  have z: "(0::nat) < HT_SIZE" "l_ptr (lx_ht_zero 0) = 0"
    by (simp_all add: HT_SIZE_val lx_ht_zero_def zero_entry_def)
  have "fst (put_entry lx_ht_zero ?e)" by (rule insert_room [where t = lx_ht_zero and i = 0, OF z])
  with s(3) have "put_entry lx_ht_zero ?e = (True, table ?s)"
    by (cases "put_entry lx_ht_zero ?e") simp
  from remove_inserted [OF lx_ht_zero_wf(1) _ _ this] lx_ht_zero_wf(3)
  have "lx_find (table ?s) 0x7000 = Some ?e" by (auto simp: lx_find_def)
  moreover have l: "lib_cuMemPrefetchAsync prefetch_gpu = Some (\<lambda>c p n d st. (1, c))"
    "lib_cudaMemPrefetchAsync prefetch_gpu = Some (\<lambda>c p n d st. (2, c))" by (simp_all add: prefetch_gpu_def)
  moreover have "ring_inv (queue ?s)" "length (ring_list (queue ?s)) < 255" using s(2) by simp_all
  ultimately show ?thesis
    using lx_prefetch_hooks [OF s(1) _ _ l, where p = "0x7000" and n = 8 and dev = 0 and st = 0] s(2)
    by (auto simp: Let_def min_def)
qed


section \<open>Two paths that break the balance\<close>

text \<open>Unused slots are zeroed: the table starts so, and a removal zeroes the slot it empties.\<close>

definition zeroed :: "lx_table \<Rightarrow> bool" where
  "zeroed t \<longleftrightarrow> (\<forall>i<HT_SIZE. l_ptr (t i) = 0 \<longrightarrow> t i = zero_entry)"

lemma zeroed_put: "zeroed t \<Longrightarrow> p \<noteq> 0 \<Longrightarrow> zeroed (snd (lx_ht_insert t p sz m b mp fd))"
  by (auto simp: zeroed_def lx_ht_insert_eq split: option.splits)

lemma zeroed_remove: "zeroed t \<Longrightarrow> zeroed (snd (lx_ht_remove t p))"
  by (auto simp: zeroed_def lx_ht_remove_scan split: option.splits)

lemma remove_null:
  assumes "zeroed t" and "i < HT_SIZE" and "l_ptr (t i) = 0"
  shows "lx_ht_remove t 0 = (Some zero_entry, t)"
proof -
  have "lx_scan t 0 \<noteq> None" "lx_scan t 0 \<noteq> Some None"
  proof -
    have "(let idx = ht_slot (ht_hash 0) (ht_dist 0 i) in if l_ptr (t idx) = 0 then Some (Some idx)
        else if l_ptr (t idx) = 0 then Some None else None) = Some (Some i)"
      using assms(2,3) by simp
    moreover have "ht_dist 0 i < HT_SIZE" by (rule ht_dist_bound [OF assms(2)])
    ultimately show "lx_scan t 0 \<noteq> None"
      unfolding lx_scan_def for_until_None_iff by (metis add_0 option.distinct(1))
    show "lx_scan t 0 \<noteq> Some None"
      unfolding lx_scan_def for_until_Some_iff by (auto simp: Let_def split: if_splits)
  qed
  then obtain j where j: "lx_scan t 0 = Some (Some j)" by auto
  from lx_scan_SomeD [OF j] assms(1) have "t j = zero_entry" by (simp add: zeroed_def)
  with j show ?thesis by (simp add: lx_ht_remove_scan fun_upd_idem)
qed

text \<open>
  C33: The null pointer, whose free is a no-op in CUDA, matches the first unused slot of the
  table, whose zeroed descriptor field names descriptor 0: as long as the table is not full,
  each free of the null pointer through the Linux hooks closes the standard input of the
  process, or whatever has been opened in its place.
\<close>

theorem lx_null_free_closes_fd0:
  assumes "ready s" and "zeroed (table s)" and "i < HT_SIZE" and "l_ptr (table s i) = 0"
    and "lib_cudaFree api = Some f" and "lib_cuMemFree_v2 api = Some g"
  shows "trace (snd (cudaFree api s 0)) = trace s @ [Fd_closed 0]
    \<and> trace (snd (cuMemFree_v2 api s 0)) = trace s @ [Fd_closed 0]
    \<and> table (snd (cudaFree api s 0)) = table s \<and> table (snd (cuMemFree_v2 api s 0)) = table s"
proof -
  have "forget_buffer api s 0 = do_close api 0 s"
    using remove_null [OF assms(2-4)] by (simp add: forget_buffer_def zero_entry_def)
  with assms(1,5,6) show ?thesis
    by (simp add: cudaFree_def cuMemFree_v2_def free_with_def do_close_def split: prod.splits)
qed

lemma lx_null_free_closes_fd0_witness:
  "trace (snd (cudaFree (full_gpu\<lparr>lib_cudaFree := Some (\<lambda>c p. (CUDA_SUCCESS, c))\<rparr>) fresh_shim 0))
    = [Fd_closed 0]"
proof -
  have f: "ready fresh_shim" "zeroed (table fresh_shim)" "l_ptr (table fresh_shim 0) = 0"
    "trace fresh_shim = []" "(0::nat) < HT_SIZE"
    by (simp_all add: fresh_shim_def zeroed_def lx_ht_zero_def zero_entry_def HT_SIZE_val)
  let ?api = "full_gpu\<lparr>lib_cudaFree := Some (\<lambda>c p. (CUDA_SUCCESS, c))\<rparr>"
  have l: "lib_cudaFree ?api = Some (\<lambda>c p. (CUDA_SUCCESS, c))"
    "lib_cuMemFree_v2 ?api = Some (\<lambda>c p. (CUDA_SUCCESS, c))" by (simp_all add: full_gpu_def)
  from lx_null_free_closes_fd0 [OF f(1,2,5,3) l] f(4) show ?thesis by simp
qed

text \<open>
  When the device cannot be opened and managed memory is not available, an overflow
  allocation fails and leaves its anonymous mapping behind: no table entry owns it.
\<close>

lemma lx_open_failure_leaks:
  assumes "gb_use_dmabuf s" and "lib_cuMemHostRegister api \<noteq> None" and "gb_dev_fd s < 0"
    and "lib_cuMemAllocManaged api = None" and "sys_mmap_anon api (world s) sz = (Some m, c)"
    and "fst (sys_open api c) < 0"
  shows "\<exists>s1. gb_overflow_alloc api s sz = (CUDA_ERROR_OUT_OF_MEMORY, None, s1)
    \<and> trace s1 = trace s @ [Mapped m sz] \<and> table s1 = table s"
  using assms
  by (cases "sys_open api c") (auto simp: gb_overflow_alloc_def lx_open_device_def uvm_alloc_def)

section \<open>Symbol lookup and memory reports\<close>

text \<open>
  While the shim resolves its own entry points, before it is ready or with \<^verbatim>\<open>RTLD_NEXT\<close>, a
  lookup never gives it one of its own functions.
\<close>

lemma lx_dlsym_own: "\<not> initialized \<or> h = RTLD_NEXT \<Longrightarrow> lx_dlsym real initialized h n \<noteq> Some (Shim_fn m)"
  by (auto simp: lx_dlsym_def split: option.splits)

lemma lx_dlsym_hooked:
  "n \<in> set hook_names \<Longrightarrow> lx_dlsym real True (Handle k) (Some n) = Some (Shim_fn n)"
  by (simp add: lx_dlsym_def gb_get_hook_def)

text \<open>
  The shim becomes ready exactly when the driver library is there and exports the core
  allocation and free; then the hooks of these two find their real functions.
\<close>

lemma lx_init_ready:
  assumes "\<not> ready s" and "lx_shim_init getenv dlopen_lib s = (entry, s1)"
  shows "ready s1 \<longleftrightarrow> (\<exists>l. dlopen_lib ''libcuda.so.1'' = Some l
      \<and> l ''cuMemAlloc_v2'' \<noteq> None \<and> l ''cuMemFree_v2'' \<noteq> None)"
    and "ready s1 \<Longrightarrow> entry ''cuMemAlloc_v2'' \<noteq> None \<and> entry ''cuMemFree_v2'' \<noteq> None"
  using assms
  by (auto simp: lx_shim_init_def driver_names_def resolve_driver_def Let_def
      split: option.splits if_splits)

text \<open>The memory in use, total less free, is what the driver reports, whatever the wrap-around.\<close>

lemma lx_used_kept:
  "cuMemGetInfo_v2 api s = (ret, Some (fr, tot)) \<Longrightarrow> lib_cuMemGetInfo api = Some f \<Longrightarrow>
    f (world s) = (r, rfr, rtot) \<Longrightarrow> tot - fr = rtot - rfr"
  by (auto simp: cuMemGetInfo_v2_def split: if_splits)

end
