(* ===== verification/Checked_Monad.thy ===== *)
theory Checked_Monad
  imports GB_Prelude
begin

text \<open>
  Code that may throw, over a state: each step returns an error or a value, with the state it
  leaves behind in both cases, as a C++ exception leaves the objects it passes. The triples
  have one postcondition for the normal end and one for the exception, and a rule for each
  way to combine steps; a proof about a function follows the function's text.
\<close>

section \<open>Steps\<close>

type_synonym ('s, 'e, 'a) chk = "'s \<Rightarrow> ('e + 'a) \<times> 's"

definition chk_ret :: "'a \<Rightarrow> ('s, 'e, 'a) chk" where
  "chk_ret x s = (Inr x, s)"

definition chk_throw :: "'e \<Rightarrow> ('s, 'e, 'a) chk" where
  "chk_throw e s = (Inl e, s)"

definition chk_get :: "('s, 'e, 's) chk" where
  "chk_get s = (Inr s, s)"

definition chk_upd :: "('s \<Rightarrow> 's) \<Rightarrow> ('s, 'e, unit) chk" where
  "chk_upd f s = (Inr (), f s)"

definition chk_bind :: "('s, 'e, 'a) chk \<Rightarrow> ('a \<Rightarrow> ('s, 'e, 'b) chk) \<Rightarrow> ('s, 'e, 'b) chk" where
  "chk_bind m k s = (case m s of (Inl e, s') \<Rightarrow> (Inl e, s') | (Inr x, s') \<Rightarrow> k x s')"

text \<open>\<^verbatim>\<open>catch(...) {f; throw;}\<close>\<close>

definition chk_rethrow :: "('s, 'e, 'a) chk \<Rightarrow> ('s \<Rightarrow> 's) \<Rightarrow> ('s, 'e, 'a) chk" where
  "chk_rethrow m f s = (case m s of (Inl e, s') \<Rightarrow> (Inl e, f s') | (Inr x, s') \<Rightarrow> (Inr x, s'))"

text \<open>A loop over a list with local variables.\<close>

primrec chk_each :: "('x \<Rightarrow> 'b \<Rightarrow> ('s, 'e, 'b) chk) \<Rightarrow> 'x list \<Rightarrow> 'b \<Rightarrow> ('s, 'e, 'b) chk" where
  "chk_each f [] b = chk_ret b"
| "chk_each f (x # xs) b = chk_bind (f x b) (chk_each f xs)"

text \<open>Running steps one after the other.\<close>

lemma chk_run_get: "chk_bind chk_get k s = k s s"
  by (simp add: chk_bind_def chk_get_def)

lemma chk_run_upd: "chk_bind (chk_upd f) k s = k () (f s)"
  by (simp add: chk_bind_def chk_upd_def)

lemma chk_run_ret: "chk_bind (chk_ret x) k s = k x s"
  by (simp add: chk_bind_def chk_ret_def)

lemma chk_run_known: "m s = (Inr x, t) \<Longrightarrow> chk_bind m k s = k x t"
  by (simp add: chk_bind_def)

lemmas chk_run = chk_run_get chk_run_upd chk_run_ret

section \<open>Triples\<close>

definition triple ::
  "('s \<Rightarrow> bool) \<Rightarrow> ('s, 'e, 'a) chk \<Rightarrow> ('a \<Rightarrow> 's \<Rightarrow> bool) \<Rightarrow> ('e \<Rightarrow> 's \<Rightarrow> bool) \<Rightarrow> bool" where
  "triple P m Q R \<longleftrightarrow> (\<forall>s. P s \<longrightarrow> (case m s of (Inl e, s') \<Rightarrow> R e s' | (Inr x, s') \<Rightarrow> Q x s'))"

lemma triple_useR: "triple P m Q R \<Longrightarrow> P s \<Longrightarrow> m s = (Inr x, s') \<Longrightarrow> Q x s'"
  by (drule (1) triple_def [THEN iffD1, rule_format]) simp

lemma triple_useL: "triple P m Q R \<Longrightarrow> P s \<Longrightarrow> m s = (Inl e, s') \<Longrightarrow> R e s'"
  by (drule (1) triple_def [THEN iffD1, rule_format]) simp

lemma triple_pre: "triple P' m Q R \<Longrightarrow> (\<And>s. P s \<Longrightarrow> P' s) \<Longrightarrow> triple P m Q R"
  by (simp add: triple_def)

lemma triple_post:
  "triple P m Q' R' \<Longrightarrow> (\<And>x s. Q' x s \<Longrightarrow> Q x s) \<Longrightarrow> (\<And>e s. R' e s \<Longrightarrow> R e s) \<Longrightarrow> triple P m Q R"
  unfolding triple_def by (fastforce split: prod.splits sum.splits)

lemma triple_ret: "(\<And>s. P s \<Longrightarrow> Q x s) \<Longrightarrow> triple P (chk_ret x) Q R"
  by (simp add: triple_def chk_ret_def)

lemma triple_throw: "(\<And>s. P s \<Longrightarrow> R e s) \<Longrightarrow> triple P (chk_throw e) Q R"
  by (simp add: triple_def chk_throw_def)

lemma triple_upd: "(\<And>s. P s \<Longrightarrow> Q () (f s)) \<Longrightarrow> triple P (chk_upd f) Q R"
  by (simp add: triple_def chk_upd_def)

lemma triple_bind:
  "triple P m Q' R \<Longrightarrow> (\<And>x. triple (Q' x) (k x) Q R) \<Longrightarrow> triple P (chk_bind m k) Q R"
  unfolding triple_def chk_bind_def by (fastforce split: prod.splits sum.splits)

text \<open>Reading the state fixes it: the continuation starts in the state that was read.\<close>

lemma triple_get:
  "(\<And>t. P t \<Longrightarrow> triple (\<lambda>s. s = t) (k t) Q R) \<Longrightarrow> triple P (chk_bind chk_get k) Q R"
  unfolding triple_def chk_bind_def chk_get_def by simp

lemma triple_rethrow:
  "triple P m Q R' \<Longrightarrow> (\<And>e s. R' e s \<Longrightarrow> R e (f s)) \<Longrightarrow> triple P (chk_rethrow m f) Q R"
  unfolding triple_def chk_rethrow_def by (fastforce split: prod.splits sum.splits)

lemma triple_if: "(c \<Longrightarrow> triple P m Q R) \<Longrightarrow> (\<not> c \<Longrightarrow> triple P n Q R) \<Longrightarrow> triple P (if c then m else n) Q R"
  by simp

lemma triple_pure: "(A \<Longrightarrow> triple P m Q R) \<Longrightarrow> triple (\<lambda>s. A \<and> P s) m Q R"
  unfolding triple_def by (intro allI impI, elim conjE) simp

lemma triple_ex: "(\<And>x. triple (P x) m Q R) \<Longrightarrow> triple (\<lambda>s. \<exists>x. P x s) m Q R"
  unfolding triple_def by (intro allI impI, elim exE) simp

text \<open>The invariant of a loop sees what is done and what is left.\<close>

lemma triple_each:
  assumes "\<And>pre x rest b. xs = pre @ x # rest \<Longrightarrow> triple (I pre b) (f x b) (I (pre @ [x])) R"
  shows "triple (I [] b) (chk_each f xs b) (I xs) R"
proof -
  have "triple (I pre b) (chk_each f rest b) (I xs) R" if "xs = pre @ rest" for pre rest b
    using that
  proof (induction rest arbitrary: pre b)
    case Nil
    then show ?case by (auto intro: triple_ret)
  next
    case (Cons x rest)
    show ?case
      unfolding chk_each.simps
    proof (rule triple_bind)
      show "triple (I pre b) (f x b) (I (pre @ [x])) R" by (rule assms [OF Cons.prems])
      show "triple (I (pre @ [x]) b') (chk_each f rest b') (I xs) R" for b'
        using Cons.IH [of "pre @ [x]" b'] Cons.prems by simp
    qed
  qed
  from this [of "[]" xs b] show ?thesis by simp
qed

end
