(* ===== verification/File_Tensor.thy ===== *)
theory File_Tensor
  imports Checked_Monad
begin

text \<open>
  The file tensor, \<^verbatim>\<open>windows-port/storage/file_tensor.cpp\<close>: a file of any size behind one range
  of device addresses, of which a bounded number of chunks is resident. Physical chunks
  (slots) are mapped into the range on demand, filled from the file through host buffers
  (lanes) and the transfer stream, and taken from pages that are not needed.

  A call of CUDA or Windows may fail each time it is made: the environment gives the status
  of the \<open>n\<close>-th call. Memory is modelled: the stream is a queue of copies that read the host
  buffers when they run, which is some time between their submission and the next
  synchronisation; before every call the device runs as many of them as the environment
  says. A copy to an address without a writable mapping, and the removal of a mapping while
  recorded consumers may still read, set \<open>ft_fault\<close>. The physical chunk of a slot, the host
  buffer and the events of a lane are named by the index of the slot or lane.
\<close>

section \<open>State\<close>

type_synonym content = "nat \<Rightarrow> 8 word"

datatype ft_error =
    Cuda_error string int | Windows_error string | Runtime_error string | Out_of_range string

datatype ft_access = No_access | Read_only | Read_write

datatype ft_res =
    R_file | R_address | R_stream | R_consumer | R_chunk nat | R_map nat | R_host nat
  | R_done nat | R_io nat

datatype ft_act = Take ft_res | Give ft_res | Cancel_io nat

text \<open>
  The operations of the transfer stream: a copy of the first bytes of a host buffer to the
  chunk mapped at an address, a fill with zeros of a part of it, the record of a lane's
  event, and a wait for an external consumer.
\<close>

datatype ft_op = Copy u64 nat nat | Clear u64 nat nat | Mark nat | Wait_consumer

record ft_slot =
  sl_created :: bool          \<comment> \<open>\<^verbatim>\<open>handle\<close>\<close>
  sl_page :: u64
  sl_used :: u64
  sl_mapped :: bool

record ft_lane =
  ln_host :: bool
  ln_done :: bool
  ln_event :: bool            \<comment> \<open>\<^verbatim>\<open>io.hEvent\<close>\<close>
  ln_offset :: u32            \<comment> \<open>\<^verbatim>\<open>io.Offset\<close>\<close>
  ln_offset_high :: u32
  ln_page :: u64
  ln_used :: u64
  ln_wanted :: u32
  ln_pending :: bool

record ft_stats =
  st_file_bytes :: u64
  st_hits :: u64
  st_misses :: u64
  st_evictions :: u64
  st_host_hits :: u64
  st_uploaded_bytes :: u64
  st_resident_limit :: u64
  st_staging_bytes :: u64
  st_chunk_bytes :: u64
  st_host_cache_bytes :: u64
  st_compressed :: bool

record ft =
  ft_file :: bool
  ft_context :: nat           \<comment> \<open>0 is no context\<close>
  ft_owner :: nat
  ft_address :: u64
  ft_queue :: bool
  ft_consumer_done :: bool
  ft_reserved :: u64
  ft_chunk :: u64
  ft_length :: u64
  ft_clock :: u64
  ft_poisoned :: bool
  ft_counters :: ft_stats
  ft_slots :: "ft_slot list"
  ft_lanes :: "ft_lane list"
  ft_cache :: bool
  ft_tick :: nat              \<comment> \<open>from here on: the outside world\<close>
  ft_stream :: "ft_op list"
  ft_vmap :: "u64 \<Rightarrow> (nat \<times> ft_access) option"
  ft_vram :: "nat \<Rightarrow> content"
  ft_hostmem :: "nat \<Rightarrow> content"
  ft_fault :: bool
  ft_ledger :: "ft_act list"

record ft_env =
  status :: "nat \<Rightarrow> int"            \<comment> \<open>of the \<open>n\<close>-th CUDA call\<close>
  win_ok :: "nat \<Rightarrow> bool"           \<comment> \<open>of the \<open>n\<close>-th Windows call\<close>
  progress :: "nat \<Rightarrow> nat"
  scratch :: "nat \<Rightarrow> content"       \<comment> \<open>a buffer while a read is under way\<close>
  io_got :: "nat \<Rightarrow> u32"
  ctx_now :: "nat \<Rightarrow> nat"
  thread_now :: "nat \<Rightarrow> nat"
  attribute :: "nat \<Rightarrow> int"
  address_ret :: u64
  granularity :: u64
  comp_granted :: "nat \<Rightarrow> bool"
  file_byte :: "nat \<Rightarrow> 8 word"
  file_length :: int

type_synonym 'a ft_step = "(ft, ft_error, 'a) chk"

definition UINT64_MAX :: u64 where "UINT64_MAX = - 1"

definition blank_slot :: ft_slot where
  "blank_slot = \<lparr>sl_created = False, sl_page = UINT64_MAX, sl_used = 0, sl_mapped = False\<rparr>"

definition blank_lane :: ft_lane where
  "blank_lane = \<lparr>ln_host = False, ln_done = False, ln_event = False, ln_offset = 0,
     ln_offset_high = 0, ln_page = UINT64_MAX, ln_used = 0, ln_wanted = 0, ln_pending = False\<rparr>"

definition zero_stats :: ft_stats where
  "zero_stats = \<lparr>st_file_bytes = 0, st_hits = 0, st_misses = 0, st_evictions = 0, st_host_hits = 0,
     st_uploaded_bytes = 0, st_resident_limit = 0, st_staging_bytes = 0, st_chunk_bytes = 0,
     st_host_cache_bytes = 0, st_compressed = False\<rparr>"

definition blank_ft :: "nat \<Rightarrow> ft" where
  "blank_ft thread = \<lparr>ft_file = False, ft_context = 0, ft_owner = thread, ft_address = 0,
     ft_queue = False, ft_consumer_done = False, ft_reserved = 0, ft_chunk = 0, ft_length = 0,
     ft_clock = 0, ft_poisoned = False, ft_counters = zero_stats, ft_slots = [], ft_lanes = [],
     ft_cache = False, ft_tick = 0, ft_stream = [], ft_vmap = Map.empty,
     ft_vram = (\<lambda>_ _. 0), ft_hostmem = (\<lambda>_ _. 0), ft_fault = False, ft_ledger = []\<rparr>"

section \<open>The device\<close>

primrec exec_op :: "ft_op \<Rightarrow> ft \<Rightarrow> ft" where
  "exec_op (Copy a l n) s = (case ft_vmap s a of
     Some (i, Read_write) \<Rightarrow> s\<lparr>ft_vram := (ft_vram s)(i := (\<lambda>k. if k < n then ft_hostmem s l k
        else ft_vram s i k))\<rparr>
   | _ \<Rightarrow> s\<lparr>ft_fault := True\<rparr>)"
| "exec_op (Clear a m n) s = (case ft_vmap s a of
     Some (i, Read_write) \<Rightarrow> s\<lparr>ft_vram := (ft_vram s)(i := (\<lambda>k. if m \<le> k \<and> k < m + n then 0
        else ft_vram s i k))\<rparr>
   | _ \<Rightarrow> s\<lparr>ft_fault := True\<rparr>)"
| "exec_op (Mark l) s = s"
| "exec_op Wait_consumer s = s"

text \<open>The device runs the first \<open>n\<close> operations of the queue.\<close>

primrec run_ops :: "nat \<Rightarrow> ft \<Rightarrow> ft" where
  "run_ops 0 s = s"
| "run_ops (Suc n) s = (case ft_stream s of
     [] \<Rightarrow> s | x # xs \<Rightarrow> run_ops n (exec_op x (s\<lparr>ft_stream := xs\<rparr>)))"

definition run_all :: "ft \<Rightarrow> ft" where
  "run_all s = run_ops (length (ft_stream s)) s"

text \<open>Everything up to the last record of a lane's event.\<close>

definition run_mark :: "nat \<Rightarrow> ft \<Rightarrow> ft" where
  "run_mark l s = run_ops (length (dropWhile (\<lambda>x. x \<noteq> Mark l) (rev (ft_stream s)))) s"

definition enqueue :: "ft_op \<Rightarrow> ft \<Rightarrow> ft" where
  "enqueue x s = s\<lparr>ft_stream := ft_stream s @ [x]\<rparr>"

definition noted :: "ft_act \<Rightarrow> ft \<Rightarrow> ft" where
  "noted a s = s\<lparr>ft_ledger := ft_ledger s @ [a]\<rparr>"

section \<open>Calls\<close>

definition advance :: "ft_env \<Rightarrow> ft \<Rightarrow> ft" where
  "advance E s = (run_ops (progress E (ft_tick s)) s)\<lparr>ft_tick := Suc (ft_tick s)\<rparr>"

text \<open>\<^verbatim>\<open>check(call, op)\<close>; a call that fails has no effect but the passing of time.\<close>

definition cu :: "ft_env \<Rightarrow> string \<Rightarrow> (ft \<Rightarrow> ft) \<Rightarrow> unit ft_step" where
  "cu E op eff s = (let s1 = advance E s; r = status E (ft_tick s) in
     if r \<noteq> 0 then (Inl (Cuda_error op r), s1) else (Inr (), eff s1))"

text \<open>\<^verbatim>\<open>wincheck(call, op)\<close>\<close>

definition win :: "ft_env \<Rightarrow> string \<Rightarrow> (ft \<Rightarrow> ft) \<Rightarrow> unit ft_step" where
  "win E op eff s = (let s1 = advance E s in
     if \<not> win_ok E (ft_tick s) then (Inl (Windows_error op), s1) else (Inr (), eff s1))"

definition throw_if :: "bool \<Rightarrow> ft_error \<Rightarrow> unit ft_step" where
  "throw_if c e = (if c then chk_throw e else chk_ret ())"

section \<open>Helpers of the implementation\<close>

definition set_slot :: "nat \<Rightarrow> (ft_slot \<Rightarrow> ft_slot) \<Rightarrow> ft \<Rightarrow> ft" where
  "set_slot i f s = s\<lparr>ft_slots := (ft_slots s)[i := f (ft_slots s ! i)]\<rparr>"

definition set_lane :: "nat \<Rightarrow> (ft_lane \<Rightarrow> ft_lane) \<Rightarrow> ft \<Rightarrow> ft" where
  "set_lane l f s = s\<lparr>ft_lanes := (ft_lanes s)[l := f (ft_lanes s ! l)]\<rparr>"

definition count_stat :: "(ft_stats \<Rightarrow> ft_stats) \<Rightarrow> ft \<Rightarrow> ft" where
  "count_stat f s = s\<lparr>ft_counters := f (ft_counters s)\<rparr>"

definition page_addr :: "ft \<Rightarrow> u64 \<Rightarrow> u64" where
  "page_addr s page = ft_address s + page * ft_chunk s"

definition ensure_owner :: "ft_env \<Rightarrow> unit ft_step" where
  "ensure_owner E =
     chk_bind (cu E ''current context'' id) (\<lambda>_.
     chk_bind chk_get (\<lambda>s.
     chk_bind (throw_if (ft_owner s \<noteq> thread_now E (ft_tick s) \<or> ctx_now E (ft_tick s) \<noteq> ft_context s)
       (Runtime_error ''owner thread'')) (\<lambda>_.
     throw_if (ft_poisoned s) (Runtime_error ''unusable''))))"

fun find_slot :: "ft_slot list \<Rightarrow> u64 \<Rightarrow> nat \<Rightarrow> nat option" where
  "find_slot [] page i = None"
| "find_slot (x # xs) page i =
     (if sl_mapped x \<and> sl_page x = page then Some i else find_slot xs page (Suc i))"

definition set_access :: "ft_env \<Rightarrow> u64 \<Rightarrow> ft_access \<Rightarrow> unit ft_step" where
  "set_access E page acc = cu E ''set access'' (\<lambda>s.
     s\<lparr>ft_vmap := (ft_vmap s)(page_addr s page :=
        map_option (\<lambda>(i, _). (i, acc)) (ft_vmap s (page_addr s page)))\<rparr>)"


section \<open>Construction and destruction\<close>

text \<open>
  The constructor up to the address range: capabilities, the file, the chunk size, the
  number of slots.
\<close>

definition open_file :: "ft_env \<Rightarrow> bool \<Rightarrow> unit ft_step" where
  "open_file E compression =
     chk_bind (cu E ''current context'' id) (\<lambda>_.
     chk_bind (chk_upd (\<lambda>s. s\<lparr>ft_context := ctx_now E (ft_tick s)\<rparr>)) (\<lambda>_.
     chk_bind chk_get (\<lambda>s.
     chk_bind (throw_if (ft_context s = 0) (Runtime_error ''no context'')) (\<lambda>_.
     chk_bind (cu E ''context device'' id) (\<lambda>_.
     chk_bind (cu E ''VMM capability'' id) (\<lambda>_.
     chk_bind chk_get (\<lambda>s.
     chk_bind (throw_if (attribute E (ft_tick s) = 0) (Runtime_error ''no virtual memory management'')) (\<lambda>_.
     chk_bind (if compression then
         chk_bind (cu E ''compression capability'' id) (\<lambda>_.
         chk_bind chk_get (\<lambda>s.
         throw_if (attribute E (ft_tick s) = 0) (Runtime_error ''no compression'')))
       else chk_ret ()) (\<lambda>_.
     chk_bind (win E ''open tensor file'' (\<lambda>s. noted (Take R_file) (s\<lparr>ft_file := True\<rparr>))) (\<lambda>_.
     chk_bind (win E ''file size'' id) (\<lambda>_.
     chk_bind (throw_if (file_length E \<le> 0) (Runtime_error ''Tensor file is empty'')) (\<lambda>_.
     chk_upd (\<lambda>s. s\<lparr>ft_length := word_of_int (file_length E)\<rparr>)))))))))))))"

definition size_slots :: "ft_env \<Rightarrow> u64 \<Rightarrow> u64 \<Rightarrow> unit ft_step" where
  "size_slots E budget chunk =
     chk_bind (cu E ''allocation granularity'' id) (\<lambda>_.
     chk_bind (throw_if (chunk = 0 \<or> chunk mod granularity E \<noteq> 0 \<or> 0xFFFFFFFF < chunk \<or> budget < chunk)
       (Runtime_error ''chunk size'')) (\<lambda>_.
     chk_bind chk_get (\<lambda>s.
     chk_bind (throw_if (- 1 - (chunk - 1) < ft_length s) (Runtime_error ''address range'')) (\<lambda>_.
     chk_upd (\<lambda>s.
       let total = (ft_length s + chunk - 1) div chunk * chunk;
           count = min (budget div chunk) (total div chunk) in
       s\<lparr>ft_chunk := chunk, ft_reserved := total,
         ft_slots := replicate (unat count) blank_slot\<rparr>)))))"

definition create_slot :: "ft_env \<Rightarrow> bool \<Rightarrow> nat \<Rightarrow> unit ft_step" where
  "create_slot E compression i =
     chk_bind (cu E ''create physical chunk''
       (\<lambda>s. noted (Take (R_chunk i)) (set_slot i (\<lambda>x. x\<lparr>sl_created := True\<rparr>) s))) (\<lambda>_.
     if compression then
       chk_bind (cu E ''actual allocation properties'' id) (\<lambda>_.
       chk_bind chk_get (\<lambda>s.
       throw_if (\<not> comp_granted E (ft_tick s)) (Runtime_error ''compression not granted'')))
     else chk_ret ())"

definition size_lanes :: "u64 \<Rightarrow> u64 \<Rightarrow> ft \<Rightarrow> ft" where
  "size_lanes chunk host_budget s =
     (let c = (chunk \<le> host_budget) in
      s\<lparr>ft_cache := c, ft_lanes := replicate
        (if c then unat (min (host_budget div chunk) (ft_reserved s div chunk)) else 2) blank_lane\<rparr>)"

definition create_lane :: "ft_env \<Rightarrow> nat \<Rightarrow> unit ft_step" where
  "create_lane E l =
     chk_bind (cu E ''allocate pinned staging''
       (\<lambda>s. noted (Take (R_host l)) (set_lane l (\<lambda>x. x\<lparr>ln_host := True\<rparr>) s))) (\<lambda>_.
     chk_bind (cu E ''create staging fence''
       (\<lambda>s. noted (Take (R_done l)) (set_lane l (\<lambda>x. x\<lparr>ln_done := True\<rparr>) s))) (\<lambda>_.
     chk_bind (cu E ''initialize staging fence'' (enqueue (Mark l))) (\<lambda>_.
     win E ''create file read event''
       (\<lambda>s. noted (Take (R_io l)) (set_lane l (\<lambda>x. x\<lparr>ln_event := True\<rparr>) s)))))"

definition ft_body :: "ft_env \<Rightarrow> u64 \<Rightarrow> u64 \<Rightarrow> bool \<Rightarrow> u64 \<Rightarrow> unit ft_step" where
  "ft_body E budget chunk compression host_budget =
     chk_bind (open_file E compression) (\<lambda>_.
     chk_bind (size_slots E budget chunk) (\<lambda>_.
     chk_bind (cu E ''reserve virtual address''
       (\<lambda>s. noted (Take R_address) (s\<lparr>ft_address := address_ret E\<rparr>))) (\<lambda>_.
     chk_bind (cu E ''create transfer/compute stream''
       (\<lambda>s. noted (Take R_stream) (s\<lparr>ft_queue := True\<rparr>))) (\<lambda>_.
     chk_bind (cu E ''create consumer fence''
       (\<lambda>s. noted (Take R_consumer) (s\<lparr>ft_consumer_done := True\<rparr>))) (\<lambda>_.
     chk_bind chk_get (\<lambda>s.
     chk_bind (chk_each (\<lambda>i _. create_slot E compression i) [0..<length (ft_slots s)] ()) (\<lambda>_.
     chk_bind (chk_upd (size_lanes chunk host_budget)) (\<lambda>_.
     chk_bind chk_get (\<lambda>s.
     chk_bind (chk_each (\<lambda>l _. create_lane E l) [0..<length (ft_lanes s)] ()) (\<lambda>_.
     chk_upd (\<lambda>s. count_stat (\<lambda>c. c\<lparr>
       st_resident_limit := of_nat (length (ft_slots s)) * chunk,
       st_staging_bytes := (if ft_cache s then 0 else 2 * chunk),
       st_host_cache_bytes := (if ft_cache s then of_nat (length (ft_lanes s)) * chunk else 0),
       st_chunk_bytes := chunk, st_compressed := compression\<rparr>) s)))))))))))"

text \<open>What the destructor gives back in its context, in the order of its calls.\<close>

definition device_gives :: "ft \<Rightarrow> ft_act list" where
  "device_gives s =
     concat (map (\<lambda>i. (if sl_mapped (ft_slots s ! i) then [Give (R_map i)] else [])
       @ (if sl_created (ft_slots s ! i) then [Give (R_chunk i)] else [])) [0..<length (ft_slots s)])
     @ (if ft_address s \<noteq> 0 then [Give R_address] else [])
     @ concat (map (\<lambda>l. (if ln_done (ft_lanes s ! l) then [Give (R_done l)] else [])
       @ (if ln_host (ft_lanes s ! l) then [Give (R_host l)] else [])) [0..<length (ft_lanes s)])
     @ (if ft_consumer_done s then [Give R_consumer] else [])
     @ (if ft_queue s then [Give R_stream] else [])"

definition ft_destroy :: "ft_env \<Rightarrow> ft \<Rightarrow> ft" where
  "ft_destroy E s =
     (let cancels = map Cancel_io (filter (\<lambda>l. ln_pending (ft_lanes s ! l)) [0..<length (ft_lanes s)]);
          s1 = s\<lparr>ft_ledger := ft_ledger s @ cancels\<rparr>;
          pushed = (ft_context s1 \<noteq> 0 \<and> status E (ft_tick s1) = 0);
          s2 = (if pushed then
              let s' = (if ft_queue s1 then run_all s1 else s1)
              in s'\<lparr>ft_ledger := ft_ledger s' @ device_gives s'\<rparr> else s1)
      in s2\<lparr>ft_ledger := ft_ledger s2
           @ concat (map (\<lambda>l. if ln_event (ft_lanes s2 ! l) then [Give (R_io l)] else []) [0..<length (ft_lanes s2)])
           @ (if ft_file s2 then [Give R_file] else [])\<rparr>)"

text \<open>A constructor that throws destroys the implementation object it had begun to fill.\<close>

definition ft_construct ::
  "ft_env \<Rightarrow> nat \<Rightarrow> u64 \<Rightarrow> u64 \<Rightarrow> bool \<Rightarrow> u64 \<Rightarrow> (ft_error + unit) \<times> ft" where
  "ft_construct E thread budget chunk compression host_budget =
     chk_rethrow (ft_body E budget chunk compression host_budget) (ft_destroy E) (blank_ft thread)"

section \<open>Requests\<close>

type_synonym span = "u64 \<times> u64"

text \<open>The pages of a span are added to the request, unless there are more than slots.\<close>

fun add_pages :: "nat \<Rightarrow> u64 list \<Rightarrow> u64 list \<Rightarrow> ft_error + u64 list" where
  "add_pages n [] acc = Inr acc"
| "add_pages n (p # ps) acc =
     (let acc' = (if p \<in> set acc then acc else acc @ [p]) in
      if n < length acc' then Inl (Out_of_range ''union'') else add_pages n ps acc')"

definition span_pages :: "u64 \<Rightarrow> span \<Rightarrow> u64 list" where
  "span_pages chunk sp = (case sp of (offset, bytes) \<Rightarrow>
     let first = offset div chunk; last = (offset + bytes - 1) div chunk
     in map (\<lambda>k. first + of_nat k) [0..<unat (last - first + 1)])"

fun want_pages :: "u64 \<Rightarrow> u64 \<Rightarrow> nat \<Rightarrow> span list \<Rightarrow> u64 list \<Rightarrow> ft_error + u64 list" where
  "want_pages len chunk n [] acc = Inr acc"
| "want_pages len chunk n ((offset, bytes) # sps) acc =
     (if bytes = 0 \<or> len \<le> offset \<or> len - offset < bytes then Inl (Out_of_range ''span'')
      else
        let first = offset div chunk; last = (offset + bytes - 1) div chunk in
        if of_nat n < last - first + 1 then Inl (Out_of_range ''budget'')
        else case add_pages n (span_pages chunk (offset, bytes)) acc of
          Inl e \<Rightarrow> Inl e | Inr acc' \<Rightarrow> want_pages len chunk n sps acc')"

text \<open>A resident page is touched; the others are collected.\<close>

definition touch :: "u64 \<Rightarrow> u64 list \<Rightarrow> u64 list ft_step" where
  "touch page missing = chk_bind chk_get (\<lambda>s.
     case find_slot (ft_slots s) page 0 of
       Some i \<Rightarrow> chk_bind (chk_upd (\<lambda>s. count_stat (\<lambda>c. c\<lparr>st_hits := st_hits c + 1\<rparr>)
          (set_slot i (\<lambda>x. x\<lparr>sl_used := ft_clock s + 1\<rparr>) (s\<lparr>ft_clock := ft_clock s + 1\<rparr>))))
          (\<lambda>_. chk_ret missing)
     | None \<Rightarrow> chk_ret (missing @ [page]))"

text \<open>The first free slot, or the least recently used one whose page is not required.\<close>

fun pick_slot :: "u64 list \<Rightarrow> ft_slot list \<Rightarrow> nat \<Rightarrow> (nat \<times> u64) option \<Rightarrow> nat option" where
  "pick_slot req [] i best = map_option fst best"
| "pick_slot req (x # xs) i best =
     (if \<not> sl_mapped x then Some i
      else if sl_page x \<notin> set req then
        pick_slot req xs (Suc i)
          (case best of None \<Rightarrow> Some (i, sl_used x)
           | Some (j, u) \<Rightarrow> if sl_used x < u then Some (i, sl_used x) else best)
      else pick_slot req xs (Suc i) best)"

fun find_lane :: "ft_lane list \<Rightarrow> u64 \<Rightarrow> nat \<Rightarrow> nat option" where
  "find_lane [] page i = None"
| "find_lane (x # xs) page i = (if ln_page x = page then Some i else find_lane xs page (Suc i))"

fun pick_lane :: "nat list \<Rightarrow> ft_lane list \<Rightarrow> nat \<Rightarrow> (nat \<times> u64) option \<Rightarrow> nat option" where
  "pick_lane busy [] i best = map_option fst best"
| "pick_lane busy (x # xs) i best = pick_lane busy xs (Suc i)
     (if i \<notin> set busy \<and> (case best of None \<Rightarrow> True | Some (j, u) \<Rightarrow> ln_used x < u)
      then Some (i, ln_used x) else best)"

text \<open>A batch entry is a page, the lane with its data, and whether a read is under way.\<close>

type_synonym batch = "(u64 \<times> nat \<times> bool) list"

definition unmap_slot :: "nat \<Rightarrow> ft \<Rightarrow> ft" where
  "unmap_slot i s =
     count_stat (\<lambda>c. c\<lparr>st_evictions := st_evictions c + 1\<rparr>)
       (set_slot i (\<lambda>x. x\<lparr>sl_mapped := False\<rparr>)
         (noted (Give (R_map i))
           (s\<lparr>ft_vmap := (ft_vmap s)(page_addr s (sl_page (ft_slots s ! i)) := None),
              ft_fault := (ft_fault s \<or> Wait_consumer \<in> set (ft_stream s))\<rparr>)))"

definition map_slot :: "nat \<Rightarrow> u64 \<Rightarrow> ft \<Rightarrow> ft" where
  "map_slot i page s =
     set_slot i (\<lambda>x. x\<lparr>sl_page := page, sl_mapped := True, sl_used := ft_clock s + 1\<rparr>)
       (noted (Take (R_map i))
         (s\<lparr>ft_vmap := (ft_vmap s)(page_addr s page \<mapsto> (i, No_access)), ft_clock := ft_clock s + 1\<rparr>))"

definition take_slot :: "ft_env \<Rightarrow> u64 list \<Rightarrow> u64 \<Rightarrow> unit ft_step" where
  "take_slot E req page = chk_bind chk_get (\<lambda>s.
     case pick_slot req (ft_slots s) 0 None of
       None \<Rightarrow> chk_throw (Runtime_error ''No evictable residency slot'')
     | Some i \<Rightarrow>
       chk_bind (if sl_mapped (ft_slots s ! i) then cu E ''evict mapping'' (unmap_slot i) else chk_ret ()) (\<lambda>_.
       chk_bind (cu E ''map physical chunk'' (map_slot i page)) (\<lambda>_.
       set_access E page Read_write)))"

definition prepare_read :: "nat \<Rightarrow> u64 \<Rightarrow> ft \<Rightarrow> ft" where
  "prepare_read l page s = (let offset = page * ft_chunk s in
     set_lane l (\<lambda>x. x\<lparr>ln_page := UINT64_MAX, ln_offset := ucast offset,
       ln_offset_high := ucast (drop_bit 32 offset),
       ln_wanted := ucast (min (ft_chunk s) (ft_length s - offset))\<rparr>) s)"

text \<open>From its start to its completion a read leaves anything in the buffer.\<close>

definition start_read :: "ft_env \<Rightarrow> nat \<Rightarrow> ft \<Rightarrow> ft" where
  "start_read E l s = set_lane l (\<lambda>x. x\<lparr>ln_pending := True\<rparr>)
     (s\<lparr>ft_hostmem := (ft_hostmem s)(l := scratch E (ft_tick s))\<rparr>)"

definition take_lane :: "ft_env \<Rightarrow> u64 \<Rightarrow> batch \<Rightarrow> (nat \<times> bool) ft_step" where
  "take_lane E page batch = chk_bind chk_get (\<lambda>s.
     let cached = (if ft_cache s then find_lane (ft_lanes s) page 0 else None) in
     case (case cached of Some l \<Rightarrow> Some l
           | None \<Rightarrow> pick_lane (map (\<lambda>(_, l, _). l) batch) (ft_lanes s) 0 None) of
       None \<Rightarrow> chk_throw (Runtime_error ''No file read lane available'')
     | Some l \<Rightarrow>
       chk_bind (cu E ''wait host buffer reuse'' (\<lambda>s.
         set_lane l (\<lambda>x. x\<lparr>ln_used := ft_clock s + 1\<rparr>) ((run_mark l s)\<lparr>ft_clock := ft_clock s + 1\<rparr>))) (\<lambda>_.
       if cached \<noteq> None then
         chk_bind (chk_upd (count_stat (\<lambda>c. c\<lparr>st_host_hits := st_host_hits c + 1\<rparr>))) (\<lambda>_. chk_ret (l, True))
       else
         chk_bind (chk_upd (prepare_read l page)) (\<lambda>_.
         chk_bind (win E ''start tensor read'' (start_read E l)) (\<lambda>_. chk_ret (l, False)))))"

definition complete_read :: "ft_env \<Rightarrow> nat \<Rightarrow> ft \<Rightarrow> ft" where
  "complete_read E l s =
     (let x = ft_lanes s ! l;
          offset = push_bit 32 (ucast (ln_offset_high x) :: u64) OR ucast (ln_offset x);
          got = unat (io_got E (ft_tick s)) in
      set_lane l (\<lambda>x. x\<lparr>ln_pending := False\<rparr>)
        (s\<lparr>ft_hostmem := (ft_hostmem s)(l := (\<lambda>k. if k < got then file_byte E (unat offset + k)
           else ft_hostmem s l k))\<rparr>))"

definition await_read :: "ft_env \<Rightarrow> u64 \<Rightarrow> nat \<Rightarrow> unit ft_step" where
  "await_read E page l =
     chk_bind (win E ''complete tensor read'' (complete_read E l)) (\<lambda>_.
     chk_bind chk_get (\<lambda>s.
     let got = io_got E (ft_tick s) in
     chk_bind (throw_if (got \<noteq> ln_wanted (ft_lanes s ! l)) (Runtime_error ''Short tensor file read'')) (\<lambda>_.
     chk_upd (\<lambda>s. count_stat (\<lambda>c. c\<lparr>st_file_bytes := st_file_bytes c + ucast got\<rparr>)
       (set_lane l (\<lambda>x. x\<lparr>ln_page := page\<rparr>) s)))))"

definition upload :: "ft_env \<Rightarrow> u64 \<Rightarrow> nat \<Rightarrow> unit ft_step" where
  "upload E page l = chk_bind chk_get (\<lambda>s.
     let wanted = (ucast (ln_wanted (ft_lanes s ! l)) :: u64); base = page_addr s page in
     chk_bind (cu E ''copy file chunk to CUDA'' (enqueue (Copy base l (unat wanted)))) (\<lambda>_.
     chk_bind (if wanted < ft_chunk s
       then cu E ''clear final chunk padding'' (enqueue (Clear base (unat wanted) (unat (ft_chunk s - wanted))))
       else chk_ret ()) (\<lambda>_.
     cu E ''record staging fence'' (\<lambda>s.
       count_stat (\<lambda>c. c\<lparr>st_uploaded_bytes := st_uploaded_bytes c + wanted\<rparr>) (enqueue (Mark l) s)))))"

definition finish :: "ft_env \<Rightarrow> batch \<Rightarrow> unit ft_step" where
  "finish E batch = chk_each (\<lambda>(page, l, read) _.
     chk_bind (if read then await_read E page l else chk_ret ()) (\<lambda>_. upload E page l)) batch ()"

definition load_page :: "ft_env \<Rightarrow> u64 list \<Rightarrow> u64 \<Rightarrow> batch \<Rightarrow> batch ft_step" where
  "load_page E req page batch =
     chk_bind (take_slot E req page) (\<lambda>_.
     chk_bind (take_lane E page batch) (\<lambda>(l, hit).
     chk_bind (chk_upd (count_stat (\<lambda>c. c\<lparr>st_misses := st_misses c + 1\<rparr>))) (\<lambda>_.
     chk_bind chk_get (\<lambda>s.
     let batch' = batch @ [(page, l, \<not> hit)] in
     if length batch' = min 2 (length (ft_lanes s))
     then chk_bind (finish E batch') (\<lambda>_. chk_ret []) else chk_ret batch'))))"

definition load_missing :: "ft_env \<Rightarrow> u64 list \<Rightarrow> u64 list \<Rightarrow> unit ft_step" where
  "load_missing E req missing =
     chk_bind (cu E ''finish previous consumers'' run_all) (\<lambda>_.
     chk_bind (chk_each (load_page E req) missing []) (\<lambda>batch.
     chk_bind (finish E batch) (\<lambda>_.
     chk_bind (cu E ''finish file transfers'' run_all) (\<lambda>_.
     chk_each (\<lambda>page _. set_access E page Read_only) missing ()))))"

definition poison :: "ft \<Rightarrow> ft" where
  "poison s = s\<lparr>ft_poisoned := True\<rparr>"

definition acquire_many :: "ft_env \<Rightarrow> span list \<Rightarrow> unit ft_step" where
  "acquire_many E spans =
     chk_bind (ensure_owner E) (\<lambda>_.
     chk_bind chk_get (\<lambda>s.
     case want_pages (ft_length s) (ft_chunk s) (length (ft_slots s)) spans [] of
       Inl e \<Rightarrow> chk_throw e
     | Inr pages \<Rightarrow>
       chk_bind (chk_each touch pages []) (\<lambda>missing.
       if missing = [] then chk_ret () else chk_rethrow (load_missing E pages missing) poison)))"

definition acquire :: "ft_env \<Rightarrow> u64 \<Rightarrow> u64 \<Rightarrow> u64 ft_step" where
  "acquire E offset bytes =
     chk_bind (acquire_many E [(offset, bytes)]) (\<lambda>_.
     chk_bind chk_get (\<lambda>s. chk_ret (ft_address s + offset)))"

definition record_use :: "ft_env \<Rightarrow> unit ft_step" where
  "record_use E =
     chk_bind (ensure_owner E) (\<lambda>_.
     chk_rethrow
       (chk_bind (cu E ''record external consumer'' id) (\<lambda>_.
        cu E ''order residency after consumer'' (enqueue Wait_consumer))) poison)"

end
