(* ===== verification/File_Tensor_Stream.thy ===== *)
theory File_Tensor_Stream
  imports File_Tensor
begin

text \<open>
  The transfer stream of a file tensor. The device runs queued operations whenever it likes,
  so nothing useful is stable in its memory but what the memory will hold once the queue has
  run: \<open>settled\<close>. Progress of the device does not change it, an operation that is queued acts
  on it at once, and it does not see changes of mappings and buffers that no queued
  operation uses. The fences say that a host buffer has no queued reader once its event has
  been waited for.
\<close>

section \<open>One operation\<close>

primrec op_target :: "ft_op \<Rightarrow> u64 option" where
  "op_target (Copy a l n) = Some a"
| "op_target (Clear a m n) = Some a"
| "op_target (Mark l) = None"
| "op_target Wait_consumer = None"

primrec op_source :: "ft_op \<Rightarrow> nat option" where
  "op_source (Copy a l n) = Some l"
| "op_source (Clear a m n) = None"
| "op_source (Mark l) = None"
| "op_source Wait_consumer = None"

text \<open>The bytes that an operation leaves in the chunk it targets.\<close>

primrec op_bytes :: "(nat \<Rightarrow> content) \<Rightarrow> ft_op \<Rightarrow> content \<Rightarrow> content" where
  "op_bytes hm (Copy a l n) c = (\<lambda>k. if k < n then hm l k else c k)"
| "op_bytes hm (Clear a m n) c = (\<lambda>k. if m \<le> k \<and> k < m + n then 0 else c k)"
| "op_bytes hm (Mark l) c = c"
| "op_bytes hm Wait_consumer c = c"

definition writable :: "(u64 \<Rightarrow> (nat \<times> ft_access) option) \<Rightarrow> u64 \<Rightarrow> nat option" where
  "writable vm a = (case vm a of Some (i, Read_write) \<Rightarrow> Some i | _ \<Rightarrow> None)"

lemma writable_iff: "writable vm a = Some i \<longleftrightarrow> vm a = Some (i, Read_write)"
  by (auto simp: writable_def split: option.splits ft_access.splits)

definition op_slot :: "(u64 \<Rightarrow> (nat \<times> ft_access) option) \<Rightarrow> ft_op \<Rightarrow> nat option" where
  "op_slot vm x = (case op_target x of None \<Rightarrow> None | Some a \<Rightarrow> writable vm a)"

definition apply_op ::
  "(u64 \<Rightarrow> (nat \<times> ft_access) option) \<Rightarrow> (nat \<Rightarrow> content) \<Rightarrow> ft_op \<Rightarrow> (nat \<Rightarrow> content) \<Rightarrow> nat \<Rightarrow> content" where
  "apply_op vm hm x v = (case op_slot vm x of None \<Rightarrow> v | Some i \<Rightarrow> v(i := op_bytes hm x (v i)))"

definition op_faults :: "(u64 \<Rightarrow> (nat \<times> ft_access) option) \<Rightarrow> ft_op \<Rightarrow> bool" where
  "op_faults vm x \<longleftrightarrow> op_target x \<noteq> None \<and> op_slot vm x = None"

lemma exec_op_closed:
  "exec_op x s = s\<lparr>ft_vram := apply_op (ft_vmap s) (ft_hostmem s) x (ft_vram s),
     ft_fault := ft_fault s \<or> op_faults (ft_vmap s) x\<rparr>"
  by (cases x) (auto simp: apply_op_def op_slot_def op_faults_def writable_def
      split: option.splits ft_access.splits)

section \<open>The queue\<close>

definition settle ::
  "(u64 \<Rightarrow> (nat \<times> ft_access) option) \<Rightarrow> (nat \<Rightarrow> content) \<Rightarrow> ft_op list \<Rightarrow> (nat \<Rightarrow> content) \<Rightarrow> nat \<Rightarrow> content" where
  "settle vm hm = fold (apply_op vm hm)"

definition settled :: "ft \<Rightarrow> nat \<Rightarrow> content" where
  "settled s = settle (ft_vmap s) (ft_hostmem s) (ft_stream s) (ft_vram s)"

lemma run_ops_closed:
  "run_ops n s = s\<lparr>ft_stream := drop n (ft_stream s),
     ft_vram := settle (ft_vmap s) (ft_hostmem s) (take n (ft_stream s)) (ft_vram s),
     ft_fault := ft_fault s \<or> (\<exists>x \<in> set (take n (ft_stream s)). op_faults (ft_vmap s) x)\<rparr>"
proof (induction n arbitrary: s)
  case 0
  show ?case by (simp add: settle_def)
next
  case (Suc n)
  show ?case
    by (cases "ft_stream s") (simp_all add: Suc.IH exec_op_closed settle_def disj_assoc)
qed

lemma settled_run_ops [simp]: "settled (run_ops n s) = settled s"
proof -
  have "settle vm hm (drop n xs) (settle vm hm (take n xs) v) = settle vm hm xs v" for vm hm xs v
    unfolding settle_def by (metis append_take_drop_id fold_append o_apply)
  then show ?thesis by (simp add: settled_def run_ops_closed)
qed

lemma settled_idle: "ft_stream s = [] \<Longrightarrow> settled s = ft_vram s"
  by (simp add: settled_def settle_def)

lemma settled_enqueue:
  "settled (enqueue x s) = apply_op (ft_vmap s) (ft_hostmem s) x (settled s)"
  by (simp add: settled_def settle_def enqueue_def)

text \<open>Only the mappings and the buffers that queued operations name matter.\<close>

lemma settle_cong:
  assumes "\<And>x a. x \<in> set xs \<Longrightarrow> op_target x = Some a \<Longrightarrow> writable vm a = writable vm' a"
    and "\<And>x l. x \<in> set xs \<Longrightarrow> op_source x = Some l \<Longrightarrow> hm l = hm' l"
  shows "settle vm hm xs v = settle vm' hm' xs v"
proof -
  have "apply_op vm hm x w = apply_op vm' hm' x w" if "x \<in> set xs" for x w
  proof -
    have "op_slot vm x = op_slot vm' x"
      using assms(1) [OF that] by (simp add: op_slot_def split: option.splits)
    moreover have "op_bytes hm x c = op_bytes hm' x c" for c
      using assms(2) [OF that] by (cases x) (simp_all cong: if_cong)
    ultimately show ?thesis by (simp add: apply_op_def split: option.splits)
  qed
  then show ?thesis unfolding settle_def by (intro fold_cong refl ext) simp_all
qed

text \<open>A chunk that no queued operation writes has settled.\<close>

lemma settle_untouched:
  assumes "\<And>x. x \<in> set xs \<Longrightarrow> op_slot vm x \<noteq> Some i"
  shows "settle vm hm xs v i = v i"
  using assms unfolding settle_def
proof (induction xs arbitrary: v)
  case (Cons x xs)
  have "apply_op vm hm x v i = v i"
    using Cons.prems [of x] by (auto simp: apply_op_def split: option.splits)
  with Cons show ?case by simp
qed simp

section \<open>Fences\<close>

text \<open>Every queued read of a host buffer is followed by a record of the buffer's event.\<close>

primrec fenced :: "ft_op list \<Rightarrow> nat \<Rightarrow> bool" where
  "fenced [] l = True"
| "fenced (x # xs) l = ((op_source x = Some l \<longrightarrow> Mark l \<in> set xs) \<and> fenced xs l)"

lemma fenced_drop: "fenced xs l \<Longrightarrow> fenced (drop n xs) l"
  by (induction xs arbitrary: n) (auto simp: drop_Cons split: nat.splits)

lemma fenced_append: "fenced xs l \<Longrightarrow> fenced ys l \<Longrightarrow> fenced (xs @ ys) l"
  by (induction xs) auto

lemma fenced_mark: "fenced (xs @ [Mark l]) l"
  by (induction xs) auto

lemma fenced_unread: "fenced xs l \<Longrightarrow> Mark l \<notin> set xs \<Longrightarrow> x \<in> set xs \<Longrightarrow> op_source x \<noteq> Some l"
  by (induction xs) auto

lemma drop_last_mark: "Mark l \<notin> set (drop (length (dropWhile (\<lambda>x. x \<noteq> Mark l) (rev xs))) xs)"
proof -
  let ?d = "dropWhile (\<lambda>x. x \<noteq> Mark l) (rev xs)"
  have "takeWhile (\<lambda>x. x \<noteq> Mark l) (rev xs) @ ?d = rev xs" by simp
  then have "xs = rev ?d @ rev (takeWhile (\<lambda>x. x \<noteq> Mark l) (rev xs))"
    by (metis rev_append rev_rev_ident)
  then have "drop (length ?d) xs = rev (takeWhile (\<lambda>x. x \<noteq> Mark l) (rev xs))"
    by (metis append_eq_conv_conj length_rev)
  then show ?thesis by (auto dest: set_takeWhileD)
qed

lemma run_mark_unread:
  assumes "fenced (ft_stream s) l" "x \<in> set (ft_stream (run_mark l s))"
  shows "op_source x \<noteq> Some l"
  using fenced_unread [OF fenced_drop [OF assms(1)] drop_last_mark] assms(2)
  by (simp add: run_mark_def run_ops_closed)

end
