(* ===== verification/File_Tensor_Inv.thy ===== *)
theory File_Tensor_Inv
  imports File_Tensor_Stream
begin

text \<open>
  The invariant of a file tensor while pages are loaded, and what each primitive effect does
  to it. \<open>acc\<close> is the access of the mapped pages, \<open>ex\<close> the pages whose bytes are not queued
  yet, \<open>keep\<close> and \<open>todo\<close> pages that are and are not mapped, \<open>batch\<close> the reads and uploads
  that are open, \<open>X\<close> the lanes whose upload has not been fenced yet.
\<close>

section \<open>Pages\<close>

definition in_file :: "ft \<Rightarrow> u64 \<Rightarrow> bool" where
  "in_file s p \<longleftrightarrow> unat p * unat (ft_chunk s) < unat (ft_length s)"

definition page_bytes :: "ft_env \<Rightarrow> ft \<Rightarrow> u64 \<Rightarrow> content" where
  "page_bytes E s p k = (let b = unat p * unat (ft_chunk s) + k in
     if b < unat (ft_length s) then file_byte E b else 0)"

definition wanted_of :: "ft \<Rightarrow> u64 \<Rightarrow> u64" where
  "wanted_of s p = min (ft_chunk s) (ft_length s - p * ft_chunk s)"

definition resident :: "ft \<Rightarrow> u64 set" where
  "resident s = sl_page ` {x \<in> set (ft_slots s). sl_mapped x}"

lemma resident_iff:
  "p \<in> resident s \<longleftrightarrow> (\<exists>i < length (ft_slots s). sl_mapped (ft_slots s ! i) \<and> sl_page (ft_slots s ! i) = p)"
  by (auto simp: resident_def in_set_conv_nth image_iff)

lemma unat_page_offset: "in_file s p \<Longrightarrow> unat (p * ft_chunk s) = unat p * unat (ft_chunk s)"
  using unat_u64_less [of "ft_length s"] by (simp add: in_file_def unat_word_ariths)

lemma in_file_chunk:
  assumes "in_file s p" "in_file s q" "p * ft_chunk s = q * ft_chunk s" "0 < ft_chunk s"
  shows "p = q"
proof -
  have "unat p * unat (ft_chunk s) = unat q * unat (ft_chunk s)"
    by (metis assms(1-3) unat_page_offset)
  then show ?thesis using assms(4) by (simp add: word_less_nat word_unat_eq_iff)
qed

lemma page_addr_inj:
  "in_file s p \<Longrightarrow> in_file s q \<Longrightarrow> page_addr s p = page_addr s q \<Longrightarrow> 0 < ft_chunk s \<Longrightarrow> p = q"
  by (rule in_file_chunk) (simp_all add: page_addr_def)

lemma not_in_file_max: "0 < ft_chunk s \<Longrightarrow> \<not> in_file s UINT64_MAX"
proof
  assume "0 < ft_chunk s" "in_file s UINT64_MAX"
  moreover have "unat UINT64_MAX = 2 ^ 64 - 1" by (simp add: UINT64_MAX_def unsigned_minus_1_eq_mask mask_eq_exp_minus_1)
  moreover have "unat (ft_length s) < 2 ^ 64" by (rule unat_u64_less)
  moreover have "0 < unat (ft_chunk s)" using \<open>0 < ft_chunk s\<close> by (simp add: word_less_nat_alt)
  ultimately have "(2 ^ 64 - 1) * unat (ft_chunk s) < 2 ^ 64 - 1" "1 \<le> unat (ft_chunk s)"
    unfolding in_file_def by simp_all
  then show False by (metis leD mult.right_neutral mult_le_mono2)
qed

lemma unat_wanted_of:
  "in_file s p \<Longrightarrow> unat (wanted_of s p) = min (unat (ft_chunk s)) (unat (ft_length s) - unat p * unat (ft_chunk s))"
proof -
  assume p: "in_file s p"
  have "p * ft_chunk s \<le> ft_length s"
    using p unat_page_offset [OF p] by (simp add: word_le_nat_alt in_file_def)
  then have "unat (ft_length s - p * ft_chunk s) = unat (ft_length s) - unat p * unat (ft_chunk s)"
    by (simp add: unat_sub unat_page_offset [OF p])
  then show ?thesis by (simp add: wanted_of_def min_def word_le_nat_alt)
qed

text \<open>The two halves of the file offset of an overlapped read.\<close>

lemma offset_halves:
  "push_bit 32 (ucast (ucast (drop_bit 32 w) :: u32) :: u64) OR ucast (ucast w :: u32) = (w :: u64)"
  by (rule bit_word_eqI) (auto simp: bit_simps)

lemma ucast_wanted:
  "ft_chunk s \<le> 0xFFFFFFFF \<Longrightarrow> ucast (ucast (wanted_of s p) :: u32) = wanted_of s p"
proof -
  assume "ft_chunk s \<le> 0xFFFFFFFF"
  then have "wanted_of s p \<le> 0xFFFFFFFF" by (simp add: wanted_of_def min.coboundedI1)
  then have "unat (wanted_of s p) < 2 ^ 32" by (simp add: word_le_nat_alt)
  then have "unat (ucast (ucast (wanted_of s p) :: u32) :: u64) = unat (wanted_of s p)"
    by (simp add: unat_ucast_up unat_ucast_down)
  then show ?thesis by (simp only: word_unat_eq_iff)
qed

section \<open>The invariant\<close>

definition same_shape :: "ft \<Rightarrow> ft \<Rightarrow> bool" where
  "same_shape z s \<longleftrightarrow> ft_address s = ft_address z \<and> ft_chunk s = ft_chunk z \<and> ft_length s = ft_length z
     \<and> length (ft_slots s) = length (ft_slots z) \<and> length (ft_lanes s) = length (ft_lanes z)
     \<and> ft_cache s = ft_cache z \<and> ft_context s = ft_context z \<and> ft_owner s = ft_owner z
     \<and> ft_poisoned s = ft_poisoned z"

definition sized :: "ft \<Rightarrow> bool" where
  "sized s \<longleftrightarrow> 0 < ft_chunk s \<and> ft_chunk s \<le> 0xFFFFFFFF \<and> (ft_length s = 0 \<or> ft_lanes s \<noteq> []) \<and>
     length (ft_slots s) < 2 ^ 64"

definition mapping_ok :: "(u64 \<Rightarrow> ft_access) \<Rightarrow> ft \<Rightarrow> bool" where
  "mapping_ok acc s \<longleftrightarrow>
     (\<forall>i < length (ft_slots s). sl_mapped (ft_slots s ! i) \<longrightarrow>
        in_file s (sl_page (ft_slots s ! i)) \<and>
        ft_vmap s (page_addr s (sl_page (ft_slots s ! i))) = Some (i, acc (sl_page (ft_slots s ! i)))) \<and>
     (\<forall>a i x. ft_vmap s a = Some (i, x) \<longrightarrow>
        i < length (ft_slots s) \<and> sl_mapped (ft_slots s ! i) \<and> a = page_addr s (sl_page (ft_slots s ! i)))"

definition stream_ok :: "(u64 \<Rightarrow> ft_access) \<Rightarrow> nat set \<Rightarrow> ft \<Rightarrow> bool" where
  "stream_ok acc X s \<longleftrightarrow>
     (\<forall>x \<in> set (ft_stream s). \<forall>a. op_target x = Some a \<longrightarrow>
        (\<exists>p \<in> resident s. a = page_addr s p \<and> acc p = Read_write)) \<and>
     (X = UNIV \<or> Wait_consumer \<notin> set (ft_stream s)) \<and> (\<forall>l. l \<notin> X \<longrightarrow> fenced (ft_stream s) l)"

definition filled :: "ft_env \<Rightarrow> u64 set \<Rightarrow> ft \<Rightarrow> bool" where
  "filled E ex s \<longleftrightarrow> (\<forall>i < length (ft_slots s). sl_mapped (ft_slots s ! i) \<longrightarrow>
     sl_page (ft_slots s ! i) \<notin> ex \<longrightarrow>
     (\<forall>k < unat (ft_chunk s). settled s i k = page_bytes E s (sl_page (ft_slots s ! i)) k))"

text \<open>A lane holds a page or nothing; a lane that reads has the offset and count of its page.\<close>

definition lane_full :: "ft_env \<Rightarrow> ft \<Rightarrow> nat \<Rightarrow> bool" where
  "lane_full E s l \<longleftrightarrow> (let p = ln_page (ft_lanes s ! l) in p \<noteq> UINT64_MAX \<longrightarrow>
     in_file s p \<and> ln_wanted (ft_lanes s ! l) = ucast (wanted_of s p) \<and>
     (\<forall>k < unat (wanted_of s p). ft_hostmem s l k = page_bytes E s p k))"

definition lane_reading :: "ft \<Rightarrow> u64 \<Rightarrow> nat \<Rightarrow> bool" where
  "lane_reading s p l \<longleftrightarrow> in_file s p \<and> ln_page (ft_lanes s ! l) = UINT64_MAX \<and>
     ln_wanted (ft_lanes s ! l) = ucast (wanted_of s p) \<and>
     ln_offset (ft_lanes s ! l) = ucast (p * ft_chunk s) \<and>
     ln_offset_high (ft_lanes s ! l) = ucast (drop_bit 32 (p * ft_chunk s)) \<and>
     (\<forall>x \<in> set (ft_stream s). op_source x \<noteq> Some l)"

definition lanes_ok :: "ft_env \<Rightarrow> batch \<Rightarrow> ft \<Rightarrow> bool" where
  "lanes_ok E batch s \<longleftrightarrow>
     distinct (map (fst \<circ> snd) batch) \<and>
     (\<forall>(p, l, r) \<in> set batch. l < length (ft_lanes s) \<and>
        (if r then lane_reading s p l else ln_page (ft_lanes s ! l) = p \<and> p \<noteq> UINT64_MAX)) \<and>
     (\<forall>l < length (ft_lanes s). (\<exists>p. (p, l, True) \<in> set batch) \<or> \<not> ln_pending (ft_lanes s ! l) \<and> lane_full E s l)"

definition loading ::
  "ft_env \<Rightarrow> ft \<Rightarrow> (u64 \<Rightarrow> ft_access) \<Rightarrow> u64 set \<Rightarrow> u64 set \<Rightarrow> u64 set \<Rightarrow> batch \<Rightarrow> nat set \<Rightarrow> ft \<Rightarrow> bool" where
  "loading E z acc ex keep todo batch X s \<longleftrightarrow>
     same_shape z s \<and> sized s \<and> \<not> ft_fault s \<and> mapping_ok acc s \<and>
     keep \<subseteq> resident s \<and> resident s \<inter> todo = {} \<and>
     stream_ok acc X s \<and> filled E ex s \<and> lanes_ok E batch s"

text \<open>
  What holds after every call, failed ones included: no access without a mapping, and what a
  mapping that may be read shows is the file.
\<close>

definition ft_safe :: "ft_env \<Rightarrow> ft \<Rightarrow> bool" where
  "ft_safe E s \<longleftrightarrow> \<not> ft_fault s \<and>
     (\<forall>a b i x y. ft_vmap s a = Some (i, x) \<longrightarrow> ft_vmap s b = Some (i, y) \<longrightarrow> a = b) \<and>
     (\<forall>x \<in> set (ft_stream s). \<forall>a. op_target x = Some a \<longrightarrow> writable (ft_vmap s) a \<noteq> None) \<and>
     (\<forall>a i. ft_vmap s a = Some (i, Read_only) \<longrightarrow>
        (\<exists>p. in_file s p \<and> a = page_addr s p \<and> (\<forall>k < unat (ft_chunk s). ft_vram s i k = page_bytes E s p k)))"

lemmas frame_defs = in_file_def page_bytes_def wanted_of_def page_addr_def resident_def

section \<open>The device makes progress\<close>

lemma mapping_slot:
  "mapping_ok acc s \<Longrightarrow> ft_vmap s a = Some (i, x) \<Longrightarrow>
     i < length (ft_slots s) \<and> sl_mapped (ft_slots s ! i) \<and> a = page_addr s (sl_page (ft_slots s ! i))"
  unfolding mapping_ok_def by metis

lemma mapping_page:
  "mapping_ok acc s \<Longrightarrow> i < length (ft_slots s) \<Longrightarrow> sl_mapped (ft_slots s ! i) \<Longrightarrow>
     in_file s (sl_page (ft_slots s ! i)) \<and>
     ft_vmap s (page_addr s (sl_page (ft_slots s ! i))) = Some (i, acc (sl_page (ft_slots s ! i)))"
  unfolding mapping_ok_def by metis

lemma stream_target:
  assumes "stream_ok acc X s" "mapping_ok acc s" "x \<in> set (ft_stream s)" "op_target x = Some a"
  obtains p i where "i < length (ft_slots s)" "sl_mapped (ft_slots s ! i)" "sl_page (ft_slots s ! i) = p"
    "a = page_addr s p" "acc p = Read_write" "ft_vmap s a = Some (i, Read_write)"
proof -
  obtain p where p: "p \<in> resident s" "a = page_addr s p" "acc p = Read_write"
    using assms(1,3,4) unfolding stream_ok_def by blast
  then obtain i where "i < length (ft_slots s)" "sl_mapped (ft_slots s ! i)" "sl_page (ft_slots s ! i) = p"
    by (auto simp: resident_iff)
  with p mapping_page [OF assms(2)] show thesis by (metis that)
qed

lemma stream_no_fault:
  "stream_ok acc X s \<Longrightarrow> mapping_ok acc s \<Longrightarrow> x \<in> set (ft_stream s) \<Longrightarrow> \<not> op_faults (ft_vmap s) x"
  by (cases "op_target x") (auto simp: op_faults_def op_slot_def writable_iff elim!: stream_target)

lemma stream_ok_drop:
  "stream_ok acc X s \<Longrightarrow> resident t = resident s \<Longrightarrow> ft_stream t = drop n (ft_stream s)
    \<Longrightarrow> ft_address t = ft_address s \<Longrightarrow> ft_chunk t = ft_chunk s \<Longrightarrow> stream_ok acc X t"
  by (auto simp: stream_ok_def fenced_drop page_addr_def dest: in_set_dropD)

lemma lanes_ok_item:
  "lanes_ok E batch s \<Longrightarrow> (p, l, r) \<in> set batch \<Longrightarrow> l < length (ft_lanes s) \<and>
     (if r then lane_reading s p l else ln_page (ft_lanes s ! l) = p \<and> p \<noteq> UINT64_MAX)"
  unfolding lanes_ok_def by blast

lemma lanes_ok_held:
  assumes lo: "lanes_ok E batch s" and i: "(p, l, False) \<in> set batch"
  shows "(q, l, True) \<notin> set batch" "lane_full E s l"
proof -
  have inj: "inj_on (fst \<circ> snd) (set batch)" using lo by (simp add: lanes_ok_def distinct_map)
  show no: "(q, l, True) \<notin> set batch" for q
    using inj_onD [OF inj _ i, of "(q, l, True)"] by auto
  have "l < length (ft_lanes s)" using lanes_ok_item [OF lo i] by simp
  then show "lane_full E s l" using no lo unfolding lanes_ok_def by blast
qed

lemma lanes_ok_mono:
  assumes "lanes_ok E batch s"
    and "length (ft_lanes t) = length (ft_lanes s)"
    and "\<And>l. l < length (ft_lanes s) \<Longrightarrow> ln_page (ft_lanes t ! l) = ln_page (ft_lanes s ! l)"
    and "\<And>l. l < length (ft_lanes s) \<Longrightarrow> ln_pending (ft_lanes t ! l) = ln_pending (ft_lanes s ! l)"
    and "\<And>l. l < length (ft_lanes s) \<Longrightarrow> lane_full E s l \<Longrightarrow> lane_full E t l"
    and "\<And>p l. lane_reading s p l \<Longrightarrow> lane_reading t p l"
  shows "lanes_ok E batch t"
  using assms(1) unfolding lanes_ok_def assms(2) by (fastforce simp: assms(3-6) split: if_splits)

lemma loading_run_ops:
  assumes "loading E z acc ex keep todo batch X s"
  shows "loading E z acc ex keep todo batch X (run_ops n s)"
proof -
  let ?t = "run_ops n s"
  note L = assms [unfolded loading_def]
  have eq: "ft_vmap ?t = ft_vmap s" "ft_slots ?t = ft_slots s" "ft_lanes ?t = ft_lanes s"
    "ft_hostmem ?t = ft_hostmem s" "ft_address ?t = ft_address s" "ft_chunk ?t = ft_chunk s"
    "ft_length ?t = ft_length s" "ft_cache ?t = ft_cache s" "ft_stream ?t = drop n (ft_stream s)"
    "ft_context (?t) = ft_context s" "ft_owner (?t) = ft_owner s" "ft_poisoned (?t) = ft_poisoned s"
    by (simp_all add: run_ops_closed)
  have "\<not> ft_fault s" and st: "stream_ok acc X s" and mp: "mapping_ok acc s" using L by simp_all
  then have "\<not> ft_fault ?t"
    using stream_no_fault [OF st mp] by (auto simp: run_ops_closed dest!: in_set_takeD)
  moreover have "stream_ok acc X ?t"
    by (rule stream_ok_drop [OF st]) (simp_all add: eq resident_def)
  moreover have "mapping_ok acc ?t = mapping_ok acc s" "filled E ex ?t = filled E ex s"
    "resident ?t = resident s" "same_shape z ?t = same_shape z s" "sized ?t = sized s"
    by (simp_all add: mapping_ok_def filled_def same_shape_def sized_def frame_defs eq)
  moreover have rd: "lane_reading ?t p l" if "lane_reading s p l" for p l
    using that by (auto simp: lane_reading_def frame_defs eq dest: in_set_dropD)
  have "lanes_ok E batch ?t" if "lanes_ok E batch s"
    by (rule lanes_ok_mono [OF that _ _ _ _ rd]) (simp_all add: lane_full_def frame_defs eq)
  ultimately show ?thesis using L by (simp add: loading_def)
qed

text \<open>The time, the clock, the counters and the ledger play no part.\<close>

lemma loading_book:
  "loading E z acc ex keep todo batch X (s\<lparr>ft_tick := t\<rparr>) = loading E z acc ex keep todo batch X s"
  "loading E z acc ex keep todo batch X (s\<lparr>ft_clock := c\<rparr>) = loading E z acc ex keep todo batch X s"
  "loading E z acc ex keep todo batch X (s\<lparr>ft_ledger := g\<rparr>) = loading E z acc ex keep todo batch X s"
  "loading E z acc ex keep todo batch X (s\<lparr>ft_counters := n\<rparr>) = loading E z acc ex keep todo batch X s"
  by (simp_all add: loading_def same_shape_def sized_def mapping_ok_def stream_ok_def filled_def
      lanes_ok_def lane_full_def lane_reading_def settled_def frame_defs)

lemma loading_advance: "loading E z acc ex keep todo batch X s \<Longrightarrow> loading E z acc ex keep todo batch X (advance E s)"
  by (simp add: advance_def loading_book loading_run_ops)

lemma loading_run_all: "loading E z acc ex keep todo batch X s \<Longrightarrow> loading E z acc ex keep todo batch X (run_all s)"
  by (simp add: run_all_def loading_run_ops)

lemma run_all_idle: "ft_stream (run_all s) = []"
  by (simp add: run_all_def run_ops_closed)

lemma loading_safe:
  assumes "loading E z acc ex keep todo batch X s" "\<And>p. p \<in> ex \<Longrightarrow> acc p \<noteq> Read_only"
  shows "ft_safe E s"
proof -
  note L = assms(1) [unfolded loading_def]
  have mp: "mapping_ok acc s" and st: "stream_ok acc X s" and fl: "filled E ex s" using L by simp_all
  have "a = b" if "ft_vmap s a = Some (i, x)" "ft_vmap s b = Some (i, y)" for a b i x y
    using mapping_slot [OF mp that(1)] mapping_slot [OF mp that(2)] by simp
  moreover have "writable (ft_vmap s) a \<noteq> None" if "x \<in> set (ft_stream s)" "op_target x = Some a" for x a
    using stream_target [OF st mp that] by (metis writable_iff option.distinct(1))
  moreover have "\<exists>p. in_file s p \<and> a = page_addr s p \<and> (\<forall>k < unat (ft_chunk s). ft_vram s i k = page_bytes E s p k)"
    if a: "ft_vmap s a = Some (i, Read_only)" for a i
  proof -
    let ?p = "sl_page (ft_slots s ! i)"
    have i: "i < length (ft_slots s)" "sl_mapped (ft_slots s ! i)" "a = page_addr s ?p"
      "in_file s ?p" "acc ?p = Read_only"
      using mapping_slot [OF mp a] mapping_page [OF mp, of i] a by simp_all
    have "op_slot (ft_vmap s) x \<noteq> Some i" if x: "x \<in> set (ft_stream s)" for x
    proof
      assume "op_slot (ft_vmap s) x = Some i"
      then obtain b where b: "op_target x = Some b" "ft_vmap s b = Some (i, Read_write)"
        by (auto simp: op_slot_def writable_iff split: option.splits)
      then have "b = a" using mapping_slot [OF mp a] mapping_slot [OF mp b(2)] by simp
      with a b show False by simp
    qed
    then have "settled s i = ft_vram s i"
      unfolding settled_def by (rule settle_untouched)
    moreover have "?p \<notin> ex" using i(5) assms(2) by blast
    ultimately show ?thesis
      using fl i by (intro exI [of _ ?p]) (auto simp: filled_def)
  qed
  ultimately show ?thesis using L unfolding ft_safe_def by blast
qed

section \<open>Mappings\<close>

lemma nth_set_slot:
  "j < length (ft_slots s) \<Longrightarrow>
     ft_slots (set_slot i f s) ! j = (if j = i then f (ft_slots s ! i) else ft_slots s ! j)"
  by (simp add: set_slot_def nth_list_update)

lemma set_slot_sel [simp]:
  "length (ft_slots (set_slot i f s)) = length (ft_slots s)"
  "ft_lanes (set_slot i f s) = ft_lanes s" "ft_vmap (set_slot i f s) = ft_vmap s"
  "ft_hostmem (set_slot i f s) = ft_hostmem s" "ft_vram (set_slot i f s) = ft_vram s"
  "ft_stream (set_slot i f s) = ft_stream s" "ft_fault (set_slot i f s) = ft_fault s"
  "ft_address (set_slot i f s) = ft_address s" "ft_chunk (set_slot i f s) = ft_chunk s"
  "ft_length (set_slot i f s) = ft_length s" "ft_cache (set_slot i f s) = ft_cache s"
  "ft_tick (set_slot i f s) = ft_tick s"
  "ft_context (set_slot i f s) = ft_context s" "ft_owner (set_slot i f s) = ft_owner s" "ft_poisoned (set_slot i f s) = ft_poisoned s"
  "ft_reserved (set_slot i f s) = ft_reserved s"
  by (simp_all add: set_slot_def)

lemma page_frame [simp]:
  "page_addr (set_slot i f s) p = page_addr s p" "in_file (set_slot i f s) p = in_file s p"
  "page_addr (s\<lparr>ft_vmap := vm\<rparr>) p = page_addr s p" "in_file (s\<lparr>ft_vmap := vm\<rparr>) p = in_file s p"
  by (simp_all add: page_addr_def in_file_def)

lemma resident_set_slot:
  "i < length (ft_slots s) \<Longrightarrow> resident (set_slot i f s) =
     {sl_page (ft_slots s ! j) | j. j < length (ft_slots s) \<and> j \<noteq> i \<and> sl_mapped (ft_slots s ! j)}
     \<union> (if sl_mapped (f (ft_slots s ! i)) then {sl_page (f (ft_slots s ! i))} else {})"
  by (auto simp: set_eq_iff resident_iff nth_set_slot split: if_splits)

lemma loading_used:
  assumes "loading E z acc ex keep todo batch X s"
  shows "loading E z acc ex keep todo batch X (set_slot i (\<lambda>x. x\<lparr>sl_used := u\<rparr>) s)"
proof -
  let ?t = "set_slot i (\<lambda>x. x\<lparr>sl_used := u\<rparr>) s"
  have nth: "sl_page (ft_slots ?t ! j) = sl_page (ft_slots s ! j) \<and> sl_mapped (ft_slots ?t ! j) = sl_mapped (ft_slots s ! j)"
    if "j < length (ft_slots s)" for j
    using that by (simp add: nth_set_slot)
  have res: "resident ?t = resident s"
    by (auto simp: set_eq_iff resident_iff nth)
  have "stream_ok acc X ?t = stream_ok acc X s" "filled E ex ?t = filled E ex s"
    "mapping_ok acc ?t = mapping_ok acc s"
    "same_shape z ?t = same_shape z s" "sized ?t = sized s" "lanes_ok E batch ?t = lanes_ok E batch s"
    by (simp_all add: stream_ok_def filled_def mapping_ok_def same_shape_def sized_def lanes_ok_def
        lane_full_def lane_reading_def settled_def in_file_def page_bytes_def page_addr_def wanted_of_def
        res nth cong: conj_cong)
  then show ?thesis using assms by (simp add: loading_def res)
qed

lemma settled_cong:
  assumes "ft_stream t = ft_stream s" "ft_vram t = ft_vram s"
    and "\<And>x a. x \<in> set (ft_stream s) \<Longrightarrow> op_target x = Some a \<Longrightarrow> writable (ft_vmap t) a = writable (ft_vmap s) a"
    and "\<And>x l. x \<in> set (ft_stream s) \<Longrightarrow> op_source x = Some l \<Longrightarrow> ft_hostmem t l = ft_hostmem s l"
  shows "settled t = settled s"
  unfolding settled_def assms(1,2) by (rule settle_cong) (simp_all add: assms(3,4))

lemma mapped_unique:
  "mapping_ok acc s \<Longrightarrow> i < length (ft_slots s) \<Longrightarrow> j < length (ft_slots s) \<Longrightarrow>
     sl_mapped (ft_slots s ! i) \<Longrightarrow> sl_mapped (ft_slots s ! j) \<Longrightarrow>
     sl_page (ft_slots s ! i) = sl_page (ft_slots s ! j) \<Longrightarrow> i = j"
  using mapping_page [of acc s i] mapping_page [of acc s j] by (metis option.inject prod.inject)

lemma loading_unmap:
  assumes L: "loading E z acc ex keep todo batch X s"
    and i: "i < length (ft_slots s)" "sl_mapped (ft_slots s ! i)"
    and v: "sl_page (ft_slots s ! i) \<notin> keep" "acc (sl_page (ft_slots s ! i)) \<noteq> Read_write" and X: "X \<noteq> UNIV"
  shows "loading E z acc ex keep todo batch X (unmap_slot i s)"
proof -
  let ?v = "sl_page (ft_slots s ! i)"
  let ?a = "page_addr s ?v"
  let ?t = "set_slot i (\<lambda>x. x\<lparr>sl_mapped := False\<rparr>) (s\<lparr>ft_vmap := (ft_vmap s)(?a := None)\<rparr>)"
  have mp: "mapping_ok acc s" and st: "stream_ok acc X s" using L by (simp_all add: loading_def)
  have nowait: "Wait_consumer \<notin> set (ft_stream s)" using st X by (auto simp: stream_ok_def)
  have eq: "unmap_slot i s = ?t\<lparr>ft_ledger := ft_ledger s @ [Give (R_map i)],
      ft_counters := (ft_counters s)\<lparr>st_evictions := st_evictions (ft_counters s) + 1\<rparr>\<rparr>"
    using nowait by (simp add: unmap_slot_def count_stat_def noted_def set_slot_def)
  have a: "ft_vmap s ?a = Some (i, acc ?v)" using mapping_page [OF mp i] by simp
  have wr: "writable ((ft_vmap s)(?a := None)) b = writable (ft_vmap s) b" for b
    using a v(2) by (cases "acc ?v") (simp_all add: writable_def)
  have set: "settled ?t = settled s" by (rule settled_cong) (simp_all add: wr)
  have nth: "ft_slots ?t ! j = (if j = i then (ft_slots s ! i)\<lparr>sl_mapped := False\<rparr> else ft_slots s ! j)"
    if "j < length (ft_slots s)" for j
    using that by (simp add: nth_set_slot)
  have res: "resident ?t = resident s - {?v}"
  proof -
    have "{sl_page (ft_slots s ! j) | j. j < length (ft_slots s) \<and> j \<noteq> i \<and> sl_mapped (ft_slots s ! j)} = resident s - {?v}"
      unfolding set_eq_iff mem_Collect_eq Diff_iff singleton_iff resident_iff
      by (metis mapped_unique [OF mp] i)
    with i(1) show ?thesis by (subst resident_set_slot) simp_all
  qed
  have "mapping_ok acc ?t"
    unfolding mapping_ok_def
  proof (intro conjI allI impI, goal_cases)
    case (1 j) then show ?case using mapping_page [OF mp, of j] by (auto simp: nth split: if_splits)
  next
    case (2 j)
    then have j: "j < length (ft_slots s)" "sl_mapped (ft_slots s ! j)" "j \<noteq> i" by (auto simp: nth split: if_splits)
    then have "page_addr s (sl_page (ft_slots s ! j)) \<noteq> ?a"
      using mapping_page [OF mp, of j] a by auto
    then show ?case using mapping_page [OF mp, of j] j by (simp add: nth)
  next
    case (3 b j x) then show ?case using mapping_slot [OF mp, of b j x] by (auto split: if_splits)
  next
    case (4 b j x)
    then have "ft_vmap s b = Some (j, x)" "b \<noteq> ?a" by (auto split: if_splits)
    then show ?case using mapping_slot [OF mp, of b j x] by (auto simp: nth)
  next
    case (5 b j x)
    then have "ft_vmap s b = Some (j, x)" "b \<noteq> ?a" by (auto split: if_splits)
    then show ?case using mapping_slot [OF mp, of b j x] by (auto simp: nth)
  qed
  moreover have "stream_ok acc X ?t"
    using st v(2) by (fastforce simp: stream_ok_def res)
  moreover have "filled E ex ?t" if "filled E ex s"
    using that by (auto simp: filled_def nth set page_bytes_def split: if_splits)
  moreover have "same_shape z ?t = same_shape z s" "sized ?t = sized s" "lanes_ok E batch ?t = lanes_ok E batch s"
    by (simp_all add: same_shape_def sized_def lanes_ok_def
        lane_full_def lane_reading_def in_file_def page_bytes_def wanted_of_def)
  ultimately have "loading E z acc ex keep todo batch X ?t"
    using L v(1) by (auto simp: loading_def res)
  then show ?thesis unfolding eq by (simp add: loading_book)
qed

lemma loading_map:
  assumes L: "loading E z acc ex keep todo batch X s"
    and i: "i < length (ft_slots s)" "\<not> sl_mapped (ft_slots s ! i)"
    and p: "p \<in> todo" "in_file s p"
  shows "loading E z (acc(p := No_access)) (insert p ex) (insert p keep) (todo - {p}) batch X (map_slot i p s)"
proof -
  let ?a = "page_addr s p"
  let ?acc = "acc(p := No_access)"
  let ?t = "set_slot i (\<lambda>x. x\<lparr>sl_page := p, sl_mapped := True, sl_used := ft_clock s + 1\<rparr>)
     (s\<lparr>ft_vmap := (ft_vmap s)(?a \<mapsto> (i, No_access))\<rparr>)"
  have mp: "mapping_ok acc s" and st: "stream_ok acc X s" and sz: "sized s" and new: "p \<notin> resident s"
    using L p(1) by (auto simp: loading_def)
  have eq: "map_slot i p s = ?t\<lparr>ft_ledger := ft_ledger s @ [Take (R_map i)], ft_clock := ft_clock s + 1\<rparr>"
    by (simp add: map_slot_def noted_def set_slot_def)
  have ne: "page_addr s q \<noteq> ?a" if "q \<in> resident s" for q
  proof
    assume "page_addr s q = ?a"
    moreover have "in_file s q" using that mapping_page [OF mp] by (auto simp: resident_iff)
    ultimately have "q = p" using p(2) sz by (auto simp: sized_def intro: page_addr_inj)
    with that new show False by simp
  qed
  have free: "ft_vmap s ?a = None"
  proof (rule ccontr)
    assume "ft_vmap s ?a \<noteq> None"
    then obtain j x where "ft_vmap s ?a = Some (j, x)" by auto
    from mapping_slot [OF mp this] ne show False by (metis resident_iff)
  qed
  have wr: "writable ((ft_vmap s)(?a \<mapsto> (i, No_access))) b = writable (ft_vmap s) b" for b
    by (simp add: writable_def free)
  have set: "settled ?t = settled s" by (rule settled_cong) (simp_all add: wr)
  have nth: "ft_slots ?t ! j = (if j = i then (ft_slots s ! i)\<lparr>sl_page := p, sl_mapped := True, sl_used := ft_clock s + 1\<rparr>
      else ft_slots s ! j)"
    if "j < length (ft_slots s)" for j
    using that by (simp add: nth_set_slot)
  have res: "resident ?t = insert p (resident s)"
  proof -
    have "{sl_page (ft_slots s ! j) | j. j < length (ft_slots s) \<and> j \<noteq> i \<and> sl_mapped (ft_slots s ! j)} = resident s"
      unfolding set_eq_iff mem_Collect_eq resident_iff by (metis i(2))
    with i(1) show ?thesis by (subst resident_set_slot) simp_all
  qed
  have old: "sl_page (ft_slots s ! j) \<in> resident s" if "j < length (ft_slots s)" "sl_mapped (ft_slots s ! j)" for j
    using that by (auto simp: resident_iff)
  have "mapping_ok ?acc ?t"
    unfolding mapping_ok_def
  proof (intro conjI allI impI, goal_cases)
    case (1 j) then show ?case using mapping_page [OF mp, of j] p(2) by (auto simp: nth split: if_splits)
  next
    case (2 j)
    show ?case
    proof (cases "j = i")
      case True with i(1) show ?thesis by (simp add: nth)
    next
      case False
      with 2 have j: "j < length (ft_slots s)" "sl_mapped (ft_slots s ! j)" by (auto simp: nth)
      have "page_addr s (sl_page (ft_slots s ! j)) \<noteq> ?a" "sl_page (ft_slots s ! j) \<noteq> p"
        using ne [OF old [OF j]] by auto
      with False j mapping_page [OF mp j] show ?thesis by (simp add: nth)
    qed
  next
    case (3 b j x) then show ?case using mapping_slot [OF mp, of b j x] i by (auto split: if_splits)
  next
    case (4 b j x)
    then consider "j = i" | "ft_vmap s b = Some (j, x)" by (auto split: if_splits)
    then show ?case
    proof cases
      case 1 with i show ?thesis by (simp add: nth)
    next
      case 2 from mapping_slot [OF mp this] show ?thesis by (simp add: nth)
    qed
  next
    case (5 b j x)
    then consider "j = i" "b = ?a" | "j \<noteq> i" "ft_vmap s b = Some (j, x)"
      using mapping_slot [OF mp, of b j x] i(2) by (auto split: if_splits)
    then show ?case
    proof cases
      case 1 with i show ?thesis by (simp add: nth)
    next
      case 2 with mapping_slot [OF mp 2(2)] show ?thesis by (simp add: nth)
    qed
  qed
  moreover have "stream_ok ?acc X ?t"
    using st new by (fastforce simp: stream_ok_def res)
  moreover have "filled E (insert p ex) ?t" if "filled E ex s"
    using that by (auto simp: filled_def nth set page_bytes_def split: if_splits)
  moreover have "same_shape z ?t = same_shape z s" "sized ?t = sized s" "lanes_ok E batch ?t = lanes_ok E batch s"
    by (simp_all add: same_shape_def sized_def lanes_ok_def
        lane_full_def lane_reading_def in_file_def page_bytes_def wanted_of_def)
  ultimately have "loading E z ?acc (insert p ex) (insert p keep) (todo - {p}) batch X ?t"
    using L by (auto simp: loading_def res)
  then show ?thesis unfolding eq by (simp add: loading_book)
qed

lemma loading_set_access:
  assumes L: "loading E z acc ex keep todo batch X s" and p: "p \<in> keep"
    and q: "x = Read_write \<and> acc p = No_access \<or> x = Read_only \<and> ft_stream s = []"
  shows "loading E z (acc(p := x)) ex keep todo batch X (s\<lparr>ft_vmap := (ft_vmap s)(page_addr s p :=
        map_option (\<lambda>(i, _). (i, x)) (ft_vmap s (page_addr s p)))\<rparr>)"
proof -
  let ?a = "page_addr s p"
  let ?t = "s\<lparr>ft_vmap := (ft_vmap s)(?a := map_option (\<lambda>(i, _). (i, x)) (ft_vmap s ?a))\<rparr>"
  have mp: "mapping_ok acc s" and st: "stream_ok acc X s" and sz: "sized s"
    and res: "p \<in> resident s"
    using L p by (auto simp: loading_def)
  obtain i where i: "i < length (ft_slots s)" "sl_mapped (ft_slots s ! i)" "sl_page (ft_slots s ! i) = p"
    using res by (auto simp: resident_iff)
  have a: "ft_vmap s ?a = Some (i, acc p)" using mapping_page [OF mp i(1,2)] i(3) by simp
  have ne: "page_addr s q \<noteq> ?a" if "q \<in> resident s" "q \<noteq> p" for q
  proof
    assume "page_addr s q = ?a"
    moreover have "in_file s q" "in_file s p" using that res mapping_page [OF mp] by (auto simp: resident_iff)
    ultimately show False using that(2) sz by (auto simp: sized_def dest: page_addr_inj)
  qed
  have set: "settled ?t = settled s"
  proof (rule settled_cong)
    fix y b assume y: "y \<in> set (ft_stream s)" "op_target y = Some b"
    from y(1) q have "acc p = No_access" by auto
    with y st have "b \<noteq> ?a" using ne unfolding stream_ok_def by (metis ft_access.distinct(3))
    then show "writable (ft_vmap ?t) b = writable (ft_vmap s) b" by (simp add: writable_def)
  qed simp_all
  have "mapping_ok (acc(p := x)) ?t"
    unfolding mapping_ok_def
  proof (intro conjI allI impI, goal_cases)
    case (1 j) then show ?case using mapping_page [OF mp, of j] by simp
  next
    case (2 j)
    then have j: "j < length (ft_slots s)" "sl_mapped (ft_slots s ! j)" by simp_all
    then have "sl_page (ft_slots s ! j) \<in> resident s" by (auto simp: resident_iff)
    with j ne mapping_page [OF mp j] a show ?case by auto
  next
    case (3 b j y) then show ?case using mapping_slot [OF mp, of b j] a by (auto split: if_splits)
  next
    case (4 b j y) then show ?case using mapping_slot [OF mp, of b j] a by (auto split: if_splits)
  next
    case (5 b j y) then show ?case using mapping_slot [OF mp, of b j] a by (auto split: if_splits)
  qed
  moreover have "stream_ok (acc(p := x)) X ?t"
    using st q by (fastforce simp: stream_ok_def resident_def)
  moreover have "filled E ex ?t = filled E ex s" "resident ?t = resident s" "same_shape z ?t = same_shape z s"
    "sized ?t = sized s" "lanes_ok E batch ?t = lanes_ok E batch s"
    by (simp_all add: filled_def set resident_def same_shape_def sized_def lanes_ok_def
        lane_full_def lane_reading_def in_file_def page_bytes_def wanted_of_def)
  ultimately show ?thesis using L by (simp add: loading_def)
qed

section \<open>The queue grows\<close>

lemma enqueue_sel [simp]:
  "ft_slots (enqueue x s) = ft_slots s" "ft_lanes (enqueue x s) = ft_lanes s"
  "ft_vmap (enqueue x s) = ft_vmap s" "ft_hostmem (enqueue x s) = ft_hostmem s"
  "ft_fault (enqueue x s) = ft_fault s" "ft_address (enqueue x s) = ft_address s"
  "ft_chunk (enqueue x s) = ft_chunk s" "ft_length (enqueue x s) = ft_length s"
  "ft_cache (enqueue x s) = ft_cache s" "ft_stream (enqueue x s) = ft_stream s @ [x]"
  "page_addr (enqueue x s) p = page_addr s p" "in_file (enqueue x s) p = in_file s p"
  "resident (enqueue x s) = resident s"
  "ft_context (enqueue x s) = ft_context s" "ft_owner (enqueue x s) = ft_owner s" "ft_poisoned (enqueue x s) = ft_poisoned s"
  "ft_reserved (enqueue x s) = ft_reserved s"
  by (simp_all add: enqueue_def page_addr_def in_file_def resident_def)

lemma enqueue_same:
  "same_shape z (enqueue x s) = same_shape z s" "sized (enqueue x s) = sized s"
  "mapping_ok acc (enqueue x s) = mapping_ok acc s" "lane_full E (enqueue x s) l = lane_full E s l"
  by (simp_all add: same_shape_def sized_def mapping_ok_def lane_full_def page_bytes_def wanted_of_def)

lemma lanes_ok_enqueue:
  assumes "lanes_ok E batch s" "\<And>l q. op_source x = Some l \<Longrightarrow> (q, l, True) \<notin> set batch"
  shows "lanes_ok E batch (enqueue x s)"
  using assms unfolding lanes_ok_def enqueue_sel enqueue_same
  by (fastforce simp: lane_reading_def wanted_of_def split: if_splits)

definition holds_upto :: "ft_env \<Rightarrow> u64 \<Rightarrow> nat \<Rightarrow> ft \<Rightarrow> bool" where
  "holds_upto E p n s \<longleftrightarrow> (\<forall>i < length (ft_slots s). sl_mapped (ft_slots s ! i) \<longrightarrow>
     sl_page (ft_slots s ! i) = p \<longrightarrow> (\<forall>k < n. settled s i k = page_bytes E s p k))"

lemma settled_enqueue_slot:
  assumes mp: "mapping_ok acc s" and i: "i < length (ft_slots s)" "sl_mapped (ft_slots s ! i)"
    and a: "op_target x = Some (page_addr s p)" "acc p = Read_write" "p \<in> resident s"
  shows "settled (enqueue x s) i =
    (if sl_page (ft_slots s ! i) = p then op_bytes (ft_hostmem s) x (settled s i) else settled s i)"
proof -
  obtain j where j: "j < length (ft_slots s)" "sl_mapped (ft_slots s ! j)" "sl_page (ft_slots s ! j) = p"
    using a(3) by (auto simp: resident_iff)
  then have "op_slot (ft_vmap s) x = Some j"
    using mapping_page [OF mp j(1,2)] a by (simp add: op_slot_def writable_iff)
  moreover have "sl_page (ft_slots s ! i) = p \<longleftrightarrow> i = j"
    using mapped_unique [OF mp i(1) j(1) i(2) j(2)] j(3) by auto
  ultimately show ?thesis by (simp add: settled_enqueue apply_op_def)
qed

lemma loading_enqueue:
  assumes L: "loading E z acc ex keep todo batch X s"
    and a: "op_target x = Some (page_addr s p)" "acc p = Read_write" "p \<in> keep" "p \<in> ex"
    and l: "\<And>l q. op_source x = Some l \<Longrightarrow> l \<in> X' \<and> (q, l, True) \<notin> set batch" and X: "X \<subseteq> X'"
  shows "loading E z acc ex keep todo batch X' (enqueue x s)"
proof -
  have mp: "mapping_ok acc s" and st: "stream_ok acc X s" and p: "p \<in> resident s" and lo: "lanes_ok E batch s"
    using L a(3) by (auto simp: loading_def)
  have "x \<noteq> Wait_consumer" using a(1) by auto
  moreover have "fenced (ft_stream s @ [x]) l" if "l \<notin> X'" for l
    using that st X l by (intro fenced_append) (auto simp: stream_ok_def)
  moreover have "\<exists>q \<in> resident s. b = page_addr s q \<and> acc q = Read_write"
    if "y \<in> set (ft_stream s @ [x])" "op_target y = Some b" for y b
    using that st a(1,2) p unfolding stream_ok_def by (cases "y = x") auto
  moreover have "X' = UNIV \<or> Wait_consumer \<notin> set (ft_stream s)" using st X by (auto simp: stream_ok_def)
  ultimately have "stream_ok acc X' (enqueue x s)"
    by (simp add: stream_ok_def)
  moreover have "lanes_ok E batch (enqueue x s)"
    using lo l by (blast intro: lanes_ok_enqueue)
  moreover have "filled E ex (enqueue x s)" if "filled E ex s"
    using that a(4) settled_enqueue_slot [OF mp _ _ a(1,2) p]
    by (auto simp: filled_def page_bytes_def)
  ultimately show ?thesis using L by (simp add: loading_def enqueue_same)
qed

lemma loading_mark:
  assumes L: "loading E z acc ex keep todo batch {l} s"
  shows "loading E z acc ex keep todo batch {} (enqueue (Mark l) s)"
proof -
  have st: "stream_ok acc {l} s" and lo: "lanes_ok E batch s" using L by (auto simp: loading_def)
  have "fenced (ft_stream s @ [Mark l]) m" for m
    using st fenced_append [of "ft_stream s" m "[Mark l]"] by (cases "m = l") (simp_all add: stream_ok_def fenced_mark)
  moreover have "{l} \<noteq> UNIV" by (metis finite.emptyI finite_insert infinite_UNIV_nat)
  ultimately have "stream_ok acc {} (enqueue (Mark l) s)" using st by (simp add: stream_ok_def)
  moreover have "lanes_ok E batch (enqueue (Mark l) s)" using lo by (rule lanes_ok_enqueue) simp
  moreover have "settled (enqueue (Mark l) s) = settled s"
    by (simp add: settled_enqueue apply_op_def op_slot_def)
  then have "filled E ex (enqueue (Mark l) s) = filled E ex s"
    by (simp add: filled_def page_bytes_def)
  ultimately show ?thesis using L by (simp add: loading_def enqueue_same)
qed

text \<open>An item whose bytes are queued leaves the batch.\<close>

lemma loading_uploaded:
  assumes L: "loading E z acc ex keep todo ((p, l, False) # rest) X s"
    and h: "holds_upto E p (unat (ft_chunk s)) s"
  shows "loading E z acc (ex - {p}) keep todo rest X s"
proof -
  have "lanes_ok E rest s" if "lanes_ok E ((p, l, False) # rest) s"
    using that by (auto simp: lanes_ok_def)
  moreover have "filled E (ex - {p}) s" if "filled E ex s"
    using that h by (auto simp: filled_def holds_upto_def)
  ultimately show ?thesis using L by (simp add: loading_def)
qed

lemma loading_except: "loading E z acc ex keep todo batch X s \<Longrightarrow> ex \<subseteq> ex' \<Longrightarrow> loading E z acc ex' keep todo batch X s"
  by (auto simp: loading_def filled_def)

section \<open>Host buffers\<close>

lemma nth_set_lane:
  "m < length (ft_lanes s) \<Longrightarrow>
     ft_lanes (set_lane l f s) ! m = (if m = l then f (ft_lanes s ! l) else ft_lanes s ! m)"
  by (simp add: set_lane_def nth_list_update)

lemma set_lane_sel [simp]:
  "length (ft_lanes (set_lane l f s)) = length (ft_lanes s)" "ft_lanes (set_lane l f s) = [] \<longleftrightarrow> ft_lanes s = []"
  "ft_slots (set_lane l f s) = ft_slots s" "ft_vmap (set_lane l f s) = ft_vmap s"
  "ft_hostmem (set_lane l f s) = ft_hostmem s" "ft_vram (set_lane l f s) = ft_vram s"
  "ft_stream (set_lane l f s) = ft_stream s" "ft_fault (set_lane l f s) = ft_fault s"
  "ft_address (set_lane l f s) = ft_address s" "ft_chunk (set_lane l f s) = ft_chunk s"
  "ft_length (set_lane l f s) = ft_length s" "ft_cache (set_lane l f s) = ft_cache s"
  "ft_tick (set_lane l f s) = ft_tick s"
  "ft_context (set_lane l f s) = ft_context s" "ft_owner (set_lane l f s) = ft_owner s" "ft_poisoned (set_lane l f s) = ft_poisoned s"
  "ft_reserved (set_lane l f s) = ft_reserved s"
  by (simp_all add: set_lane_def)

text \<open>
  A change of one lane and of its buffer, while no queued operation reads the buffer, leaves
  all but the lanes as it is.
\<close>

definition lane_step :: "nat \<Rightarrow> ft \<Rightarrow> ft \<Rightarrow> bool" where
  "lane_step l s t \<longleftrightarrow> (\<exists>f c. t = set_lane l f (s\<lparr>ft_hostmem := (ft_hostmem s)(l := c)\<rparr>))"

lemma lane_stepE:
  assumes "lane_step l s t"
  obtains f c where "t = set_lane l f (s\<lparr>ft_hostmem := (ft_hostmem s)(l := c)\<rparr>)"
  using assms by (auto simp: lane_step_def)

lemma lane_step_lane: "lane_step l s (set_lane l f s)"
proof -
  have "s\<lparr>ft_hostmem := (ft_hostmem s)(l := ft_hostmem s l)\<rparr> = s" by simp
  then show ?thesis unfolding lane_step_def by metis
qed

lemma lane_step_sel:
  assumes "lane_step l s t"
  shows "ft_slots t = ft_slots s" "ft_chunk t = ft_chunk s" "ft_length t = ft_length s"
    "ft_stream t = ft_stream s" "length (ft_lanes t) = length (ft_lanes s)" "ft_address t = ft_address s"
    "ft_cache t = ft_cache s" "ft_vmap t = ft_vmap s" "ft_vram t = ft_vram s" "ft_fault t = ft_fault s"
    "ft_context t = ft_context s" "ft_owner t = ft_owner s" "ft_poisoned t = ft_poisoned s"
    "m < length (ft_lanes s) \<Longrightarrow> m \<noteq> l \<Longrightarrow> ft_lanes t ! m = ft_lanes s ! m"
    "m \<noteq> l \<Longrightarrow> ft_hostmem t m = ft_hostmem s m"
  using assms by (auto simp: nth_set_lane elim!: lane_stepE)

lemma loading_lane_step:
  assumes L: "loading E z acc ex keep todo batch X s" and t: "lane_step l s t"
    and quiet: "\<forall>x \<in> set (ft_stream s). op_source x = Some l \<longrightarrow> ft_hostmem t l = ft_hostmem s l"
    and lanes: "lanes_ok E batch' t"
  shows "loading E z acc ex keep todo batch' X t"
proof -
  note sel = lane_step_sel [OF t]
  have "ft_lanes t \<noteq> [] \<longleftrightarrow> ft_lanes s \<noteq> []" using sel(5) by (metis length_0_conv)
  moreover have "settled t = settled s"
  proof (rule settled_cong)
    show "ft_hostmem t m = ft_hostmem s m" if "x \<in> set (ft_stream s)" "op_source x = Some m" for x m
      using that quiet sel(15) [of m] by (cases "m = l") auto
  qed (simp_all add: sel)
  ultimately have "same_shape z t = same_shape z s" "sized t = sized s" "mapping_ok acc t = mapping_ok acc s"
    "stream_ok acc X t = stream_ok acc X s" "filled E ex t = filled E ex s" "resident t = resident s"
    by (simp_all add: same_shape_def sized_def mapping_ok_def stream_ok_def filled_def resident_def
        in_file_def page_addr_def page_bytes_def sel(1-13))
  then show ?thesis using L lanes by (simp add: loading_def sel(10))
qed

lemma lane_full_other:
  "lane_step l s t \<Longrightarrow> m < length (ft_lanes s) \<Longrightarrow> m \<noteq> l \<Longrightarrow> lane_full E t m = lane_full E s m"
  by (simp add: lane_full_def in_file_def wanted_of_def page_bytes_def lane_step_sel)

lemma lane_reading_other:
  "lane_step l s t \<Longrightarrow> m < length (ft_lanes s) \<Longrightarrow> m \<noteq> l \<Longrightarrow> lane_reading t p m = lane_reading s p m"
  by (simp add: lane_reading_def in_file_def wanted_of_def lane_step_sel)

text \<open>The open items but those of lane \<open>l\<close> are what they were.\<close>

lemma lanes_ok_step:
  assumes lo: "lanes_ok E batch s" and t: "lane_step l s t" and l: "l < length (ft_lanes s)"
    and d: "distinct (map (fst \<circ> snd) batch')"
    and old: "\<And>p m r. (p, m, r) \<in> set batch' \<Longrightarrow> m \<noteq> l \<Longrightarrow> (p, m, r) \<in> set batch"
    and keep: "\<And>p m. (p, m, True) \<in> set batch \<Longrightarrow> m \<noteq> l \<Longrightarrow> (p, m, True) \<in> set batch'"
    and new: "\<And>p r. (p, l, r) \<in> set batch' \<Longrightarrow>
      if r then lane_reading t p l else ln_page (ft_lanes t ! l) = p \<and> p \<noteq> UINT64_MAX"
    and self: "(\<exists>p. (p, l, True) \<in> set batch') \<or> \<not> ln_pending (ft_lanes t ! l) \<and> lane_full E t l"
  shows "lanes_ok E batch' t"
proof -
  have one: "m < length (ft_lanes t) \<and> (if r then lane_reading t p m else ln_page (ft_lanes t ! m) = p \<and> p \<noteq> UINT64_MAX)"
    if "(p, m, r) \<in> set batch'" for p m r
  proof (cases "m = l")
    case True with that new l show ?thesis by (simp add: lane_step_sel [OF t])
  next
    case False
    have m: "m < length (ft_lanes s)" "if r then lane_reading s p m else ln_page (ft_lanes s ! m) = p \<and> p \<noteq> UINT64_MAX"
      using lo old [OF that False] unfolding lanes_ok_def by blast+
    show ?thesis
      using m(2) by (simp add: lane_step_sel(5,14) [OF t] lane_reading_other [OF t] False m(1) split: if_splits)
  qed
  moreover have "(\<exists>p. (p, m, True) \<in> set batch') \<or> \<not> ln_pending (ft_lanes t ! m) \<and> lane_full E t m"
    if "m < length (ft_lanes t)" for m
  proof (cases "m = l")
    case False
    have m: "m < length (ft_lanes s)" using that by (simp add: lane_step_sel(5) [OF t])
    then have "(\<exists>p. (p, m, True) \<in> set batch) \<or> \<not> ln_pending (ft_lanes s ! m) \<and> lane_full E s m"
      using lo by (simp add: lanes_ok_def)
    then show ?thesis
      using keep False by (auto simp: lane_step_sel(14) [OF t m False] lane_full_other [OF t m False])
  qed (use self in simp)
  ultimately show ?thesis using d unfolding lanes_ok_def by (intro conjI ballI allI impI prod.case [THEN iffD2]) blast+
qed

lemma loading_lane_used:
  assumes L: "loading E z acc ex keep todo batch X s" and l: "l < length (ft_lanes s)"
  shows "loading E z acc ex keep todo batch X (set_lane l (\<lambda>x. x\<lparr>ln_used := u\<rparr>) s)"
proof -
  let ?t = "set_lane l (\<lambda>x. x\<lparr>ln_used := u\<rparr>) s"
  have t: "lane_step l s ?t" by (rule lane_step_lane)
  have lo: "lanes_ok E batch s" using L by (simp add: loading_def)
  have eq: "lane_full E ?t m = lane_full E s m" "lane_reading ?t p m = lane_reading s p m"
    "ln_page (ft_lanes ?t ! m) = ln_page (ft_lanes s ! m)" "ln_pending (ft_lanes ?t ! m) = ln_pending (ft_lanes s ! m)"
    if "m < length (ft_lanes s)" for m p
    using that by (simp_all add: lane_full_def lane_reading_def in_file_def wanted_of_def page_bytes_def nth_set_lane)
  have "lanes_ok E batch ?t"
    using lo unfolding lanes_ok_def by (fastforce simp: eq split: if_splits)
  then show ?thesis by (rule loading_lane_step [OF L t, rotated]) simp
qed

text \<open>A lane that is in no open item: a host hit, or a new read.\<close>

lemma loading_hit:
  assumes L: "loading E z acc ex keep todo batch X s" and l: "l < length (ft_lanes s)" "l \<notin> (fst \<circ> snd) ` set batch"
    and p: "ln_page (ft_lanes s ! l) = p" "p \<noteq> UINT64_MAX"
  shows "loading E z acc ex keep todo (batch @ [(p, l, False)]) X s"
  using L l p by (auto simp: loading_def lanes_ok_def)

lemma loading_prepare:
  assumes L: "loading E z acc ex keep todo batch X s" and l: "l < length (ft_lanes s)" "l \<notin> (fst \<circ> snd) ` set batch"
    and p: "in_file s p" and free: "\<And>x. x \<in> set (ft_stream s) \<Longrightarrow> op_source x \<noteq> Some l"
  shows "loading E z acc ex keep todo batch X (prepare_read l p s)" "lane_reading (prepare_read l p s) p l"
proof -
  let ?t = "prepare_read l p s"
  have t: "lane_step l s ?t" by (simp add: prepare_read_def Let_def lane_step_lane)
  have lo: "lanes_ok E batch s" using L by (simp add: loading_def)
  have nin: "(q, l, r) \<notin> set batch" for q r using l(2) by force
  have pend: "\<not> ln_pending (ft_lanes s ! l)" using lo l(1) nin by (auto simp: lanes_ok_def)
  have lane: "ln_page (ft_lanes ?t ! l) = UINT64_MAX" "\<not> ln_pending (ft_lanes ?t ! l)"
    "ln_offset (ft_lanes ?t ! l) = ucast (p * ft_chunk s)"
    "ln_offset_high (ft_lanes ?t ! l) = ucast (drop_bit 32 (p * ft_chunk s))"
    "ln_wanted (ft_lanes ?t ! l) = ucast (wanted_of s p)"
    using l(1) pend by (simp_all add: prepare_read_def Let_def nth_set_lane wanted_of_def)
  show "lane_reading ?t p l"
    using p free by (simp add: lane_reading_def lane lane_step_sel [OF t] in_file_def wanted_of_def)
  have "lanes_ok E batch ?t"
    by (rule lanes_ok_step [OF lo t l(1)]) (use lo nin in \<open>auto simp: lanes_ok_def lane lane_full_def\<close>)
  then show "loading E z acc ex keep todo batch X ?t"
    by (rule loading_lane_step [OF L t, rotated]) (use free in blast)
qed

lemma loading_start:
  assumes L: "loading E z acc ex keep todo batch X s" and l: "l < length (ft_lanes s)" "l \<notin> (fst \<circ> snd) ` set batch"
    and r: "lane_reading s p l"
  shows "loading E z acc ex keep todo (batch @ [(p, l, True)]) X (start_read E l s)"
proof -
  let ?t = "start_read E l s"
  have t: "lane_step l s ?t" unfolding start_read_def lane_step_def by blast
  have lo: "lanes_ok E batch s" using L by (simp add: loading_def)
  have nin: "(q, l, r) \<notin> set batch" for q r using l(2) by force
  have rd: "lane_reading ?t p l"
    using r l(1) by (simp add: lane_reading_def start_read_def nth_set_lane in_file_def wanted_of_def)
  have "lanes_ok E (batch @ [(p, l, True)]) ?t"
    by (rule lanes_ok_step [OF lo t l(1)]) (use lo nin rd l(2) in \<open>auto simp: lanes_ok_def\<close>)
  then show ?thesis
    by (rule loading_lane_step [OF L t, rotated]) (use r in \<open>auto simp: lane_reading_def\<close>)
qed

text \<open>A read that brought all it was asked for.\<close>

definition read_done :: "ft_env \<Rightarrow> u64 \<Rightarrow> nat \<Rightarrow> ft \<Rightarrow> ft" where
  "read_done E p l s = set_lane l (\<lambda>x. x\<lparr>ln_page := p\<rparr>) (complete_read E l s)"

lemma loading_read_done:
  assumes L: "loading E z acc ex keep todo ((p, l, True) # rest) X s"
    and got: "io_got E (ft_tick s) = ln_wanted (ft_lanes s ! l)"
  shows "loading E z acc ex keep todo ((p, l, False) # rest) X (read_done E p l s)"
proof -
  let ?t = "read_done E p l s"
  have lo: "lanes_ok E ((p, l, True) # rest) s" and sz: "sized s" using L by (simp_all add: loading_def)
  then have l: "l < length (ft_lanes s)" and rd: "lane_reading s p l" and nin: "(q, l, r) \<notin> set rest" for q r
    by (force simp: lanes_ok_def)+
  define c where "c = ft_hostmem (complete_read E l s) l"
  have eq: "?t = set_lane l (\<lambda>x. x\<lparr>ln_pending := False, ln_page := p\<rparr>) (s\<lparr>ft_hostmem := (ft_hostmem s)(l := c)\<rparr>)"
    using l by (simp add: read_done_def complete_read_def c_def set_lane_def Let_def)
  have t: "lane_step l s ?t" unfolding eq lane_step_def by blast
  have lane: "ln_page (ft_lanes ?t ! l) = p" "\<not> ln_pending (ft_lanes ?t ! l)"
    "ln_wanted (ft_lanes ?t ! l) = ucast (wanted_of s p)" "ft_hostmem ?t l = c"
    using l rd by (simp_all add: eq nth_set_lane lane_reading_def)
  have pin: "in_file s p" using rd by (simp add: lane_reading_def)
  have ne: "p \<noteq> UINT64_MAX" using pin sz not_in_file_max by (auto simp: sized_def)
  have got: "unat (io_got E (ft_tick s)) = unat (wanted_of s p)"
    using got rd sz unat_ucast_up [of "ucast (wanted_of s p)"] by (simp add: lane_reading_def sized_def ucast_wanted)
  have "c k = page_bytes E s p k" if k: "k < unat (wanted_of s p)" for k
  proof -
    have "k < unat (ft_length s) - unat p * unat (ft_chunk s)" using k by (simp add: unat_wanted_of [OF pin])
    moreover have "c k = file_byte E (unat (p * ft_chunk s) + k)"
      using k rd by (simp add: c_def complete_read_def Let_def got lane_reading_def offset_halves)
    ultimately show ?thesis by (simp add: page_bytes_def unat_page_offset [OF pin] less_diff_conv add.commute)
  qed
  then have full: "lane_full E ?t l"
    using pin by (simp add: lane_full_def lane lane_step_sel [OF t] in_file_def wanted_of_def page_bytes_def)
  have "lanes_ok E ((p, l, False) # rest) ?t"
    by (rule lanes_ok_step [OF lo t l]) (use lo nin lane full ne in \<open>auto simp: lanes_ok_def\<close>)
  then show ?thesis
    by (rule loading_lane_step [OF L t, rotated]) (use rd in \<open>auto simp: lane_reading_def\<close>)
qed

end
