(* ===== verification/File_Tensor_Load.thy ===== *)
theory File_Tensor_Load
  imports File_Tensor_Inv
begin

text \<open>
  The loading of missing pages, function by function: each keeps the invariant of
  \<^verbatim>\<open>File_Tensor_Inv\<close>, and where it throws, the cause is a failed call or a short read and
  the state is safe. The choice of the slot and of the lane is compared with what it should
  be: a free slot first, else the least recently used one that the request does not need.
\<close>

section \<open>Choices\<close>

definition slot_candidate :: "u64 list \<Rightarrow> ft_slot list \<Rightarrow> nat \<Rightarrow> (nat \<times> u64) option \<Rightarrow> bool" where
  "slot_candidate req ys n best \<longleftrightarrow> (case best of
     None \<Rightarrow> \<forall>k < n. sl_page (ys ! k) \<in> set req
   | Some (b, u) \<Rightarrow> b < n \<and> sl_page (ys ! b) \<notin> set req \<and> u = sl_used (ys ! b) \<and>
       (\<forall>k < n. sl_page (ys ! k) \<notin> set req \<longrightarrow> u \<le> sl_used (ys ! k) \<and> (k < b \<longrightarrow> u < sl_used (ys ! k))))"

lemma slot_candidate_Suc:
  assumes "slot_candidate req ys n best" "n < length ys"
  shows "slot_candidate req ys (Suc n) (if sl_page (ys ! n) \<notin> set req then
     (case best of None \<Rightarrow> Some (n, sl_used (ys ! n))
      | Some (j, u) \<Rightarrow> if sl_used (ys ! n) < u then Some (n, sl_used (ys ! n)) else best) else best)"
  using assms
proof (cases best)
  case (Some bu)
  obtain b u where bu: "bu = (b, u)" by (cases bu)
  have less: "v \<le> w \<and> v < w" if "v < u" "u \<le> w" for v w :: u64
    using that by (meson order_less_le_trans less_imp_le)
  show ?thesis
    using assms less unfolding Some bu slot_candidate_def by (auto simp: less_Suc_eq not_less)
qed (auto simp: slot_candidate_def less_Suc_eq)

definition slot_choice :: "u64 list \<Rightarrow> ft_slot list \<Rightarrow> nat option \<Rightarrow> bool" where
  "slot_choice req ys r \<longleftrightarrow> (case r of
     None \<Rightarrow> \<forall>x \<in> set ys. sl_mapped x \<and> sl_page x \<in> set req
   | Some j \<Rightarrow> j < length ys \<and>
       (\<not> sl_mapped (ys ! j) \<and> (\<forall>k < j. sl_mapped (ys ! k)) \<or>
        (\<forall>k < length ys. sl_mapped (ys ! k)) \<and> slot_candidate req ys (length ys) (Some (j, sl_used (ys ! j)))))"

lemma pick_slot_choice_aux:
  "xs = drop n ys \<Longrightarrow> n \<le> length ys \<Longrightarrow> \<forall>k < n. sl_mapped (ys ! k) \<Longrightarrow> slot_candidate req ys n best
    \<Longrightarrow> slot_choice req ys (pick_slot req xs n best)"
proof (induction xs arbitrary: n best)
  case Nil
  then have n: "n = length ys" by simp
  show ?case
  proof (cases best)
    case None
    with Nil n show ?thesis by (auto simp: slot_choice_def slot_candidate_def in_set_conv_nth)
  next
    case (Some bu)
    with Nil n show ?thesis by (cases bu) (auto simp: slot_choice_def slot_candidate_def)
  qed
next
  case (Cons x xs)
  have n: "n < length ys" "ys ! n = x" "xs = drop (Suc n) ys"
    using Cons.prems(1,2) by (metis drop_eq_Nil list.distinct(1) not_less, metis nth_via_drop, metis drop_Suc list.sel(3) tl_drop)
  show ?case
  proof (cases "sl_mapped x")
    case True
    have m: "\<forall>k < Suc n. sl_mapped (ys ! k)" using True n Cons.prems(3) by (auto simp: less_Suc_eq)
    show ?thesis
      using Cons.IH [OF n(3) Suc_leI [OF n(1)] m slot_candidate_Suc [OF Cons.prems(4) n(1)]] True
      unfolding n(2) by (simp split: if_splits)
  next
    case False
    with n Cons.prems(3) show ?thesis by (simp add: slot_choice_def)
  qed
qed

lemma pick_slot_choice: "slot_choice req ys (pick_slot req ys 0 None)"
  by (rule pick_slot_choice_aux) (simp_all add: slot_candidate_def)

lemma pick_slot_Some:
  "pick_slot req ys 0 None = Some j \<Longrightarrow> j < length ys \<and> (sl_mapped (ys ! j) \<longrightarrow> sl_page (ys ! j) \<notin> set req)"
  using pick_slot_choice [of req ys] by (auto simp: slot_choice_def slot_candidate_def)

lemma pick_slot_None:
  "pick_slot req ys 0 None = None \<Longrightarrow> x \<in> set ys \<Longrightarrow> sl_mapped x \<and> sl_page x \<in> set req"
  using pick_slot_choice [of req ys] by (auto simp: slot_choice_def)

lemma pick_lane_Some_aux:
  "pick_lane busy xs n best = Some l \<Longrightarrow>
     map_option fst best = Some l \<or> n \<le> l \<and> l < n + length xs \<and> l \<notin> set busy"
  by (induction xs arbitrary: n best) (fastforce split: if_splits)+

lemma pick_lane_Some: "pick_lane busy xs 0 None = Some l \<Longrightarrow> l < length xs \<and> l \<notin> set busy"
  using pick_lane_Some_aux by fastforce

lemma pick_lane_None_aux:
  "pick_lane busy xs n best = None \<Longrightarrow> best = None \<and> {n..<n + length xs} \<subseteq> set busy"
proof (induction xs arbitrary: n best)
  case (Cons x xs)
  from Cons.IH [OF Cons.prems [unfolded pick_lane.simps]]
  have "n \<in> set busy" "best = None" "{Suc n..<Suc n + length xs} \<subseteq> set busy" by (auto split: if_splits option.splits)
  moreover have "{n..<n + length (x # xs)} = insert n {Suc n..<Suc n + length xs}" by auto
  ultimately show ?case by simp
qed simp

lemma pick_lane_free: "length busy < length xs \<Longrightarrow> pick_lane busy xs 0 None \<noteq> None"
proof
  assume "length busy < length xs" "pick_lane busy xs 0 None = None"
  with pick_lane_None_aux [of busy xs 0 None] have "card {0..<length xs} \<le> length busy"
    by (metis add_0 card_length card_mono List.finite_set le_trans)
  with \<open>length busy < length xs\<close> show False by simp
qed

lemma find_lane_aux: "find_lane xs page n = Some l \<Longrightarrow> n \<le> l \<and> l < n + length xs \<and> ln_page (xs ! (l - n)) = page"
  by (induction xs arbitrary: n) (fastforce simp: nth_Cons' Suc_le_eq split: if_splits)+

lemma find_lane_Some: "find_lane xs page 0 = Some l \<Longrightarrow> l < length xs \<and> ln_page (xs ! l) = page"
  using find_lane_aux [of xs page 0 l] by simp

lemma find_slot_aux:
  "find_slot xs page n = Some i \<Longrightarrow> n \<le> i \<and> i < n + length xs \<and> sl_mapped (xs ! (i - n)) \<and> sl_page (xs ! (i - n)) = page"
  by (induction xs arbitrary: n) (fastforce simp: nth_Cons' Suc_le_eq split: if_splits)+

lemma find_slot_None: "find_slot xs page n = None \<longleftrightarrow> page \<notin> sl_page ` {x \<in> set xs. sl_mapped x}"
  by (induction xs arbitrary: n) auto

lemma find_slot_resident: "find_slot (ft_slots s) page 0 = None \<longleftrightarrow> page \<notin> resident s"
  by (simp add: find_slot_None resident_def)

text \<open>With at most as many required pages as slots, a missing page always finds a slot.\<close>

lemma pick_slot_available:
  assumes mp: "mapping_ok acc s" and p: "p \<in> set req" "p \<notin> resident s" and n: "length req \<le> length (ft_slots s)"
  shows "pick_slot req (ft_slots s) 0 None \<noteq> None"
proof
  assume none: "pick_slot req (ft_slots s) 0 None = None"
  let ?pages = "map sl_page (ft_slots s)"
  have all: "sl_mapped x \<and> sl_page x \<in> set req" if "x \<in> set (ft_slots s)" for x
    using pick_slot_None [OF none that] .
  have "distinct ?pages"
    unfolding distinct_conv_nth
    using mapped_unique [OF mp] all by (fastforce simp: nth_map)
  moreover have "set ?pages \<subseteq> set req - {p}"
    using all p(2) by (auto simp: resident_def)
  ultimately have "length ?pages \<le> card (set req - {p})"
    by (metis card_mono distinct_card finite_Diff List.finite_set)
  also have "\<dots> < card (set req)" using p(1) by (intro psubset_card_mono) auto
  also have "\<dots> \<le> length req" by (rule card_length)
  finally show False using n by simp
qed

section \<open>Calls that fail\<close>

text \<open>The errors that the outside world causes: a call that fails, a read that is short.\<close>

definition env_error :: "ft_env \<Rightarrow> ft \<Rightarrow> ft_error \<Rightarrow> bool" where
  "env_error E z e \<longleftrightarrow>
     (\<exists>op n. e = Cuda_error op (status E n) \<and> status E n \<noteq> 0) \<or>
     (\<exists>op n. e = Windows_error op \<and> \<not> win_ok E n) \<or>
     (\<exists>n p. e = Runtime_error ''Short tensor file read'' \<and> in_file z p \<and> io_got E n \<noteq> ucast (wanted_of z p))"

definition load_failed :: "ft_env \<Rightarrow> ft \<Rightarrow> ft_error \<Rightarrow> ft \<Rightarrow> bool" where
  "load_failed E z e s \<longleftrightarrow> ft_safe E s \<and> same_shape z s \<and> env_error E z e"

lemma triple_cu:
  assumes "\<And>s. P s \<Longrightarrow> P (advance E s)" "\<And>s. P s \<Longrightarrow> Q () (eff s)"
    and "\<And>s n. P s \<Longrightarrow> status E n \<noteq> 0 \<Longrightarrow> R (Cuda_error op (status E n)) s"
  shows "triple P (cu E op eff) Q R"
  using assms by (simp add: triple_def cu_def Let_def)

lemma triple_win:
  assumes "\<And>s. P s \<Longrightarrow> P (advance E s)" "\<And>s. P s \<Longrightarrow> Q () (eff s)"
    and "\<And>s n. P s \<Longrightarrow> \<not> win_ok E n \<Longrightarrow> R (Windows_error op) s"
  shows "triple P (win E op eff) Q R"
  using assms by (simp add: triple_def win_def Let_def)

lemma load_cu:
  assumes "\<And>s. P s \<Longrightarrow> P (advance E s)" "\<And>s. P s \<Longrightarrow> Q () (eff s)" "\<And>s. P s \<Longrightarrow> ft_safe E s \<and> same_shape z s"
  shows "triple P (cu E op eff) Q (load_failed E z)"
  by (rule triple_cu) (use assms in \<open>auto simp: load_failed_def env_error_def\<close>)

lemma load_win:
  assumes "\<And>s. P s \<Longrightarrow> P (advance E s)" "\<And>s. P s \<Longrightarrow> Q () (eff s)" "\<And>s. P s \<Longrightarrow> ft_safe E s \<and> same_shape z s"
  shows "triple P (win E op eff) Q (load_failed E z)"
  by (rule triple_win) (use assms in \<open>auto simp: load_failed_def env_error_def\<close>)

lemma advance_sel [simp]:
  "ft_slots (advance E s) = ft_slots s" "ft_lanes (advance E s) = ft_lanes s"
  "ft_vmap (advance E s) = ft_vmap s" "ft_hostmem (advance E s) = ft_hostmem s"
  "ft_address (advance E s) = ft_address s" "ft_chunk (advance E s) = ft_chunk s"
  "ft_length (advance E s) = ft_length s" "ft_cache (advance E s) = ft_cache s"
  "ft_poisoned (advance E s) = ft_poisoned s" "ft_clock (advance E s) = ft_clock s"
  "ft_context (advance E s) = ft_context s" "ft_owner (advance E s) = ft_owner s"
  "ft_counters (advance E s) = ft_counters s" "ft_ledger (advance E s) = ft_ledger s"
  "ft_file (advance E s) = ft_file s" "ft_queue (advance E s) = ft_queue s"
  "ft_consumer_done (advance E s) = ft_consumer_done s" "ft_reserved (advance E s) = ft_reserved s"
  "page_addr (advance E s) p = page_addr s p" "in_file (advance E s) p = in_file s p"
  "resident (advance E s) = resident s" "settled (advance E s) = settled s"
  "ft_tick (advance E s) = Suc (ft_tick s)"
proof -
  show "settled (advance E s) = settled s"
    using settled_run_ops [of "progress E (ft_tick s)" s] by (simp add: advance_def settled_def)
qed (simp_all add: advance_def run_ops_closed page_addr_def in_file_def resident_def)

lemma holds_upto_advance: "holds_upto E p n s \<Longrightarrow> holds_upto E p n (advance E s)"
  by (simp add: holds_upto_def page_bytes_def)

lemma lane_reading_advance: "lane_reading s p l \<Longrightarrow> lane_reading (advance E s) p l"
  by (auto simp: lane_reading_def wanted_of_def) (auto simp: advance_def run_ops_closed dest: in_set_dropD)

section \<open>A slot for a page\<close>

lemma take_slot_triple:
  assumes p: "p \<in> todo" "p \<in> set req" "in_file z p" and req: "keep \<subseteq> set req" "length req \<le> length (ft_slots z)"
    and acc: "\<And>q. acc q = Read_write \<Longrightarrow> q \<in> keep" "\<And>q. q \<in> ex \<Longrightarrow> acc q \<noteq> Read_only"
  shows "triple (loading E z acc ex keep todo batch {}) (take_slot E req p)
    (\<lambda>_. loading E z (acc(p := Read_write)) (insert p ex) (insert p keep) (todo - {p}) batch {}) (load_failed E z)"
  unfolding take_slot_def
proof (rule triple_get)
  fix t
  assume L: "loading E z acc ex keep todo batch {} t"
  let ?L = "loading E z acc ex keep todo batch {}"
  let ?M = "loading E z (acc(p := No_access)) (insert p ex) (insert p keep) (todo - {p}) batch {}"
  have "pick_slot req (ft_slots t) 0 None \<noteq> None"
    using L p req by (intro pick_slot_available [of acc t p]) (auto simp: loading_def same_shape_def)
  then obtain i where i: "pick_slot req (ft_slots t) 0 None = Some i" by auto
  note Some = pick_slot_Some [OF i]
  have base: "ft_safe E s \<and> same_shape z s" if "?L s" for s
    using loading_safe [OF that] that acc(2) by (simp add: loading_def)
  have base': "ft_safe E s \<and> same_shape z s" if "?M s" for s
  proof -
    have "(acc(p := No_access)) q \<noteq> Read_only" if "q \<in> insert p ex" for q using that acc(2) by auto
    from loading_safe [OF that this] that show ?thesis by (simp add: loading_def)
  qed
  have pin: "in_file s p" if "?L s" for s
    using that p(3) by (simp add: loading_def same_shape_def in_file_def)
  let ?P = "\<lambda>s. ?L s \<and> ft_slots s = ft_slots t"
  have "triple (\<lambda>s. s = t) (if sl_mapped (ft_slots t ! i) then cu E ''evict mapping'' (unmap_slot i) else chk_ret ())
     (\<lambda>_ s. ?L s \<and> i < length (ft_slots s) \<and> \<not> sl_mapped (ft_slots s ! i)) (load_failed E z)"
  proof (rule triple_if)
    assume m: "sl_mapped (ft_slots t ! i)"
    have "triple ?P (cu E ''evict mapping'' (unmap_slot i))
      (\<lambda>_ s. ?L s \<and> i < length (ft_slots s) \<and> \<not> sl_mapped (ft_slots s ! i)) (load_failed E z)"
    proof (rule load_cu)
      fix s assume s: "?P s"
      show "?P (advance E s)" using s by (simp add: loading_advance)
      show "ft_safe E s \<and> same_shape z s" using s base by simp
      have "sl_page (ft_slots s ! i) \<notin> keep" using m s Some req(1) by auto
      then have "?L (unmap_slot i s)"
        using s m Some acc(1) by (intro loading_unmap) auto
      then show "?L (unmap_slot i s) \<and> i < length (ft_slots (unmap_slot i s)) \<and> \<not> sl_mapped (ft_slots (unmap_slot i s) ! i)"
        using s Some by (simp add: unmap_slot_def count_stat_def set_slot_def noted_def)
    qed
    then show "triple (\<lambda>s. s = t) (cu E ''evict mapping'' (unmap_slot i))
      (\<lambda>_ s. ?L s \<and> i < length (ft_slots s) \<and> \<not> sl_mapped (ft_slots s ! i)) (load_failed E z)"
      by (rule triple_pre) (simp add: L)
  next
    assume "\<not> sl_mapped (ft_slots t ! i)"
    then show "triple (\<lambda>s. s = t) (chk_ret ())
      (\<lambda>_ s. ?L s \<and> i < length (ft_slots s) \<and> \<not> sl_mapped (ft_slots s ! i)) (load_failed E z)"
      using L Some by (intro triple_ret) simp
  qed
  moreover have "triple (\<lambda>s. ?L s \<and> i < length (ft_slots s) \<and> \<not> sl_mapped (ft_slots s ! i))
      (cu E ''map physical chunk'' (map_slot i p)) (\<lambda>_. ?M) (load_failed E z)"
    by (rule load_cu) (use base pin p(1) in \<open>auto simp: loading_advance intro!: loading_map\<close>)
  moreover have "triple ?M (set_access E p Read_write)
      (\<lambda>_. loading E z (acc(p := Read_write)) (insert p ex) (insert p keep) (todo - {p}) batch {}) (load_failed E z)"
    unfolding set_access_def
  proof (rule load_cu)
    fix s assume s: "?M s"
    show "?M (advance E s)" using s by (rule loading_advance)
    show "ft_safe E s \<and> same_shape z s" using s by (rule base')
    show "loading E z (acc(p := Read_write)) (insert p ex) (insert p keep) (todo - {p}) batch {}
      (s\<lparr>ft_vmap := (ft_vmap s)(page_addr s p := map_option (\<lambda>(i, _). (i, Read_write)) (ft_vmap s (page_addr s p)))\<rparr>)"
      using loading_set_access [OF s, of p Read_write] by simp
  qed
  ultimately show "triple (\<lambda>s. s = t) (case pick_slot req (ft_slots t) 0 None of
       None \<Rightarrow> chk_throw (Runtime_error ''No evictable residency slot'')
     | Some i \<Rightarrow>
       chk_bind (if sl_mapped (ft_slots t ! i) then cu E ''evict mapping'' (unmap_slot i) else chk_ret ()) (\<lambda>_.
       chk_bind (cu E ''map physical chunk'' (map_slot i p)) (\<lambda>_.
       set_access E p Read_write)))
     (\<lambda>_. loading E z (acc(p := Read_write)) (insert p ex) (insert p keep) (todo - {p}) batch {}) (load_failed E z)"
    unfolding i option.case by (intro triple_bind)
qed

section \<open>A lane for a page\<close>

lemma run_mark_sel [simp]:
  "ft_lanes (run_mark l s) = ft_lanes s" "ft_clock (run_mark l s) = ft_clock s"
  "in_file (run_mark l s) p = in_file s p"
  by (simp_all add: run_mark_def run_ops_closed in_file_def)

lemma loading_wait:
  assumes L: "loading E z acc ex keep todo batch {} s" and l: "l < length (ft_lanes s)"
  shows "loading E z acc ex keep todo batch {} (set_lane l (\<lambda>x. x\<lparr>ln_used := u\<rparr>) ((run_mark l s)\<lparr>ft_clock := c\<rparr>))"
proof -
  have "loading E z acc ex keep todo batch {} ((run_mark l s)\<lparr>ft_clock := c\<rparr>)"
    using L by (simp add: loading_book run_mark_def loading_run_ops)
  then show ?thesis by (rule loading_lane_used) (simp add: run_mark_def run_ops_closed l)
qed

lemma take_lane_triple:
  assumes p: "in_file z p" "p \<notin> fst ` set batch" and n: "length batch < length (ft_lanes z)"
    and acc: "\<And>q. q \<in> ex \<Longrightarrow> acc q \<noteq> Read_only"
  shows "triple (loading E z acc ex keep todo batch {}) (take_lane E p batch)
    (\<lambda>(l, hit). loading E z acc ex keep todo (batch @ [(p, l, \<not> hit)]) {}) (load_failed E z)"
  unfolding take_lane_def
proof (rule triple_get)
  fix t
  assume L: "loading E z acc ex keep todo batch {} t"
  let ?L = "loading E z acc ex keep todo batch {}"
  let ?busy = "map (\<lambda>(_, l, _). l) batch"
  define cached where "cached = (if ft_cache t then find_lane (ft_lanes t) p 0 else None)"
  define pick where "pick = (case cached of Some l \<Rightarrow> Some l | None \<Rightarrow> pick_lane ?busy (ft_lanes t) 0 None)"
  have lens: "length ?busy < length (ft_lanes t)" using L n by (simp add: loading_def same_shape_def)
  have busy: "set ?busy = (fst \<circ> snd) ` set batch" by force
  have sz: "0 < ft_chunk t" "in_file t p"
    using L p(1) unfolding loading_def sized_def same_shape_def in_file_def by auto
  have ne: "p \<noteq> UINT64_MAX" using not_in_file_max sz by blast
  have open_page: "ln_page (ft_lanes t ! l) \<noteq> p" if "l \<in> (fst \<circ> snd) ` set batch" for l
  proof -
    obtain q r where q: "(q, l, r) \<in> set batch" using \<open>l \<in> _\<close> by force
    then have "q \<noteq> p" using p(2) by force
    moreover have "lanes_ok E batch t" using L by (simp add: loading_def)
    ultimately show ?thesis using lanes_ok_item [OF _ q, of E t] ne by (auto simp: lane_reading_def split: if_splits)
  qed
  have "pick \<noteq> None" using pick_lane_free [OF lens] by (simp add: pick_def split: option.splits)
  then obtain l where pick: "pick = Some l" by auto
  have hit: "l < length (ft_lanes t) \<and> ln_page (ft_lanes t ! l) = p" if "cached \<noteq> None"
    using that pick find_lane_Some [of "ft_lanes t" p l] by (auto simp: pick_def cached_def split: if_splits)
  have miss: "l < length (ft_lanes t) \<and> l \<notin> (fst \<circ> snd) ` set batch" if "cached = None"
    using that pick pick_lane_Some [of ?busy "ft_lanes t" l] busy by (simp add: pick_def)
  have l: "l < length (ft_lanes t)" "l \<notin> (fst \<circ> snd) ` set batch"
    using hit miss open_page by (cases "cached = None"; blast)+
  have base: "ft_safe E s \<and> same_shape z s" if "?L s" for s
    using loading_safe [OF that] that acc by (simp add: loading_def)
  define W where "W = (\<lambda>s. ?L s \<and> length (ft_lanes s) = length (ft_lanes t) \<and> in_file s p
    \<and> ln_page (ft_lanes s ! l) = ln_page (ft_lanes t ! l) \<and> (\<forall>x \<in> set (ft_stream s). op_source x \<noteq> Some l))"
  let ?P = "\<lambda>s. ?L s \<and> ft_lanes s = ft_lanes t \<and> in_file s p"
  have wait: "triple (\<lambda>s. s = t) (cu E ''wait host buffer reuse'' (\<lambda>s.
         set_lane l (\<lambda>x. x\<lparr>ln_used := ft_clock s + 1\<rparr>) ((run_mark l s)\<lparr>ft_clock := ft_clock s + 1\<rparr>)))
       (\<lambda>_. W) (load_failed E z)"
  proof (rule triple_pre [where P' = ?P], rule load_cu)
    fix s assume s: "?P s"
    show "?P (advance E s)" using s by (simp add: loading_advance)
    show "ft_safe E s \<and> same_shape z s" using s base by simp
    let ?u = "set_lane l (\<lambda>x. x\<lparr>ln_used := ft_clock s + 1\<rparr>) ((run_mark l s)\<lparr>ft_clock := ft_clock s + 1\<rparr>)"
    have "fenced (ft_stream s) l" using s by (simp add: loading_def stream_ok_def)
    from run_mark_unread [OF this] have "\<forall>x \<in> set (ft_stream ?u). op_source x \<noteq> Some l" by simp
    moreover have "in_file ?u p" using s by (simp add: in_file_def run_mark_def run_ops_closed)
    moreover have "ln_page (ft_lanes ?u ! l) = ln_page (ft_lanes t ! l)" "length (ft_lanes ?u) = length (ft_lanes t)"
      using s l by (simp_all add: nth_set_lane)
    ultimately show "W ?u"
      using s l loading_wait [of E z acc ex keep todo batch s l]
      unfolding W_def by simp
  qed (use L sz in simp)
  have read: "triple W (chk_bind (chk_upd (prepare_read l p)) (\<lambda>_.
         chk_bind (win E ''start tensor read'' (start_read E l)) (\<lambda>_. chk_ret (l, False))))
       (\<lambda>(l, hit). loading E z acc ex keep todo (batch @ [(p, l, \<not> hit)]) {}) (load_failed E z)"
  proof (intro triple_bind)
    let ?R = "\<lambda>s. ?L s \<and> l < length (ft_lanes s) \<and> lane_reading s p l"
    show "triple W (chk_upd (prepare_read l p)) (\<lambda>_. ?R) (load_failed E z)"
    proof (rule triple_upd)
      fix s assume s: "W s"
      then have len: "l < length (ft_lanes s)" using l by (simp add: W_def)
      then show "?R (prepare_read l p s)"
        using loading_prepare [of E z acc ex keep todo batch "{}" s l p] s l(2)
        by (simp add: W_def) (simp add: prepare_read_def Let_def)
    qed
    show "triple ?R (win E ''start tensor read'' (start_read E l))
       (\<lambda>_. loading E z acc ex keep todo (batch @ [(p, l, True)]) {}) (load_failed E z)"
    proof (rule load_win)
      fix s assume s: "?R s"
      show "?R (advance E s)" using s by (simp add: loading_advance lane_reading_advance)
      show "ft_safe E s \<and> same_shape z s" using s base by simp
      show "loading E z acc ex keep todo (batch @ [(p, l, True)]) {} (start_read E l s)"
        using s l(2) by (intro loading_start) simp_all
    qed
    show "triple (loading E z acc ex keep todo (batch @ [(p, l, True)]) {}) (chk_ret (l, False))
       (\<lambda>(l, hit). loading E z acc ex keep todo (batch @ [(p, l, \<not> hit)]) {}) (load_failed E z)"
      by (rule triple_ret) simp
  qed
  have cachedhit: "triple W (chk_bind (chk_upd (count_stat (\<lambda>c. c\<lparr>st_host_hits := st_host_hits c + 1\<rparr>))) (\<lambda>_. chk_ret (l, True)))
       (\<lambda>(l, hit). loading E z acc ex keep todo (batch @ [(p, l, \<not> hit)]) {}) (load_failed E z)"
    if "cached \<noteq> None"
  proof (rule triple_bind)
    show "triple W (chk_upd (count_stat (\<lambda>c. c\<lparr>st_host_hits := st_host_hits c + 1\<rparr>)))
      (\<lambda>_. loading E z acc ex keep todo (batch @ [(p, l, False)]) {}) (load_failed E z)"
    proof (rule triple_upd)
      fix s assume s: "W s"
      then have "loading E z acc ex keep todo (batch @ [(p, l, False)]) {} s"
        using l hit [OF that] ne by (intro loading_hit) (simp_all add: W_def)
      then show "loading E z acc ex keep todo (batch @ [(p, l, False)]) {}
         (count_stat (\<lambda>c. c\<lparr>st_host_hits := st_host_hits c + 1\<rparr>) s)"
        by (simp add: count_stat_def loading_book)
    qed
  qed (rule triple_ret, simp)
  show "triple (\<lambda>s. s = t) (let cached = (if ft_cache t then find_lane (ft_lanes t) p 0 else None) in
     case (case cached of Some l \<Rightarrow> Some l | None \<Rightarrow> pick_lane ?busy (ft_lanes t) 0 None) of
       None \<Rightarrow> chk_throw (Runtime_error ''No file read lane available'')
     | Some l \<Rightarrow>
       chk_bind (cu E ''wait host buffer reuse'' (\<lambda>s.
         set_lane l (\<lambda>x. x\<lparr>ln_used := ft_clock s + 1\<rparr>) ((run_mark l s)\<lparr>ft_clock := ft_clock s + 1\<rparr>))) (\<lambda>_.
       if cached \<noteq> None then
         chk_bind (chk_upd (count_stat (\<lambda>c. c\<lparr>st_host_hits := st_host_hits c + 1\<rparr>))) (\<lambda>_. chk_ret (l, True))
       else
         chk_bind (chk_upd (prepare_read l p)) (\<lambda>_.
         chk_bind (win E ''start tensor read'' (start_read E l)) (\<lambda>_. chk_ret (l, False)))))
    (\<lambda>(l, hit). loading E z acc ex keep todo (batch @ [(p, l, \<not> hit)]) {}) (load_failed E z)"
    unfolding Let_def cached_def [symmetric] pick_def [symmetric] pick option.case
    by (intro triple_bind [OF wait] triple_if cachedhit read)
qed

section \<open>Reads and uploads\<close>

lemma safe_complete: "ft_safe E (complete_read E l s) = ft_safe E s"
  by (simp add: ft_safe_def complete_read_def Let_def in_file_def page_addr_def page_bytes_def set_lane_def)

lemma same_shape_complete: "same_shape z (complete_read E l s) = same_shape z s"
  by (simp add: same_shape_def complete_read_def Let_def)

lemma await_read_triple:
  assumes acc: "\<And>q. q \<in> ex \<Longrightarrow> acc q \<noteq> Read_only"
  shows "triple (loading E z acc ex keep todo ((p, l, True) # rest) {}) (await_read E p l)
    (\<lambda>_. loading E z acc ex keep todo ((p, l, False) # rest) {}) (load_failed E z)"
  unfolding await_read_def
proof (rule triple_bind)
  let ?L = "loading E z acc ex keep todo ((p, l, True) # rest) {}"
  let ?C = "\<lambda>s. \<exists>s1. ?L s1 \<and> l < length (ft_lanes s1) \<and> s = complete_read E l s1"
  have base: "ft_safe E s \<and> same_shape z s" if "?L s" for s
    using loading_safe [OF that] that acc by (simp add: loading_def)
  have len: "l < length (ft_lanes s)" if "?L s" for s
    using that lanes_ok_item [of E "(p, l, True) # rest" s p l True] by (simp add: loading_def)
  show "triple ?L (win E ''complete tensor read'' (complete_read E l)) (\<lambda>_. ?C) (load_failed E z)"
    by (rule load_win) (use base len loading_advance in blast)+
  show "triple ?C (chk_bind chk_get (\<lambda>s. let got = io_got E (ft_tick s) in
     chk_bind (throw_if (got \<noteq> ln_wanted (ft_lanes s ! l)) (Runtime_error ''Short tensor file read'')) (\<lambda>_.
     chk_upd (\<lambda>s. count_stat (\<lambda>c. c\<lparr>st_file_bytes := st_file_bytes c + ucast got\<rparr>)
       (set_lane l (\<lambda>x. x\<lparr>ln_page := p\<rparr>) s)))))
    (\<lambda>_. loading E z acc ex keep todo ((p, l, False) # rest) {}) (load_failed E z)"
  proof (rule triple_get, elim exE conjE, unfold Let_def throw_if_def, rule triple_bind)
    fix t s1
    assume s1: "?L s1" "l < length (ft_lanes s1)" and t: "t = complete_read E l s1"
    let ?G = "\<lambda>s. s = t \<and> io_got E (ft_tick t) = ln_wanted (ft_lanes t ! l)"
    show "triple (\<lambda>s. s = t) (if io_got E (ft_tick t) \<noteq> ln_wanted (ft_lanes t ! l)
       then chk_throw (Runtime_error ''Short tensor file read'') else chk_ret ()) (\<lambda>_. ?G) (load_failed E z)"
    proof (intro triple_if triple_throw triple_ret)
      fix s assume short: "io_got E (ft_tick t) \<noteq> ln_wanted (ft_lanes t ! l)" and s: "s = t"
      have "lane_reading s1 p l"
        using s1(1) lanes_ok_item [of E "(p, l, True) # rest" s1 p l True] by (simp add: loading_def)
      then have w: "in_file s1 p" "ln_wanted (ft_lanes t ! l) = ucast (wanted_of s1 p)"
        using s1(2) by (simp_all add: lane_reading_def t complete_read_def Let_def nth_set_lane)
      have z: "in_file z p" "wanted_of s1 p = wanted_of z p"
        using w(1) base [OF s1(1)] by (simp_all add: same_shape_def in_file_def wanted_of_def)
      have "env_error E z (Runtime_error ''Short tensor file read'')"
        using short z w(2) unfolding env_error_def by auto
      with base [OF s1(1)] show "load_failed E z (Runtime_error ''Short tensor file read'') s"
        by (simp add: load_failed_def s t safe_complete same_shape_complete)
    qed simp_all
    show "triple ?G (chk_upd (\<lambda>s. count_stat (\<lambda>c. c\<lparr>st_file_bytes := st_file_bytes c + ucast (io_got E (ft_tick t))\<rparr>)
       (set_lane l (\<lambda>x. x\<lparr>ln_page := p\<rparr>) s))) (\<lambda>_. loading E z acc ex keep todo ((p, l, False) # rest) {}) (load_failed E z)"
    proof (rule triple_upd)
      fix s assume s: "?G s"
      then have "io_got E (ft_tick s1) = ln_wanted (ft_lanes s1 ! l)"
        using s1(2) by (simp add: t complete_read_def Let_def nth_set_lane)
      from loading_read_done [OF s1(1) this] s
      show "loading E z acc ex keep todo ((p, l, False) # rest) {}
         (count_stat (\<lambda>c. c\<lparr>st_file_bytes := st_file_bytes c + ucast (io_got E (ft_tick t))\<rparr>)
           (set_lane l (\<lambda>x. x\<lparr>ln_page := p\<rparr>) s))"
        by (simp add: t read_done_def count_stat_def loading_book)
    qed
  qed
qed

text \<open>The copy brings the bytes of the page, the fill the zeros behind the end of the file.\<close>

lemma page_bytes_padding:
  "in_file s p \<Longrightarrow> unat (wanted_of s p) \<le> k \<Longrightarrow> k < unat (ft_chunk s) \<Longrightarrow> page_bytes E s p k = 0"
  by (auto simp: page_bytes_def unat_wanted_of Let_def min_def split: if_splits)

lemma holds_upto_copy:
  assumes L: "loading E z acc ex keep todo ((p, l, False) # rest) X s"
    and p: "p \<in> keep" "acc p = Read_write"
  shows "holds_upto E p (unat (wanted_of s p)) (enqueue (Copy (page_addr s p) l (unat (wanted_of s p))) s)"
proof -
  have mp: "mapping_ok acc s" and lo: "lanes_ok E ((p, l, False) # rest) s" and res: "p \<in> resident s"
    using L p(1) by (auto simp: loading_def)
  from lanes_ok_item [OF lo, of p l False] have l: "l < length (ft_lanes s)" "ln_page (ft_lanes s ! l) = p" "p \<noteq> UINT64_MAX"
    by auto
  have "lane_full E s l" using lanes_ok_held [OF lo, of p l] by simp
  with l have full: "\<forall>k < unat (wanted_of s p). ft_hostmem s l k = page_bytes E s p k"
    by (simp add: lane_full_def)
  have "settled (enqueue (Copy (page_addr s p) l (unat (wanted_of s p))) s) i k = page_bytes E s p k"
    if "i < length (ft_slots s)" "sl_mapped (ft_slots s ! i)" "sl_page (ft_slots s ! i) = p"
      "k < unat (wanted_of s p)" for i k
    using full that by (subst settled_enqueue_slot [OF mp that(1,2) _ p(2) res]) simp_all
  then show ?thesis by (simp add: holds_upto_def page_bytes_def)
qed

lemma holds_upto_clear:
  assumes L: "loading E z acc ex keep todo batch X s" and h: "holds_upto E p n s"
    and p: "p \<in> keep" "acc p = Read_write" "in_file s p" and n: "n = unat (wanted_of s p)" "n + m = unat (ft_chunk s)"
  shows "holds_upto E p (unat (ft_chunk s)) (enqueue (Clear (page_addr s p) n m) s)"
proof -
  have mp: "mapping_ok acc s" and res: "p \<in> resident s" using L p(1) by (auto simp: loading_def)
  have "settled (enqueue (Clear (page_addr s p) n m) s) i k = page_bytes E s p k"
    if i: "i < length (ft_slots s)" "sl_mapped (ft_slots s ! i)" "sl_page (ft_slots s ! i) = p"
      and k: "k < unat (ft_chunk s)" for i k
    using h i k n page_bytes_padding [OF p(3), of k E]
    by (subst settled_enqueue_slot [OF mp i(1,2) _ p(2) res]) (auto simp: holds_upto_def not_le)
  then show ?thesis by (simp add: holds_upto_def page_bytes_def)
qed

lemma upload_triple:
  assumes p: "p \<in> keep" "acc p = Read_write" "p \<in> ex" "in_file z p" and acc: "\<And>q. q \<in> ex \<Longrightarrow> acc q \<noteq> Read_only"
  shows "triple (loading E z acc ex keep todo ((p, l, False) # rest) {}) (upload E p l)
    (\<lambda>_. loading E z acc (ex - {p}) keep todo rest {}) (load_failed E z)"
  unfolding upload_def
proof (rule triple_get)
  fix t
  assume L: "loading E z acc ex keep todo ((p, l, False) # rest) {} t"
  let ?b = "(p, l, False) # rest"
  let ?L = "loading E z acc ex keep todo ?b"
  have lo: "lanes_ok E ?b t" and sz: "sized t" and zt: "same_shape z t" using L by (simp_all add: loading_def)
  have free: "(q, l, True) \<notin> set ?b" for q
    using lanes_ok_held(1) [OF lo, of p l] by simp
  from lanes_ok_item [OF lo, of p l False] have l: "l < length (ft_lanes t)" "ln_page (ft_lanes t ! l) = p" "p \<noteq> UINT64_MAX"
    by auto
  have "lane_full E t l" using lanes_ok_held(2) [OF lo, of p l] by simp
  with l have "ln_wanted (ft_lanes t ! l) = ucast (wanted_of t p)" by (simp add: lane_full_def)
  with sz have w: "ucast (ln_wanted (ft_lanes t ! l)) = wanted_of t p" by (simp add: sized_def ucast_wanted)
  have frame: "wanted_of s p = wanted_of t p" "page_addr s p = page_addr t p" "in_file s p" "ft_chunk s = ft_chunk t"
    if "loading E z acc ex keep todo b X s" for b X s
    using that zt p(4) by (simp_all add: loading_def same_shape_def wanted_of_def page_addr_def in_file_def)
  have base: "ft_safe E s \<and> same_shape z s" if "loading E z acc ex keep todo b X s" for b X s
    using loading_safe [OF that] that acc by (simp add: loading_def)
  let ?w = "wanted_of t p"
  let ?P1 = "\<lambda>s. ?L {l} s \<and> holds_upto E p (unat ?w) s"
  let ?P2 = "\<lambda>s. ?L {l} s \<and> holds_upto E p (unat (ft_chunk t)) s"
  have pin: "in_file t p" using frame(3) [OF L] .
  have copy: "triple (\<lambda>s. s = t) (cu E ''copy file chunk to CUDA'' (enqueue (Copy (page_addr t p) l (unat ?w))))
      (\<lambda>_. ?P1) (load_failed E z)"
  proof (rule triple_pre [where P' = "?L {}"], rule load_cu)
    fix s assume s: "?L {} s"
    show "?L {} (advance E s)" using s by (rule loading_advance)
    show "ft_safe E s \<and> same_shape z s" using s by (rule base)
    have "?L {l} (enqueue (Copy (page_addr s p) l (unat ?w)) s)"
      using p free by (intro loading_enqueue [OF s, where p = p]) auto
    then show "?P1 (enqueue (Copy (page_addr t p) l (unat ?w)) s)"
      using holds_upto_copy [OF s p(1,2)] frame [OF s] by simp
  qed (simp add: L)
  have clear: "triple ?P1 (if ?w < ft_chunk t
       then cu E ''clear final chunk padding'' (enqueue (Clear (page_addr t p) (unat ?w) (unat (ft_chunk t - ?w))))
       else chk_ret ()) (\<lambda>_. ?P2) (load_failed E z)"
  proof (rule triple_if)
    assume less: "?w < ft_chunk t"
    show "triple ?P1 (cu E ''clear final chunk padding'' (enqueue (Clear (page_addr t p) (unat ?w) (unat (ft_chunk t - ?w)))))
       (\<lambda>_. ?P2) (load_failed E z)"
    proof (rule load_cu)
      fix s assume s: "?P1 s"
      show "?P1 (advance E s)" using s by (simp add: loading_advance holds_upto_advance)
      show "ft_safe E s \<and> same_shape z s" using s base by blast
      have fr: "page_addr s p = page_addr t p" "wanted_of s p = ?w" "in_file s p" "ft_chunk s = ft_chunk t"
        using frame s by blast+
      have sum: "unat ?w + unat (ft_chunk t - ?w) = unat (ft_chunk t)"
        using less by (simp add: unat_sub word_less_nat word_le_nat)
      have "?L {l} (enqueue (Clear (page_addr t p) (unat ?w) (unat (ft_chunk t - ?w))) s)"
        using s p fr by (intro loading_enqueue [where X = "{l}" and p = p]) auto
      moreover have "holds_upto E p (unat (ft_chunk s)) (enqueue (Clear (page_addr s p) (unat ?w) (unat (ft_chunk t - ?w))) s)"
        using s p fr sum by (intro holds_upto_clear [of E z acc ex keep todo ?b "{l}"]) auto
      ultimately show "?P2 (enqueue (Clear (page_addr t p) (unat ?w) (unat (ft_chunk t - ?w))) s)"
        using fr by simp
    qed
  next
    assume "\<not> ?w < ft_chunk t"
    then have "?w = ft_chunk t" by (simp add: wanted_of_def min_def split: if_splits)
    then show "triple ?P1 (chk_ret ()) (\<lambda>_. ?P2) (load_failed E z)" by (intro triple_ret) simp
  qed
  have mark: "triple ?P2 (cu E ''record staging fence'' (\<lambda>s.
       count_stat (\<lambda>c. c\<lparr>st_uploaded_bytes := st_uploaded_bytes c + ?w\<rparr>) (enqueue (Mark l) s)))
     (\<lambda>_. loading E z acc (ex - {p}) keep todo rest {}) (load_failed E z)"
  proof (rule load_cu)
    fix s assume s: "?P2 s"
    show "?P2 (advance E s)" using s by (simp add: loading_advance holds_upto_advance)
    show "ft_safe E s \<and> same_shape z s" using s base by blast
    have "ft_chunk s = ft_chunk t" using s frame(4) by blast
    then have "loading E z acc (ex - {p}) keep todo rest {l} s"
      using s by (intro loading_uploaded [where l = l]) simp_all
    then show "loading E z acc (ex - {p}) keep todo rest {}
        (count_stat (\<lambda>c. c\<lparr>st_uploaded_bytes := st_uploaded_bytes c + ?w\<rparr>) (enqueue (Mark l) s))"
      by (simp add: count_stat_def loading_book loading_mark)
  qed
  show "triple (\<lambda>s. s = t) (let wanted = (ucast (ln_wanted (ft_lanes t ! l)) :: u64); base = page_addr t p in
     chk_bind (cu E ''copy file chunk to CUDA'' (enqueue (Copy base l (unat wanted)))) (\<lambda>_.
     chk_bind (if wanted < ft_chunk t
       then cu E ''clear final chunk padding'' (enqueue (Clear base (unat wanted) (unat (ft_chunk t - wanted))))
       else chk_ret ()) (\<lambda>_.
     cu E ''record staging fence'' (\<lambda>s.
       count_stat (\<lambda>c. c\<lparr>st_uploaded_bytes := st_uploaded_bytes c + wanted\<rparr>) (enqueue (Mark l) s)))))
    (\<lambda>_. loading E z acc (ex - {p}) keep todo rest {}) (load_failed E z)"
    unfolding Let_def w by (intro triple_bind [OF copy] triple_bind [OF clear] mark)
qed

section \<open>Batches\<close>

lemma finish_triple:
  assumes items: "\<forall>q \<in> fst ` set batch. q \<in> keep \<and> acc q = Read_write \<and> in_file z q"
  shows "triple (loading E z acc (fst ` set batch) keep todo batch {}) (finish E batch)
    (\<lambda>_. loading E z acc {} keep todo [] {}) (load_failed E z)"
proof -
  let ?I = "\<lambda>(pre :: batch) (_ :: unit). loading E z acc (fst ` set (drop (length pre) batch)) keep todo (drop (length pre) batch) {}"
  have "triple (?I [] ()) (finish E batch) (?I batch) (load_failed E z)"
    unfolding finish_def
  proof (rule triple_each [where I = ?I])
    fix pre x rest b
    assume b: "batch = pre @ x # rest"
    obtain p l r where x: "x = (p, l, r)" by (cases x)
    have p: "p \<in> keep" "acc p = Read_write" "in_file z p" using items by (simp_all add: b x)
    let ?ex = "fst ` set ((p, l, r) # rest)"
    have acc: "acc q \<noteq> Read_only" if "q \<in> ?ex" for q
    proof -
      have "q \<in> fst ` set batch" using that by (auto simp: b x)
      from bspec [OF items this] show ?thesis by simp
    qed
    have "triple (loading E z acc ?ex keep todo ((p, l, r) # rest) {})
       (chk_bind (if r then await_read E p l else chk_ret ()) (\<lambda>_. upload E p l))
       (\<lambda>_. loading E z acc (fst ` set rest) keep todo rest {}) (load_failed E z)"
    proof (rule triple_bind)
      show "triple (loading E z acc ?ex keep todo ((p, l, r) # rest) {})
         (if r then await_read E p l else chk_ret ())
         (\<lambda>_. loading E z acc ?ex keep todo ((p, l, False) # rest) {}) (load_failed E z)"
        using acc by (cases r) (auto intro: triple_ret await_read_triple)
      show "triple (loading E z acc ?ex keep todo ((p, l, False) # rest) {}) (upload E p l)
         (\<lambda>_. loading E z acc (fst ` set rest) keep todo rest {}) (load_failed E z)"
      proof (rule triple_post)
        show "triple (loading E z acc ?ex keep todo ((p, l, False) # rest) {}) (upload E p l)
           (\<lambda>_. loading E z acc (?ex - {p}) keep todo rest {}) (load_failed E z)"
          using p acc by (intro upload_triple) simp_all
      qed (auto elim: loading_except)
    qed
    then show "triple (?I pre b) ((case x of (page, l, read) \<Rightarrow> \<lambda>_. chk_bind (if read then await_read E page l else chk_ret ())
        (\<lambda>_. upload E page l)) b) (?I (pre @ [x])) (load_failed E z)"
      by (simp add: b x)
  qed
  then show ?thesis by simp
qed

text \<open>The pages of the request that have been given a slot are writable, all others readable.\<close>

definition load_acc :: "u64 list \<Rightarrow> u64 \<Rightarrow> ft_access" where
  "load_acc pre q = (if q \<in> set pre then Read_write else Read_only)"

definition batch_ok :: "ft \<Rightarrow> u64 list \<Rightarrow> batch \<Rightarrow> bool" where
  "batch_ok z pre batch \<longleftrightarrow> length batch < min 2 (length (ft_lanes z)) \<and> fst ` set batch \<subseteq> set pre"

lemma load_page_triple:
  assumes p: "p \<in> set req" "in_file z p" "p \<notin> set pre" "p \<in> todo"
    and req: "keep \<subseteq> set req" "length req \<le> length (ft_slots z)" and pre: "set pre \<subseteq> keep" "\<forall>q \<in> set pre. in_file z q"
    and b: "batch_ok z pre batch"
  shows "triple (loading E z (load_acc pre) (fst ` set batch) keep todo batch {}) (load_page E req p batch)
    (\<lambda>batch' s. batch_ok z (pre @ [p]) batch' \<and>
       loading E z (load_acc (pre @ [p])) (fst ` set batch') (insert p keep) (todo - {p}) batch' {} s) (load_failed E z)"
  unfolding load_page_def
proof (intro triple_bind)
  let ?acc = "load_acc (pre @ [p])"
  let ?L = "\<lambda>b. loading E z ?acc (fst ` set b) (insert p keep) (todo - {p}) b {}"
  let ?L' = "loading E z ?acc (insert p (fst ` set batch)) (insert p keep) (todo - {p}) batch {}"
  have acc: "(load_acc pre)(p := Read_write) = ?acc" by (auto simp: load_acc_def)
  have sub: "fst ` set batch \<subseteq> set pre" using b by (simp add: batch_ok_def)
  show "triple (loading E z (load_acc pre) (fst ` set batch) keep todo batch {}) (take_slot E req p) (\<lambda>_. ?L') (load_failed E z)"
    unfolding acc [symmetric]
    by (rule take_slot_triple [OF p(4,1,2) req]) (use sub pre in \<open>auto simp: load_acc_def split: if_splits\<close>)
  have "?acc q \<noteq> Read_only" if "q \<in> insert p (fst ` set batch)" for q
    using that sub by (auto simp: load_acc_def)
  then show "triple ?L' (take_lane E p batch) (\<lambda>(l, hit). loading E z ?acc (insert p (fst ` set batch)) (insert p keep) (todo - {p})
      (batch @ [(p, l, \<not> hit)]) {}) (load_failed E z)"
    using p b sub by (intro take_lane_triple) (auto simp: batch_ok_def)
  fix x :: "nat \<times> bool"
  obtain l hit where x: "x = (l, hit)" by (cases x)
  let ?b = "batch @ [(p, l, \<not> hit)]"
  have rest: "triple (?L ?b) (chk_bind chk_get (\<lambda>s. let batch' = ?b in
       if length batch' = min 2 (length (ft_lanes s)) then chk_bind (finish E batch') (\<lambda>_. chk_ret []) else chk_ret batch'))
     (\<lambda>batch' s. batch_ok z (pre @ [p]) batch' \<and> ?L batch' s) (load_failed E z)"
  proof (rule triple_get, unfold Let_def, rule triple_if)
    fix t assume t: "?L ?b t"
    then have lanes: "length (ft_lanes t) = length (ft_lanes z)" by (simp add: loading_def same_shape_def)
    show "triple (\<lambda>s. s = t) (chk_bind (finish E ?b) (\<lambda>_. chk_ret []))
       (\<lambda>batch' s. batch_ok z (pre @ [p]) batch' \<and> ?L batch' s) (load_failed E z)"
    proof (rule triple_bind)
      have "\<forall>q \<in> fst ` set ?b. q \<in> insert p keep \<and> ?acc q = Read_write \<and> in_file z q"
        using pre p(2) sub by (auto simp: load_acc_def)
      from finish_triple [OF this] show "triple (\<lambda>s. s = t) (finish E ?b)
        (\<lambda>_. loading E z ?acc {} (insert p keep) (todo - {p}) [] {}) (load_failed E z)"
        by (rule triple_pre) (use t in simp)
      show "triple (loading E z ?acc {} (insert p keep) (todo - {p}) [] {}) (chk_ret [])
         (\<lambda>batch' s. batch_ok z (pre @ [p]) batch' \<and> ?L batch' s) (load_failed E z)"
        using b by (intro triple_ret) (auto simp: batch_ok_def)
    qed
    assume "length ?b \<noteq> min 2 (length (ft_lanes t))"
    then show "triple (\<lambda>s. s = t) (chk_ret ?b)
       (\<lambda>batch' s. batch_ok z (pre @ [p]) batch' \<and> ?L batch' s) (load_failed E z)"
    proof (intro triple_ret conjI)
      show "batch_ok z (pre @ [p]) ?b" if "length ?b \<noteq> min 2 (length (ft_lanes t))"
        using that b sub lanes by (auto simp: batch_ok_def min_def split: if_splits)
      show "?L ?b s" if "s = t" for s using t that by blast
    qed
  qed
  have "triple (?L ?b) (chk_bind (chk_upd (count_stat (\<lambda>c. c\<lparr>st_misses := st_misses c + 1\<rparr>))) (\<lambda>_.
     chk_bind chk_get (\<lambda>s. let batch' = ?b in
       if length batch' = min 2 (length (ft_lanes s)) then chk_bind (finish E batch') (\<lambda>_. chk_ret []) else chk_ret batch')))
     (\<lambda>batch' s. batch_ok z (pre @ [p]) batch' \<and> ?L batch' s) (load_failed E z)"
    by (rule triple_bind [OF triple_upd rest]) (simp add: count_stat_def loading_book)
  then show "triple (case x of (l, hit) \<Rightarrow> loading E z ?acc (insert p (fst ` set batch)) (insert p keep) (todo - {p})
      (batch @ [(p, l, \<not> hit)]) {})
     (case x of (l, hit) \<Rightarrow> chk_bind (chk_upd (count_stat (\<lambda>c. c\<lparr>st_misses := st_misses c + 1\<rparr>))) (\<lambda>_.
     chk_bind chk_get (\<lambda>s. let batch' = batch @ [(p, l, \<not> hit)] in
       if length batch' = min 2 (length (ft_lanes s)) then chk_bind (finish E batch') (\<lambda>_. chk_ret []) else chk_ret batch')))
     (\<lambda>batch' s. batch_ok z (pre @ [p]) batch' \<and> ?L batch' s) (load_failed E z)"
    by (simp add: x)
qed

end
