(* ===== verification/File_Tensor_Requests.thy ===== *)
theory File_Tensor_Requests
  imports File_Tensor_Load
begin

text \<open>
  Requests of a file tensor: the pages that a list of spans needs, the loading of the missing
  ones as a whole, \<^verbatim>\<open>acquire_many\<close> and \<^verbatim>\<open>record_use\<close>. Between calls the invariant of the
  loading holds with nothing open and every mapping read-only.
\<close>

section \<open>Between calls\<close>

abbreviation quiet :: "ft_env \<Rightarrow> ft \<Rightarrow> u64 set \<Rightarrow> u64 set \<Rightarrow> ft \<Rightarrow> bool" where
  "quiet E z keep todo \<equiv> loading E z (\<lambda>_. Read_only) {} keep todo [] UNIV"

lemma loading_weaken:
  "loading E z acc ex keep todo batch X s \<Longrightarrow> keep' \<subseteq> keep \<Longrightarrow> todo' \<subseteq> todo \<Longrightarrow> loading E z acc ex keep' todo' batch X s"
  by (auto simp: loading_def)

lemma loading_unfenced: "loading E z acc ex keep todo batch X s \<Longrightarrow> loading E z acc ex keep todo batch UNIV s"
  by (auto simp: loading_def stream_ok_def)

lemma loading_idle:
  "loading E z acc ex keep todo batch X s \<Longrightarrow> ft_stream s = [] \<Longrightarrow> loading E z acc ex keep todo batch X' s"
  by (auto simp: loading_def stream_ok_def)

lemma quiet_safe: "quiet E z keep todo s \<Longrightarrow> ft_safe E s"
  by (erule loading_safe) simp

lemma quiet_self:
  "quiet E z keep todo s \<Longrightarrow> quiet E s (resident s) (- resident s) s"
  by (auto simp: loading_def same_shape_def)

section \<open>The pages of a request\<close>

lemma add_pages_spec:
  "add_pages n ps acc = Inr acc' \<Longrightarrow>
     set acc' = set acc \<union> set ps \<and> (distinct acc \<longrightarrow> distinct acc') \<and> (length acc \<le> n \<longrightarrow> length acc' \<le> n)"
  by (induction ps arbitrary: acc) (auto simp: Let_def split: if_splits)

text \<open>The pages of a span, as numbers: from that of its first byte to that of its last.\<close>

lemma span_pages_nat:
  assumes "bytes \<noteq> 0" "offset < len" "bytes \<le> len - offset" "0 < chunk"
  shows "map unat (span_pages chunk (offset, bytes)) =
    [unat offset div unat chunk ..< Suc ((unat offset + unat bytes - 1) div unat chunk)]"
    and "unat ((offset + bytes - 1) div chunk - offset div chunk + 1)
      = Suc ((unat offset + unat bytes - 1) div unat chunk) - unat offset div unat chunk"
proof -
  let ?o = "unat offset" and ?n = "unat bytes" and ?c = "unat chunk"
  have n: "0 < ?n" using assms(1) by (simp add: unat_gt_0)
  have sum: "?o + ?n \<le> unat len"
    using assms(2,3) by (simp add: word_le_nat_alt word_less_nat_alt unat_sub)
  have big: "unat len < 2 ^ 64" by (rule unat_u64_less)
  have un: "unat (offset + bytes) = ?o + ?n" by (rule unat_plus_small) (use sum big in simp)
  have last: "unat (offset + bytes - 1) = ?o + ?n - 1"
    using n by (subst unat_minus_one) (auto simp: un unat_eq_zero [symmetric] simp del: unat_eq_zero)
  have le: "?o div ?c \<le> (?o + ?n - 1) div ?c" using n by (intro div_le_mono) simp
  have f: "unat (offset div chunk) = ?o div ?c" "unat ((offset + bytes - 1) div chunk) = (?o + ?n - 1) div ?c"
    by (simp_all add: unat_div_distrib last)
  have "unat ((offset + bytes - 1) div chunk - offset div chunk) = (?o + ?n - 1) div ?c - ?o div ?c"
    using le by (subst unat_sub) (simp_all add: word_le_nat_alt f)
  moreover have top: "(?o + ?n - 1) div ?c < 2 ^ 64 - 1"
    using sum big n by (intro le_less_trans [OF div_le_dividend]) simp
  ultimately show cnt: "unat ((offset + bytes - 1) div chunk - offset div chunk + 1) = Suc ((?o + ?n - 1) div ?c) - ?o div ?c"
    using le by (subst unat_plus_small) (simp_all add: Suc_diff_le)
  have "unat (offset div chunk + of_nat k) = ?o div ?c + k" if "k < Suc ((?o + ?n - 1) div ?c) - ?o div ?c" for k
  proof -
    have k: "?o div ?c + k < 2 ^ 64" using that top by linarith
    then have "unat (of_nat k :: u64) = k" by (simp add: unsigned_of_nat take_bit_nat_eq_self)
    with k show ?thesis by (subst unat_plus_small) (simp_all add: f)
  qed
  then have "map (unat \<circ> (\<lambda>k. offset div chunk + of_nat k)) [0..<Suc ((?o + ?n - 1) div ?c) - ?o div ?c]
    = map (\<lambda>k. k + ?o div ?c) [0..<Suc ((?o + ?n - 1) div ?c) - ?o div ?c]"
    by (intro map_cong) (simp_all add: add.commute)
  also have "\<dots> = [?o div ?c ..< Suc ((?o + ?n - 1) div ?c)]"
    using le by (subst map_add_upt) simp
  finally show "map unat (span_pages chunk (offset, bytes)) = [?o div ?c ..< Suc ((?o + ?n - 1) div ?c)]"
    by (simp add: span_pages_def Let_def cnt)
qed

text \<open>\<open>covers\<close>: a list of pages that has every byte of the spans and no page outside the file.\<close>

definition covers :: "u64 \<Rightarrow> u64 \<Rightarrow> span list \<Rightarrow> u64 list \<Rightarrow> bool" where
  "covers len chunk spans pages \<longleftrightarrow>
     (\<forall>p \<in> set pages. unat p * unat chunk < unat len) \<and>
     (\<forall>(offset, bytes) \<in> set spans. bytes \<noteq> 0 \<and> offset < len \<and> bytes \<le> len - offset \<and>
        (\<forall>k < unat bytes. of_nat ((unat offset + k) div unat chunk) \<in> set pages))"

lemma span_pages_cover:
  assumes s: "bytes \<noteq> 0" "offset < len" "bytes \<le> len - offset" "0 < chunk"
  shows "p \<in> set (span_pages chunk (offset, bytes)) \<Longrightarrow> unat p * unat chunk < unat len"
    and "k < unat bytes \<Longrightarrow> of_nat ((unat offset + k) div unat chunk) \<in> set (span_pages chunk (offset, bytes))"
proof -
  let ?o = "unat offset" and ?n = "unat bytes" and ?c = "unat chunk"
  note pages = span_pages_nat(1) [OF s]
  have set: "unat ` set (span_pages chunk (offset, bytes)) = {?o div ?c ..< Suc ((?o + ?n - 1) div ?c)}"
    using arg_cong [OF pages, of set] unfolding set_map set_upt .
  have sum: "?o + ?n \<le> unat len"
    using s(2,3) by (simp add: word_le_nat_alt word_less_nat_alt unat_sub)
  have n: "0 < ?n" using s(1) by (simp add: unat_gt_0)
  show "unat p * ?c < unat len" if "p \<in> set (span_pages chunk (offset, bytes))"
  proof -
    have "unat p \<in> {?o div ?c ..< Suc ((?o + ?n - 1) div ?c)}" using that set by (metis imageI)
    then have "unat p \<le> (?o + ?n - 1) div ?c" by simp
    then have "unat p * ?c \<le> (?o + ?n - 1) div ?c * ?c" by (rule mult_le_mono1)
    also have "\<dots> \<le> ?o + ?n - 1" by simp
    finally show ?thesis using sum n by linarith
  qed
  show "of_nat ((?o + k) div ?c) \<in> set (span_pages chunk (offset, bytes))" if k: "k < ?n"
  proof -
    have "(?o + k) div ?c \<in> {?o div ?c ..< Suc ((?o + ?n - 1) div ?c)}"
      using k by (auto simp: less_Suc_eq_le intro!: div_le_mono)
    then obtain p where p: "p \<in> set (span_pages chunk (offset, bytes))" "unat p = (?o + k) div ?c"
      using set by (metis imageE)
    then have "of_nat ((?o + k) div ?c) = p" by (simp flip: p(2))
    with p(1) show ?thesis by simp
  qed
qed

lemma want_pages_spec:
  assumes "want_pages len chunk n spans acc = Inr pages" "0 < chunk"
  shows "set acc \<subseteq> set pages \<and> (distinct acc \<longrightarrow> distinct pages) \<and> (length acc \<le> n \<longrightarrow> length pages \<le> n) \<and>
    ((\<forall>p \<in> set acc. unat p * unat chunk < unat len) \<longrightarrow> covers len chunk spans pages)"
  using assms(1)
proof (induction spans arbitrary: acc)
  case Nil
  then show ?case by (simp add: covers_def)
next
  case (Cons sp spans)
  obtain offset bytes where sp: "sp = (offset, bytes)" by (cases sp)
  from Cons.prems obtain acc' where
    ok: "bytes \<noteq> 0" "offset < len" "bytes \<le> len - offset" and
    a: "add_pages n (span_pages chunk (offset, bytes)) acc = Inr acc'" and
    w: "want_pages len chunk n spans acc' = Inr pages"
    by (auto simp: sp Let_def not_le not_less split: if_splits sum.splits)
  note A = add_pages_spec [OF a] and W = Cons.IH [OF w] and C = span_pages_cover [OF ok assms(2)]
  have "covers len chunk (sp # spans) pages" if "\<forall>p \<in> set acc. unat p * unat chunk < unat len"
  proof -
    have "\<forall>p \<in> set acc'. unat p * unat chunk < unat len" using A C(1) that by auto
    with W have "covers len chunk spans pages" by blast
    moreover have "of_nat ((unat offset + k) div unat chunk) \<in> set pages" if "k < unat bytes" for k
      using C(2) [OF that] A W by blast
    ultimately show ?thesis using ok by (simp add: covers_def sp)
  qed
  with A W show ?case by blast
qed

section \<open>Loading a request\<close>

lemma load_missing_triple:
  assumes m: "distinct missing" "set missing \<subseteq> set req" and keep: "keep \<subseteq> set req"
    and req: "length req \<le> length (ft_slots z)" "\<forall>q \<in> set req. in_file z q" and lanes: "ft_lanes z \<noteq> []"
  shows "triple (quiet E z keep (set missing)) (load_missing E req missing)
    (\<lambda>_. quiet E z (keep \<union> set missing) {}) (load_failed E z)"
  unfolding load_missing_def
proof (intro triple_bind)
  have base: "ft_safe E s \<and> same_shape z s" if "loading E z acc {} k t b X s" for acc k t b X s
    using loading_safe [OF that] that by (simp add: loading_def)
  have acc0: "load_acc [] = (\<lambda>_. Read_only)" by (simp add: load_acc_def fun_eq_iff)
  show "triple (quiet E z keep (set missing)) (cu E ''finish previous consumers'' run_all)
     (\<lambda>_. loading E z (load_acc []) {} keep (set missing) [] {}) (load_failed E z)"
  proof (rule load_cu)
    fix s assume s: "quiet E z keep (set missing) s"
    show "quiet E z keep (set missing) (advance E s)" using s by (rule loading_advance)
    show "ft_safe E s \<and> same_shape z s" using s by (rule base)
    show "loading E z (load_acc []) {} keep (set missing) [] {} (run_all s)"
      unfolding acc0 by (rule loading_idle [OF loading_run_all [OF s] run_all_idle])
  qed
  let ?I = "\<lambda>pre b s. batch_ok z pre b \<and>
    loading E z (load_acc pre) (fst ` set b) (keep \<union> set pre) (set missing - set pre) b {} s"
  have "triple (?I [] []) (chk_each (load_page E req) missing []) (?I missing) (load_failed E z)"
  proof (rule triple_each [where I = ?I])
    fix pre p rest b
    assume p: "missing = pre @ p # rest"
    show "triple (?I pre b) (load_page E req p b) (?I (pre @ [p])) (load_failed E z)"
    proof (rule triple_pure)
      assume b: "batch_ok z pre b"
      have eq: "insert p (keep \<union> set pre) = keep \<union> set (pre @ [p])"
        "set missing - set pre - {p} = set missing - set (pre @ [p])" by auto
      show "triple (loading E z (load_acc pre) (fst ` set b) (keep \<union> set pre) (set missing - set pre) b {})
         (load_page E req p b) (?I (pre @ [p])) (load_failed E z)"
        unfolding eq [symmetric]
        using m keep req p by (intro load_page_triple [OF _ _ _ _ _ _ _ _ b]) auto
    qed
  qed
  moreover have "batch_ok z [] []" using lanes by (simp add: batch_ok_def)
  ultimately show "triple (loading E z (load_acc []) {} keep (set missing) [] {}) (chk_each (load_page E req) missing [])
    (?I missing) (load_failed E z)"
    by simp
  let ?L = "loading E z (load_acc missing) {} (keep \<union> set missing) {} [] {}"
  show "triple (?I missing batch) (finish E batch) (\<lambda>_. ?L) (load_failed E z)" for batch
  proof (rule triple_pure)
    assume "batch_ok z missing batch"
    then have "\<forall>q \<in> fst ` set batch. q \<in> keep \<union> set missing \<and> load_acc missing q = Read_write \<and> in_file z q"
      using m(2) req(2) by (auto simp: batch_ok_def load_acc_def)
    from finish_triple [OF this, of E "{}"]
    show "triple (loading E z (load_acc missing) (fst ` set batch) (keep \<union> set missing) (set missing - set missing) batch {})
       (finish E batch) (\<lambda>_. ?L) (load_failed E z)" by simp
  qed
  let ?A = "\<lambda>pre q. if q \<in> set missing \<and> q \<notin> set pre then Read_write else Read_only"
  let ?J = "\<lambda>pre (_ :: unit) s. loading E z (?A pre) {} (keep \<union> set missing) {} [] {} s \<and> ft_stream s = []"
  have acc1: "?A [] = load_acc missing" by (simp add: load_acc_def fun_eq_iff)
  show "triple ?L (cu E ''finish file transfers'' run_all) (\<lambda>_. ?J [] ()) (load_failed E z)"
    unfolding acc1
    by (rule load_cu) (use base in \<open>auto simp: run_all_idle intro: loading_advance loading_run_all\<close>)
  have "triple (?J [] ()) (chk_each (\<lambda>page _. set_access E page Read_only) missing ()) (?J missing) (load_failed E z)"
  proof (rule triple_each [where I = ?J])
    fix pre p rest b
    assume p: "missing = pre @ p # rest"
    have eq: "?A (pre @ [p]) = (?A pre)(p := Read_only)" by (auto simp: fun_eq_iff)
    show "triple (?J pre b) (set_access E p Read_only) (?J (pre @ [p])) (load_failed E z)"
      unfolding set_access_def eq
    proof (rule load_cu)
      fix s assume s: "?J pre b s"
      show "?J pre b (advance E s)" using s by (simp add: loading_advance) (simp add: advance_def run_ops_closed)
      show "ft_safe E s \<and> same_shape z s" using s base by blast
      have "p \<in> keep \<union> set missing" using p by simp
      from loading_set_access [OF conjunct1 [OF s] this, of Read_only] s
      show "loading E z ((?A pre)(p := Read_only)) {} (keep \<union> set missing) {} [] {}
          (s\<lparr>ft_vmap := (ft_vmap s)(page_addr s p := map_option (\<lambda>(i, _). (i, Read_only)) (ft_vmap s (page_addr s p)))\<rparr>)
        \<and> ft_stream (s\<lparr>ft_vmap := (ft_vmap s)(page_addr s p := map_option (\<lambda>(i, _). (i, Read_only)) (ft_vmap s (page_addr s p)))\<rparr>) = []"
        by simp
    qed
  qed
  then show "triple (?J [] ()) (chk_each (\<lambda>page _. set_access E page Read_only) missing ())
     (\<lambda>_. quiet E z (keep \<union> set missing) {}) (load_failed E z)"
    by (rule triple_post) (auto intro: loading_unfenced)
qed

section \<open>\<^verbatim>\<open>acquire_many\<close> and \<^verbatim>\<open>record_use\<close>\<close>

lemma ensure_owner_eq:
  "ensure_owner E z = (let s = advance E z in
     (if status E (ft_tick z) \<noteq> 0 then Inl (Cuda_error ''current context'' (status E (ft_tick z)))
      else if ft_owner z \<noteq> thread_now E (Suc (ft_tick z)) \<or> ctx_now E (Suc (ft_tick z)) \<noteq> ft_context z
        then Inl (Runtime_error ''owner thread'')
      else if ft_poisoned z then Inl (Runtime_error ''unusable'') else Inr (), s))"
  by (simp add: ensure_owner_def chk_bind_def cu_def chk_get_def throw_if_def chk_throw_def chk_ret_def Let_def)

text \<open>The ways in which a call is refused before it has done anything.\<close>

definition refused :: "ft_env \<Rightarrow> ft \<Rightarrow> ft_error \<Rightarrow> bool" where
  "refused E z e \<longleftrightarrow> env_error E z e \<or>
     e = Runtime_error ''owner thread'' \<and>
       (ft_owner z \<noteq> thread_now E (Suc (ft_tick z)) \<or> ctx_now E (Suc (ft_tick z)) \<noteq> ft_context z) \<or>
     e = Runtime_error ''unusable'' \<and> ft_poisoned z"

lemma ensure_owner_triple:
  "triple (\<lambda>s. s = z) (ensure_owner E) (\<lambda>_ s. s = advance E z \<and> \<not> ft_poisoned z)
     (\<lambda>e s. s = advance E z \<and> refused E z e)"
  unfolding triple_def ensure_owner_eq refused_def env_error_def by auto

lemma touch_triple:
  assumes p: "\<And>s. P s \<Longrightarrow> resident s = res" and P: "\<And>i u s. P s \<Longrightarrow> P (set_slot i (\<lambda>x. x\<lparr>sl_used := u\<rparr>) s)"
    "\<And>c s. P s \<Longrightarrow> P (s\<lparr>ft_clock := c\<rparr>)" "\<And>c s. P s \<Longrightarrow> P (s\<lparr>ft_counters := c\<rparr>)"
  shows "triple P (touch page missing) (\<lambda>missing' s. missing' = (if page \<in> res then missing else missing @ [page]) \<and> P s) R"
  unfolding touch_def
proof (rule triple_get)
  fix t assume t: "P t"
  show "triple (\<lambda>s. s = t) (case find_slot (ft_slots t) page 0 of
       Some i \<Rightarrow> chk_bind (chk_upd (\<lambda>s. count_stat (\<lambda>c. c\<lparr>st_hits := st_hits c + 1\<rparr>)
          (set_slot i (\<lambda>x. x\<lparr>sl_used := ft_clock s + 1\<rparr>) (s\<lparr>ft_clock := ft_clock s + 1\<rparr>))))
          (\<lambda>_. chk_ret missing)
     | None \<Rightarrow> chk_ret (missing @ [page]))
     (\<lambda>missing' s. missing' = (if page \<in> res then missing else missing @ [page]) \<and> P s) R"
  proof (cases "find_slot (ft_slots t) page 0")
    case None
    then have "page \<notin> res" using find_slot_resident [of t page] p [OF t] by simp
    with None t show ?thesis by (auto intro: triple_ret)
  next
    case (Some i)
    then have res: "page \<in> res" using find_slot_resident [of t page] p [OF t] by simp
    have "P (count_stat f (set_slot i (\<lambda>x. x\<lparr>sl_used := u\<rparr>) (t\<lparr>ft_clock := c\<rparr>)))" for f u c
      using P t by (simp add: count_stat_def)
    with Some res show ?thesis
      by (simp add: triple_def chk_bind_def chk_upd_def chk_ret_def)
  qed
qed

definition acquired :: "ft_env \<Rightarrow> ft \<Rightarrow> span list \<Rightarrow> ft \<Rightarrow> bool" where
  "acquired E z spans s \<longleftrightarrow> (\<exists>pages. want_pages (ft_length z) (ft_chunk z) (length (ft_slots z)) spans [] = Inr pages
     \<and> quiet E z (set pages) {} s)"

definition acquire_failed :: "ft_env \<Rightarrow> ft \<Rightarrow> span list \<Rightarrow> ft_error \<Rightarrow> ft \<Rightarrow> bool" where
  "acquire_failed E z spans e s \<longleftrightarrow>
     s = advance E z \<and> (refused E z e \<or>
       want_pages (ft_length z) (ft_chunk z) (length (ft_slots z)) spans [] = Inl e) \<or>
     \<not> ft_poisoned z \<and> (\<exists>s0. load_failed E z e s0 \<and> s = poison s0)"

lemma quiet_used:
  "quiet E z keep todo s \<Longrightarrow> quiet E z keep todo (set_slot i (\<lambda>x. x\<lparr>sl_used := u\<rparr>) s)"
  by (rule loading_used)

lemma acquire_many_triple:
  assumes z: "quiet E z {} {} z"
  shows "triple (\<lambda>s. s = z) (acquire_many E spans) (\<lambda>_. acquired E z spans) (acquire_failed E z spans)"
  unfolding acquire_many_def
proof (rule triple_bind)
  let ?W = "want_pages (ft_length z) (ft_chunk z) (length (ft_slots z)) spans []"
  let ?K = "resident z"
  show "triple (\<lambda>s. s = z) (ensure_owner E) (\<lambda>_ s. s = advance E z \<and> \<not> ft_poisoned z) (acquire_failed E z spans)"
    by (rule triple_post [OF ensure_owner_triple]) (simp_all add: acquire_failed_def)
  have "quiet E z ?K (- ?K) z" using quiet_self [OF z] .
  then have adv: "quiet E z ?K (- ?K) (advance E z)" by (rule loading_advance)
  have sz: "sized z" using z by (simp add: loading_def)
  show "triple (\<lambda>s. s = advance E z \<and> \<not> ft_poisoned z) (chk_bind chk_get (\<lambda>s.
     case want_pages (ft_length s) (ft_chunk s) (length (ft_slots s)) spans [] of
       Inl e \<Rightarrow> chk_throw e
     | Inr pages \<Rightarrow>
       chk_bind (chk_each touch pages []) (\<lambda>missing.
       if missing = [] then chk_ret () else chk_rethrow (load_missing E pages missing) poison)))
     (\<lambda>_. acquired E z spans) (acquire_failed E z spans)"
  proof (rule triple_get)
    fix t assume t: "t = advance E z \<and> \<not> ft_poisoned z"
    then have eq: "want_pages (ft_length t) (ft_chunk t) (length (ft_slots t)) spans [] = ?W" by simp
    show "triple (\<lambda>s. s = t) (case want_pages (ft_length t) (ft_chunk t) (length (ft_slots t)) spans [] of
         Inl e \<Rightarrow> chk_throw e
       | Inr pages \<Rightarrow>
         chk_bind (chk_each touch pages []) (\<lambda>missing.
         if missing = [] then chk_ret () else chk_rethrow (load_missing E pages missing) poison))
       (\<lambda>_. acquired E z spans) (acquire_failed E z spans)"
    proof (cases ?W)
      case (Inl e)
      with t show ?thesis unfolding eq by (auto intro!: triple_throw simp: acquire_failed_def)
    next
      case (Inr pages)
      have spec: "distinct pages" "length pages \<le> length (ft_slots z)" "\<forall>q \<in> set pages. in_file z q"
        using want_pages_spec [OF Inr] sz by (auto simp: sized_def covers_def in_file_def)
      let ?I = "\<lambda>pre missing s. missing = filter (\<lambda>q. q \<notin> ?K) pre \<and> quiet E z ?K (- ?K) s"
      have "triple (?I [] []) (chk_each touch pages []) (?I pages) (acquire_failed E z spans)"
      proof (rule triple_each [where I = ?I])
        fix pre p rest b
        show "triple (?I pre b) (touch p b) (?I (pre @ [p])) (acquire_failed E z spans)"
        proof (rule triple_pure)
          assume b: "b = filter (\<lambda>q. q \<notin> ?K) pre"
          have res: "resident s = ?K" if "quiet E z ?K (- ?K) s" for s
            using that by (auto simp: loading_def)
          have "triple (quiet E z ?K (- ?K)) (touch p b)
            (\<lambda>missing' s. missing' = (if p \<in> ?K then b else b @ [p]) \<and> quiet E z ?K (- ?K) s) (acquire_failed E z spans)"
            by (rule touch_triple [OF res]) (simp_all add: quiet_used loading_book)
          then show "triple (quiet E z ?K (- ?K)) (touch p b) (?I (pre @ [p])) (acquire_failed E z spans)"
            by (rule triple_post) (simp_all add: b)
        qed
      qed
      then have loop: "triple (\<lambda>s. s = t) (chk_each touch pages []) (?I pages) (acquire_failed E z spans)"
        by (rule triple_pre) (use adv t in simp)
      have "triple (?I pages missing)
         (if missing = [] then chk_ret () else chk_rethrow (load_missing E pages missing) poison)
         (\<lambda>_. acquired E z spans) (acquire_failed E z spans)" for missing
      proof (rule triple_pure)
        assume m: "missing = filter (\<lambda>q. q \<notin> ?K) pages"
        show "triple (quiet E z ?K (- ?K))
          (if missing = [] then chk_ret () else chk_rethrow (load_missing E pages missing) poison)
          (\<lambda>_. acquired E z spans) (acquire_failed E z spans)"
        proof (rule triple_if)
          assume "missing = []"
          then have "set pages \<subseteq> ?K" using m by (auto simp: filter_empty_conv)
          then show "triple (quiet E z ?K (- ?K)) (chk_ret ()) (\<lambda>_. acquired E z spans) (acquire_failed E z spans)"
            using Inr by (intro triple_ret) (auto simp: acquired_def elim: loading_weaken)
        next
          assume "missing \<noteq> []"
          then obtain q where "q \<in> set pages" using m by (cases pages) auto
          then have "ft_length z \<noteq> 0" using spec(3) by (auto simp: in_file_def)
          then have lanes: "ft_lanes z \<noteq> []" using sz by (simp add: sized_def)
          let ?P = "set pages \<inter> ?K"
          have "triple (quiet E z ?P (set missing)) (load_missing E pages missing)
             (\<lambda>_. quiet E z (?P \<union> set missing) {}) (load_failed E z)"
            using spec lanes by (intro load_missing_triple) (auto simp: m)
          moreover have "?P \<union> set missing = set pages" by (auto simp: m)
          ultimately have "triple (quiet E z ?P (set missing)) (load_missing E pages missing)
             (\<lambda>_. quiet E z (set pages) {}) (load_failed E z)" by simp
          then have "triple (quiet E z ?K (- ?K)) (load_missing E pages missing)
             (\<lambda>_. quiet E z (set pages) {}) (load_failed E z)"
            by (rule triple_pre) (erule loading_weaken, auto simp: m)
          then have "triple (quiet E z ?K (- ?K)) (load_missing E pages missing)
             (\<lambda>_. acquired E z spans) (load_failed E z)"
            by (rule triple_post) (simp_all add: acquired_def Inr)
          then show "triple (quiet E z ?K (- ?K)) (chk_rethrow (load_missing E pages missing) poison)
             (\<lambda>_. acquired E z spans) (acquire_failed E z spans)"
            by (rule triple_rethrow) (use t in \<open>auto simp: acquire_failed_def\<close>)
        qed
      qed
      with loop show ?thesis unfolding eq Inr sum.case by (intro triple_bind)
    qed
  qed
qed

lemma quiet_consumer:
  assumes "quiet E z keep todo s"
  shows "quiet E z keep todo (enqueue Wait_consumer s)"
proof -
  have "stream_ok (\<lambda>_. Read_only) UNIV (enqueue Wait_consumer s)" "lanes_ok E [] (enqueue Wait_consumer s)"
    using assms by (auto simp: loading_def stream_ok_def intro!: lanes_ok_enqueue)
  moreover have "settled (enqueue Wait_consumer s) = settled s"
    by (simp add: settled_enqueue apply_op_def op_slot_def)
  then have "filled E {} (enqueue Wait_consumer s) = filled E {} s"
    by (simp add: filled_def page_bytes_def)
  ultimately show ?thesis using assms by (simp add: loading_def enqueue_same)
qed

lemma record_use_triple:
  assumes z: "quiet E z {} {} z"
  shows "triple (\<lambda>s. s = z) (record_use E) (\<lambda>_. quiet E z (resident z) (- resident z))
    (\<lambda>e s. s = advance E z \<and> refused E z e \<or> \<not> ft_poisoned z \<and> (\<exists>s0. load_failed E z e s0 \<and> s = poison s0))"
    (is "triple _ _ (\<lambda>_. ?Q) ?R")
  unfolding record_use_def
proof (rule triple_bind)
  show "triple (\<lambda>s. s = z) (ensure_owner E) (\<lambda>_ s. \<not> ft_poisoned z \<and> ?Q s) ?R"
    using quiet_self [OF z] by (intro triple_post [OF ensure_owner_triple]) (auto intro: loading_advance)
  have base: "ft_safe E s \<and> same_shape z s" if "?Q s" for s
    using quiet_safe [OF that] that by (simp add: loading_def)
  show "triple (\<lambda>s. \<not> ft_poisoned z \<and> ?Q s) (chk_rethrow
       (chk_bind (cu E ''record external consumer'' id) (\<lambda>_.
        cu E ''order residency after consumer'' (enqueue Wait_consumer))) poison) (\<lambda>_. ?Q) ?R"
  proof (rule triple_pure)
    assume np: "\<not> ft_poisoned z"
    have "triple ?Q (chk_bind (cu E ''record external consumer'' id) (\<lambda>_.
        cu E ''order residency after consumer'' (enqueue Wait_consumer))) (\<lambda>_. ?Q) (load_failed E z)"
      by (rule triple_bind [where Q' = "\<lambda>_. ?Q"]; rule load_cu) (simp_all add: loading_advance quiet_consumer base)
    then show "triple ?Q (chk_rethrow (chk_bind (cu E ''record external consumer'' id) (\<lambda>_.
        cu E ''order residency after consumer'' (enqueue Wait_consumer))) poison) (\<lambda>_. ?Q) ?R"
      by (rule triple_rethrow) (use np in auto)
  qed
qed

text \<open>A poisoned object refuses everything.\<close>

lemma poisoned_refuses:
  assumes "ft_poisoned z"
  shows "\<exists>e. acquire_many E spans z = (Inl e, advance E z) \<and> refused E z e"
    and "\<exists>e. record_use E z = (Inl e, advance E z) \<and> refused E z e"
proof -
  obtain e where "ensure_owner E z = (Inl e, advance E z)"
    using assms by (cases "ensure_owner E z") (auto simp: ensure_owner_eq Let_def split: if_splits)
  moreover from triple_useL [OF ensure_owner_triple refl this] have "refused E z e" by simp
  ultimately show "\<exists>e. acquire_many E spans z = (Inl e, advance E z) \<and> refused E z e"
    "\<exists>e. record_use E z = (Inl e, advance E z) \<and> refused E z e"
    by (simp_all add: acquire_many_def record_use_def chk_bind_def)
qed

section \<open>Which requests are accepted\<close>

lemma add_pages_accepts:
  "distinct acc \<Longrightarrow> length acc \<le> n \<Longrightarrow> (\<exists>acc'. add_pages n ps acc = Inr acc') \<longleftrightarrow> card (set acc \<union> set ps) \<le> n"
proof (induction ps arbitrary: acc)
  case Nil
  then show ?case by (simp add: distinct_card)
next
  case (Cons p ps)
  let ?a = "if p \<in> set acc then acc else acc @ [p]"
  have d: "distinct ?a" using Cons.prems by simp
  have u: "set acc \<union> set (p # ps) = set ?a \<union> set ps" by auto
  show ?case
  proof (cases "n < length ?a")
    case True
    then have "n < card (set ?a)" using d by (simp only: distinct_card)
    also have "\<dots> \<le> card (set ?a \<union> set ps)" by (intro card_mono) auto
    finally show ?thesis using True unfolding u by (simp add: Let_def)
  next
    case False
    then show ?thesis using Cons.IH [OF d] unfolding u by (simp add: Let_def)
  qed
qed

definition span_range :: "u64 \<Rightarrow> span \<Rightarrow> nat set" where
  "span_range chunk sp = (case sp of (offset, bytes) \<Rightarrow>
     {unat offset div unat chunk .. (unat offset + unat bytes - 1) div unat chunk})"

definition span_valid :: "u64 \<Rightarrow> span \<Rightarrow> bool" where
  "span_valid len sp \<longleftrightarrow> (case sp of (offset, bytes) \<Rightarrow> bytes \<noteq> 0 \<and> unat offset + unat bytes \<le> unat len)"

lemma span_valid_iff:
  "span_valid len (offset, bytes) \<longleftrightarrow> \<not> (bytes = 0 \<or> len \<le> offset \<or> len - offset < bytes)"
proof (cases "offset < len")
  case True
  then have "unat (len - offset) = unat len - unat offset" "unat offset < unat len"
    by (simp_all add: unat_sub word_less_nat_alt word_le_nat_alt)
  with True show ?thesis by (auto simp: span_valid_def not_le not_less word_le_nat_alt word_less_nat_alt)
next
  case False
  then have "unat len \<le> unat offset" by (simp add: word_less_nat_alt)
  then show ?thesis using False by (auto simp: span_valid_def unat_gt_0 [symmetric] not_less)
qed

lemma want_pages_accepts:
  assumes c: "0 < chunk" and n: "n < 2 ^ 64"
  shows "distinct acc \<Longrightarrow> length acc \<le> n \<Longrightarrow> (\<exists>pages. want_pages len chunk n spans acc = Inr pages) \<longleftrightarrow>
    (\<forall>sp \<in> set spans. span_valid len sp) \<and> card (unat ` set acc \<union> (\<Union>sp \<in> set spans. span_range chunk sp)) \<le> n"
proof (induction spans arbitrary: acc)
  case Nil
  then show ?case by (simp add: card_image distinct_card inj_on_def word_unat_eq_iff)
next
  case (Cons sp spans)
  obtain offset bytes where sp: "sp = (offset, bytes)" by (cases sp)
  let ?ps = "span_pages chunk (offset, bytes)"
  let ?rest = "\<Union>sp \<in> set spans. span_range chunk sp"
  have fin: "finite ?rest" by (auto simp: span_range_def split: prod.splits)
  show ?case
  proof (cases "span_valid len sp")
    case False
    then have "bytes = 0 \<or> len \<le> offset \<or> len - offset < bytes" unfolding sp span_valid_iff by blast
    then show ?thesis using False unfolding sp by simp
  next
    case True
    then have ok: "bytes \<noteq> 0" "offset < len" "bytes \<le> len - offset" unfolding sp span_valid_iff by auto
    note nat = span_pages_nat [OF ok c]
    have set: "unat ` set ?ps = span_range chunk sp"
      using arg_cong [OF nat(1), of set] unfolding set_map set_upt sp
      by (simp add: span_range_def atLeastLessThanSuc_atLeastAtMost)
    have dist: "distinct ?ps" using nat(1) by (metis distinct_map distinct_upt)
    have all: "unat ` set acc \<union> (\<Union>sp \<in> set (sp # spans). span_range chunk sp) = unat ` (set acc \<union> set ?ps) \<union> ?rest"
      by (auto simp: set [symmetric])
    have card: "card (unat ` S) = card S" for S :: "u64 set"
      by (simp add: card_image inj_on_def word_unat_eq_iff)
    have sub: "card (set acc \<union> set ?ps) \<le> card (unat ` (set acc \<union> set ?ps) \<union> ?rest)"
      unfolding card [symmetric, of "set acc \<union> set ?ps"] using fin by (intro card_mono) auto
    have len: "unat ((offset + bytes - 1) div chunk - offset div chunk + 1) = length ?ps"
      using nat(2) arg_cong [OF nat(1), of length] unfolding length_map length_upt by simp
    have small: "of_nat n < (offset + bytes - 1) div chunk - offset div chunk + 1 \<longleftrightarrow> n < length ?ps"
      unfolding word_less_nat_alt len using n by (simp add: unsigned_of_nat take_bit_nat_eq_self)
    have le: "length ?ps \<le> card (set acc \<union> set ?ps)"
      using distinct_card [OF dist] card_mono [of "set acc \<union> set ?ps" "set ?ps"] by simp
    have valid: "\<not> (bytes = 0 \<or> len \<le> offset \<or> len - offset < bytes)" using True unfolding sp span_valid_iff .
    show ?thesis
    proof (cases "add_pages n ?ps acc")
      case (Inl e)
      then have "\<not> card (set acc \<union> set ?ps) \<le> n" using add_pages_accepts [OF Cons.prems, of ?ps] by simp
      with sub have "\<not> card (unat ` set acc \<union> (\<Union>sp \<in> set (sp # spans). span_range chunk sp)) \<le> n"
        unfolding all by linarith
      moreover have "want_pages len chunk n (sp # spans) acc \<noteq> Inr pages" for pages
        using Inl valid by (simp add: sp Let_def)
      ultimately show ?thesis by blast
    next
      case (Inr acc')
      note spec = add_pages_spec [OF Inr]
      have "card (set acc \<union> set ?ps) \<le> n" using add_pages_accepts [OF Cons.prems, of ?ps] Inr by blast
      with le have "\<not> n < length ?ps" by simp
      moreover have "distinct acc'" "length acc' \<le> n" "set acc' = set acc \<union> set ?ps" using spec Cons.prems by simp_all
      moreover have "want_pages len chunk n (sp # spans) acc = want_pages len chunk n spans acc'"
        using Inr valid small \<open>\<not> n < length ?ps\<close> by (simp add: sp Let_def)
      ultimately show ?thesis using Cons.IH [of acc'] True unfolding all by simp
    qed
  qed
qed

end
