(* ===== verification/File_Tensor_Life.thy ===== *)
theory File_Tensor_Life
  imports File_Tensor_Requests
begin

text \<open>
  The life of a file tensor: its construction, any sequence of requests, its destruction.
  Two invariants: the safety of the device memory, which also failed calls keep, and the
  books, which say that what has been taken and not given back is what the fields name.
\<close>

section \<open>Safety along a life\<close>

lemma safe_run_ops:
  assumes "ft_safe E s"
  shows "ft_safe E (run_ops n s)"
proof -
  let ?t = "run_ops n s"
  have inj: "\<And>a b i x y. ft_vmap s a = Some (i, x) \<Longrightarrow> ft_vmap s b = Some (i, y) \<Longrightarrow> a = b"
    and w: "\<And>x a. x \<in> set (ft_stream s) \<Longrightarrow> op_target x = Some a \<Longrightarrow> writable (ft_vmap s) a \<noteq> None"
    and ro: "\<And>a i. ft_vmap s a = Some (i, Read_only) \<Longrightarrow> \<exists>p. in_file s p \<and> a = page_addr s p
      \<and> (\<forall>k < unat (ft_chunk s). ft_vram s i k = page_bytes E s p k)"
    and nf: "\<not> ft_fault s"
    using assms unfolding ft_safe_def by blast+
  have "\<not> op_faults (ft_vmap s) x" if "x \<in> set (ft_stream s)" for x
    using w [OF that] by (cases "op_target x") (auto simp: op_faults_def op_slot_def)
  then have "\<not> ft_fault ?t" using nf by (auto simp: run_ops_closed dest: in_set_takeD)
  moreover have "ft_vram ?t i = ft_vram s i" if a: "ft_vmap s a = Some (i, Read_only)" for a i
  proof -
    have "op_slot (ft_vmap s) x \<noteq> Some i" for x
    proof
      assume "op_slot (ft_vmap s) x = Some i"
      then obtain b where b: "ft_vmap s b = Some (i, Read_write)"
        by (auto simp: op_slot_def writable_iff split: option.splits)
      with inj [OF a b] a show False by simp
    qed
    then show ?thesis by (simp add: run_ops_closed settle_untouched)
  qed
  moreover have "ft_vmap ?t = ft_vmap s" "ft_stream ?t = drop n (ft_stream s)"
    "in_file ?t p = in_file s p" "page_addr ?t p = page_addr s p" "page_bytes E ?t p = page_bytes E s p"
    "ft_chunk ?t = ft_chunk s" for p
    by (simp_all add: run_ops_closed in_file_def page_addr_def fun_eq_iff page_bytes_def)
  ultimately show ?thesis
    unfolding ft_safe_def using inj w ro by (auto dest: in_set_dropD)
qed

lemma safe_book:
  "ft_safe E (s\<lparr>ft_tick := t\<rparr>) = ft_safe E s" "ft_safe E (s\<lparr>ft_ledger := g\<rparr>) = ft_safe E s"
  "ft_safe E (poison s) = ft_safe E s"
  by (simp_all add: ft_safe_def in_file_def page_addr_def page_bytes_def poison_def)

lemma safe_advance: "ft_safe E s \<Longrightarrow> ft_safe E (advance E s)"
  by (simp add: advance_def safe_book safe_run_ops)

lemma safe_destroy: "ft_safe E s \<Longrightarrow> ft_safe E (ft_destroy E s)"
  by (simp add: ft_destroy_def Let_def safe_book run_all_def safe_run_ops)

section \<open>Construction\<close>

text \<open>Until the constructor returns nothing is mapped and no lane has been used.\<close>

definition building :: "ft \<Rightarrow> bool" where
  "building s \<longleftrightarrow> ft_vmap s = Map.empty \<and> \<not> ft_fault s \<and> \<not> ft_poisoned s \<and>
     (\<forall>x \<in> set (ft_stream s). op_target x = None) \<and> (\<forall>x \<in> set (ft_slots s). \<not> sl_mapped x) \<and>
     (\<forall>x \<in> set (ft_lanes s). \<not> ln_pending x \<and> ln_page x = UINT64_MAX)"

lemma building_safe: "building s \<Longrightarrow> ft_safe E s"
  by (simp add: building_def ft_safe_def)

lemma building_quiet: "building s \<Longrightarrow> sized s \<Longrightarrow> quiet E s {} {} s"
  by (auto simp: building_def loading_def same_shape_def mapping_ok_def stream_ok_def filled_def lanes_ok_def lane_full_def)

lemma building_advance: "building s \<Longrightarrow> building (advance E s)"
proof -
  assume b: "building s"
  then have "\<not> op_faults (ft_vmap s) x" if "x \<in> set (ft_stream s)" for x
    using that by (simp add: building_def op_faults_def)
  with b show ?thesis
    by (auto simp: building_def) (auto simp: advance_def run_ops_closed dest: in_set_dropD in_set_takeD)
qed

lemma building_update:
  "building (s\<lparr>ft_file := f\<rparr>) = building s" "building (s\<lparr>ft_context := c\<rparr>) = building s"
  "building (s\<lparr>ft_address := a\<rparr>) = building s" "building (s\<lparr>ft_queue := q\<rparr>) = building s"
  "building (s\<lparr>ft_consumer_done := d\<rparr>) = building s" "building (s\<lparr>ft_length := l\<rparr>) = building s"
  "building (s\<lparr>ft_chunk := k\<rparr>) = building s" "building (s\<lparr>ft_reserved := r\<rparr>) = building s"
  "building (s\<lparr>ft_ledger := g\<rparr>) = building s" "building (s\<lparr>ft_counters := n\<rparr>) = building s"
  "building (s\<lparr>ft_cache := h\<rparr>) = building s"
  by (simp_all add: building_def)

lemma building_slots: "building s \<Longrightarrow> building (s\<lparr>ft_slots := replicate n blank_slot\<rparr>)"
  by (simp add: building_def blank_slot_def)

lemma building_lanes: "building s \<Longrightarrow> building (s\<lparr>ft_lanes := replicate n blank_lane\<rparr>)"
  by (simp add: building_def blank_lane_def)

lemma building_created:
  assumes "building s"
  shows "building (set_slot i (\<lambda>x. x\<lparr>sl_created := True\<rparr>) s)"
proof (cases "i < length (ft_slots s)")
  case True
  with assms show ?thesis
    by (auto simp: building_def set_slot_def dest: set_update_subset_insert [THEN subsetD])
next
  case False
  then have "set_slot i (\<lambda>x. x\<lparr>sl_created := True\<rparr>) s = s"
    by (intro ft.equality) (simp_all add: set_slot_def not_less list_update_beyond)
  with assms show ?thesis by simp
qed

lemma building_lane:
  assumes "building s" "\<And>x. ln_pending (f x) = ln_pending x \<and> ln_page (f x) = ln_page x"
  shows "building (set_lane l f s)"
proof (cases "l < length (ft_lanes s)")
  case True
  with assms show ?thesis
    by (auto simp: building_def set_lane_def dest!: set_update_subset_insert [THEN subsetD])
next
  case False
  then have "set_lane l f s = s" by (intro ft.equality) (simp_all add: set_lane_def not_less list_update_beyond)
  with assms show ?thesis by simp
qed

lemma building_mark: "building s \<Longrightarrow> building (enqueue (Mark l) s)"
  by (simp add: building_def enqueue_def)

text \<open>What the sizes of slots and lanes rest on.\<close>

definition planned :: "u64 \<Rightarrow> ft \<Rightarrow> bool" where
  "planned chunk s \<longleftrightarrow> building s \<and> ft_chunk s = chunk \<and> 0 < chunk \<and> chunk \<le> 0xFFFFFFFF \<and>
     length (ft_slots s) < 2 ^ 64 \<and> ft_length s \<le> - 1 - (chunk - 1) \<and> ft_reserved s = (ft_length s + chunk - 1) div chunk * chunk"

lemma planned_advance: "planned chunk s \<Longrightarrow> planned chunk (advance E s)"
  by (simp add: planned_def building_advance)

text \<open>A file that is not empty has a first page, so a cache that fits a chunk has a lane.\<close>

lemma pages_of_file:
  assumes "0 < chunk" "len \<noteq> 0" "len \<le> - 1 - (chunk - 1)"
  shows "1 \<le> (len + chunk - 1) div chunk * chunk div (chunk :: u64)"
proof -
  have c: "1 \<le> unat chunk" using assms(1) by (simp add: word_less_nat_alt)
  have "unat (- 1 - (chunk - 1)) = 2 ^ 64 - unat chunk"
  proof -
    have "unat (- 1 - (chunk - 1)) = unat (- 1 :: u64) - unat (chunk - 1)" by (rule unat_sub) simp
    moreover have "unat (chunk - 1) = unat chunk - 1" using assms(1) by (intro unat_minus_one) auto
    moreover have "unat (- 1 :: u64) = 2 ^ 64 - 1" by (simp add: unsigned_minus_1_eq_mask mask_eq_exp_minus_1)
    ultimately show ?thesis using c by simp
  qed
  then have sum: "unat len + unat chunk \<le> 2 ^ 64" using assms(3) c unat_u64_less [of chunk] by (simp add: word_le_nat_alt)
  have l: "1 \<le> unat len" using assms(2) by (metis One_nat_def Suc_leI unat_gt_0)
  have "len + chunk - 1 = len + (chunk - 1)" by simp
  also have "unat (len + (chunk - 1)) = unat len + (unat chunk - 1)"
    using sum c unat_minus_one [of chunk] assms(1) by (subst unat_plus_small) auto
  finally have u: "unat (len + chunk - 1) = unat len + unat chunk - 1" using c by simp
  have "1 \<le> (unat len + unat chunk - 1) div unat chunk"
    using c l by (simp add: div_le_mono le_div_geq)
  moreover have "(unat len + unat chunk - 1) div unat chunk * unat chunk < 2 ^ 64"
    using sum c by (intro le_less_trans [OF div_times_less_eq_dividend]) simp
  ultimately show ?thesis
    using c by (simp add: word_le_nat_alt unat_div_distrib unat_word_ariths u)
qed

lemma keep_cu:
  assumes "\<And>s. P s \<Longrightarrow> P (advance E s)" "\<And>s. P s \<Longrightarrow> Q () (eff s)" "\<And>s. P s \<Longrightarrow> B s"
  shows "triple P (cu E op eff) Q (\<lambda>_. B)"
  by (rule triple_cu) (use assms in auto)

lemma keep_win:
  assumes "\<And>s. P s \<Longrightarrow> P (advance E s)" "\<And>s. P s \<Longrightarrow> Q () (eff s)" "\<And>s. P s \<Longrightarrow> B s"
  shows "triple P (win E op eff) Q (\<lambda>_. B)"
  by (rule triple_win) (use assms in auto)

text \<open>Steps that keep an invariant, whether they return or throw.\<close>

definition keeps :: "(ft \<Rightarrow> bool) \<Rightarrow> 'a ft_step \<Rightarrow> bool" where
  "keeps P m \<longleftrightarrow> triple P m (\<lambda>_. P) (\<lambda>_. P)"

lemma keeps_bind: "keeps P m \<Longrightarrow> (\<And>x. keeps P (k x)) \<Longrightarrow> keeps P (chk_bind m k)"
  unfolding keeps_def by (rule triple_bind)

lemma keeps_get: "keeps P chk_get"
  by (simp add: keeps_def triple_def chk_get_def)

lemma keeps_ret: "keeps P (chk_ret x)"
  unfolding keeps_def by (rule triple_ret)

lemma keeps_throw: "keeps P (chk_throw e)"
  unfolding keeps_def by (rule triple_throw)

lemma keeps_throw_if: "keeps P (throw_if c e)"
  by (simp add: throw_if_def keeps_ret keeps_throw)

lemma keeps_upd: "(\<And>s. P s \<Longrightarrow> P (f s)) \<Longrightarrow> keeps P (chk_upd f)"
  unfolding keeps_def by (rule triple_upd)

lemma keeps_if: "keeps P m \<Longrightarrow> keeps P n \<Longrightarrow> keeps P (if c then m else n)"
  by simp

lemma keeps_each: "(\<And>x b. keeps P (f x b)) \<Longrightarrow> keeps P (chk_each f xs b)"
  unfolding keeps_def by (rule triple_each [where I = "\<lambda>_ _. P"])

lemma keeps_rethrow: "keeps P m \<Longrightarrow> (\<And>s. P s \<Longrightarrow> P (f s)) \<Longrightarrow> keeps P (chk_rethrow m f)"
  unfolding keeps_def by (rule triple_rethrow)

lemma keeps_cu: "(\<And>s. P s \<Longrightarrow> P (advance E s)) \<Longrightarrow> (\<And>s. P s \<Longrightarrow> P (eff s)) \<Longrightarrow> keeps P (cu E op eff)"
  unfolding keeps_def by (rule keep_cu)

lemma keeps_win: "(\<And>s. P s \<Longrightarrow> P (advance E s)) \<Longrightarrow> (\<And>s. P s \<Longrightarrow> P (eff s)) \<Longrightarrow> keeps P (win E op eff)"
  unfolding keeps_def by (rule keep_win)

lemmas keeps_intros = keeps_bind keeps_get keeps_ret keeps_throw keeps_throw_if keeps_upd keeps_if keeps_each
  keeps_rethrow keeps_cu keeps_win

lemma open_file_building: "keeps building (open_file E cmp)"
  unfolding open_file_def
  by (intro keeps_intros) (simp_all add: building_advance building_update noted_def)

lemma create_slot_building: "keeps (planned chunk) (create_slot E cmp i)"
  unfolding create_slot_def
  by (intro keeps_intros) (simp_all add: planned_def building_advance noted_def building_update building_created)

lemma create_lane_planned: "keeps (planned chunk) (create_lane E l)"
  unfolding create_lane_def
  by (intro keeps_intros)
    (simp_all add: planned_def building_advance noted_def building_update building_lane building_mark)

lemma size_slots_planned:
  "triple building (size_slots E budget chunk) (\<lambda>_. planned chunk) (\<lambda>_. building)"
proof -
  have P: "triple (\<lambda>s. building s \<and> 0 < chunk \<and> chunk \<le> 0xFFFFFFFF) (chk_bind chk_get (\<lambda>s.
     chk_bind (throw_if (- 1 - (chunk - 1) < ft_length s) (Runtime_error ''address range'')) (\<lambda>_.
     chk_upd (\<lambda>s.
       let total = (ft_length s + chunk - 1) div chunk * chunk;
           count = min (budget div chunk) (total div chunk) in
       s\<lparr>ft_chunk := chunk, ft_reserved := total,
         ft_slots := replicate (unat count) blank_slot\<rparr>)))) (\<lambda>_. planned chunk) (\<lambda>_. building)"
    unfolding throw_if_def Let_def
    by (intro triple_get triple_bind [where Q' = "\<lambda>_ s. building s \<and> 0 < chunk \<and> chunk \<le> 0xFFFFFFFF \<and> ft_length s \<le> - 1 - (chunk - 1)"]
        triple_if triple_throw triple_ret triple_upd)
      (auto simp: planned_def building_update not_less unat_u64_less [simplified] intro: building_slots)
  have G: "triple building (cu E ''allocation granularity'' id) (\<lambda>_. building) (\<lambda>_. building)"
    by (rule keep_cu) (simp_all add: building_advance)
  have C: "triple building (if chunk = 0 \<or> chunk mod granularity E \<noteq> 0 \<or> 0xFFFFFFFF < chunk \<or> budget < chunk
      then chk_throw (Runtime_error ''chunk size'') else chk_ret ())
    (\<lambda>_ s. building s \<and> 0 < chunk \<and> chunk \<le> 0xFFFFFFFF) (\<lambda>_. building)"
    by (intro triple_if triple_throw triple_ret) (auto simp: not_less word_neq_0_conv [symmetric])
  show ?thesis
    unfolding size_slots_def by (intro triple_bind [OF G] triple_bind [OF C [folded throw_if_def] P])
qed

lemma size_lanes_planned:
  "planned chunk s \<Longrightarrow> planned chunk (size_lanes chunk hb s) \<and> (ft_length s = 0 \<or> ft_lanes (size_lanes chunk hb s) \<noteq> [])"
proof -
  assume s: "planned chunk s"
  have "1 \<le> min (hb div chunk) (ft_reserved s div chunk)" if "chunk \<le> hb" "ft_length s \<noteq> 0"
  proof -
    have c: "0 < unat chunk" using s by (simp add: planned_def word_less_nat_alt)
    have "1 \<le> unat hb div unat chunk" using that(1) c by (simp add: word_le_nat_alt le_div_geq)
    then have "1 \<le> hb div chunk" by (simp add: word_le_nat_alt unat_div_distrib)
    moreover have "1 \<le> ft_reserved s div chunk"
      using s that(2) pages_of_file [of chunk "ft_length s"] by (simp add: planned_def)
    ultimately show ?thesis by simp
  qed
  then have "0 < unat (min (hb div chunk) (ft_reserved s div chunk))" if "chunk \<le> hb" "ft_length s \<noteq> 0"
    using that by (auto simp: word_le_nat_alt [of 1] min_def)
  then have "unat (min (hb div chunk) (ft_reserved s div chunk)) \<noteq> 0" if "chunk \<le> hb" "ft_length s \<noteq> 0"
    using that by (metis less_irrefl)
  then have "ft_length s = 0 \<or> ft_lanes (size_lanes chunk hb s) \<noteq> []"
    unfolding size_lanes_def Let_def by (cases "ft_length s = 0"; cases "chunk \<le> hb") simp_all
  moreover have "planned chunk (size_lanes chunk hb s)"
    using s by (auto simp: planned_def size_lanes_def Let_def building_update intro: building_lanes)
  ultimately show ?thesis by simp
qed

lemma ft_body_triple:
  "triple building (ft_body E budget chunk cmp hb) (\<lambda>_ s. building s \<and> sized s) (\<lambda>_. building)"
proof -
  let ?L = "\<lambda>s. planned chunk s \<and> (ft_length s = 0 \<or> ft_lanes s \<noteq> [])"
  have lane: "keeps ?L (create_lane E l)" for l
    unfolding create_lane_def
    by (intro keeps_intros)
      (auto simp: planned_def building_advance noted_def building_update building_lane building_mark)
  have pb: "planned chunk s \<Longrightarrow> building s" for s by (simp add: planned_def)
  have plan: "triple (planned chunk) m (\<lambda>_. planned chunk) (\<lambda>_. building)" if "keeps (planned chunk) m" for m :: "unit ft_step"
    using that unfolding keeps_def by (rule triple_post) (simp_all add: pb)
  have lanes: "triple ?L (chk_each (\<lambda>l _. create_lane E l) xs ()) (\<lambda>_. ?L) (\<lambda>_. building)" for xs
    using keeps_each [of ?L "\<lambda>l _. create_lane E l" xs "()", OF lane]
    unfolding keeps_def by (rule triple_post) (simp_all add: pb)
  have pre: "triple (\<lambda>s. s = t) m Q R" if "P t" "triple P m Q R" for P t Q R and m :: "unit ft_step"
    using that(2) by (rule triple_pre) (use that(1) in simp)
  have address: "keeps (planned chunk) (cu E op eff)" if "\<And>s. planned chunk s \<Longrightarrow> planned chunk (eff s)" for op eff
    by (rule keeps_cu) (use that in \<open>simp_all add: planned_advance\<close>)
  show ?thesis
    unfolding ft_body_def
  proof (rule triple_bind [OF open_file_building [unfolded keeps_def]], rule triple_bind [OF size_slots_planned],
      rule triple_bind [OF plan [OF address]], goal_cases)
    case (2 x)
    show ?case
    proof (rule triple_bind [OF plan [OF address]], goal_cases)
      case (2 x)
      show ?case
      proof (rule triple_bind [OF plan [OF address]], goal_cases)
        case (2 x)
        show ?case
        proof (rule triple_get)
          fix t assume t: "planned chunk t"
          show "triple (\<lambda>s. s = t) (chk_bind (chk_each (\<lambda>i _. create_slot E cmp i) [0..<length (ft_slots t)] ()) (\<lambda>_.
             chk_bind (chk_upd (size_lanes chunk hb)) (\<lambda>_.
             chk_bind chk_get (\<lambda>s.
             chk_bind (chk_each (\<lambda>l _. create_lane E l) [0..<length (ft_lanes s)] ()) (\<lambda>_.
             chk_upd (\<lambda>s. count_stat (\<lambda>c. c\<lparr>
               st_resident_limit := of_nat (length (ft_slots s)) * chunk,
               st_staging_bytes := (if ft_cache s then 0 else 2 * chunk),
               st_host_cache_bytes := (if ft_cache s then of_nat (length (ft_lanes s)) * chunk else 0),
               st_chunk_bytes := chunk, st_compressed := cmp\<rparr>) s))))))
             (\<lambda>_ s. building s \<and> sized s) (\<lambda>_. building)"
          proof (rule triple_bind [OF pre [OF t plan [OF keeps_each [OF create_slot_building]]]])
            show "triple (planned chunk) (chk_bind (chk_upd (size_lanes chunk hb)) (\<lambda>_.
             chk_bind chk_get (\<lambda>s.
             chk_bind (chk_each (\<lambda>l _. create_lane E l) [0..<length (ft_lanes s)] ()) (\<lambda>_.
             chk_upd (\<lambda>s. count_stat (\<lambda>c. c\<lparr>
               st_resident_limit := of_nat (length (ft_slots s)) * chunk,
               st_staging_bytes := (if ft_cache s then 0 else 2 * chunk),
               st_host_cache_bytes := (if ft_cache s then of_nat (length (ft_lanes s)) * chunk else 0),
               st_chunk_bytes := chunk, st_compressed := cmp\<rparr>) s)))))
             (\<lambda>_ s. building s \<and> sized s) (\<lambda>_. building)"
            proof (rule triple_bind [where Q' = "\<lambda>_. ?L"])
              show "triple (planned chunk) (chk_upd (size_lanes chunk hb)) (\<lambda>_. ?L) (\<lambda>_. building)"
                by (rule triple_upd) (drule size_lanes_planned [where hb = hb], simp add: size_lanes_def Let_def)
            qed (intro triple_get triple_bind [OF pre [OF _ lanes]] triple_upd;
                auto simp: planned_def sized_def count_stat_def building_update)
          qed
        qed
      qed (simp add: planned_def noted_def building_update)
    qed (simp add: planned_def noted_def building_update)
  qed (simp add: planned_def noted_def building_update)
qed

end
