(* ===== verification/File_Tensor_Books.thy ===== *)
theory File_Tensor_Books
  imports File_Tensor_Life
begin

text \<open>
  The books of a file tensor. Every resource that CUDA or Windows hands out is noted when it
  is taken and when it is given back; at any moment, failed calls included, what is out is
  exactly what the fields of the object name. The destructor gives back what the fields
  name, so after it nothing is out.
\<close>

section \<open>Taken and given\<close>

text \<open>What the fields name, and what the ledger says of it.\<close>

fun ft_owns :: "ft \<Rightarrow> ft_res \<Rightarrow> bool" where
  "ft_owns s R_file = ft_file s"
| "ft_owns s R_address = (ft_address s \<noteq> 0)"
| "ft_owns s R_stream = ft_queue s"
| "ft_owns s R_consumer = ft_consumer_done s"
| "ft_owns s (R_chunk i) = (i < length (ft_slots s) \<and> sl_created (ft_slots s ! i))"
| "ft_owns s (R_map i) = (i < length (ft_slots s) \<and> sl_mapped (ft_slots s ! i))"
| "ft_owns s (R_host l) = (l < length (ft_lanes s) \<and> ln_host (ft_lanes s ! l))"
| "ft_owns s (R_done l) = (l < length (ft_lanes s) \<and> ln_done (ft_lanes s ! l))"
| "ft_owns s (R_io l) = (l < length (ft_lanes s) \<and> ln_event (ft_lanes s ! l))"

definition books :: "ft \<Rightarrow> bool" where
  "books s \<longleftrightarrow> (\<forall>r. count_list (ft_ledger s) (Take r) = count_list (ft_ledger s) (Give r) + of_bool (ft_owns s r))
     \<and> (ft_context s = 0 \<longrightarrow> (\<forall>r. r \<noteq> R_file \<longrightarrow> \<not> ft_owns s r))"

lemma books_cong:
  assumes "ft_ledger t = ft_ledger s" "ft_context t = ft_context s" "\<And>r. ft_owns t r = ft_owns s r"
  shows "books t = books s"
  using assms by (simp add: books_def)

lemma books_taken:
  assumes "books s" "ft_ledger t = ft_ledger s @ [Take r]" "\<not> ft_owns s r" "\<And>q. ft_owns t q = (q = r \<or> ft_owns s q)"
    and "ft_context t = ft_context s" "ft_context s = 0 \<longrightarrow> r = R_file"
  shows "books t"
  using assms by (auto simp: books_def)

lemma books_given:
  assumes "books s" "ft_ledger t = ft_ledger s @ [Give r]" "ft_owns s r" "\<And>q. ft_owns t q = (q \<noteq> r \<and> ft_owns s q)"
    and "ft_context t = ft_context s"
  shows "books t"
  using assms by (auto simp: books_def)

lemma ft_owns_advance: "ft_owns (advance E s) r = ft_owns s r"
  by (cases r) simp_all

lemma books_advance: "books s \<Longrightarrow> books (advance E s)"
  by (simp add: books_def ft_owns_advance)

lemma ft_owns_run_ops: "ft_owns (run_ops n s) r = ft_owns s r"
  by (cases r) (simp_all add: run_ops_closed)

lemma ft_owns_book:
  "ft_owns (s\<lparr>ft_ledger := g\<rparr>) r = ft_owns s r" "ft_owns (s\<lparr>ft_counters := c\<rparr>) r = ft_owns s r"
  "ft_owns (s\<lparr>ft_clock := k\<rparr>) r = ft_owns s r" "ft_owns (s\<lparr>ft_hostmem := h\<rparr>) r = ft_owns s r"
  "ft_owns (s\<lparr>ft_vmap := v\<rparr>) r = ft_owns s r" "ft_owns (s\<lparr>ft_fault := f\<rparr>) r = ft_owns s r"
  "ft_owns (s\<lparr>ft_poisoned := p\<rparr>) r = ft_owns s r" "ft_owns (s\<lparr>ft_length := n\<rparr>) r = ft_owns s r"
  "ft_owns (s\<lparr>ft_chunk := n\<rparr>) r = ft_owns s r" "ft_owns (s\<lparr>ft_reserved := n\<rparr>) r = ft_owns s r"
  "ft_owns (s\<lparr>ft_cache := b\<rparr>) r = ft_owns s r" "ft_owns (s\<lparr>ft_stream := x\<rparr>) r = ft_owns s r"
  "ft_owns (s\<lparr>ft_context := m\<rparr>) r = ft_owns s r"
  by (cases r; simp)+

lemma set_sel [simp]:
  "ft_file (set_slot i f s) = ft_file s" "ft_queue (set_slot i f s) = ft_queue s"
  "ft_consumer_done (set_slot i f s) = ft_consumer_done s" "ft_ledger (set_slot i f s) = ft_ledger s"
  "ft_file (set_lane i g s) = ft_file s" "ft_queue (set_lane i g s) = ft_queue s"
  "ft_consumer_done (set_lane i g s) = ft_consumer_done s" "ft_ledger (set_lane i g s) = ft_ledger s"
  "ft_ledger (enqueue x s) = ft_ledger s"
  by (simp_all add: set_slot_def set_lane_def enqueue_def)

lemma ft_owns_set_slot:
  "(\<And>x. sl_created (f x) = sl_created x) \<Longrightarrow> r \<noteq> R_map i \<Longrightarrow> ft_owns (set_slot i f s) r = ft_owns s r"
  by (cases r) (simp_all add: nth_set_slot cong: conj_cong)

lemma ft_owns_set_slot_same:
  assumes "\<And>x. sl_created (f x) = sl_created x" "\<And>x. sl_mapped (f x) = sl_mapped x"
  shows "ft_owns (set_slot i f s) r = ft_owns s r"
  using ft_owns_set_slot [of f r i s] assms by (cases "r = R_map i") (simp_all add: nth_set_slot cong: conj_cong)

lemma ft_owns_set_lane_same:
  assumes "\<And>x. ln_host (f x) = ln_host x" "\<And>x. ln_done (f x) = ln_done x" "\<And>x. ln_event (f x) = ln_event x"
  shows "ft_owns (set_lane i f s) r = ft_owns s r"
  using assms by (cases r) (simp_all add: nth_set_lane cong: conj_cong)

section \<open>Requests keep the books\<close>

definition kept :: "ft \<Rightarrow> bool" where
  "kept s \<longleftrightarrow> books s \<and> ft_context s \<noteq> 0"

lemma kept_same: "kept s \<Longrightarrow> ft_ledger t = ft_ledger s \<Longrightarrow> ft_context t = ft_context s \<Longrightarrow> (\<And>r. ft_owns t r = ft_owns s r) \<Longrightarrow> kept t"
  using books_cong [of t s] by (simp add: kept_def)

lemmas ft_owns_same = ft_owns_book ft_owns_set_slot_same ft_owns_set_lane_same ft_owns_run_ops ft_owns_advance

lemma kept_advance: "kept s \<Longrightarrow> kept (advance E s)"
  by (simp add: kept_def books_advance)

lemma kept_run_ops: "kept s \<Longrightarrow> kept (run_ops n s)"
  by (rule kept_same) (simp_all add: ft_owns_same, simp_all add: run_ops_closed)

lemma kept_enqueue: "kept s \<Longrightarrow> kept (enqueue x s)"
  by (rule kept_same) (simp_all add: enqueue_def ft_owns_same)

lemma kept_count: "kept s \<Longrightarrow> kept (count_stat f s)"
  by (rule kept_same) (simp_all add: count_stat_def ft_owns_same)

lemma kept_slot:
  "kept s \<Longrightarrow> (\<And>x. sl_created (f x) = sl_created x) \<Longrightarrow> (\<And>x. sl_mapped (f x) = sl_mapped x) \<Longrightarrow> kept (set_slot i f s)"
  by (rule kept_same) (simp_all add: ft_owns_same)

lemma kept_lane:
  "kept s \<Longrightarrow> (\<And>x. ln_host (f x) = ln_host x) \<Longrightarrow> (\<And>x. ln_done (f x) = ln_done x) \<Longrightarrow>
     (\<And>x. ln_event (f x) = ln_event x) \<Longrightarrow> kept (set_lane i f s)"
  by (rule kept_same) (simp_all add: ft_owns_same)

lemma kept_book:
  "kept s \<Longrightarrow> kept (s\<lparr>ft_clock := c\<rparr>)" "kept s \<Longrightarrow> kept (s\<lparr>ft_hostmem := h\<rparr>)" "kept s \<Longrightarrow> kept (s\<lparr>ft_vmap := v\<rparr>)"
  "kept s \<Longrightarrow> kept (s\<lparr>ft_poisoned := p\<rparr>)"
  by (erule kept_same; simp add: ft_owns_same)+

lemmas kept_intros = kept_advance kept_run_ops kept_enqueue kept_count kept_slot kept_lane kept_book

lemma unmap_sel:
  "ft_ledger (unmap_slot i s) = ft_ledger s @ [Give (R_map i)]" "ft_context (unmap_slot i s) = ft_context s"
  "length (ft_slots (unmap_slot i s)) = length (ft_slots s)"
  "i < length (ft_slots s) \<Longrightarrow> \<not> sl_mapped (ft_slots (unmap_slot i s) ! i)"
  "i < length (ft_slots s) \<Longrightarrow> ft_owns (unmap_slot i s) q = (q \<noteq> R_map i \<and> ft_owns s q)"
proof -
  assume i: "i < length (ft_slots s)"
  show "ft_owns (unmap_slot i s) q = (q \<noteq> R_map i \<and> ft_owns s q)"
    using i by (cases "q = R_map i") (simp_all add: unmap_slot_def count_stat_def noted_def ft_owns_book ft_owns_set_slot nth_set_slot)
qed (simp_all add: unmap_slot_def count_stat_def noted_def nth_set_slot)

lemma map_sel:
  "ft_ledger (map_slot i p s) = ft_ledger s @ [Take (R_map i)]" "ft_context (map_slot i p s) = ft_context s"
  "i < length (ft_slots s) \<Longrightarrow> ft_owns (map_slot i p s) q = (q = R_map i \<or> ft_owns s q)"
proof -
  assume i: "i < length (ft_slots s)"
  show "ft_owns (map_slot i p s) q = (q = R_map i \<or> ft_owns s q)"
    using i by (cases "q = R_map i") (simp_all add: map_slot_def noted_def ft_owns_book ft_owns_set_slot nth_set_slot)
qed (simp_all add: map_slot_def noted_def)

lemma kept_unmap:
  "kept s \<Longrightarrow> i < length (ft_slots s) \<Longrightarrow> sl_mapped (ft_slots s ! i) \<Longrightarrow> kept (unmap_slot i s)"
  using books_given [of s "unmap_slot i s" "R_map i"] by (simp add: kept_def unmap_sel)

lemma kept_map:
  "kept s \<Longrightarrow> i < length (ft_slots s) \<Longrightarrow> \<not> sl_mapped (ft_slots s ! i) \<Longrightarrow> kept (map_slot i p s)"
  using books_taken [of s "map_slot i p s" "R_map i"] by (simp add: kept_def map_sel)

lemma kept_ensure: "keeps kept (ensure_owner E)"
  unfolding ensure_owner_def by (intro keeps_intros) (simp_all add: kept_intros)

lemma kept_touch: "keeps kept (touch page missing)"
proof -
  have "kept (count_stat f (set_slot i (\<lambda>x. x\<lparr>sl_used := u\<rparr>) (s\<lparr>ft_clock := c\<rparr>)))" if "kept s" for f i u c s
    using that by (intro kept_intros) simp_all
  then show ?thesis unfolding touch_def by (intro keeps_intros) (auto split: option.split intro!: keeps_intros)
qed

lemma kept_take_slot: "keeps kept (take_slot E req page)"
  unfolding take_slot_def keeps_def
proof (rule triple_get)
  fix t assume t: "kept t"
  let ?m = "set_access E page Read_write"
  have access: "triple kept ?m (\<lambda>_. kept) (\<lambda>_. kept)"
    using keeps_cu [of kept E] unfolding set_access_def keeps_def by (simp add: kept_intros)
  show "triple (\<lambda>s. s = t) (case pick_slot req (ft_slots t) 0 None of
       None \<Rightarrow> chk_throw (Runtime_error ''No evictable residency slot'')
     | Some i \<Rightarrow> chk_bind (if sl_mapped (ft_slots t ! i) then cu E ''evict mapping'' (unmap_slot i) else chk_ret ()) (\<lambda>_.
       chk_bind (cu E ''map physical chunk'' (map_slot i page)) (\<lambda>_. ?m))) (\<lambda>_. kept) (\<lambda>_. kept)"
  proof (cases "pick_slot req (ft_slots t) 0 None")
    case None
    with t show ?thesis by (simp add: triple_def chk_throw_def)
  next
    case (Some i)
    note i = pick_slot_Some [OF Some]
    let ?F = "\<lambda>s. kept s \<and> i < length (ft_slots s) \<and> \<not> sl_mapped (ft_slots s ! i)"
    have evict: "triple (\<lambda>s. s = t) (if sl_mapped (ft_slots t ! i) then cu E ''evict mapping'' (unmap_slot i) else chk_ret ())
      (\<lambda>_. ?F) (\<lambda>_. kept)"
    proof (rule triple_if)
      assume m: "sl_mapped (ft_slots t ! i)"
      have "triple (\<lambda>s. kept s \<and> ft_slots s = ft_slots t) (cu E ''evict mapping'' (unmap_slot i)) (\<lambda>_. ?F) (\<lambda>_. kept)"
        by (rule keep_cu) (use m i in \<open>simp_all add: kept_intros kept_unmap unmap_sel\<close>)
      then show "triple (\<lambda>s. s = t) (cu E ''evict mapping'' (unmap_slot i)) (\<lambda>_. ?F) (\<lambda>_. kept)"
        by (rule triple_pre) (simp add: t)
    qed (use t i in \<open>auto intro: triple_ret\<close>)
    have "triple ?F (cu E ''map physical chunk'' (map_slot i page)) (\<lambda>_. kept) (\<lambda>_. kept)"
      by (rule keep_cu) (simp_all add: kept_intros kept_map)
    with evict access show ?thesis unfolding Some option.case by (intro triple_bind)
  qed
qed

lemma kept_take_lane: "keeps kept (take_lane E page batch)"
proof -
  have wait: "kept (set_lane l (\<lambda>x. x\<lparr>ln_used := u\<rparr>) ((run_mark l s)\<lparr>ft_clock := c\<rparr>))" if "kept s" for l u c s
    using that unfolding run_mark_def by (intro kept_intros) simp_all
  have prep: "kept (prepare_read l page s)" if "kept s" for l s
    using that unfolding prepare_read_def Let_def by (intro kept_intros) simp_all
  have start: "kept (start_read E l s)" if "kept s" for l s
    using that unfolding start_read_def by (intro kept_intros) simp_all
  show ?thesis
    unfolding take_lane_def Let_def
    by (intro keeps_bind keeps_get)
      (auto split: option.split intro!: keeps_intros wait prep start kept_count kept_advance)
qed

lemma kept_await: "keeps kept (await_read E page l)"
proof -
  have complete: "kept (complete_read E l s)" if "kept s" for s
    using that unfolding complete_read_def Let_def by (intro kept_intros) simp_all
  have page: "kept (count_stat f (set_lane l (\<lambda>x. x\<lparr>ln_page := page\<rparr>) s))" if "kept s" for f s
    using that by (intro kept_intros) simp_all
  show ?thesis unfolding await_read_def Let_def
    by (intro keeps_intros) (simp_all add: complete page kept_advance)
qed

lemma kept_upload: "keeps kept (upload E page l)"
  unfolding upload_def Let_def by (intro keeps_intros) (simp_all add: kept_intros)

lemma kept_finish: "keeps kept (finish E batch)"
  unfolding finish_def by (intro keeps_each) (auto split: prod.split intro!: keeps_intros kept_await kept_upload)

lemma kept_load_page: "keeps kept (load_page E req page batch)"
  unfolding load_page_def Let_def
  by (intro keeps_bind kept_take_slot kept_take_lane)
    (auto split: prod.split intro!: keeps_intros kept_finish kept_count)

lemma kept_load_missing: "keeps kept (load_missing E req missing)"
proof -
  have access: "keeps kept (set_access E page Read_only)" for page
    unfolding set_access_def by (rule keeps_cu) (simp_all add: kept_intros)
  show ?thesis unfolding load_missing_def
    by (intro keeps_intros kept_load_page kept_finish access) (simp_all add: kept_intros run_all_def)
qed

lemma kept_acquire: "keeps kept (acquire_many E spans)"
  unfolding acquire_many_def
  by (intro keeps_bind keeps_get kept_ensure)
    (auto split: sum.split intro!: keeps_intros kept_touch kept_load_missing simp: poison_def kept_intros)

lemma kept_record: "keeps kept (record_use E)"
  unfolding record_use_def
  by (intro keeps_intros kept_ensure) (simp_all add: kept_intros poison_def)

section \<open>Construction keeps the books\<close>

text \<open>Some stage of the construction: only resources of \<open>S\<close> have been taken.\<close>

definition stage :: "ft_res set \<Rightarrow> nat \<Rightarrow> nat \<Rightarrow> ft \<Rightarrow> bool" where
  "stage S n m s \<longleftrightarrow> kept s \<and> (\<forall>r. ft_owns s r \<longrightarrow> r \<in> S) \<and> length (ft_slots s) = n \<and> length (ft_lanes s) = m"

lemma stage_advance: "stage S n m s \<Longrightarrow> stage S n m (advance E s)"
  by (simp add: stage_def kept_advance ft_owns_advance)

lemma stage_kept: "stage S n m s \<Longrightarrow> kept s"
  by (simp add: stage_def)

lemma stage_take:
  assumes "stage S n m s" "r \<notin> S" "ft_ledger t = ft_ledger s @ [Take r]" "ft_context t = ft_context s"
    and "length (ft_slots t) = n" "length (ft_lanes t) = m" "\<And>q. ft_owns t q = (q = r \<or> ft_owns s q)"
  shows "stage (insert r S) n m t"
proof -
  have "books t"
    by (rule books_taken [of s t r]) (use assms in \<open>auto simp: stage_def kept_def\<close>)
  with assms show ?thesis by (auto simp: stage_def kept_def)
qed

lemma triple_stage_cu:
  assumes "\<And>s. stage S n m s \<Longrightarrow> Q () (eff s)"
  shows "triple (stage S n m) (cu E op eff) Q (\<lambda>_. books)"
  by (rule keep_cu, erule stage_advance, erule assms) (simp add: stage_def kept_def)

lemma triple_stage_win:
  assumes "\<And>s. stage S n m s \<Longrightarrow> Q () (eff s)"
  shows "triple (stage S n m) (win E op eff) Q (\<lambda>_. books)"
  by (rule keep_win, erule stage_advance, erule assms) (simp add: stage_def kept_def)

lemma stage_throw_if: "triple (stage S n m) (throw_if c e) (\<lambda>_. stage S n m) (\<lambda>_. books)"
  by (auto simp: throw_if_def stage_def kept_def intro: triple_throw triple_ret)

lemma triple_get_keep: "triple P chk_get (\<lambda>_. P) R"
  by (simp add: triple_def chk_get_def)

lemma ft_blank_books: "books (blank_ft th)" "\<not> ft_owns (blank_ft th) r"
proof -
  show no: "\<not> ft_owns (blank_ft th) r" for r by (cases r) (simp_all add: blank_ft_def)
  show "books (blank_ft th)" using no by (simp add: books_def) (simp add: blank_ft_def)
qed

lemma open_file_stage:
  "triple (\<lambda>s. s = blank_ft th) (open_file E cmp) (\<lambda>_. stage {R_file} 0 0) (\<lambda>_. books)"
proof -
  let ?B = "\<lambda>s. books s \<and> (\<forall>r. \<not> ft_owns s r) \<and> ft_slots s = [] \<and> ft_lanes s = []"
  let ?S = "stage {} 0 0"
  have ctx: "triple (\<lambda>s. s = blank_ft th) (cu E ''current context'' id) (\<lambda>_ s. ?B s \<and> ft_context s = 0) (\<lambda>_. books)"
    by (rule triple_pre [where P' = "\<lambda>s. ?B s \<and> ft_context s = 0"], rule keep_cu)
      (auto simp: books_advance ft_owns_advance ft_blank_books, simp_all add: blank_ft_def)
  have set: "triple (\<lambda>s. ?B s \<and> ft_context s = 0) (chk_upd (\<lambda>s. s\<lparr>ft_context := ctx_now E (ft_tick s)\<rparr>)) (\<lambda>_. ?B) (\<lambda>_. books)"
    by (rule triple_upd) (simp add: books_def ft_owns_book)
  have chk: "triple ?B (chk_bind chk_get (\<lambda>s. chk_bind (throw_if (ft_context s = 0) e) k)) (\<lambda>_. stage {R_file} 0 0) (\<lambda>_. books)"
    if "triple ?S (k ()) (\<lambda>_. stage {R_file} 0 0) (\<lambda>_. books)" for e k
  proof (rule triple_get)
    fix t assume t: "?B t"
    have "triple (\<lambda>s. s = t) (throw_if (ft_context t = 0) e) (\<lambda>_. ?S) (\<lambda>_. books)"
      unfolding throw_if_def
      by (intro triple_if triple_throw triple_ret) (use t in \<open>simp_all add: stage_def kept_def\<close>)
    then show "triple (\<lambda>s. s = t) (chk_bind (throw_if (ft_context t = 0) e) k) (\<lambda>_. stage {R_file} 0 0) (\<lambda>_. books)"
      by (rule triple_bind) (use that in simp)
  qed
  have idle: "triple ?S (cu E op id) (\<lambda>_. ?S) (\<lambda>_. books)" for op
    by (rule triple_stage_cu) simp
  have attr: "triple ?S (chk_bind chk_get (\<lambda>s. throw_if (c s) e)) (\<lambda>_. ?S) (\<lambda>_. books)" for c e
    by (rule triple_bind [OF triple_get_keep stage_throw_if])
  have compress: "triple ?S (if cmp then chk_bind (cu E op id) (\<lambda>_. chk_bind chk_get (\<lambda>s. throw_if (c s) e)) else chk_ret ())
      (\<lambda>_. ?S) (\<lambda>_. books)" for op c e
    by (intro triple_if triple_bind [OF idle] attr triple_ret)
  have opened: "triple ?S (win E op (\<lambda>s. noted (Take R_file) (s\<lparr>ft_file := True\<rparr>))) (\<lambda>_. stage {R_file} 0 0) (\<lambda>_. books)" for op
  proof (rule triple_stage_win)
    fix s assume s: "?S s"
    have "ft_owns (noted (Take R_file) (s\<lparr>ft_file := True\<rparr>)) q = (q = R_file \<or> ft_owns s q)" for q
      by (cases q) (simp_all add: noted_def)
    then show "stage {R_file} 0 0 (noted (Take R_file) (s\<lparr>ft_file := True\<rparr>))"
      by (intro stage_take [OF s]) (use s in \<open>simp_all add: noted_def stage_def\<close>)
  qed
  have size: "triple (stage {R_file} 0 0) (win E op id) (\<lambda>_. stage {R_file} 0 0) (\<lambda>_. books)" for op
    by (rule triple_stage_win) simp
  have len: "triple (stage {R_file} 0 0) (chk_upd (\<lambda>s. s\<lparr>ft_length := n\<rparr>)) (\<lambda>_. stage {R_file} 0 0) (\<lambda>_. books)" for n
    by (rule triple_upd) (auto simp: stage_def ft_owns_book elim: kept_same)
  show ?thesis
    unfolding open_file_def
    by (intro triple_bind [OF ctx] triple_bind [OF set] chk triple_bind [OF idle]
        triple_bind [OF triple_get_keep] triple_bind [OF stage_throw_if] triple_bind [OF compress]
        triple_bind [OF opened] triple_bind [OF size] len)
qed

lemma size_slots_stage:
  "triple (stage {R_file} 0 0) (size_slots E budget chunk) (\<lambda>_ s. \<exists>n. stage {R_file} n 0 s) (\<lambda>_. books)"
proof -
  have idle: "triple (stage {R_file} 0 0) (cu E op id) (\<lambda>_. stage {R_file} 0 0) (\<lambda>_. books)" for op
    by (rule triple_stage_cu) simp
  have "triple (stage {R_file} 0 0) (chk_upd (\<lambda>s.
       let total = (ft_length s + chunk - 1) div chunk * chunk;
           count = min (budget div chunk) (total div chunk) in
       s\<lparr>ft_chunk := chunk, ft_reserved := total,
         ft_slots := replicate (unat count) blank_slot\<rparr>)) (\<lambda>_ s. \<exists>n. stage {R_file} n 0 s) (\<lambda>_. books)"
    unfolding Let_def
  proof (rule triple_upd, rule exI)
    fix s assume s: "stage {R_file} 0 0 s"
    let ?n = "unat (min (budget div chunk) ((ft_length s + chunk - 1) div chunk * chunk div chunk))"
    let ?t = "s\<lparr>ft_chunk := chunk, ft_reserved := (ft_length s + chunk - 1) div chunk * chunk,
         ft_slots := replicate ?n blank_slot\<rparr>"
    have "ft_owns ?t r = ft_owns s r" for r
      using s by (cases r) (auto simp: stage_def blank_slot_def)
    with s show "stage {R_file} ?n 0 ?t"
      by (auto simp: stage_def intro: kept_same)
  qed
  then show ?thesis
    unfolding size_slots_def
    by (intro triple_bind [OF idle] triple_bind [OF stage_throw_if] triple_bind [OF triple_get_keep])
qed

lemma create_slot_stage:
  assumes "i < n" "R_chunk i \<notin> S"
  shows "triple (stage S n m) (create_slot E cmp i) (\<lambda>_. stage (insert (R_chunk i) S) n m) (\<lambda>_. books)"
proof -
  have take: "triple (stage S n m) (cu E op (\<lambda>s. noted (Take (R_chunk i)) (set_slot i (\<lambda>x. x\<lparr>sl_created := True\<rparr>) s)))
    (\<lambda>_. stage (insert (R_chunk i) S) n m) (\<lambda>_. books)" for op
  proof (rule triple_stage_cu)
    fix s assume s: "stage S n m s"
    let ?t = "noted (Take (R_chunk i)) (set_slot i (\<lambda>x. x\<lparr>sl_created := True\<rparr>) s)"
    have "ft_owns ?t q = (q = R_chunk i \<or> ft_owns s q)" for q
      using s assms(1) by (cases q) (auto simp: noted_def stage_def nth_set_slot split: if_splits)
    then show "stage (insert (R_chunk i) S) n m ?t"
      by (intro stage_take [OF s assms(2)]) (use s in \<open>simp_all add: noted_def stage_def\<close>)
  qed
  have idle: "triple (stage T n m) (cu E op id) (\<lambda>_. stage T n m) (\<lambda>_. books)" for op T
    by (rule triple_stage_cu) simp
  show ?thesis
    unfolding create_slot_def
    by (intro triple_bind [OF take] triple_if triple_bind [OF idle] triple_bind [OF triple_get_keep stage_throw_if] triple_ret)
qed

lemma create_lane_stage:
  assumes "l < m" "R_host l \<notin> S" "R_done l \<notin> S" "R_io l \<notin> S"
  shows "triple (stage S n m) (create_lane E l)
    (\<lambda>_. stage (insert (R_io l) (insert (R_done l) (insert (R_host l) S))) n m) (\<lambda>_. books)"
proof -
  have take: "stage (insert r T) n m (noted (Take r) (set_lane l f s))"
    if s: "stage T n m s" and r: "r \<notin> T" and ow: "\<And>q. ft_owns (set_lane l f s) q = (q = r \<or> ft_owns s q)" for T r f s
  proof (rule stage_take [OF s r])
    show "ft_owns (noted (Take r) (set_lane l f s)) q = (q = r \<or> ft_owns s q)" for q
      by (simp add: noted_def ft_owns_book ow)
  qed (use s in \<open>simp_all add: noted_def stage_def\<close>)
  have host: "ft_owns (set_lane l (\<lambda>x. x\<lparr>ln_host := True\<rparr>) s) q = (q = R_host l \<or> ft_owns s q)" if "stage T n m s" for T s q
    using that assms(1) by (cases q) (auto simp: stage_def nth_set_lane split: if_splits)
  have fence: "ft_owns (set_lane l (\<lambda>x. x\<lparr>ln_done := True\<rparr>) s) q = (q = R_done l \<or> ft_owns s q)" if "stage T n m s" for T s q
    using that assms(1) by (cases q) (auto simp: stage_def nth_set_lane split: if_splits)
  have io: "ft_owns (set_lane l (\<lambda>x. x\<lparr>ln_event := True\<rparr>) s) q = (q = R_io l \<or> ft_owns s q)" if "stage T n m s" for T s q
    using that assms(1) by (cases q) (auto simp: stage_def nth_set_lane split: if_splits)
  have mark: "stage T n m (enqueue (Mark l) s)" if "stage T n m s" for T s
    using that by (simp add: stage_def kept_enqueue) (simp add: enqueue_def ft_owns_book)
  show ?thesis
    unfolding create_lane_def
    by (intro triple_bind [where Q' = "\<lambda>_. stage (insert (R_host l) S) n m"]
        triple_bind [where Q' = "\<lambda>_. stage (insert (R_done l) (insert (R_host l) S)) n m"]
        triple_stage_cu triple_stage_win take mark)
      (use assms in \<open>simp_all add: host fence io\<close>)
qed

lemma ft_body_books:
  assumes "address_ret E \<noteq> 0"
  shows "triple (\<lambda>s. s = blank_ft th) (ft_body E budget chunk cmp hb) (\<lambda>_. kept) (\<lambda>_. books)"
proof -
  let ?A = "insert R_address {R_file}" let ?B = "insert R_stream ?A" let ?C = "insert R_consumer ?B"
  have address: "triple (stage {R_file} n 0) (cu E op (\<lambda>s. noted (Take R_address) (s\<lparr>ft_address := address_ret E\<rparr>)))
      (\<lambda>_. stage ?A n 0) (\<lambda>_. books)"
    and stream: "triple (stage ?A n 0) (cu E op (\<lambda>s. noted (Take R_stream) (s\<lparr>ft_queue := True\<rparr>))) (\<lambda>_. stage ?B n 0) (\<lambda>_. books)"
    and consumer: "triple (stage ?B n 0) (cu E op (\<lambda>s. noted (Take R_consumer) (s\<lparr>ft_consumer_done := True\<rparr>)))
      (\<lambda>_. stage ?C n 0) (\<lambda>_. books)" for n op
  proof -
    have take: "stage (insert r T) n 0 (noted (Take r) t)"
      if s: "stage T n 0 s" and r: "r \<notin> T" and ow: "\<And>q. ft_owns t q = (q = r \<or> ft_owns s q)"
        and "ft_ledger t = ft_ledger s" "ft_context t = ft_context s" "ft_slots t = ft_slots s" "ft_lanes t = ft_lanes s"
      for T r s t
      by (rule stage_take [OF s r]) (use that in \<open>simp_all add: noted_def ft_owns_book stage_def\<close>)
    have ow: "ft_owns (s\<lparr>ft_address := address_ret E\<rparr>) q = (q = R_address \<or> ft_owns s q)"
      "ft_owns (s\<lparr>ft_queue := True\<rparr>) q = (q = R_stream \<or> ft_owns s q)"
      "ft_owns (s\<lparr>ft_consumer_done := True\<rparr>) q = (q = R_consumer \<or> ft_owns s q)" for s q
      using assms by (cases q; simp)+
    show "triple (stage {R_file} n 0) (cu E op (\<lambda>s. noted (Take R_address) (s\<lparr>ft_address := address_ret E\<rparr>)))
      (\<lambda>_. stage ?A n 0) (\<lambda>_. books)"
      by (rule triple_stage_cu, erule take) (simp_all add: ow)
    show "triple (stage ?A n 0) (cu E op (\<lambda>s. noted (Take R_stream) (s\<lparr>ft_queue := True\<rparr>))) (\<lambda>_. stage ?B n 0) (\<lambda>_. books)"
      by (rule triple_stage_cu, erule take) (simp_all add: ow)
    show "triple (stage ?B n 0) (cu E op (\<lambda>s. noted (Take R_consumer) (s\<lparr>ft_consumer_done := True\<rparr>)))
      (\<lambda>_. stage ?C n 0) (\<lambda>_. books)"
      by (rule triple_stage_cu, erule take) (simp_all add: ow)
  qed
  let ?D = "\<lambda>pre. ?C \<union> R_chunk ` set pre"
  let ?E = "\<lambda>k pre. ?D [0..<k] \<union> R_host ` set pre \<union> R_done ` set pre \<union> R_io ` set pre"
  have slots: "triple (stage ?C n 0) (chk_each (\<lambda>i _. create_slot E cmp i) [0..<n] ()) (\<lambda>_. stage (?D [0..<n]) n 0) (\<lambda>_. books)" for n
  proof -
    let ?I = "\<lambda>pre (_ :: unit). stage (?D pre) n 0"
    have "triple (?I [] ()) (chk_each (\<lambda>i _. create_slot E cmp i) [0..<n] ()) (?I [0..<n]) (\<lambda>_. books)"
    proof (rule triple_each [where I = ?I])
      fix pre i rest b
      assume i: "[0..<n] = pre @ i # rest"
      then have "i \<in> set [0..<n]" by simp
      then have "i < n" by simp
      moreover have "i \<notin> set pre" using i distinct_upt [of 0 n] by auto
      ultimately show "triple (?I pre b) (create_slot E cmp i) (?I (pre @ [i])) (\<lambda>_. books)"
        using create_slot_stage [of i n "?D pre" 0 E cmp] by auto
    qed
    then show ?thesis by simp
  qed
  have lanes: "triple (stage (?D [0..<n]) n m) (chk_each (\<lambda>l _. create_lane E l) [0..<m] ()) (\<lambda>_. stage (?E n [0..<m]) n m) (\<lambda>_. books)" for n m
  proof -
    let ?I = "\<lambda>pre (_ :: unit). stage (?E n pre) n m"
    have "triple (?I [] ()) (chk_each (\<lambda>l _. create_lane E l) [0..<m] ()) (?I [0..<m]) (\<lambda>_. books)"
    proof (rule triple_each [where I = ?I])
      fix pre l rest b
      assume l: "[0..<m] = pre @ l # rest"
      then have "l \<in> set [0..<m]" by simp
      then have lm: "l < m" by simp
      have "l \<notin> set pre" using l distinct_upt [of 0 m] by auto
      then have "triple (stage (?E n pre) n m) (create_lane E l)
          (\<lambda>_. stage (insert (R_io l) (insert (R_done l) (insert (R_host l) (?E n pre)))) n m) (\<lambda>_. books)"
        by (intro create_lane_stage [OF lm]) auto
      moreover have "insert (R_io l) (insert (R_done l) (insert (R_host l) (?E n pre))) = ?E n (pre @ [l])" by auto
      ultimately show "triple (?I pre b) (create_lane E l) (?I (pre @ [l])) (\<lambda>_. books)" by simp
    qed
    then show ?thesis by simp
  qed
  have sizes: "triple (stage S n 0) (chk_upd (size_lanes chunk hb)) (\<lambda>_ s. \<exists>m. stage S n m s) (\<lambda>_. books)" for S n
  proof (rule triple_upd, rule exI)
    fix s assume s: "stage S n 0 s"
    let ?t = "size_lanes chunk hb s"
    have "ft_owns ?t r = ft_owns s r" for r
      using s by (cases r) (auto simp: stage_def size_lanes_def Let_def blank_lane_def)
    with s show "stage S n (length (ft_lanes ?t)) ?t"
      by (auto simp: stage_def size_lanes_def Let_def intro: kept_same)
  qed
  have slots': "triple (stage ?C n 0) (chk_bind chk_get (\<lambda>s. chk_bind (chk_each (\<lambda>i _. create_slot E cmp i) [0..<length (ft_slots s)] ()) k))
      (\<lambda>_. kept) (\<lambda>_. books)"
    if "triple (stage (?D [0..<n]) n 0) (k ()) (\<lambda>_. kept) (\<lambda>_. books)" for n k
  proof (rule triple_get)
    fix t assume t: "stage ?C n 0 t"
    then have "length (ft_slots t) = n" by (simp add: stage_def)
    then show "triple (\<lambda>s. s = t) (chk_bind (chk_each (\<lambda>i _. create_slot E cmp i) [0..<length (ft_slots t)] ()) k) (\<lambda>_. kept) (\<lambda>_. books)"
      using t that by (auto intro!: triple_bind triple_pre [OF slots])
  qed
  have lanes': "triple (stage (?D [0..<n]) n m) (chk_bind chk_get (\<lambda>s. chk_bind (chk_each (\<lambda>l _. create_lane E l) [0..<length (ft_lanes s)] ()) k))
      (\<lambda>_. kept) (\<lambda>_. books)"
    if "triple (stage (?E n [0..<m]) n m) (k ()) (\<lambda>_. kept) (\<lambda>_. books)" for n m k
  proof (rule triple_get)
    fix t assume t: "stage (?D [0..<n]) n m t"
    then have "length (ft_lanes t) = m" by (simp add: stage_def)
    then show "triple (\<lambda>s. s = t) (chk_bind (chk_each (\<lambda>l _. create_lane E l) [0..<length (ft_lanes t)] ()) k) (\<lambda>_. kept) (\<lambda>_. books)"
      using t that by (auto intro!: triple_bind triple_pre [OF lanes])
  qed
  have counters: "triple (stage S n m) (chk_upd (\<lambda>s. count_stat (f s) s)) (\<lambda>_. kept) (\<lambda>_. books)" for S n m f
    by (rule triple_upd) (simp add: stage_def kept_count)
  show ?thesis
    unfolding ft_body_def
    by (intro triple_bind [OF open_file_stage] triple_bind [OF size_slots_stage] triple_ex
        triple_bind [OF address] triple_bind [OF stream] triple_bind [OF consumer] slots'
        triple_bind [OF sizes] lanes' counters)
qed

section \<open>Destruction gives back what the fields name\<close>

lemma count_list_concat_upt: "count_list (concat (map f [0..<n])) x = (\<Sum>i<n. count_list (f i) x)"
  by (induction n) simp_all

lemma sum_at: "(\<Sum>i<(n::nat). if i = j then g i else 0) = (if j < n then g j else (0::nat))"
  by (simp add: sum.delta)

lemma sum_one:
  assumes "\<And>i. i \<noteq> j \<Longrightarrow> g i = (0::nat)"
  shows "(\<Sum>i<(n::nat). g i) = (if j < n then g j else 0)"
proof -
  have "(\<Sum>i<n. g i) = (\<Sum>i<n. if i = j then g i else 0)" using assms by (intro sum.cong) auto
  then show ?thesis by (simp only: sum_at)
qed

fun on_device :: "ft_res \<Rightarrow> bool" where
  "on_device R_file = False"
| "on_device (R_io l) = False"
| "on_device r = True"

lemma device_gives_count:
  "count_list (device_gives s) (Give r) = of_bool (on_device r \<and> ft_owns s r)" "count_list (device_gives s) (Take r) = 0"
proof -
  show "count_list (device_gives s) (Give r) = of_bool (on_device r \<and> ft_owns s r)"
  proof (cases r)
    case (R_chunk i)
    then show ?thesis by (simp add: device_gives_def count_list_concat_upt) (subst sum_one [of i], auto)
  next
    case (R_map i)
    then show ?thesis by (simp add: device_gives_def count_list_concat_upt) (subst sum_one [of i], auto)
  next
    case (R_host l)
    then show ?thesis by (simp add: device_gives_def count_list_concat_upt) (subst sum_one [of l], auto)
  next
    case (R_done l)
    then show ?thesis by (simp add: device_gives_def count_list_concat_upt) (subst sum_one [of l], auto)
  qed (simp_all add: device_gives_def count_list_concat_upt)
  show "count_list (device_gives s) (Take r) = 0"
    by (simp add: device_gives_def count_list_concat_upt)
qed

lemma file_gives_count:
  "count_list (concat (map (\<lambda>l. if ln_event (ft_lanes s ! l) then [Give (R_io l)] else []) [0..<length (ft_lanes s)])
     @ (if ft_file s then [Give R_file] else [])) (Give r) = of_bool (\<not> on_device r \<and> ft_owns s r)"
  "count_list (concat (map (\<lambda>l. if ln_event (ft_lanes s ! l) then [Give (R_io l)] else []) [0..<length (ft_lanes s)])
     @ (if ft_file s then [Give R_file] else [])) (Take r) = 0"
proof -
  show "count_list (concat (map (\<lambda>l. if ln_event (ft_lanes s ! l) then [Give (R_io l)] else []) [0..<length (ft_lanes s)])
     @ (if ft_file s then [Give R_file] else [])) (Give r) = of_bool (\<not> on_device r \<and> ft_owns s r)"
  proof (cases r)
    case (R_io l)
    then show ?thesis by (simp add: count_list_concat_upt) (subst sum_one [of l], auto)
  qed (simp_all add: count_list_concat_upt)
qed (simp add: count_list_concat_upt)

lemma count_map_cancel: "count_list (map Cancel_io xs) (Take r) = 0" "count_list (map Cancel_io xs) (Give r) = 0"
  by (induction xs) simp_all

definition settled_books :: "ft \<Rightarrow> bool" where
  "settled_books s \<longleftrightarrow> (\<forall>r. count_list (ft_ledger s) (Take r) = count_list (ft_ledger s) (Give r))"

lemma destroy_settles:
  assumes "books s" "ft_context s = 0 \<or> status E (ft_tick s) = 0"
  shows "settled_books (ft_destroy E s)"
proof -
  define cancels where "cancels = map Cancel_io (filter (\<lambda>l. ln_pending (ft_lanes s ! l)) [0..<length (ft_lanes s)])"
  define s1 where "s1 = s\<lparr>ft_ledger := ft_ledger s @ cancels\<rparr>"
  define s' where "s' = (if ft_queue s1 then run_all s1 else s1)"
  define s2 where "s2 = (if ft_context s1 \<noteq> 0 \<and> status E (ft_tick s1) = 0
     then s'\<lparr>ft_ledger := ft_ledger s' @ device_gives s'\<rparr> else s1)"
  let ?tail = "concat (map (\<lambda>l. if ln_event (ft_lanes s2 ! l) then [Give (R_io l)] else []) [0..<length (ft_lanes s2)])
     @ (if ft_file s2 then [Give R_file] else [])"
  have D: "ft_destroy E s = s2\<lparr>ft_ledger := ft_ledger s2 @ ?tail\<rparr>"
    unfolding ft_destroy_def Let_def s2_def s'_def s1_def cancels_def by simp
  have L: "ft_ledger (ft_destroy E s) = ft_ledger s2 @ ?tail" unfolding D by simp
  have own1: "ft_owns s1 r = ft_owns s r" "ft_owns s' r = ft_owns s r" "ft_owns s2 r = ft_owns s r" for r
    by (simp_all add: s1_def s'_def s2_def ft_owns_book ft_owns_run_ops run_all_def)
  have led: "ft_ledger s1 = ft_ledger s @ cancels" "ft_ledger s' = ft_ledger s @ cancels"
    by (simp_all add: s1_def s'_def run_all_def run_ops_closed)
  have dev: "of_bool (on_device r \<and> ft_owns s r) + count_list (ft_ledger s @ cancels) (Give r) = count_list (ft_ledger s2) (Give r)"
    "count_list (ft_ledger s2) (Take r) = count_list (ft_ledger s) (Take r)" for r
  proof -
    have "\<not> (on_device r \<and> ft_owns s r)" if "ft_context s = 0"
      using that assms(1) by (cases "r = R_file") (auto simp: books_def)
    moreover have "ft_context s1 = ft_context s" "ft_tick s1 = ft_tick s" by (simp_all add: s1_def)
    ultimately show "of_bool (on_device r \<and> ft_owns s r) + count_list (ft_ledger s @ cancels) (Give r) = count_list (ft_ledger s2) (Give r)"
      "count_list (ft_ledger s2) (Take r) = count_list (ft_ledger s) (Take r)"
      using assms(2) by (auto simp: s2_def led device_gives_count own1 cancels_def count_map_cancel)
  qed
  have "count_list (ft_ledger (ft_destroy E s)) (Take r) = count_list (ft_ledger (ft_destroy E s)) (Give r)" for r
  proof -
    have "count_list (ft_ledger (ft_destroy E s)) (Take r) = count_list (ft_ledger s2) (Take r) + count_list ?tail (Take r)"
      by (simp only: L count_list_append)
    moreover have "count_list (ft_ledger (ft_destroy E s)) (Give r) = count_list (ft_ledger s2) (Give r) + count_list ?tail (Give r)"
      by (simp only: L count_list_append)
    moreover have "count_list (ft_ledger s) (Take r) = count_list (ft_ledger s) (Give r) + of_bool (ft_owns s r)"
      using assms(1) by (simp add: books_def)
    moreover have "count_list (ft_ledger s @ cancels) (Give r) = count_list (ft_ledger s) (Give r)"
      by (simp add: cancels_def count_map_cancel)
    moreover have "of_bool (on_device r \<and> ft_owns s r) + of_bool (\<not> on_device r \<and> ft_owns s r) = (of_bool (ft_owns s r) :: nat)" by simp
    ultimately show ?thesis using dev [of r] unfolding file_gives_count own1 by linarith
  qed
  then show ?thesis by (simp add: settled_books_def)
qed

end
