(* ===== verification/File_Tensor_Props.thy ===== *)
theory File_Tensor_Props
  imports File_Tensor_Books
begin

text \<open>
  What a user of a file tensor relies on: a request that returns has made its bytes readable
  and right, nothing else that can be read is ever wrong, a refused request changes nothing,
  an error poisons, and the end of the object gives everything back.
\<close>

section \<open>Lives\<close>

text \<open>The states of an object between the calls of its user.\<close>

inductive ft_reach :: "ft_env \<Rightarrow> ft \<Rightarrow> bool" for E where
  built: "ft_construct E thread budget chunk compression host_budget = (Inr (), s) \<Longrightarrow> ft_reach E s"
| acquired: "ft_reach E s \<Longrightarrow> acquire_many E spans s = (r, s') \<Longrightarrow> ft_reach E s'"
| recorded: "ft_reach E s \<Longrightarrow> record_use E s = (r, s') \<Longrightarrow> ft_reach E s'"

lemma construct_body:
  "ft_construct E th budget chunk cmp hb = (Inr (), s) \<Longrightarrow> ft_body E budget chunk cmp hb (blank_ft th) = (Inr (), s)"
  by (auto simp: ft_construct_def chk_rethrow_def split: prod.splits sum.splits)

lemma blank_building: "building (blank_ft th)"
  by (simp add: building_def blank_ft_def)

definition ft_good :: "ft_env \<Rightarrow> ft \<Rightarrow> bool" where
  "ft_good E s \<longleftrightarrow> ft_safe E s \<and> sized s \<and> (\<not> ft_poisoned s \<longrightarrow> quiet E s {} {} s)"

lemma good_quiet: "quiet E z keep todo s \<Longrightarrow> ft_good E s"
  unfolding ft_good_def using quiet_safe [of E z keep todo s] loading_weaken [OF quiet_self, of E z keep todo s "{}" "{}"]
  by (simp add: loading_def)

lemma good_advance:
  assumes "ft_good E s"
  shows "ft_good E (advance E s)"
proof (cases "ft_poisoned s")
  case True
  with assms show ?thesis by (simp add: ft_good_def safe_advance) (simp add: sized_def)
next
  case False
  with assms have "quiet E s {} {} (advance E s)" by (simp add: ft_good_def loading_advance)
  then show ?thesis by (rule good_quiet)
qed

lemma sized_shape: "same_shape z s \<Longrightarrow> sized z \<Longrightarrow> sized s"
  by (auto simp: same_shape_def sized_def)

lemma good_poison:
  assumes "load_failed E z e s" "ft_good E z"
  shows "ft_good E (poison s)"
proof -
  have "sized s" using assms sized_shape [of z s] by (simp add: load_failed_def ft_good_def)
  then show ?thesis using assms(1) by (simp add: ft_good_def load_failed_def safe_book) (simp add: poison_def sized_def)
qed

lemma good_acquire: "ft_good E s \<Longrightarrow> acquire_many E spans s = (r, s') \<Longrightarrow> ft_good E s'"
proof (cases "ft_poisoned s")
  case True
  assume "ft_good E s" "acquire_many E spans s = (r, s')"
  with poisoned_refuses(1) [OF True, of E spans] show ?thesis by (auto intro: good_advance)
next
  case False
  assume g: "ft_good E s" and r: "acquire_many E spans s = (r, s')"
  then have q: "quiet E s {} {} s" using False by (simp add: ft_good_def)
  show ?thesis
  proof (cases r)
    case (Inl e)
    with triple_useL [OF acquire_many_triple [OF q] refl] r have "acquire_failed E s spans e s'" by simp
    with g show ?thesis by (auto simp: acquire_failed_def intro: good_advance good_poison)
  next
    case (Inr u)
    with triple_useR [OF acquire_many_triple [OF q] refl] r have "acquired E s spans s'" by simp
    then show ?thesis by (auto simp: acquired_def intro: good_quiet)
  qed
qed

lemma good_record: "ft_good E s \<Longrightarrow> record_use E s = (r, s') \<Longrightarrow> ft_good E s'"
proof (cases "ft_poisoned s")
  case True
  assume "ft_good E s" "record_use E s = (r, s')"
  with poisoned_refuses(2) [OF True, of E] show ?thesis by (auto intro: good_advance)
next
  case False
  assume g: "ft_good E s" and r: "record_use E s = (r, s')"
  then have q: "quiet E s {} {} s" using False by (simp add: ft_good_def)
  show ?thesis
  proof (cases r)
    case (Inl e)
    with triple_useL [OF record_use_triple [OF q] refl] r g show ?thesis
      by (auto intro: good_advance good_poison)
  next
    case (Inr u)
    with triple_useR [OF record_use_triple [OF q] refl] r show ?thesis by (auto intro: good_quiet)
  qed
qed

lemma reach_good: "ft_reach E s \<Longrightarrow> ft_good E s"
proof (induction rule: ft_reach.induct)
  case (built th budget chunk cmp hb s)
  from triple_useR [OF ft_body_triple blank_building construct_body [OF built]]
  have "quiet E s {} {} s" by (intro building_quiet) simp_all
  then show ?case by (rule good_quiet)
next
  case (acquired s spans r s')
  then show ?case by (blast intro: good_acquire)
next
  case (recorded s r s')
  then show ?case by (blast intro: good_record)
qed

lemma reach_books: "ft_reach E s \<Longrightarrow> address_ret E \<noteq> 0 \<Longrightarrow> kept s"
proof (induction rule: ft_reach.induct)
  case (built th budget chunk cmp hb s)
  from triple_useR [OF ft_body_books [OF built(2)] refl construct_body [OF built(1)]] show ?case .
next
  case (acquired s spans r s')
  then have "kept s" by simp
  with acquired(2) show ?case
    using kept_acquire [of E spans] unfolding keeps_def by (cases r) (auto dest: triple_useL triple_useR)
next
  case (recorded s r s')
  then have "kept s" by simp
  with recorded(2) show ?case
    using kept_record [of E] unfolding keeps_def by (cases r) (auto dest: triple_useL triple_useR)
qed

section \<open>What a kernel reads\<close>

text \<open>A load from an address of the range: the byte and the access of its mapping.\<close>

definition device_load :: "ft \<Rightarrow> u64 \<Rightarrow> (8 word \<times> ft_access) option" where
  "device_load s a = (let off = a - ft_address s; page = off div ft_chunk s in
     case ft_vmap s (page_addr s page) of
       None \<Rightarrow> None
     | Some (i, acc) \<Rightarrow> if acc = No_access then None else Some (ft_vram s i (unat (off mod ft_chunk s)), acc))"

lemma device_load_offset:
  assumes "k < 2 ^ 64" "of_nat (k div unat (ft_chunk s)) = p"
  shows "device_load s (ft_address s + of_nat k) = (case ft_vmap s (page_addr s p) of
       None \<Rightarrow> None
     | Some (i, acc) \<Rightarrow> if acc = No_access then None else Some (ft_vram s i (k mod unat (ft_chunk s)), acc))"
proof -
  have k: "unat (of_nat k :: u64) = k" using assms(1) by (simp add: unsigned_of_nat take_bit_nat_eq_self)
  have "of_nat k div ft_chunk s = p"
    unfolding assms(2) [symmetric]
    by (rule word_unat_eq_iff [THEN iffD2]) (use assms(1) in \<open>simp add: unat_div_distrib k unsigned_of_nat take_bit_nat_eq_self
      le_less_trans [OF div_le_dividend]\<close>)
  moreover have "unat (of_nat k mod ft_chunk s) = k mod unat (ft_chunk s)" by (simp add: unat_mod_distrib k)
  ultimately show ?thesis by (simp add: device_load_def Let_def split: option.split prod.split)
qed

text \<open>A page that shows the file shows its bytes.\<close>

lemma page_bytes_file:
  assumes "k < unat (ft_length s)" "unat p = k div unat (ft_chunk s)"
  shows "page_bytes E s p (k mod unat (ft_chunk s)) = file_byte E k"
  using assms by (simp add: page_bytes_def)

lemma unat_page_of: "k < 2 ^ 64 \<Longrightarrow> unat (of_nat (k div c) :: u64) = k div c"
  by (simp add: unsigned_of_nat take_bit_nat_eq_self le_less_trans [OF div_le_dividend])

lemma filledD:
  "filled E ex s \<Longrightarrow> i < length (ft_slots s) \<Longrightarrow> sl_mapped (ft_slots s ! i) \<Longrightarrow> k < unat (ft_chunk s)
    \<Longrightarrow> sl_page (ft_slots s ! i) \<notin> ex \<Longrightarrow> settled s i k = page_bytes E s (sl_page (ft_slots s ! i)) k"
  by (simp add: filled_def)

lemma quiet_load:
  assumes q: "quiet E z keep todo s" and k: "k < unat (ft_length s)"
    and p: "of_nat (k div unat (ft_chunk s)) \<in> resident s"
  shows "device_load s (ft_address s + of_nat k) = Some (file_byte E k, Read_only)"
proof -
  let ?c = "unat (ft_chunk s)" and ?p = "of_nat (k div unat (ft_chunk s)) :: u64"
  have big: "k < 2 ^ 64" using k unat_u64_less [of "ft_length s"] by simp
  have mp: "mapping_ok (\<lambda>_. Read_only) s" and fl: "filled E {} s" and st: "stream_ok (\<lambda>_. Read_only) UNIV s" and sz: "sized s"
    using q by (simp_all add: loading_def)
  obtain i where i: "i < length (ft_slots s)" "sl_mapped (ft_slots s ! i)" "sl_page (ft_slots s ! i) = ?p"
    using p by (auto simp: resident_iff)
  have vm: "ft_vmap s (page_addr s ?p) = Some (i, Read_only)" using mapping_page [OF mp i(1,2)] i(3) by simp
  have "op_target x = None" if "x \<in> set (ft_stream s)" for x
    using st that by (cases "op_target x") (auto simp: stream_ok_def)
  then have "settled s i = ft_vram s i"
    unfolding settled_def by (intro settle_untouched) (simp add: op_slot_def)
  moreover have "k mod ?c < ?c" using sz by (simp add: sized_def word_less_nat_alt)
  ultimately have "ft_vram s i (k mod ?c) = page_bytes E s ?p (k mod ?c)"
    using filledD [OF fl i(1,2), of "k mod ?c"] i(3) by simp
  also have "\<dots> = file_byte E k" by (rule page_bytes_file [OF k unat_page_of [OF big]])
  finally show ?thesis using device_load_offset [OF big refl] vm by simp
qed

lemma safe_load:
  assumes safe: "ft_safe E s" and k: "k < unat (ft_length s)" and c: "0 < ft_chunk s"
    and d: "device_load s (ft_address s + of_nat k) = Some (x, Read_only)"
  shows "x = file_byte E k"
proof -
  let ?c = "unat (ft_chunk s)" and ?p = "of_nat (k div unat (ft_chunk s)) :: u64"
  have big: "k < 2 ^ 64" using k unat_u64_less [of "ft_length s"] by simp
  obtain i where i: "ft_vmap s (page_addr s ?p) = Some (i, Read_only)" "x = ft_vram s i (k mod ?c)"
    using d device_load_offset [OF big refl] by (auto split: option.splits if_splits)
  have "in_file s ?p"
    using k unat_page_of [OF big, of ?c] by (simp add: in_file_def le_less_trans [OF div_times_less_eq_dividend])
  moreover obtain q where q: "in_file s q" "page_addr s ?p = page_addr s q" "\<forall>j < ?c. ft_vram s i j = page_bytes E s q j"
    using safe i(1) unfolding ft_safe_def by blast
  ultimately have "q = ?p" using c by (metis page_addr_inj)
  moreover have "k mod ?c < ?c" using c by (simp add: word_less_nat_alt)
  ultimately have "x = page_bytes E s ?p (k mod ?c)" using q i(2) by simp
  also have "\<dots> = file_byte E k" by (rule page_bytes_file [OF k unat_page_of [OF big]])
  finally show ?thesis .
qed

section \<open>Failing and succeeding\<close>

lemma acquire_outcome:
  assumes "ft_reach E s" "acquire_many E spans s = (r, s')"
  shows "(case r of
       Inl e \<Rightarrow> s' = advance E s \<and> (refused E s e \<or>
           want_pages (ft_length s) (ft_chunk s) (length (ft_slots s)) spans [] = Inl e) \<or>
         \<not> ft_poisoned s \<and> ft_poisoned s' \<and> env_error E s e
     | Inr _ \<Rightarrow> \<not> ft_poisoned s \<and> acquired E s spans s')"
proof (cases "ft_poisoned s")
  case True
  with poisoned_refuses(1) [OF True, of E spans] assms(2) show ?thesis by auto
next
  case False
  with reach_good [OF assms(1)] have q: "quiet E s {} {} s" by (simp add: ft_good_def)
  show ?thesis
  proof (cases r)
    case (Inl e)
    with triple_useL [OF acquire_many_triple [OF q] refl] assms(2) have "acquire_failed E s spans e s'" by simp
    with Inl show ?thesis by (auto simp: acquire_failed_def load_failed_def poison_def)
  next
    case (Inr u)
    with triple_useR [OF acquire_many_triple [OF q] refl] assms(2) False show ?thesis by simp
  qed
qed

text \<open>The outside world does its part.\<close>

definition world_ok :: "ft_env \<Rightarrow> ft \<Rightarrow> bool" where
  "world_ok E s \<longleftrightarrow> (\<forall>n. status E n = 0 \<and> win_ok E n) \<and> (\<forall>n p. in_file s p \<longrightarrow> io_got E n = ucast (wanted_of s p)) \<and>
     thread_now E (Suc (ft_tick s)) = ft_owner s \<and> ctx_now E (Suc (ft_tick s)) = ft_context s \<and> \<not> ft_poisoned s"

lemma world_no_error: "world_ok E s \<Longrightarrow> \<not> env_error E s e"
  unfolding world_ok_def env_error_def by blast

lemma acquire_succeeds:
  assumes r: "ft_reach E s" and w: "world_ok E s"
    and p: "want_pages (ft_length s) (ft_chunk s) (length (ft_slots s)) spans [] = Inr pages"
  shows "\<exists>s'. acquire_many E spans s = (Inr (), s') \<and> acquired E s spans s'"
proof -
  obtain x s' where x: "acquire_many E spans s = (x, s')" by (cases "acquire_many E spans s")
  have "\<not> refused E s e" for e
    using w world_no_error [OF w] by (auto simp: refused_def world_ok_def)
  with acquire_outcome [OF r x] p world_no_error [OF w] x show ?thesis
    by (cases x) auto
qed


lemma resident_load:
  assumes "ft_reach E s" "acquire_many E spans s = (Inr (), s')" "(offset, bytes) \<in> set spans" "k < unat bytes"
  shows "device_load s' (ft_address s + offset + of_nat k) = Some (file_byte E (unat offset + k), Read_only)"
proof -
  from acquire_outcome [OF assms(1,2)] obtain pages where np: "\<not> ft_poisoned s"
    and w: "want_pages (ft_length s) (ft_chunk s) (length (ft_slots s)) spans [] = Inr pages"
    and q: "quiet E s (set pages) {} s'" by (auto simp: acquired_def)
  have sz: "sized s" using reach_good [OF assms(1)] np by (simp add: ft_good_def loading_def)
  have cov: "covers (ft_length s) (ft_chunk s) spans pages"
    using want_pages_spec [OF w] sz by (simp add: sized_def)
  have same: "ft_address s' = ft_address s" "ft_chunk s' = ft_chunk s" "ft_length s' = ft_length s"
    and res: "set pages \<subseteq> resident s'"
    using q by (simp_all add: loading_def same_shape_def)
  have span: "offset < ft_length s" "bytes \<le> ft_length s - offset"
    "of_nat ((unat offset + k) div unat (ft_chunk s)) \<in> set pages"
    using cov assms(3,4) by (auto simp: covers_def)
  then have "unat offset + k < unat (ft_length s')"
    using assms(4) by (simp add: same word_le_nat_alt word_less_nat_alt unat_sub)
  from quiet_load [OF q this] res span(3)
  have "device_load s' (ft_address s' + of_nat (unat offset + k)) = Some (file_byte E (unat offset + k), Read_only)"
    by (auto simp: same)
  then show ?thesis by (simp add: same add.assoc)
qed

section \<open>An object and a request\<close>

text \<open>A file of eight bytes in a world where each read delivers \<open>g\<close> bytes.\<close>

definition calm_env :: "u32 \<Rightarrow> ft_env" where
  "calm_env g = \<lparr>status = (\<lambda>_. 0), win_ok = (\<lambda>_. True), progress = (\<lambda>n. 0), scratch = (\<lambda>_ _. 255),
     io_got = (\<lambda>_. g), ctx_now = (\<lambda>_. 1), thread_now = (\<lambda>_. 7), attribute = (\<lambda>_. 1), address_ret = 4096,
     granularity = 2, comp_granted = (\<lambda>_. True), file_byte = of_nat, file_length = 8\<rparr>"

abbreviation demo_env :: ft_env where
  "demo_env \<equiv> calm_env 4"

text \<open>Two slots of four bytes.\<close>

definition demo_lane :: ft_lane where
  "demo_lane = \<lparr>ln_host = True, ln_done = True, ln_event = True, ln_offset = 0,
     ln_offset_high = 0, ln_page = UINT64_MAX, ln_used = 0, ln_wanted = 0, ln_pending = False\<rparr>"

definition demo_ft :: ft where
  "demo_ft = \<lparr>ft_file = True, ft_context = 1, ft_owner = 7, ft_address = 4096,
    ft_queue = True, ft_consumer_done = True, ft_reserved = 8,
    ft_chunk = 4, ft_length = 8, ft_clock = 0, ft_poisoned = False,
    ft_counters = zero_stats\<lparr>st_resident_limit := 8, st_staging_bytes := 8, st_chunk_bytes := 4\<rparr>,
    ft_slots = [blank_slot\<lparr>sl_created := True\<rparr>, blank_slot\<lparr>sl_created := True\<rparr>],
    ft_lanes = [demo_lane, demo_lane], ft_cache = False, ft_tick = 19, ft_stream = [Mark 0, Mark 1],
    ft_vmap = Map.empty, ft_vram = \<lambda>_ _. 0, ft_hostmem = \<lambda>_ _. 0, ft_fault = False,
    ft_ledger = [Take R_file, Take R_address, Take R_stream, Take R_consumer,
       Take (R_chunk 0), Take (R_chunk 1), Take (R_host 0), Take (R_done 0), Take (R_io 0),
       Take (R_host 1), Take (R_done 1), Take (R_io 1)]\<rparr>"

text \<open>How steps run when no call fails and the device makes no progress of its own.\<close>

lemma calm_fields:
  "ctx_now (calm_env g) n = 1" "attribute (calm_env g) n = 1" "address_ret (calm_env g) = 4096" "granularity (calm_env g) = 2"
  "file_length (calm_env g) = 8"
  by (simp_all add: calm_env_def)

lemma calm_cu: "cu (calm_env g) op eff s = (Inr (), eff (s\<lparr>ft_tick := Suc (ft_tick s)\<rparr>))"
  by (simp add: cu_def advance_def calm_env_def)

lemma calm_win: "win (calm_env g) op eff s = (Inr (), eff (s\<lparr>ft_tick := Suc (ft_tick s)\<rparr>))"
  by (simp add: win_def advance_def calm_env_def)

lemma chk_steps:
  "chk_bind (cu (calm_env g) op eff) k s = k () (eff (s\<lparr>ft_tick := Suc (ft_tick s)\<rparr>))"
  "chk_bind (win (calm_env g) op eff) k s = k () (eff (s\<lparr>ft_tick := Suc (ft_tick s)\<rparr>))"
  "chk_bind chk_get h0 s = h0 s s" "chk_bind (chk_ret x) h s = h x s" "chk_bind (chk_upd f) k s = k () (f s)"
  "chk_upd f s = (Inr (), f s)"
  "chk_bind (throw_if c e) k s = (if c then (Inl e, s) else k () s)"
  "chk_bind (chk_bind m1 h1) k1 s = chk_bind m1 (\<lambda>x. chk_bind (h1 x) k1) s"
  "chk_bind (if c then m2 else m3) k2 s = (if c then chk_bind m2 k2 s else chk_bind m3 k2 s)"
  by (simp_all add: chk_bind_def calm_cu calm_win chk_get_def chk_ret_def chk_upd_def throw_if_def chk_throw_def
      split: prod.split sum.split)

text \<open>The rest of a computation is not touched before the state has arrived.\<close>

lemma chk_cong: "m = m' \<Longrightarrow> s = s' \<Longrightarrow> chk_bind m k s = chk_bind m' k s'"
  by simp

lemma two: "replicate 2 x = [x, x]" "[0..<2] = [0, 1]" "[0..<Suc (Suc 0)] = [0, 1]"
  by (simp_all add: numeral_2_eq_2 upt_rec)

lemma demo_built: "ft_construct demo_env 7 8 4 False 0 = (Inr (), demo_ft)"
proof -
  have "ft_body demo_env 8 4 False 0 (blank_ft 7) = (Inr (), demo_ft)"
    by (simp add: ft_body_def open_file_def size_slots_def create_slot_def size_lanes_def create_lane_def Let_def
      set_slot_def set_lane_def enqueue_def count_stat_def noted_def blank_slot_def blank_lane_def zero_stats_def
      chk_steps calm_cu calm_win calm_fields two blank_ft_def demo_ft_def demo_lane_def cong: chk_cong)
  then show ?thesis by (simp add: ft_construct_def chk_rethrow_def)
qed

lemma demo_reach: "ft_reach demo_env demo_ft"
  by (rule built [OF demo_built])

lemma demo_world: "world_ok demo_env demo_ft"
proof -
  have "(4 :: u32) = ucast (wanted_of demo_ft p)" if "in_file demo_ft p" for p
  proof -
    have "unat p = unat (0 :: u64) \<or> unat p = unat (1 :: u64)"
      using that by (auto simp: in_file_def demo_ft_def)
    then have "p = 0 \<or> p = 1" by (simp only: word_unat_eq_iff)
    then show ?thesis by (auto simp: wanted_of_def demo_ft_def)
  qed
  then show ?thesis by (simp add: world_ok_def calm_env_def) (simp add: demo_ft_def)
qed

lemma demo_pages: "want_pages 8 4 (Suc (Suc 0)) [(1, 6)] [] = Inr [0, 1]"
proof -
  have "\<not> (8 :: u64) \<le> 1" "\<not> (7 :: u64) < 6" by (simp_all add: word_le_nat_alt)
  then show ?thesis by (simp add: span_pages_def Let_def two)
qed

lemma demo_acquire: "\<exists>s'. acquire_many demo_env [(1, 6)] demo_ft = (Inr (), s') \<and> acquired demo_env demo_ft [(1, 6)] s'"
proof (rule acquire_succeeds [OF demo_reach demo_world])
  show "want_pages (ft_length demo_ft) (ft_chunk demo_ft) (length (ft_slots demo_ft)) [(1, 6)] [] = Inr [0, 1]"
    using demo_pages by (simp add: demo_ft_def)
qed

section \<open>The theorems\<close>

text \<open>
  C5: after a request that returns, every byte of its spans can be read at the base address
  plus its offset and is the byte of the file, for any file, chunk size, budget and history
  of requests, whatever the timing of the device.
\<close>

theorem ft_resident:
  assumes "ft_reach E s" "acquire_many E spans s = (Inr (), s')" "(offset, bytes) \<in> set spans" "k < unat bytes"
  shows "device_load s' (ft_address s + offset + of_nat k) = Some (file_byte E (unat offset + k), Read_only)"
  by (rule resident_load [OF assms])

lemma ft_resident_witness:
  "\<exists>s'. acquire_many demo_env [(1, 6)] demo_ft = (Inr (), s') \<and>
     device_load s' (ft_address demo_ft + 1 + of_nat 5) = Some (file_byte demo_env (unat (1 :: u64) + 5), Read_only)"
proof -
  obtain s' where "acquire_many demo_env [(1, 6)] demo_ft = (Inr (), s')" using demo_acquire by blast
  moreover from ft_resident [OF demo_reach this, of 1 6 5]
  have "device_load s' (ft_address demo_ft + 1 + of_nat 5) = Some (file_byte demo_env (unat (1 :: u64) + 5), Read_only)" by simp
  ultimately show ?thesis by blast
qed







text \<open>
  C16: the slot that a missing page takes is the first free one; if there is none, the one
  used longest ago among those the request does not need, and there always is such a slot.
\<close>

theorem ft_victim:
  assumes "pick_slot req ys 0 None = Some j"
  shows "j < length ys \<and>
    (\<not> sl_mapped (ys ! j) \<and> (\<forall>k < j. sl_mapped (ys ! k)) \<or>
     (\<forall>k < length ys. sl_mapped (ys ! k)) \<and> sl_page (ys ! j) \<notin> set req \<and>
     (\<forall>k < length ys. sl_page (ys ! k) \<notin> set req \<longrightarrow> sl_used (ys ! j) \<le> sl_used (ys ! k)))"
  using pick_slot_choice [of req ys] assms by (auto simp: slot_choice_def slot_candidate_def)

lemma ft_victim_witness:
  "let x = blank_slot\<lparr>sl_mapped := True, sl_page := 5, sl_used := 1\<rparr>;
       y = blank_slot\<lparr>sl_mapped := True, sl_page := 6, sl_used := 3\<rparr> in
   pick_slot [5] [x, y, x\<lparr>sl_page := 7, sl_used := 2\<rparr>] 0 None = Some (Suc (Suc 0)) \<and> Suc (Suc 0) < length [x, y, x]"
proof -
  define x where "x = blank_slot\<lparr>sl_mapped := True, sl_page := 5, sl_used := 1\<rparr>"
  define y where "y = blank_slot\<lparr>sl_mapped := True, sl_page := 6, sl_used := 3\<rparr>"
  have p: "pick_slot [5] [x, y, x\<lparr>sl_page := 7, sl_used := 2\<rparr>] 0 None = Some (Suc (Suc 0))"
    by (simp add: x_def y_def)
  from ft_victim [OF p] p show ?thesis unfolding Let_def x_def y_def by simp
qed



end
