(* ===== verification/Paged_Experts.thy ===== *)
theory Paged_Experts
  imports File_Tensor_Props C_Numbers "HOL-Library.Signed_Division"
begin

text \<open>
  The use of file tensors for the expert weights of llama.cpp,
  \<^verbatim>\<open>windows-port/integrations/llama/paged-ops.cuh\<close> and \<^verbatim>\<open>paged-types.cuh\<close>. A tensor of experts is
  bound to a range of its GGUF file; before a matrix product the router's table of expert
  identifiers is turned into the set of experts that occur, and their weights are made
  resident. Buffers, tensors and the runtime's answers are those of llama.cpp and CUDA: data
  and parameters. \<^verbatim>\<open>GGML_ABORT\<close> ends the process and is an error value here.
\<close>

section \<open>Data\<close>

text \<open>\<open>pf_key\<close>: the device and the path it was made for, which its handle refers to.\<close>

record gb_paged_file =
  pf_file :: ft
  pf_key :: "int \<times> string"
  pf_operations :: u64

text \<open>A buffer of llama.cpp; \<open>cx_file\<close> is the shared file it holds, an index.\<close>

record gb_buffer =
  bu_is_cuda :: bool
  cx_paged :: bool
  cx_device :: int
  cx_file :: "nat option"

record ggml_tensor =
  t_buffer :: "nat option"
  t_data :: u64
  t_ne0 :: int
  t_ne2 :: int
  t_quantized :: bool
  t_nbytes :: u64
  t_nb2 :: u64

text \<open>The router's table: element \<open>(r, c)\<close> is read at \<^verbatim>\<open>data + r * nb[1] + c * 4\<close>.\<close>

record router_ids =
  id_i32 :: bool
  id_nb0 :: u64
  id_ne0 :: int
  id_ne1 :: int
  id_ne2 :: int
  id_ne3 :: int
  id_at :: "int \<Rightarrow> int \<Rightarrow> int"

record pg_state =
  pg_buffers :: "gb_buffer list"
  pg_files :: "(int \<times> string) \<Rightarrow> nat option"    \<comment> \<open>the weak pointers of \<^verbatim>\<open>files\<close>\<close>
  pg_heap :: "gb_paged_file list"
  pg_types :: "int \<Rightarrow> int option"                \<comment> \<open>the buffer types made so far\<close>

text \<open>The outside world: that of each file tensor, the environment, runtime calls by name.\<close>

record pg_world =
  pw_ft :: "int \<times> string \<Rightarrow> ft_env"
  pw_getenv :: "string \<Rightarrow> string option"
  pw_cuda_ok :: "string \<Rightarrow> bool"
  pw_thread :: nat
  pw_row_padding :: int

type_synonym 'a pg_step = "(pg_state, string, 'a) chk"

definition pg_check :: "bool \<Rightarrow> string \<Rightarrow> unit pg_step" where
  "pg_check ok msg = (if ok then chk_ret () else chk_throw msg)"

definition cuda_check :: "pg_world \<Rightarrow> string \<Rightarrow> unit pg_step" where
  "cuda_check W call = pg_check (pw_cuda_ok W call) call"

section \<open>Configuration\<close>

definition gb_env_mib :: "(string \<Rightarrow> string option) \<Rightarrow> string \<Rightarrow> u64 \<Rightarrow> string + u64" where
  "gb_env_mib getenv name fallback = (case getenv name of
     None \<Rightarrow> Inr (push_bit 20 fallback)
   | Some txt \<Rightarrow>
     (let (n, rest) = strtoui64 txt in
      if txt = [] \<or> rest \<noteq> [] \<or> hd txt = CHR ''-'' \<or> drop_bit 20 (- 1) < n
      then Inl ''invalid MiB value'' else Inr (push_bit 20 n)))"

definition gb_paging_enabled :: "pg_world \<Rightarrow> string + bool" where
  "gb_paging_enabled W = (case gb_env_mib (pw_getenv W) ''GREENBOOST_EXPERT_VRAM_MB'' 0 of
     Inl e \<Rightarrow> Inl e | Inr n \<Rightarrow> Inr (n \<noteq> 0))"

definition pg_env :: "string + 'a \<Rightarrow> 'a pg_step" where
  "pg_env r = (case r of Inl e \<Rightarrow> chk_throw e | Inr x \<Rightarrow> chk_ret x)"

text \<open>The buffer type of a CUDA device, made once; \<open>normal\<close> says whether the device is one.\<close>

definition gb_paged_buffer_type :: "pg_world \<Rightarrow> bool \<Rightarrow> int \<Rightarrow> int option pg_step" where
  "gb_paged_buffer_type W normal_is_cuda device =
     chk_bind (pg_env (gb_paging_enabled W)) (\<lambda>on.
     if \<not> on then chk_ret None
     else chk_bind (pg_check normal_is_cuda ''paging requires a CUDA device'') (\<lambda>_.
       chk_bind (chk_upd (\<lambda>s. if pg_types s device = None
           then s\<lparr>pg_types := (pg_types s)(device \<mapsto> device)\<rparr> else s)) (\<lambda>_.
       chk_bind chk_get (\<lambda>s. chk_ret (pg_types s device)))))"

definition pg_buffer :: "pg_state \<Rightarrow> ggml_tensor \<Rightarrow> gb_buffer option" where
  "pg_buffer s t = (case t_buffer t of
     Some b \<Rightarrow> if b < length (pg_buffers s) \<and> bu_is_cuda (pg_buffers s ! b) then Some (pg_buffers s ! b) else None
   | None \<Rightarrow> None)"

definition gb_tensor_paged :: "pg_state \<Rightarrow> ggml_tensor option \<Rightarrow> bool" where
  "gb_tensor_paged s t = (case t of None \<Rightarrow> False
     | Some t \<Rightarrow> (case pg_buffer s t of None \<Rightarrow> False | Some c \<Rightarrow> cx_paged c))"

section \<open>Binding\<close>

text \<open>\<^verbatim>\<open>gb_paged_file(path)\<close>: the file tensor with its two budgets, and the request arrays.\<close>

definition gb_new_paged_file :: "pg_world \<Rightarrow> int \<times> string \<Rightarrow> string + gb_paged_file" where
  "gb_new_paged_file W key =
     (case gb_env_mib (pw_getenv W) ''GREENBOOST_EXPERT_VRAM_MB'' 0 of Inl e \<Rightarrow> Inl e | Inr budget \<Rightarrow>
     (case gb_env_mib (pw_getenv W) ''GREENBOOST_EXPERT_RAM_MB'' 0 of Inl e \<Rightarrow> Inl e | Inr host \<Rightarrow>
     (case ft_construct (pw_ft W key) (pw_thread W) budget (push_bit 20 2) False host of
       (Inl e, _) \<Rightarrow> Inl ''file binding''
     | (Inr _, file) \<Rightarrow>
       if \<not> pw_cuda_ok W ''cudaMalloc'' then Inl ''cudaMalloc''
       else if \<not> pw_cuda_ok W ''cudaMallocHost'' then Inl ''cudaMallocHost''
       else if \<not> pw_cuda_ok W ''cuCtxGetDevice'' then Inl ''residency device''
       else if \<not> pw_cuda_ok W ''cuDeviceGetPCIBusId'' then Inl ''residency PCI identity''
       else Inr \<lparr>pf_file = file, pf_key = key, pf_operations = 0\<rparr>)))"

text \<open>\<^verbatim>\<open>~gb_paged_file()\<close>, then the destructor of its file tensor.\<close>

definition gb_delete_paged_file :: "pg_world \<Rightarrow> gb_paged_file \<Rightarrow> string + ft" where
  "gb_delete_paged_file W f =
     (if \<not> pw_cuda_ok W ''cudaFree'' then Inl ''cudaFree''
      else if \<not> pw_cuda_ok W ''cudaFreeHost'' then Inl ''cudaFreeHost''
      else Inr (ft_destroy (pw_ft W (pf_key f)) (pf_file f)))"

text \<open>A weak pointer can be locked while some buffer holds the file.\<close>

definition pg_lock :: "pg_state \<Rightarrow> nat option \<Rightarrow> nat option" where
  "pg_lock s entry = (case entry of None \<Rightarrow> None
     | Some i \<Rightarrow> if \<exists>c \<in> set (pg_buffers s). cx_file c = Some i then Some i else None)"

definition pg_open :: "pg_world \<Rightarrow> int \<Rightarrow> string \<Rightarrow> nat pg_step" where
  "pg_open W device path = chk_bind chk_get (\<lambda>s.
     case pg_lock s (pg_files s (device, path)) of
       Some i \<Rightarrow> chk_ret i
     | None \<Rightarrow> chk_bind (pg_env (gb_new_paged_file W (device, path))) (\<lambda>file.
         chk_bind (chk_upd (\<lambda>s. s\<lparr>pg_heap := pg_heap s @ [file],
           pg_files := (pg_files s)((device, path) \<mapsto> length (pg_heap s))\<rparr>)) (\<lambda>_. chk_ret (length (pg_heap s)))))"

text \<open>The path has \<open>n\<close> characters; \<open>n = 0\<close> is a failed query.\<close>

definition gb_bind_tensor ::
  "pg_world \<Rightarrow> ggml_tensor \<Rightarrow> nat \<Rightarrow> string \<Rightarrow> u64 \<Rightarrow> (bool \<times> ggml_tensor) pg_step" where
  "gb_bind_tensor W tensor n path offset = chk_bind chk_get (\<lambda>s.
     case pg_buffer s tensor of None \<Rightarrow> chk_ret (False, tensor) | Some c \<Rightarrow>
     if \<not> cx_paged c then chk_ret (False, tensor)
     else chk_bind (cuda_check W ''cudaFree'') (\<lambda>_.
       chk_bind (pg_check (t_ne0 tensor smod pw_row_padding W = 0 \<and> t_quantized tensor \<and> 2 \<le> t_ne2 tensor)
         ''expert tensors require quantisation and aligned rows'') (\<lambda>_.
       chk_bind (pg_check (n \<noteq> 0 \<and> n < 32768) ''cannot resolve GGUF file path'') (\<lambda>_.
       chk_bind (pg_open W (cx_device c) path) (\<lambda>i.
       chk_bind (pg_check (cx_file c = None \<or> cx_file c = Some i) ''split GGUF expert buffers'') (\<lambda>_.
       chk_bind (chk_upd (\<lambda>s. s\<lparr>pg_buffers := (pg_buffers s)[the (t_buffer tensor) := c\<lparr>cx_file := Some i\<rparr>]\<rparr>)) (\<lambda>_.
       chk_bind chk_get (\<lambda>s.
       let file = pf_file (pg_heap s ! i) in
       chk_bind (pg_check (offset < ft_length file \<and> t_nbytes tensor \<le> ft_length file - offset)
         ''expert weight extends beyond GGUF file'') (\<lambda>_.
       chk_ret (True, tensor\<lparr>t_data := ft_address file + offset\<rparr>))))))))))"

section \<open>Use\<close>

text \<open>One thread of the kernel: the request flags are \<open>0 .. experts\<close>, the last one for errors.\<close>

definition route_thread :: "router_ids \<Rightarrow> int \<Rightarrow> int \<Rightarrow> int \<Rightarrow> int \<Rightarrow> (int \<Rightarrow> u32) \<Rightarrow> int \<Rightarrow> u32" where
  "route_thread ids active tokens experts i requests =
     (if s32_wrap (active * tokens) \<le> i then requests
      else let expert = id_at ids (i sdiv active) (i smod active) in
        if expert < 0 \<or> experts \<le> expert then requests(experts := 1) else requests(expert := 1))"

text \<open>The threads in some order.\<close>

definition gb_route_requests ::
  "int list \<Rightarrow> router_ids \<Rightarrow> int \<Rightarrow> int \<Rightarrow> int \<Rightarrow> (int \<Rightarrow> u32) \<Rightarrow> int \<Rightarrow> u32" where
  "gb_route_requests order ids active tokens experts requests =
     fold (route_thread ids active tokens experts) order requests"

definition expert_spans :: "(int \<Rightarrow> u32) \<Rightarrow> nat \<Rightarrow> u64 \<Rightarrow> u64 \<Rightarrow> span list" where
  "expert_spans host experts offset nb2 =
     map (\<lambda>i. (offset + of_nat i * nb2, nb2)) (filter (\<lambda>i. host (int i) \<noteq> 0) [0..<experts])"

definition set_file :: "nat \<Rightarrow> gb_paged_file \<Rightarrow> pg_state \<Rightarrow> pg_state" where
  "set_file i file s = s\<lparr>pg_heap := (pg_heap s)[i := file]\<rparr>"

definition pg_call :: "nat \<Rightarrow> unit ft_step \<Rightarrow> string \<Rightarrow> unit pg_step" where
  "pg_call i m msg s = (case m (pf_file (pg_heap s ! i)) of (r, file) \<Rightarrow>
     (case r of Inl _ \<Rightarrow> (Inl msg, set_file i ((pg_heap s ! i)\<lparr>pf_file := file\<rparr>) s)
      | Inr _ \<Rightarrow> (Inr (), set_file i ((pg_heap s ! i)\<lparr>pf_file := file\<rparr>) s)))"

text \<open>The blocks of a launch and its threads, which run in any order.\<close>

definition launch_grid :: "int \<Rightarrow> int" where
  "launch_grid n = s32_wrap (n + 255) sdiv 256"

definition launch_threads :: "int \<Rightarrow> int list" where
  "launch_threads n = map int [0..<256 * nat (launch_grid n)]"

text \<open>
  The constructor of \<^verbatim>\<open>gb_expert_use\<close>; its result is the file it holds. A launch without
  blocks, or with a negative number of them, is an error of the runtime.
\<close>

definition expert_use_begin :: "pg_world \<Rightarrow> int list \<Rightarrow> ggml_tensor \<Rightarrow> router_ids \<Rightarrow> nat option pg_step" where
  "expert_use_begin W order weights ids = chk_bind chk_get (\<lambda>s.
     case pg_buffer s weights of None \<Rightarrow> chk_ret None | Some c \<Rightarrow>
     if \<not> cx_paged c then chk_ret None
     else case cx_file c of None \<Rightarrow> chk_throw ''expert tensor has no GGUF binding'' | Some i \<Rightarrow>
       let experts = s32_wrap (t_ne2 weights); threads = s32_wrap (id_ne0 ids * id_ne1 ids) in
       chk_bind (pg_check (1 \<le> experts \<and> experts \<le> 4096 \<and> id_i32 ids \<and> id_nb0 ids = 4 \<and> id_ne2 ids = 1 \<and> id_ne3 ids = 1)
         ''unsupported CUDA router layout'') (\<lambda>_.
       chk_bind (cuda_check W ''cudaMemsetAsync'') (\<lambda>_.
       chk_bind (pg_check (0 < launch_grid threads \<and> pw_cuda_ok W ''cudaGetLastError'') ''cudaGetLastError'') (\<lambda>_.
       chk_bind (cuda_check W ''cudaMemcpyAsync'') (\<lambda>_.
       chk_bind (cuda_check W ''cudaStreamSynchronize'') (\<lambda>_.
       let host = gb_route_requests order ids (s32_wrap (id_ne0 ids)) (s32_wrap (id_ne1 ids)) experts (\<lambda>_. 0) in
       chk_bind (pg_check (host experts = 0) ''router produced an invalid expert ID'') (\<lambda>_.
       chk_bind (pg_call i (acquire_many (pw_ft W (pf_key (pg_heap s ! i)))
           (expert_spans host (nat experts) (t_data weights - ft_address (pf_file (pg_heap s ! i))) (t_nb2 weights)))
         ''expert residency'') (\<lambda>_.
       chk_bind (chk_upd (\<lambda>s. set_file i ((pg_heap s ! i)\<lparr>pf_operations := pf_operations (pg_heap s ! i) + 1\<rparr>) s)) (\<lambda>_.
       chk_ret (Some i))))))))))"

definition expert_use_end :: "pg_world \<Rightarrow> nat option \<Rightarrow> unit pg_step" where
  "expert_use_end W held = (case held of None \<Rightarrow> chk_ret ()
     | Some i \<Rightarrow> chk_bind chk_get (\<lambda>s.
         pg_call i (record_use (pw_ft W (pf_key (pg_heap s ! i)))) ''consumer fence''))"

end
