(* ===== verification/Paged_Experts_Props.thy ===== *)
theory Paged_Experts_Props
  imports Paged_Experts
begin

text \<open>
  The paged experts from the binding of a tensor to its use: every expert that the router
  names has its weights in place, and they are the bytes of the model file at the offset the
  tensor was bound to.
\<close>

section \<open>Routing\<close>

lemma sdiv_smod_nonneg:
  fixes a :: int
  assumes "0 \<le> a" "0 < b"
  shows "a sdiv b = a div b" "a smod b = a mod b"
  using assms by (cases "a = 0"; simp add: signed_divide_int_def signed_modulo_int_def)+

lemma smod_sdiv_pos:
  fixes c :: int
  assumes "0 \<le> c" "c < n" "0 \<le> r"
  shows "(c + r * n) sdiv n = r" "(c + r * n) smod n = c"
proof -
  have "0 \<le> c + r * n" using assms by simp
  moreover have "(c + r * n) div n = r" "(c + r * n) mod n = c" using assms by simp_all
  ultimately show "(c + r * n) sdiv n = r" "(c + r * n) smod n = c"
    using assms by (simp_all add: sdiv_smod_nonneg)
qed

text \<open>The flag that thread \<open>i\<close> sets.\<close>

definition sets_flag :: "router_ids \<Rightarrow> int \<Rightarrow> int \<Rightarrow> int \<Rightarrow> int \<Rightarrow> int \<Rightarrow> bool" where
  "sets_flag ids active tokens experts i e \<longleftrightarrow> i < s32_wrap (active * tokens) \<and>
     (let x = id_at ids (i sdiv active) (i smod active) in
        e = (if x < 0 \<or> experts \<le> x then experts else x))"

lemma route_requests_at:
  "gb_route_requests order ids active tokens experts requests e =
     (if \<exists>i \<in> set order. sets_flag ids active tokens experts i e then 1 else requests e)"
proof (induction order arbitrary: requests)
  case Nil
  then show ?case by (simp add: gb_route_requests_def)
next
  case (Cons i order)
  have "gb_route_requests (i # order) ids active tokens experts requests =
      gb_route_requests order ids active tokens experts (route_thread ids active tokens experts i requests)"
    by (simp add: gb_route_requests_def)
  moreover have "route_thread ids active tokens experts i requests e =
      (if sets_flag ids active tokens experts i e then 1 else requests e)"
    by (simp add: route_thread_def sets_flag_def Let_def)
  ultimately show ?case by (simp add: Cons.IH)
qed

lemma launch_threads_cover:
  assumes "0 < launch_grid n" "0 \<le> i" "i < n" "n < 2 ^ 31"
  shows "i \<in> set (launch_threads n)"
proof -
  have r: "- (2 ^ 31) \<le> s32_wrap (n + 255)" by (rule conjunct1 [OF s32_wrap_range])
  have "s32_wrap (n + 255) = n + 255"
  proof (rule ccontr)
    assume "s32_wrap (n + 255) \<noteq> n + 255"
    then have big: "2 ^ 31 \<le> n + 255" using s32_wrap_id [of "n + 255"] assms by linarith
    have "s32_wrap (n + 255) = n + 255 - 2 ^ 32"
      using big assms(4) unfolding s32_wrap_def by (simp add: mod_pos_geq)
    then have "s32_wrap (n + 255) < 0" using assms(4) by simp
    then show False using assms(1)
      by (simp add: launch_grid_def signed_divide_int_def sgn_if abs_if split: if_splits)
  qed
  then have g: "launch_grid n = (n + 255) div 256"
    using assms by (simp add: launch_grid_def signed_divide_int_def sgn_if abs_if)
  have "i < 256 * ((n + 255) div 256)" using assms(3) mult_div_mod_eq [of 256 "n + 255"] pos_mod_bound [of 256 "n + 255"] by linarith
  moreover have "int (256 * nat (launch_grid n)) = 256 * ((n + 255) div 256)" using assms g by simp
  ultimately have "nat i < 256 * nat (launch_grid n)" using assms(2) by linarith
  then show ?thesis unfolding launch_threads_def using assms(2) by (auto intro!: image_eqI [of _ _ "nat i"])
qed

section \<open>Steps that return\<close>

lemma chk_bind_returns:
  "chk_bind m k s = (Inr y, s') \<longleftrightarrow> (\<exists>x t. m s = (Inr x, t) \<and> k x t = (Inr y, s'))"
  by (auto simp: chk_bind_def split: prod.splits sum.splits)

lemma step_returns:
  "chk_ret x s = (Inr y, s') \<longleftrightarrow> y = x \<and> s' = s"
  "chk_throw e s = (Inr y, s') \<longleftrightarrow> False"
  "chk_get s = (Inr t, s') \<longleftrightarrow> t = s \<and> s' = s"
  "chk_upd f s = (Inr u, s') \<longleftrightarrow> s' = f s"
  "pg_check ok msg s = (Inr u, s') \<longleftrightarrow> ok \<and> s' = s"
  "cuda_check W call s = (Inr u, s') \<longleftrightarrow> pw_cuda_ok W call \<and> s' = s"
  "pg_env v s = (Inr z, s') \<longleftrightarrow> v = Inr z \<and> s' = s"
  by (auto simp: chk_ret_def chk_throw_def chk_get_def chk_upd_def pg_check_def cuda_check_def pg_env_def
      split: sum.splits)

lemma pg_call_returns:
  "pg_call i m msg s = (Inr u, s') \<longleftrightarrow>
     (\<exists>file. m (pf_file (pg_heap s ! i)) = (Inr (), file) \<and>
        s' = set_file i ((pg_heap s ! i)\<lparr>pf_file := file\<rparr>) s)"
  by (auto simp: pg_call_def split: prod.splits sum.splits)

lemmas returns = chk_bind_returns step_returns pg_call_returns

section \<open>What persists\<close>

definition pg_inv :: "pg_world \<Rightarrow> pg_state \<Rightarrow> bool" where
  "pg_inv W s \<longleftrightarrow> (\<forall>f \<in> set (pg_heap s). ft_reach (pw_ft W (pf_key f)) (pf_file f)) \<and>
     (\<forall>c \<in> set (pg_buffers s). \<forall>i. cx_file c = Some i \<longrightarrow> i < length (pg_heap s)) \<and>
     (\<forall>key i. pg_files s key = Some i \<longrightarrow> i < length (pg_heap s) \<and> pf_key (pg_heap s ! i) = key)"

text \<open>A file keeps its identity and its range of addresses.\<close>

definition same_file :: "gb_paged_file \<Rightarrow> gb_paged_file \<Rightarrow> bool" where
  "same_file f g \<longleftrightarrow> pf_key g = pf_key f \<and> ft_address (pf_file g) = ft_address (pf_file f) \<and>
     ft_length (pf_file g) = ft_length (pf_file f)"

text \<open>A buffer keeps its kind and, once it has one, its file.\<close>

definition same_buffer :: "gb_buffer \<Rightarrow> gb_buffer \<Rightarrow> bool" where
  "same_buffer c d \<longleftrightarrow> bu_is_cuda d = bu_is_cuda c \<and> cx_paged d = cx_paged c \<and> cx_device d = cx_device c \<and>
     (cx_file c \<noteq> None \<longrightarrow> cx_file d = cx_file c)"

definition pg_keep :: "nat \<Rightarrow> pg_state \<Rightarrow> pg_state \<Rightarrow> bool" where
  "pg_keep b s t \<longleftrightarrow> length (pg_heap s) \<le> length (pg_heap t) \<and>
     (\<forall>i < length (pg_heap s). same_file (pg_heap s ! i) (pg_heap t ! i)) \<and>
     length (pg_buffers s) \<le> length (pg_buffers t) \<and>
     (b < length (pg_buffers s) \<longrightarrow> same_buffer (pg_buffers s ! b) (pg_buffers t ! b))"

lemma pg_keep_refl: "pg_keep b s s"
  by (simp add: pg_keep_def same_file_def same_buffer_def)

lemma pg_keep_trans: "pg_keep b s t \<Longrightarrow> pg_keep b t u \<Longrightarrow> pg_keep b s u"
  by (simp add: pg_keep_def same_file_def same_buffer_def)

lemma acquire_keeps_shape:
  assumes "ft_reach E s" "acquire_many E spans s = (Inr (), s')"
  shows "ft_address s' = ft_address s \<and> ft_length s' = ft_length s"
  using acquire_outcome [OF assms] by (auto simp: acquired_def loading_def same_shape_def)

lemma record_keeps_shape:
  assumes "ft_reach E s" "record_use E s = (Inr (), s')"
  shows "ft_address s' = ft_address s \<and> ft_length s' = ft_length s"
proof -
  have np: "\<not> ft_poisoned s" using poisoned_refuses(2) [of s E] assms(2) by (cases "ft_poisoned s") auto
  with reach_good [OF assms(1)] have "quiet E s {} {} s" by (simp add: ft_good_def)
  from triple_useR [OF record_use_triple [OF this] refl assms(2)] show ?thesis
    by (simp add: loading_def same_shape_def)
qed

text \<open>Replacing a file of the heap by a later state of it.\<close>

lemma set_file_inv:
  assumes inv: "pg_inv W s" and i: "i < length (pg_heap s)"
    and f: "same_file (pg_heap s ! i) f" "ft_reach (pw_ft W (pf_key f)) (pf_file f)"
  shows "pg_inv W (set_file i f s) \<and> pg_keep b s (set_file i f s)"
proof -
  have "\<forall>g \<in> set ((pg_heap s)[i := f]). ft_reach (pw_ft W (pf_key g)) (pf_file g)"
    using inv f(2) set_update_subset_insert [of "pg_heap s" i f] unfolding pg_inv_def by blast
  moreover have "pf_key ((pg_heap s)[i := f] ! j) = pf_key (pg_heap s ! j)" for j
    using i f(1) by (cases "j = i") (simp_all add: same_file_def)
  ultimately have "pg_inv W (set_file i f s)" using inv by (simp add: pg_inv_def set_file_def)
  moreover have "same_file (pg_heap s ! j) ((pg_heap s)[i := f] ! j)" for j
    using i f(1) by (cases "j = i") (simp_all add: same_file_def)
  then have "pg_keep b s (set_file i f s)"
    using pg_keep_refl [of b s] by (simp add: pg_keep_def set_file_def)
  ultimately show ?thesis ..
qed

section \<open>Binding\<close>

text \<open>\<open>w\<close> lies at \<open>offset\<close> in the file of \<open>key\<close>, which buffer \<open>b\<close> holds.\<close>

definition pg_bound :: "pg_state \<Rightarrow> ggml_tensor \<Rightarrow> nat \<Rightarrow> int \<times> string \<Rightarrow> u64 \<Rightarrow> bool" where
  "pg_bound s w b key offset \<longleftrightarrow> t_buffer w = Some b \<and> b < length (pg_buffers s) \<and>
     bu_is_cuda (pg_buffers s ! b) \<and> cx_paged (pg_buffers s ! b) \<and>
     (\<exists>i. cx_file (pg_buffers s ! b) = Some i \<and> i < length (pg_heap s) \<and> pf_key (pg_heap s ! i) = key \<and>
        t_data w = ft_address (pf_file (pg_heap s ! i)) + offset \<and>
        offset < ft_length (pf_file (pg_heap s ! i)) \<and> t_nbytes w \<le> ft_length (pf_file (pg_heap s ! i)) - offset)"

lemma bound_keep: "pg_bound s w b key offset \<Longrightarrow> pg_keep b s t \<Longrightarrow> pg_bound t w b key offset"
  by (auto simp: pg_bound_def pg_keep_def same_buffer_def same_file_def)

lemma new_file_reach:
  assumes "gb_new_paged_file W key = Inr f"
  shows "ft_reach (pw_ft W (pf_key f)) (pf_file f) \<and> pf_key f = key"
  using assms by (auto simp: gb_new_paged_file_def intro: ft_reach.built split: sum.splits prod.splits if_splits)

lemma open_returns:
  assumes inv: "pg_inv W s" and r: "pg_open W device path s = (Inr i, s')"
  shows "pg_inv W s' \<and> pg_keep b s s' \<and> pg_buffers s' = pg_buffers s \<and> i < length (pg_heap s') \<and>
    pf_key (pg_heap s' ! i) = (device, path)"
proof (cases "pg_lock s (pg_files s (device, path))")
  case (Some j)
  then have "pg_files s (device, path) = Some j" by (auto simp: pg_lock_def split: option.splits if_splits)
  with Some r inv pg_keep_refl [of b s] show ?thesis by (auto simp: pg_open_def returns pg_inv_def)
next
  case None
  then obtain f where f: "gb_new_paged_file W (device, path) = Inr f" "i = length (pg_heap s)"
    and s': "s' = s\<lparr>pg_heap := pg_heap s @ [f], pg_files := (pg_files s)((device, path) \<mapsto> length (pg_heap s))\<rparr>"
    using r by (auto simp: pg_open_def returns)
  have "pg_inv W s'" using inv new_file_reach [OF f(1)] unfolding s' pg_inv_def
    by (auto simp: nth_append less_Suc_eq split: if_splits)
  moreover have "pg_keep b s s'"
    using pg_keep_refl [of b s] by (simp add: s' pg_keep_def nth_append)
  ultimately show ?thesis using new_file_reach [OF f(1)] by (simp add: s' f(2))
qed

lemma hold_file_inv:
  assumes "pg_inv W s" "i < length (pg_heap s)" "k < length (pg_buffers s)"
    "cx_file (pg_buffers s ! k) = None \<or> cx_file (pg_buffers s ! k) = Some i"
  shows "pg_inv W (s\<lparr>pg_buffers := (pg_buffers s)[k := (pg_buffers s ! k)\<lparr>cx_file := Some i\<rparr>]\<rparr>) \<and>
    pg_keep b s (s\<lparr>pg_buffers := (pg_buffers s)[k := (pg_buffers s ! k)\<lparr>cx_file := Some i\<rparr>]\<rparr>)"
proof -
  have "\<forall>c \<in> set ((pg_buffers s)[k := (pg_buffers s ! k)\<lparr>cx_file := Some i\<rparr>]). \<forall>j. cx_file c = Some j \<longrightarrow> j < length (pg_heap s)"
    using assms(1,2) set_update_subset_insert [of "pg_buffers s" k "(pg_buffers s ! k)\<lparr>cx_file := Some i\<rparr>"]
    unfolding pg_inv_def by fastforce
  then show ?thesis
    using assms by (auto simp: pg_inv_def pg_keep_def same_file_def same_buffer_def nth_list_update)
qed

lemma bind_returns:
  assumes inv: "pg_inv W s" and r: "gb_bind_tensor W t n path offset s = (Inr (ok, w), s')"
  shows "pg_inv W s' \<and> pg_keep b s s' \<and> (ok \<longrightarrow> (\<exists>k. t_buffer t = Some k \<and>
    pg_bound s' w k (cx_device (pg_buffers s ! k), path) offset \<and> w = t\<lparr>t_data := t_data w\<rparr> \<and> 2 \<le> t_ne2 t))"
proof (cases "\<exists>k. t_buffer t = Some k \<and> k < length (pg_buffers s) \<and> bu_is_cuda (pg_buffers s ! k) \<and> cx_paged (pg_buffers s ! k)")
  case False
  then have "ok = False \<and> s' = s" using r
    by (auto simp: gb_bind_tensor_def pg_buffer_def returns split: option.splits if_splits)
  then show ?thesis using inv pg_keep_refl by simp
next
  case True
  then obtain k where k: "t_buffer t = Some k" "k < length (pg_buffers s)" "bu_is_cuda (pg_buffers s ! k)" "cx_paged (pg_buffers s ! k)"
    by blast
  let ?c = "pg_buffers s ! k"
  obtain i s1 where o1: "pg_open W (cx_device ?c) path s = (Inr i, s1)"
    and free: "cx_file ?c = None \<or> cx_file ?c = Some i"
    and s': "s' = s1\<lparr>pg_buffers := (pg_buffers s1)[k := ?c\<lparr>cx_file := Some i\<rparr>]\<rparr>"
    and w: "offset < ft_length (pf_file (pg_heap s1 ! i))" "t_nbytes t \<le> ft_length (pf_file (pg_heap s1 ! i)) - offset"
      "ok" "w = t\<lparr>t_data := ft_address (pf_file (pg_heap s1 ! i)) + offset\<rparr>" "2 \<le> t_ne2 t"
    using r k by (auto simp: gb_bind_tensor_def pg_buffer_def returns Let_def)
  from open_returns [OF inv o1] have s1: "pg_inv W s1" "pg_buffers s1 = pg_buffers s" "i < length (pg_heap s1)"
    "pf_key (pg_heap s1 ! i) = (cx_device ?c, path)" by simp_all
  have "pg_inv W s' \<and> pg_keep b s1 s'"
    using hold_file_inv [OF s1(1,3), of k b] k(2) free by (simp add: s' s1(2))
  moreover have "pg_keep b s s1" using open_returns [OF inv o1] by simp
  moreover have "pg_bound s' w k (cx_device ?c, path) offset"
    using k s1 w by (simp add: pg_bound_def s')
  ultimately show ?thesis using k(1) w(4,5) by (auto intro: pg_keep_trans)
qed

section \<open>Use\<close>

lemma set_file_twice: "i < length (pg_heap s) \<Longrightarrow>
    set_file i ((pg_heap (set_file i f s) ! i)\<lparr>pf_operations := n\<rparr>) (set_file i f s) = set_file i (f\<lparr>pf_operations := n\<rparr>) s"
  by (simp add: set_file_def)

definition use_spans :: "int list \<Rightarrow> ggml_tensor \<Rightarrow> router_ids \<Rightarrow> ft \<Rightarrow> span list" where
  "use_spans order w ids file = (let experts = s32_wrap (t_ne2 w) in
     expert_spans (gb_route_requests order ids (s32_wrap (id_ne0 ids)) (s32_wrap (id_ne1 ids)) experts (\<lambda>_. 0))
       (nat experts) (t_data w - ft_address file) (t_nb2 w))"

lemma use_begin_returns:
  assumes inv: "pg_inv W s" and r: "expert_use_begin W order w ids s = (Inr (Some i), s')"
  shows "\<exists>g. i < length (pg_heap s) \<and> pg_buffer s w \<noteq> None \<and> cx_file (the (pg_buffer s w)) = Some i \<and>
    1 \<le> s32_wrap (t_ne2 w) \<and> s32_wrap (t_ne2 w) \<le> 4096 \<and> 0 < launch_grid (s32_wrap (id_ne0 ids * id_ne1 ids)) \<and>
    gb_route_requests order ids (s32_wrap (id_ne0 ids)) (s32_wrap (id_ne1 ids)) (s32_wrap (t_ne2 w)) (\<lambda>_. 0) (s32_wrap (t_ne2 w)) = 0 \<and>
    acquire_many (pw_ft W (pf_key (pg_heap s ! i))) (use_spans order w ids (pf_file (pg_heap s ! i))) (pf_file (pg_heap s ! i)) = (Inr (), g) \<and>
    s' = set_file i ((pg_heap s ! i)\<lparr>pf_file := g, pf_operations := pf_operations (pg_heap s ! i) + 1\<rparr>) s"
proof -
  obtain c where c: "pg_buffer s w = Some c" "cx_paged c" "cx_file c = Some i"
    using r by (auto simp: expert_use_begin_def returns Let_def split: option.splits if_splits)
  then have "c \<in> set (pg_buffers s)" by (auto simp: pg_buffer_def split: option.splits if_splits)
  then have i: "i < length (pg_heap s)" using inv c(3) by (auto simp: pg_inv_def)
  with r c show ?thesis
    by (auto simp: expert_use_begin_def returns Let_def use_spans_def) (simp add: set_file_def)
qed

lemma use_begin_keeps:
  assumes inv: "pg_inv W s" and r: "expert_use_begin W order w ids s = (Inr held, s')"
  shows "pg_inv W s' \<and> pg_keep b s s'"
proof (cases held)
  case None
  then have "s' = s" using r
    by (auto simp: expert_use_begin_def returns Let_def split: option.splits if_splits)
  then show ?thesis using inv pg_keep_refl by simp
next
  case (Some i)
  from use_begin_returns [OF inv r [unfolded Some]] obtain g spans where f: "i < length (pg_heap s)"
    "acquire_many (pw_ft W (pf_key (pg_heap s ! i))) spans (pf_file (pg_heap s ! i)) = (Inr (), g)"
    "s' = set_file i ((pg_heap s ! i)\<lparr>pf_file := g, pf_operations := pf_operations (pg_heap s ! i) + 1\<rparr>) s" by blast
  have "ft_reach (pw_ft W (pf_key (pg_heap s ! i))) (pf_file (pg_heap s ! i))" using inv f(1) by (simp add: pg_inv_def)
  with acquire_keeps_shape [OF this f(2)] f(2) show ?thesis
    unfolding f(3) by (intro set_file_inv [OF inv f(1)]) (auto simp: same_file_def intro: ft_reach.acquired)
qed

lemma use_end_keeps:
  assumes inv: "pg_inv W s" and r: "expert_use_end W held s = (Inr u, s')" and h: "\<forall>i. held = Some i \<longrightarrow> i < length (pg_heap s)"
  shows "pg_inv W s' \<and> pg_keep b s s'"
proof (cases held)
  case None
  then show ?thesis using r inv pg_keep_refl by (simp add: expert_use_end_def returns)
next
  case (Some i)
  then obtain g where f: "i < length (pg_heap s)"
    "record_use (pw_ft W (pf_key (pg_heap s ! i))) (pf_file (pg_heap s ! i)) = (Inr (), g)"
    "s' = set_file i ((pg_heap s ! i)\<lparr>pf_file := g\<rparr>) s"
    using r h by (auto simp: expert_use_end_def returns)
  have "ft_reach (pw_ft W (pf_key (pg_heap s ! i))) (pf_file (pg_heap s ! i))" using inv f(1) by (simp add: pg_inv_def)
  with record_keeps_shape [OF this f(2)] f(2) show ?thesis
    unfolding f(3) by (intro set_file_inv [OF inv f(1)]) (auto simp: same_file_def intro: ft_reach.recorded)
qed

section \<open>The life of a process\<close>

text \<open>
  What may happen while buffer \<open>b\<close> lives: llama.cpp makes buffers and frees others, binds
  tensors and uses them. A step that throws ends the process.
\<close>

inductive pg_run :: "pg_world \<Rightarrow> nat \<Rightarrow> pg_state \<Rightarrow> pg_state \<Rightarrow> bool" for W b where
  none: "pg_run W b s s"
| new_buffer: "pg_run W b s u \<Longrightarrow> cx_file c = None \<Longrightarrow> pg_run W b s (u\<lparr>pg_buffers := pg_buffers u @ [c]\<rparr>)"
| free_buffer: "pg_run W b s u \<Longrightarrow> k \<noteq> b \<Longrightarrow> cx_file c = None \<Longrightarrow> pg_run W b s (u\<lparr>pg_buffers := (pg_buffers u)[k := c]\<rparr>)"
| bind: "pg_run W b s u \<Longrightarrow> gb_bind_tensor W t n path offset u = (Inr x, v) \<Longrightarrow> pg_run W b s v"
| use_begin: "pg_run W b s u \<Longrightarrow> expert_use_begin W order w ids u = (Inr held, v) \<Longrightarrow> pg_run W b s v"
| use_end: "pg_run W b s u \<Longrightarrow> (\<forall>i. held = Some i \<longrightarrow> i < length (pg_heap u)) \<Longrightarrow>
    expert_use_end W held u = (Inr r, v) \<Longrightarrow> pg_run W b s v"

definition pg_start :: "pg_state \<Rightarrow> bool" where
  "pg_start s \<longleftrightarrow> pg_heap s = [] \<and> pg_files s = Map.empty \<and> (\<forall>c \<in> set (pg_buffers s). cx_file c = None)"

lemma start_inv: "pg_start s \<Longrightarrow> pg_inv W s"
  by (simp add: pg_start_def pg_inv_def)

lemma run_keeps: "pg_run W b s t \<Longrightarrow> pg_inv W s \<Longrightarrow> pg_inv W t \<and> pg_keep b s t"
proof (induction rule: pg_run.induct)
  case (none s)
  then show ?case using pg_keep_refl by simp
next
  case (new_buffer s u c)
  then have u: "pg_inv W u" "pg_keep b s u" by simp_all
  then have "pg_inv W (u\<lparr>pg_buffers := pg_buffers u @ [c]\<rparr>)" using new_buffer(2) by (auto simp: pg_inv_def)
  moreover have "pg_keep b u (u\<lparr>pg_buffers := pg_buffers u @ [c]\<rparr>)"
    by (simp add: pg_keep_def same_file_def same_buffer_def nth_append)
  ultimately show ?case using u(2) by (blast intro: pg_keep_trans)
next
  case (free_buffer s u k c)
  then have u: "pg_inv W u" "pg_keep b s u" by simp_all
  have "\<forall>d \<in> set ((pg_buffers u)[k := c]). \<forall>j. cx_file d = Some j \<longrightarrow> j < length (pg_heap u)"
    using u(1) free_buffer(3) set_update_subset_insert [of "pg_buffers u" k c] unfolding pg_inv_def by fastforce
  then have "pg_inv W (u\<lparr>pg_buffers := (pg_buffers u)[k := c]\<rparr>)" using u(1) by (auto simp: pg_inv_def)
  moreover have "pg_keep b u (u\<lparr>pg_buffers := (pg_buffers u)[k := c]\<rparr>)"
    using free_buffer(2) by (simp add: pg_keep_def same_file_def same_buffer_def)
  ultimately show ?case using u(2) by (blast intro: pg_keep_trans)
next
  case (bind s u t n path offset x v)
  then show ?case using bind_returns [of W u t n path offset "fst x" "snd x" v b] by (auto intro: pg_keep_trans)
next
  case (use_begin s u order w ids held v)
  then show ?case using use_begin_keeps [of W u order w ids held v b] by (auto intro: pg_keep_trans)
next
  case (use_end s u held r v)
  then show ?case using use_end_keeps [of W u held r v b] by (auto intro: pg_keep_trans)
qed

section \<open>Every routed expert is in place\<close>

lemma routed_expert:
  assumes "0 < launch_grid n" "n = a * t" "n < 2 ^ 31" "0 \<le> c" "c < a" "0 \<le> r" "r < t"
    and ord: "set order = set (launch_threads n)"
    and ok: "gb_route_requests order ids a t experts (\<lambda>_. 0) experts = 0"
  shows "0 \<le> id_at ids r c \<and> id_at ids r c < experts \<and>
    gb_route_requests order ids a t experts (\<lambda>_. 0) (id_at ids r c) \<noteq> 0"
proof -
  let ?i = "c + r * a"
  have i: "0 \<le> ?i" "?i < n"
  proof -
    show "0 \<le> ?i" using assms by simp
    have "(r + 1) * a \<le> t * a" using assms by (intro mult_right_mono) simp_all
    then show "?i < n" using assms by (simp add: algebra_simps)
  qed
  have th: "?i \<in> set order" using launch_threads_cover [OF assms(1) i assms(3)] ord by simp
  have at: "?i sdiv a = r" "?i smod a = c" using smod_sdiv_pos [of c a r] assms by simp_all
  have "s32_wrap (a * t) = n" using s32_wrap_id [of n] i assms by simp
  then have f: "sets_flag ids a t experts ?i e \<longleftrightarrow> e = (if id_at ids r c < 0 \<or> experts \<le> id_at ids r c then experts else id_at ids r c)" for e
    using i by (simp add: sets_flag_def at)
  have "\<not> sets_flag ids a t experts ?i experts" using ok th by (auto simp: route_requests_at split: if_splits)
  then have valid: "0 \<le> id_at ids r c" "id_at ids r c < experts" by (simp_all add: f split: if_splits)
  then have "sets_flag ids a t experts ?i (id_at ids r c)" by (simp add: f)
  then show ?thesis using valid th by (auto simp: route_requests_at)
qed

lemma unat_of_nat_u64: "n < 2 ^ 64 \<Longrightarrow> unat (of_nat n :: u64) = n"
  by (simp add: unsigned_of_nat take_bit_nat_eq_self)

lemma expert_offset:
  fixes offset nb2 nbytes len :: u64
  assumes "offset < len" "nbytes \<le> len - offset" "n * unat nb2 \<le> unat nbytes" "e < n" "0 < unat nb2"
  shows "unat (offset + of_nat e * nb2) = unat offset + e * unat nb2"
proof -
  have "(e + 1) * unat nb2 \<le> n * unat nb2" using assms(4) by (intro mult_right_mono) simp_all
  then have "unat offset + e * unat nb2 < unat len"
    using assms by (simp add: word_less_nat_alt word_le_nat_alt unat_sub algebra_simps)
  then have small: "unat offset + e * unat nb2 < 2 ^ 64" using unat_u64_less [of len] by simp
  have "offset + of_nat e * nb2 = of_nat (unat offset + e * unat nb2)" by simp
  then show ?thesis using small by (simp only: unat_of_nat_u64)
qed

lemma bound_use:
  assumes inv: "pg_inv W s" and b: "pg_bound s w b key offset"
    and u: "expert_use_begin W order w ids s = (Inr held, s')"
    and ord: "set order = set (launch_threads (id_ne0 ids * id_ne1 ids))"
    and at: "0 \<le> c" "c < id_ne0 ids" "0 \<le> r" "r < id_ne1 ids" "id_ne0 ids * id_ne1 ids < 2 ^ 31"
    and bytes: "0 \<le> t_ne2 w" "nat (t_ne2 w) * unat (t_nb2 w) \<le> unat (t_nbytes w)" "k < unat (t_nb2 w)"
  shows "\<exists>i. held = Some i \<and> i < length (pg_heap s') \<and> pf_key (pg_heap s' ! i) = key \<and>
    0 \<le> id_at ids r c \<and> id_at ids r c < t_ne2 w \<and>
    device_load (pf_file (pg_heap s' ! i)) (t_data w + of_int (id_at ids r c) * t_nb2 w + of_nat k) =
      Some (file_byte (pw_ft W key) (unat offset + nat (id_at ids r c) * unat (t_nb2 w) + k), Read_only)"
proof -
  obtain i where i: "pg_buffer s w = Some (pg_buffers s ! b)" "cx_file (pg_buffers s ! b) = Some i" "i < length (pg_heap s)"
    and f: "pf_key (pg_heap s ! i) = key" "t_data w = ft_address (pf_file (pg_heap s ! i)) + offset"
      "offset < ft_length (pf_file (pg_heap s ! i))" "t_nbytes w \<le> ft_length (pf_file (pg_heap s ! i)) - offset"
    using b by (auto simp: pg_bound_def pg_buffer_def)
  have held: "held = Some i"
    using u i b by (auto simp: expert_use_begin_def returns Let_def pg_bound_def)
  let ?f = "pg_heap s ! i" and ?e = "id_at ids r c" and ?n = "id_ne0 ids * id_ne1 ids" and ?x = "s32_wrap (t_ne2 w)"
  from use_begin_returns [OF inv u [unfolded held]] obtain g where
    x: "1 \<le> ?x" and grid: "0 < launch_grid (s32_wrap ?n)"
    and ok: "gb_route_requests order ids (s32_wrap (id_ne0 ids)) (s32_wrap (id_ne1 ids)) ?x (\<lambda>_. 0) ?x = 0"
    and acq: "acquire_many (pw_ft W key) (use_spans order w ids (pf_file ?f)) (pf_file ?f) = (Inr (), g)"
    and s': "s' = set_file i (?f\<lparr>pf_file := g, pf_operations := pf_operations ?f + 1\<rparr>) s"
    using f(1) by blast
  have one: "1 \<le> id_ne0 ids" "1 \<le> id_ne1 ids" using at by simp_all
  then have le: "id_ne0 ids \<le> ?n" "id_ne1 ids \<le> ?n" by simp_all
  have wraps: "s32_wrap (id_ne0 ids) = id_ne0 ids" "s32_wrap (id_ne1 ids) = id_ne1 ids" "s32_wrap ?n = ?n"
    by (rule s32_wrap_id; use one le at(5) in linarith)+
  have e: "0 \<le> ?e" "?e < ?x" and req: "gb_route_requests order ids (id_ne0 ids) (id_ne1 ids) ?x (\<lambda>_. 0) ?e \<noteq> 0"
    using routed_expert [of ?n "id_ne0 ids" "id_ne1 ids" c r order ids ?x] grid ord ok at by (simp_all add: wraps)
  have "?x \<le> t_ne2 w"
  proof -
    have "?x = (t_ne2 w + 2 ^ 31) mod 2 ^ 32 - 2 ^ 31" by (simp add: s32_wrap_def)
    also have "\<dots> \<le> t_ne2 w" using zmod_le_nonneg_dividend [of "t_ne2 w + 2 ^ 31" "2 ^ 32"] bytes(1) by simp
    finally show ?thesis .
  qed
  then have en: "?e < t_ne2 w" using e by simp
  define off where "off = offset + of_nat (nat ?e) * t_nb2 w"
  let ?req = "filter (\<lambda>j. gb_route_requests order ids (id_ne0 ids) (id_ne1 ids) ?x (\<lambda>_. 0) (int j) \<noteq> 0) [0..<nat ?x]"
  have "nat ?e \<in> set ?req" using e req by simp
  moreover have "use_spans order w ids (pf_file ?f) = map (\<lambda>j. (offset + of_nat j * t_nb2 w, t_nb2 w)) ?req"
    by (simp add: use_spans_def expert_spans_def wraps f(2) Let_def)
  ultimately have span: "(off, t_nb2 w) \<in> set (use_spans order w ids (pf_file ?f))"
    unfolding off_def by (simp only: set_map) (rule rev_image_eqI, assumption, rule refl)
  have reach: "ft_reach (pw_ft W key) (pf_file ?f)" using inv i(3) f(1) by (auto simp: pg_inv_def)
  have "unat off = unat offset + nat ?e * unat (t_nb2 w)"
    unfolding off_def
  proof (rule expert_offset [OF f(3,4) bytes(2)])
    show "nat ?e < nat (t_ne2 w)" using en e by linarith
    show "0 < unat (t_nb2 w)" using bytes(3) by linarith
  qed
  with resident_load [OF reach acq span bytes(3)]
  have "device_load g (ft_address (pf_file ?f) + off + of_nat k) =
      Some (file_byte (pw_ft W key) (unat offset + nat ?e * unat (t_nb2 w) + k), Read_only)" by simp
  moreover have "t_data w + of_int ?e * t_nb2 w + of_nat k = ft_address (pf_file ?f) + off + of_nat k"
    using e by (simp add: off_def f(2))
  ultimately show ?thesis
    using held i(3) f(1) e en by (simp add: s' set_file_def)
qed

end
