(* ===== verification/Paged_Experts_Demo.thy ===== *)
theory Paged_Experts_Demo
  imports Paged_Experts_Props
begin

text \<open>
  The theorem about paged experts, and a process in which it applies: one buffer, a file of
  two experts of four bytes each, a router that chooses the second one.
\<close>

section \<open>A process\<close>

text \<open>One page of 2 MiB holds the file of eight bytes.\<close>

definition paged_ft :: ft where
  "paged_ft = \<lparr>ft_file = True, ft_context = 1, ft_owner = 7, ft_address = 4096,
    ft_queue = True, ft_consumer_done = True, ft_reserved = 2097152,
    ft_chunk = 2097152, ft_length = 8, ft_clock = 0, ft_poisoned = False,
    ft_counters = zero_stats\<lparr>st_resident_limit := 2097152, st_staging_bytes := 4194304, st_chunk_bytes := 2097152\<rparr>,
    ft_slots = [blank_slot\<lparr>sl_created := True\<rparr>],
    ft_lanes = [demo_lane, demo_lane], ft_cache = False, ft_tick = 18, ft_stream = [Mark 0, Mark 1],
    ft_vmap = Map.empty, ft_vram = \<lambda>_ _. 0, ft_hostmem = \<lambda>_ _. 0, ft_fault = False,
    ft_ledger = [Take R_file, Take R_address, Take R_stream, Take R_consumer,
       Take (R_chunk 0), Take (R_host 0), Take (R_done 0), Take (R_io 0),
       Take (R_host 1), Take (R_done 1), Take (R_io 1)]\<rparr>"

lemma paged_built: "ft_construct (calm_env 8) 7 2097152 2097152 False 0 = (Inr (), paged_ft)"
proof -
  have one: "[0..<1] = [0]" "[0..<Suc 0] = [0]" by simp_all
  have "ft_body (calm_env 8) 2097152 2097152 False 0 (blank_ft 7) = (Inr (), paged_ft)"
    by (simp add: ft_body_def open_file_def size_slots_def create_slot_def size_lanes_def create_lane_def Let_def
      set_slot_def set_lane_def enqueue_def count_stat_def noted_def blank_slot_def blank_lane_def zero_stats_def
      chk_steps calm_cu calm_win calm_fields two one blank_ft_def paged_ft_def demo_lane_def cong: chk_cong)
  then show ?thesis by (simp add: ft_construct_def chk_rethrow_def)
qed

definition paged_world :: pg_world where
  "paged_world = \<lparr>pw_ft = \<lambda>_. calm_env 8, pw_getenv = [''GREENBOOST_EXPERT_VRAM_MB'' \<mapsto> ''2''],
     pw_cuda_ok = \<lambda>_. True, pw_thread = 7, pw_row_padding = 512\<rparr>"

definition paged_start :: pg_state where
  "paged_start = \<lparr>pg_buffers = [\<lparr>bu_is_cuda = True, cx_paged = True, cx_device = 0, cx_file = None\<rparr>],
     pg_files = Map.empty, pg_heap = [], pg_types = Map.empty\<rparr>"

definition paged_file :: gb_paged_file where
  "paged_file = \<lparr>pf_file = paged_ft, pf_key = (0, ''m''), pf_operations = 0\<rparr>"

definition paged_bound :: pg_state where
  "paged_bound = paged_start\<lparr>pg_buffers := [\<lparr>bu_is_cuda = True, cx_paged = True, cx_device = 0, cx_file = Some 0\<rparr>],
     pg_files := [(0, ''m'') \<mapsto> 0], pg_heap := [paged_file]\<rparr>"

definition paged_tensor :: ggml_tensor where
  "paged_tensor = \<lparr>t_buffer = Some 0, t_data = 0, t_ne0 = 512, t_ne2 = 2, t_quantized = True, t_nbytes = 8, t_nb2 = 4\<rparr>"

definition paged_ids :: router_ids where
  "paged_ids = \<lparr>id_i32 = True, id_nb0 = 4, id_ne0 = 1, id_ne1 = 1, id_ne2 = 1, id_ne3 = 1, id_at = \<lambda>_ _. 1\<rparr>"

lemma paged_new_file: "gb_new_paged_file paged_world (0, ''m'') = Inr paged_file"
proof -
  have big: "\<not> drop_bit 20 (- 1 :: u64) < 2" by code_simp
  have "strtoui64 ''2'' = (2, [])" by (simp add: strtoui64_def is_space_def is_digit_def digit_val_def)
  then have "gb_env_mib (pw_getenv paged_world) ''GREENBOOST_EXPERT_VRAM_MB'' 0 = Inr 2097152"
    using big by (simp add: gb_env_mib_def paged_world_def)
  moreover have "gb_env_mib (pw_getenv paged_world) ''GREENBOOST_EXPERT_RAM_MB'' 0 = Inr 0"
    by (simp add: gb_env_mib_def paged_world_def)
  ultimately show ?thesis
    by (simp add: gb_new_paged_file_def) (simp add: paged_world_def paged_built paged_file_def)
qed

lemma paged_bind: "gb_bind_tensor paged_world paged_tensor 5 ''m'' 0 paged_start =
    (Inr (True, paged_tensor\<lparr>t_data := 4096\<rparr>), paged_bound)"
proof -
  have "pg_open paged_world 0 ''m'' paged_start =
      (Inr 0, paged_start\<lparr>pg_files := [(0, ''m'') \<mapsto> 0], pg_heap := [paged_file]\<rparr>)"
    by (simp add: pg_open_def pg_env_def paged_new_file chk_run) (simp add: paged_start_def pg_lock_def pg_env_def paged_new_file chk_run chk_ret_def)
  note o1 = chk_run_known [where m = "pg_open paged_world 0 ''m''" and s = paged_start, OF this]
  have ok: "chk_bind (pg_check True msg) k s = k () s" "chk_bind (cuda_check paged_world call) k s = k () s"
    for msg call s and k :: "unit \<Rightarrow> (bool \<times> ggml_tensor) pg_step"
    by (simp_all add: pg_check_def cuda_check_def paged_world_def chk_run)
  have buf: "pg_buffer paged_start paged_tensor = Some \<lparr>bu_is_cuda = True, cx_paged = True, cx_device = 0, cx_file = None\<rparr>"
    by (simp add: pg_buffer_def paged_start_def paged_tensor_def)
  have conds: "t_ne0 paged_tensor smod pw_row_padding paged_world = 0" "t_quantized paged_tensor" "2 \<le> t_ne2 paged_tensor"
    "0 < ft_length paged_ft" "t_nbytes paged_tensor \<le> ft_length paged_ft" "ft_address paged_ft = 4096" "the (t_buffer paged_tensor) = 0"
    by (simp_all add: paged_tensor_def paged_world_def paged_ft_def signed_modulo_int_def)
  show ?thesis
    by (simp add: gb_bind_tensor_def chk_run buf ok conds o1)
      (simp add: paged_start_def paged_file_def paged_bound_def chk_run ok conds chk_ret_def)
qed

lemma paged_reach: "ft_reach (calm_env 8) paged_ft"
  by (rule built [OF paged_built])

lemma paged_world_ok: "world_ok (calm_env 8) paged_ft"
proof -
  have "(8 :: u32) = ucast (wanted_of paged_ft p)" if "in_file paged_ft p" for p
  proof -
    have "unat p = unat (0 :: u64)" using that by (auto simp: in_file_def paged_ft_def)
    then have "p = 0" by (simp only: word_unat_eq_iff)
    then show ?thesis by (simp add: wanted_of_def paged_ft_def)
  qed
  then show ?thesis by (simp add: world_ok_def calm_env_def) (simp add: paged_ft_def)
qed

lemma paged_acquire: "\<exists>g. acquire_many (calm_env 8) [(4, 4)] paged_ft = (Inr (), g)"
proof -
  have "\<not> (8 :: u64) \<le> 4" by (simp add: word_le_nat_alt)
  then have "want_pages 8 2097152 (Suc 0) [(4, 4)] [] = Inr [0]"
    by (simp add: span_pages_def Let_def)
  then have "want_pages (ft_length paged_ft) (ft_chunk paged_ft) (length (ft_slots paged_ft)) [(4, 4)] [] = Inr [0]"
    by (simp add: paged_ft_def)
  from acquire_succeeds [OF paged_reach paged_world_ok this] show ?thesis by blast
qed

lemma paged_route:
  "gb_route_requests (launch_threads 1) paged_ids 1 1 2 (\<lambda>_. 0) = (\<lambda>e. if e = 1 then 1 else 0)"
proof
  fix e :: int
  have grid: "0 < launch_grid 1" "s32_wrap 1 = 1" by (simp_all add: launch_grid_def s32_wrap_id signed_divide_int_def)
  have "0 \<in> set (launch_threads 1)" using launch_threads_cover [OF grid(1), of 0] by simp
  moreover have "0 \<le> i" if "i \<in> set (launch_threads 1)" for i using that by (auto simp: launch_threads_def)
  ultimately show "gb_route_requests (launch_threads 1) paged_ids 1 1 2 (\<lambda>_. 0) e = (if e = 1 then 1 else 0)"
    by (force simp: route_requests_at sets_flag_def grid paged_ids_def)
qed

lemma paged_use: "\<exists>s. expert_use_begin paged_world (launch_threads 1) (paged_tensor\<lparr>t_data := 4096\<rparr>) paged_ids paged_bound
    = (Inr (Some 0), s)"
proof -
  obtain g where g: "acquire_many (calm_env 8) [(4, 4)] paged_ft = (Inr (), g)" using paged_acquire by blast
  have "[0..<2] = [0, 1]" by (simp add: upt_rec)
  then have spans: "expert_spans (\<lambda>e. if e = 1 then 1 else 0) 2 0 4 = [(4, 4)]" by (simp add: expert_spans_def)
  have ok: "chk_bind (pg_check True msg) k s = k () s" "chk_bind (cuda_check paged_world call) k s = k () s"
    for msg call s and k :: "unit \<Rightarrow> nat option pg_step"
    by (simp_all add: pg_check_def cuda_check_def paged_world_def chk_run)
  have call: "pg_call 0 (acquire_many (calm_env 8) [(4, 4)]) msg paged_bound = (Inr (), set_file 0 (paged_file\<lparr>pf_file := g\<rparr>) paged_bound)" for msg
    using g by (simp add: pg_call_def paged_bound_def paged_file_def)
  have run: "chk_bind (pg_call 0 (acquire_many (calm_env 8) [(4, 4)]) msg) k paged_bound =
      k () (set_file 0 (paged_file\<lparr>pf_file := g\<rparr>) paged_bound)" for msg and k :: "unit \<Rightarrow> nat option pg_step"
    by (simp add: chk_bind_def call)
  have small: "s32_wrap 1 = 1" "s32_wrap 2 = 2" "0 < launch_grid 1"
    by (simp_all add: s32_wrap_id launch_grid_def signed_divide_int_def)
  have buf: "pg_buffer paged_bound (paged_tensor\<lparr>t_data := 4096\<rparr>) = Some \<lparr>bu_is_cuda = True, cx_paged = True, cx_device = 0, cx_file = Some 0\<rparr>"
    by (simp add: pg_buffer_def paged_bound_def paged_tensor_def)
  have tensor: "t_ne2 paged_tensor = 2" "t_nb2 paged_tensor = 4" by (simp_all add: paged_tensor_def)
  have ids: "id_i32 paged_ids" "id_nb0 paged_ids = 4" "id_ne0 paged_ids = 1" "id_ne1 paged_ids = 1" "id_ne2 paged_ids = 1" "id_ne3 paged_ids = 1"
    by (simp_all add: paged_ids_def)
  have heap: "pg_heap paged_bound ! 0 = paged_file" "pf_file paged_file = paged_ft" "ft_address paged_ft = 4096"
    "pw_ft paged_world key = calm_env 8" "pw_cuda_ok paged_world c" for key c
    by (simp_all add: paged_bound_def paged_file_def paged_ft_def paged_world_def)
  show ?thesis
    by (simp add: expert_use_begin_def chk_run buf tensor ids small ok heap paged_route spans run chk_ret_def)
qed

text \<open>A blank hides the sign: a negative number of mebibytes is accepted modulo \<open>2 ^ 64\<close>.\<close>

lemma gb_env_mib_blank_minus:
  "gb_env_mib (\<lambda>_. Some ('' -'' @ decimal (2 ^ 64 - 5))) name fallback = Inr (push_bit 20 5)"
proof -
  obtain c cs where d: "decimal (2 ^ 64 - 5) = c # cs" using decimal_digits [of "2 ^ 64 - 5"] by (cases "decimal (2 ^ 64 - 5)") auto
  then have c: "is_digit c" using decimal_digits [of "2 ^ 64 - 5"] by simp
  have "scan_digits 0 (c # cs) = (2 ^ 64 - 5, [])" using scan_decimal [of "2 ^ 64 - 5"] d by simp
  then have "strtoui64 ('' -'' @ decimal (2 ^ 64 - 5)) = (5, [])"
    using c unfolding d by (simp add: strtoui64_def is_space_def)
  moreover have "\<not> drop_bit 20 (- 1 :: u64) < 5" by code_simp
  ultimately show ?thesis by (simp add: gb_env_mib_def)
qed

section \<open>The theorem\<close>

text \<open>
  C6: once a tensor of experts has been bound to an offset of a model file, then at any later
  use of it, whatever else the process has bound, used, made or freed, and in whatever order
  the threads of the routing kernel run: if the use begins, every expert that the router's
  table names is a valid one and each byte of its weights can be read at the tensor's
  address and is the byte of the file at the offset of the binding.
\<close>

theorem experts_in_place:
  assumes "pg_start s0" "pg_run W b s0 s1" "gb_bind_tensor W t n path offset s1 = (Inr (True, w), s2)"
    and "t_buffer t = Some b" "pg_run W b s2 s3" "expert_use_begin W order w ids s3 = (Inr held, s4)"
    and "set order = set (launch_threads (id_ne0 ids * id_ne1 ids))"
    and "0 \<le> c" "c < id_ne0 ids" "0 \<le> r" "r < id_ne1 ids" "id_ne0 ids * id_ne1 ids < 2 ^ 31"
    and "nat (t_ne2 t) * unat (t_nb2 t) \<le> unat (t_nbytes t)" "k < unat (t_nb2 t)"
  shows "\<exists>i key. held = Some i \<and> key = (cx_device (pg_buffers s1 ! b), path) \<and> pf_key (pg_heap s4 ! i) = key \<and>
    0 \<le> id_at ids r c \<and> id_at ids r c < t_ne2 t \<and>
    device_load (pf_file (pg_heap s4 ! i)) (t_data w + of_int (id_at ids r c) * t_nb2 t + of_nat k) =
      Some (file_byte (pw_ft W key) (unat offset + nat (id_at ids r c) * unat (t_nb2 t) + k), Read_only)"
proof -
  have i1: "pg_inv W s1" using run_keeps [OF assms(2) start_inv [OF assms(1)]] by simp
  from bind_returns [OF i1 assms(3), of b] assms(4) have i2: "pg_inv W s2"
    and b: "pg_bound s2 w b (cx_device (pg_buffers s1 ! b), path) offset"
    and w: "w = t\<lparr>t_data := t_data w\<rparr>" "2 \<le> t_ne2 t" by auto
  from w(1) have ws: "t_ne2 w = t_ne2 t" "t_nb2 w = t_nb2 t" "t_nbytes w = t_nbytes t"
    by (metis ggml_tensor.select_convs ggml_tensor.update_convs ggml_tensor.surjective)+
  have i3: "pg_inv W s3" "pg_keep b s2 s3" using run_keeps [OF assms(5) i2] by simp_all
  from bound_use [OF i3(1) bound_keep [OF b i3(2)] assms(6-12), of k] assms(13,14) w(2)
  show ?thesis by (auto simp: ws)
qed

lemma experts_in_place_witness:
  "\<exists>s. expert_use_begin paged_world (launch_threads 1) (paged_tensor\<lparr>t_data := 4096\<rparr>) paged_ids paged_bound = (Inr (Some 0), s) \<and>
     device_load (pf_file (pg_heap s ! 0)) (4096 + 1 * 4 + 3) = Some (7, Read_only)"
proof -
  obtain s where s: "expert_use_begin paged_world (launch_threads 1) (paged_tensor\<lparr>t_data := 4096\<rparr>) paged_ids paged_bound
    = (Inr (Some 0), s)" using paged_use by blast
  have start: "pg_start paged_start" by (simp add: pg_start_def paged_start_def)
  have buffer: "t_buffer paged_tensor = Some 0" by (simp add: paged_tensor_def)
  note app = experts_in_place [OF start pg_run.none paged_bind buffer pg_run.none s, of 0 0 3]
  have dims: "id_ne0 paged_ids = 1" "id_ne1 paged_ids = 1" "id_at paged_ids 0 0 = 1"
    "t_ne2 paged_tensor = 2" "t_nb2 paged_tensor = 4" "t_nbytes paged_tensor = 8" "file_byte (calm_env 8) = of_nat" "pw_ft paged_world key = calm_env 8" for key
    by (simp_all add: paged_ids_def paged_tensor_def calm_env_def paged_world_def)
  have "device_load (pf_file (pg_heap s ! 0)) (4096 + 1 * 4 + 3) = Some (7, Read_only)"
    using app by (simp add: dims)
  with s show ?thesis by blast
qed

end
