(* ===== verification/Launcher.thy ===== *)
theory Launcher
  imports GB_Prelude "HOL-Library.Char_ord"
begin

text \<open>
  The launcher \<^verbatim>\<open>windows-port/tools/launch.cpp\<close>: it quotes the arguments of an application
  into a command line, starts the application with the shim library that lies beside the
  launcher, and returns its exit code. The application takes the command line apart by the
  documented rules of the C runtime; both together give the arguments back.
\<close>

section \<open>Quoting\<close>

type_synonym wchar = "16 word"
type_synonym wtext = "wchar list"

definition wide :: "string \<Rightarrow> wtext" where
  "wide = map of_char"

definition BACKSLASH :: wchar where "BACKSLASH = 92"

definition QUOTE :: wchar where "QUOTE = 34"

definition SPACE :: wchar where "SPACE = 32"

text \<open>The loop of \<^verbatim>\<open>quote\<close>: \<open>slashes\<close> backslashes have been seen and not written yet.\<close>

primrec quote_loop :: "wtext \<Rightarrow> u32 \<Rightarrow> wtext \<Rightarrow> wtext" where
  "quote_loop [] slashes result = result @ replicate (unat (slashes * 2)) BACKSLASH"
| "quote_loop (p # ps) slashes result =
     (if p = BACKSLASH then quote_loop ps (slashes + 1) result
      else quote_loop ps 0
        (result @ replicate (unat (if p = QUOTE then slashes * 2 + 1 else slashes)) BACKSLASH @ [p]))"

definition quote :: "wtext \<Rightarrow> wtext" where
  "quote argument = quote_loop argument 0 [QUOTE] @ [QUOTE]"

definition command_line :: "wtext list \<Rightarrow> wtext" where
  "command_line args = foldl (\<lambda>command (i, a). (if 0 < i then command @ [SPACE] else command) @ quote a)
     [] (enumerate 0 args)"

section \<open>Starting the application\<close>

text \<open>
  What Windows answers: the path of the launcher (\<open>None\<close>: the query fails or does not fit),
  whether a file exists, whether the process is created, the wait, the exit code.
\<close>

record launch_env =
  le_module :: "string option"
  le_exists :: "string \<Rightarrow> bool"
  le_create :: "wtext \<Rightarrow> string \<Rightarrow> bool"
  le_waited :: bool
  le_code :: "u32 option"

datatype launch_call =
    Usage_text bool                   \<comment> \<open>to the error stream\<close>
  | Create_process wtext string
  | Close_thread
  | Wait_process
  | Close_process

definition MAX_PATH :: nat where "MAX_PATH = 260"

definition SHIM_NAME :: string where "SHIM_NAME = ''greenboost_cuda.dll''"

text \<open>\<^verbatim>\<open>strrchr(dll, '\\')\<close> as an index.\<close>

fun last_slash :: "string \<Rightarrow> nat \<Rightarrow> nat option \<Rightarrow> nat option" where
  "last_slash [] i found = found"
| "last_slash (c # cs) i found = last_slash cs (Suc i) (if c = CHR 92 then Some i else found)"

text \<open>
  The path of the shim. The text and its terminating zero have to fit into the buffer, which
  \<^verbatim>\<open>strcpy_s\<close> would insist on; \<open>None\<close> ends the launcher with 2.
\<close>

definition shim_path :: "string \<Rightarrow> string option" where
  "shim_path dll = (case last_slash dll 0 None of None \<Rightarrow> None
     | Some slash \<Rightarrow> if MAX_PATH < slash + (length SHIM_NAME + 2) then None
         else Some (take (slash + 1) dll @ SHIM_NAME))"

definition wmain :: "launch_env \<Rightarrow> wtext list \<Rightarrow> int \<times> launch_call list" where
  "wmain E argv =
     (if length argv < 2 then (2, [Usage_text True])
      else if argv ! 1 = wide ''--help'' then (0, [Usage_text False])
      else case le_module E of None \<Rightarrow> (2, []) | Some name \<Rightarrow>
      if name = [] \<or> MAX_PATH \<le> length name then (2, [])
      else case shim_path name of None \<Rightarrow> (2, []) | Some dll \<Rightarrow>
      if \<not> le_exists E dll then (2, [])
      else let command = command_line (tl argv); created = Create_process command dll in
      if \<not> le_create E command dll then (1, [created])
      else
        (if le_waited E then (case le_code E of Some code \<Rightarrow> sint code | None \<Rightarrow> 1) else 1,
         [created, Close_thread, Wait_process, Close_process]))"

section \<open>The arguments of the application\<close>

text \<open>
  How the C runtime of Windows reads a command line. Between quotes a blank is part of the
  argument; \<open>2 n\<close> backslashes before a quote are \<open>n\<close> backslashes, \<open>2 n + 1\<close> are \<open>n\<close> and a
  literal quote; other backslashes stand for themselves; two quotes inside quotes are one.
\<close>

definition is_blank :: "wchar \<Rightarrow> bool" where
  "is_blank c \<longleftrightarrow> c = SPACE \<or> c = 9"

fun scan_arg :: "bool \<Rightarrow> nat \<Rightarrow> wtext \<Rightarrow> wtext \<Rightarrow> wtext \<times> wtext" where
  "scan_arg inside n acc [] = (acc @ replicate n BACKSLASH, [])"
| "scan_arg inside n acc (c # cs) =
     (if c = BACKSLASH then scan_arg inside (Suc n) acc cs
      else if c = QUOTE then
        (if odd n then scan_arg inside 0 (acc @ replicate (n div 2) BACKSLASH @ [QUOTE]) cs
         else if inside \<and> cs \<noteq> [] \<and> hd cs = QUOTE
           then scan_arg inside 0 (acc @ replicate (n div 2) BACKSLASH @ [QUOTE]) (tl cs)
         else scan_arg (\<not> inside) 0 (acc @ replicate (n div 2) BACKSLASH) cs)
      else if \<not> inside \<and> is_blank c then (acc @ replicate n BACKSLASH, cs)
      else scan_arg inside 0 (acc @ replicate n BACKSLASH @ [c]) cs)"

text \<open>The first word, the program, knows quotes but no escapes.\<close>

fun scan_program :: "bool \<Rightarrow> wtext \<Rightarrow> wtext \<Rightarrow> wtext \<times> wtext" where
  "scan_program inside acc [] = (acc, [])"
| "scan_program inside acc (c # cs) =
     (if c = QUOTE then scan_program (\<not> inside) acc cs
      else if \<not> inside \<and> is_blank c then (acc, cs)
      else scan_program inside (acc @ [c]) cs)"

lemma scan_arg_rest: "length (snd (scan_arg inside n acc cs)) \<le> length cs"
proof (induction inside n acc cs rule: scan_arg.induct)
  case (2 inside n acc c cs)
  show ?case
    by (cases "c = BACKSLASH"; cases "c = QUOTE"; cases "odd n"; cases "inside \<and> cs \<noteq> [] \<and> hd cs = QUOTE"; cases "inside"; cases "is_blank c")
      (use 2 in \<open>auto simp: le_Suc_eq intro: le_trans [where j = "length cs - 1"]\<close>)
qed simp

function scan_args :: "wtext \<Rightarrow> wtext list" where
  "scan_args cs = (case dropWhile is_blank cs of [] \<Rightarrow> []
     | c # ds \<Rightarrow> (case scan_arg False 0 [] (c # ds) of (a, rest) \<Rightarrow> a # scan_args rest))"
  by auto

lemma scan_arg_shorter: "length (snd (scan_arg False 0 [] (c # cs))) \<le> length cs"
proof -
  have "length (snd (scan_arg i n acc (tl cs))) \<le> length cs" for i n acc
    by (rule le_trans [OF scan_arg_rest]) simp
  then show ?thesis by (simp add: scan_arg_rest)
qed

termination scan_args
proof (relation "measure length")
  fix cs c ds a rest
  assume d: "dropWhile is_blank cs = c # ds" and s: "(a, rest) = scan_arg False 0 [] (c # ds)"
  have "length (c # ds) \<le> length cs" unfolding d [symmetric] by (rule length_dropWhile_le)
  moreover have "length rest \<le> length ds" using scan_arg_shorter [of c ds] by (simp only: s [symmetric] snd_conv)
  ultimately show "(rest, cs) \<in> measure length" by simp
qed simp

declare scan_args.simps [simp del]

definition crt_args :: "wtext \<Rightarrow> wtext list" where
  "crt_args cs = (case scan_program False [] cs of (program, rest) \<Rightarrow> program # scan_args rest)"

section \<open>Round trip\<close>

text \<open>What \<^verbatim>\<open>quote\<close> writes after the opening quote, as a list of its own.\<close>

primrec quoted :: "wtext \<Rightarrow> nat \<Rightarrow> wtext" where
  "quoted [] n = replicate (2 * n) BACKSLASH"
| "quoted (p # ps) n = (if p = BACKSLASH then quoted ps (Suc n)
     else replicate (if p = QUOTE then 2 * n + 1 else n) BACKSLASH @ p # quoted ps 0)"

text \<open>The counter of the code does not wrap.\<close>

lemma quote_loop_quoted:
  "n + length ps < 2 ^ 30 \<Longrightarrow> quote_loop ps (of_nat n) result = result @ quoted ps n"
proof (induction ps arbitrary: n result)
  case Nil
  then show ?case by (simp add: unat_mult_lem [THEN iffD1] unsigned_of_nat take_bit_nat_eq_self unat_word_ariths)
next
  case (Cons p ps)
  have n: "unat (of_nat n * 2 + 1 :: u32) = 2 * n + 1" "unat (of_nat n :: u32) = n"
    using Cons.prems by (simp_all add: unat_word_ariths unsigned_of_nat take_bit_nat_eq_self)
  show ?case using Cons.IH [of "Suc n" result] Cons.IH [of 0] Cons.prems n by (simp add: add.commute)
qed

lemma quote_quoted: "length a < 2 ^ 30 \<Longrightarrow> quote a = QUOTE # quoted a 0 @ [QUOTE]"
  using quote_loop_quoted [of 0 a "[QUOTE]"] by (simp add: quote_def)

lemma scan_slashes: "scan_arg inside n acc (replicate m BACKSLASH @ cs) = scan_arg inside (n + m) acc cs"
  by (induction m arbitrary: n) simp_all

lemma odd_not_blank: "BACKSLASH \<noteq> QUOTE" "QUOTE \<noteq> BACKSLASH" "SPACE \<noteq> BACKSLASH" "SPACE \<noteq> QUOTE" "is_blank SPACE" "\<not> is_blank QUOTE"
  by (simp_all add: BACKSLASH_def QUOTE_def SPACE_def is_blank_def)

text \<open>What follows an argument: nothing, or a blank.\<close>

definition ends_arg :: "wtext \<Rightarrow> wtext \<Rightarrow> bool" where
  "ends_arg rest rest' \<longleftrightarrow> rest = [] \<and> rest' = [] \<or> rest = SPACE # rest'"

lemma scan_closed: "ends_arg rest rest' \<Longrightarrow> scan_arg False 0 acc rest = (acc, rest')"
  by (auto simp: ends_arg_def odd_not_blank)

lemma scan_quoted:
  "ends_arg rest rest' \<Longrightarrow> scan_arg True 0 acc (quoted ps n @ QUOTE # rest) = (acc @ replicate n BACKSLASH @ ps, rest')"
proof (induction ps arbitrary: n acc)
  case Nil
  have "\<not> (rest \<noteq> [] \<and> hd rest = QUOTE)" using Nil by (auto simp: ends_arg_def odd_not_blank)
  then show ?case using scan_closed [OF Nil] by (auto simp: scan_slashes odd_not_blank)
next
  case (Cons p ps)
  note IH = Cons.IH [OF Cons.prems]
  show ?case
  proof (cases "p = BACKSLASH")
    case True
    with IH [of acc "Suc n"] show ?thesis by (simp add: replicate_app_Cons_same)
  next
    case False
    then show ?thesis
      by (cases "p = QUOTE") (simp_all add: IH scan_slashes odd_not_blank)
  qed
qed

lemma scan_quote:
  assumes "length a < 2 ^ 30" "ends_arg rest rest'"
  shows "scan_arg False 0 [] (quote a @ rest) = (a, rest')"
  using scan_quoted [OF assms(2), of "[]" a 0] by (simp add: quote_quoted [OF assms(1)] odd_not_blank)

definition more_args :: "wtext list \<Rightarrow> wtext" where
  "more_args args = concat (map (\<lambda>b. SPACE # quote b) args)"

lemma command_line_Cons: "command_line (a # args) = quote a @ more_args args"
proof -
  have "foldl (\<lambda>command (i, a). (if 0 < i then command @ [SPACE] else command) @ quote a) c (enumerate (Suc n) xs)
      = c @ more_args xs" for c n xs
    by (induction xs arbitrary: c n) (simp_all add: more_args_def)
  then show ?thesis by (simp add: command_line_def)
qed

lemma ends_more_args: "ends_arg (more_args args) (case args of [] \<Rightarrow> [] | b # bs \<Rightarrow> quote b @ more_args bs)"
  by (simp add: ends_arg_def more_args_def split: list.split)

lemma scan_args_quotes:
  "\<forall>a \<in> set args. length a < 2 ^ 30 \<Longrightarrow>
    scan_args (case args of [] \<Rightarrow> [] | b # bs \<Rightarrow> quote b @ more_args bs) = args"
proof (induction args)
  case Nil
  show ?case by (simp add: scan_args.simps)
next
  case (Cons b bs)
  then have b: "length b < 2 ^ 30" by simp
  have "dropWhile is_blank (quote b @ more_args bs) = quote b @ more_args bs" "quote b @ more_args bs \<noteq> []"
    by (simp_all add: quote_quoted [OF b] odd_not_blank)
  then have "scan_args (quote b @ more_args bs) =
      (case scan_arg False 0 [] (quote b @ more_args bs) of (a, rest) \<Rightarrow> a # scan_args rest)"
    by (subst scan_args.simps) (simp split: list.split)
  then show ?case using Cons by (simp add: scan_quote [OF b ends_more_args])
qed

lemma quoted_plain:
  "ps \<noteq> [] \<Longrightarrow> last ps \<noteq> BACKSLASH \<Longrightarrow> QUOTE \<notin> set ps \<Longrightarrow> quoted ps n = replicate n BACKSLASH @ ps"
proof (induction ps arbitrary: n)
  case (Cons p ps)
  then show ?case by (cases "ps = []") (auto simp: replicate_app_Cons_same)
qed simp

lemma scan_program_plain:
  "QUOTE \<notin> set a \<Longrightarrow> scan_program True acc (a @ QUOTE # rest) = scan_program False (acc @ a) rest"
  by (induction a arbitrary: acc) auto

lemma scan_program_quote:
  assumes "length a < 2 ^ 30" "a \<noteq> []" "last a \<noteq> BACKSLASH" "QUOTE \<notin> set a" "ends_arg rest rest'"
  shows "scan_program False [] (quote a @ rest) = (a, rest')"
proof -
  have "quote a = QUOTE # a @ [QUOTE]" using assms(1-4) by (simp add: quote_quoted quoted_plain)
  then show ?thesis using assms(4,5) by (auto simp: scan_program_plain ends_arg_def odd_not_blank)
qed

lemma crt_args_command_line:
  assumes "\<forall>a \<in> set (p # args). length a < 2 ^ 30" "p \<noteq> []" "last p \<noteq> BACKSLASH" "QUOTE \<notin> set p"
  shows "crt_args (command_line (p # args)) = p # args"
  using assms scan_args_quotes [of args]
  by (simp add: crt_args_def command_line_Cons scan_program_quote [OF _ _ _ _ ends_more_args])

lemma last_slash_split:
  "last_slash cs i found = Some j \<Longrightarrow>
    (\<exists>dir base. cs = dir @ CHR 92 # base \<and> CHR 92 \<notin> set base \<and> j = i + length dir) \<or>
    found = Some j \<and> CHR 92 \<notin> set cs"
proof (induction cs arbitrary: i found)
  case (Cons c cs)
  have "last_slash cs (Suc i) (if c = CHR 92 then Some i else found) = Some j" using Cons.prems by simp
  from Cons.IH [OF this] consider
      dir base where "cs = dir @ CHR 92 # base" "CHR 92 \<notin> set base" "j = Suc i + length dir"
    | "(if c = CHR 92 then Some i else found) = Some j" "CHR 92 \<notin> set cs" by blast
  then show ?case
  proof cases
    case 1
    then show ?thesis by (intro disjI1 exI [of _ "c # dir"] exI [of _ base]) simp
  next
    case 2
    then show ?thesis by (cases "c = CHR 92") auto
  qed
qed simp

lemma shim_path_beside:
  assumes "shim_path name = Some dll"
  shows "\<exists>dir base. name = dir @ CHR 92 # base \<and> CHR 92 \<notin> set base \<and> dll = dir @ CHR 92 # SHIM_NAME \<and>
    length dll < MAX_PATH"
proof -
  obtain j where j: "last_slash name 0 None = Some j" "\<not> MAX_PATH < j + (length SHIM_NAME + 2)"
    "dll = take (j + 1) name @ SHIM_NAME"
    using assms by (auto simp: shim_path_def split: option.splits if_splits)
  with last_slash_split [OF j(1)] show ?thesis by auto
qed

text \<open>
  C23: when the launcher starts an application, the application sees exactly the arguments the
  launcher was given, whatever quotes, blanks and backslashes they have, the shim is the one
  in the launcher's own directory and its path fits the buffer; the exit code is that of the
  application.
\<close>

theorem launcher_arguments:
  assumes "wmain E argv = (code, calls)" "Create_process command dll \<in> set calls"
    and "\<forall>a \<in> set argv. length a < 2 ^ 30"
    and "argv ! 1 \<noteq> []" "last (argv ! 1) \<noteq> BACKSLASH" "QUOTE \<notin> set (argv ! 1)"
  shows "crt_args command = tl argv \<and>
    (\<exists>dir base. le_module E = Some (dir @ CHR 92 # base) \<and> CHR 92 \<notin> set base \<and> dll = dir @ CHR 92 # SHIM_NAME) \<and>
    length dll < MAX_PATH \<and>
    (le_create E command dll \<and> le_waited E \<and> le_code E = Some c \<longrightarrow> code = sint c)"
proof -
  obtain name where n: "length argv \<ge> 2" "le_module E = Some name" "shim_path name = Some dll"
    "command = command_line (tl argv)" "le_create E command dll \<and> le_waited E \<and> le_code E = Some c \<longrightarrow> code = sint c"
    using assms(1,2) by (auto simp: wmain_def Let_def split: if_splits option.splits)
  obtain x p args where argv: "argv = x # p # args" using n(1) by (cases argv rule: list.exhaust; cases "tl argv") auto
  have "crt_args command = tl argv"
    using crt_args_command_line [of p args] assms(3-6) by (simp add: n(4) argv)
  with n shim_path_beside [OF n(3)] show ?thesis by auto
qed

definition demo_argv :: "wtext list" where
  "demo_argv = map wide [''greenboost'', ''C:'' @ [CHR 92] @ ''my app.exe'',
     ''say '' @ [CHR 34] @ ''hi'' @ [CHR 34] @ [CHR 92], []]"

definition demo_launch :: launch_env where
  "demo_launch = \<lparr>le_module = Some (''C:'' @ [CHR 92] @ ''greenboost.exe''), le_exists = \<lambda>_. True,
     le_create = \<lambda>_ _. True, le_waited = True, le_code = Some 7\<rparr>"

lemma launcher_arguments_witness:
  "\<exists>command dll. Create_process command dll \<in> set (snd (wmain demo_launch demo_argv)) \<and>
     crt_args command = tl demo_argv \<and> fst (wmain demo_launch demo_argv) = 7"
proof -
  let ?c = "command_line (tl demo_argv)" and ?d = "''C:'' @ [CHR 92] @ SHIM_NAME"
  have w: "wmain demo_launch demo_argv = (7, [Create_process ?c ?d, Close_thread, Wait_process, Close_process])"
    by (simp add: wmain_def demo_launch_def demo_argv_def wide_def shim_path_def MAX_PATH_def SHIM_NAME_def Let_def)
  have small: "\<forall>a \<in> set demo_argv. length a < 2 ^ 30" by (simp add: demo_argv_def wide_def)
  have program: "demo_argv ! 1 \<noteq> []" "last (demo_argv ! 1) \<noteq> BACKSLASH" "QUOTE \<notin> set (demo_argv ! 1)"
    by (simp_all add: demo_argv_def wide_def BACKSLASH_def QUOTE_def)
  have "Create_process ?c ?d \<in> set [Create_process ?c ?d, Close_thread, Wait_process, Close_process]" by simp
  from launcher_arguments [OF w this small program] w show ?thesis by (intro exI [of _ ?c] exI [of _ ?d]) simp
qed

end
