(* ===== verification/Linux_Shim_World.thy ===== *)
theory Linux_Shim_World
  imports Linux_Shim_Props
begin

text \<open>
  The contract between the Linux shim and the system below it: what the outer calls may do to
  an invariant of the system and of the trace of resources. Every run of the hooks then keeps
  it. The shim closes only descriptors that it has not given back.
\<close>

section \<open>Calls that do not concern the system\<close>

definition lib_quiet :: "'c lx_api \<Rightarrow> ('c \<Rightarrow> 'c \<Rightarrow> bool) \<Rightarrow> bool" where
  "lib_quiet api same \<longleftrightarrow>
     (\<forall>f c n. lib_cuMemAlloc_v2 api = Some f \<longrightarrow> same c (snd (snd (f c n)))) \<and>
     (\<forall>f c p. lib_cuMemFree_v2 api = Some f \<longrightarrow> same c (snd (f c p))) \<and>
     (\<forall>f c n. lib_cuMemAllocManaged api = Some f \<longrightarrow> same c (snd (snd (f c n)))) \<and>
     (\<forall>f c n st. lib_cuMemAllocAsync api = Some f \<longrightarrow> same c (snd (snd (f c n st)))) \<and>
     (\<forall>f c n. lib_cudaMalloc api = Some f \<longrightarrow> same c (snd (snd (f c n)))) \<and>
     (\<forall>f c n st. lib_cudaMallocAsync api = Some f \<longrightarrow> same c (snd (snd (f c n st)))) \<and>
     (\<forall>f c p. lib_cudaFree api = Some f \<longrightarrow> same c (snd (f c p))) \<and>
     (\<forall>f c m n. lib_cuMemHostRegister api = Some f \<longrightarrow> same c (snd (f c m n))) \<and>
     (\<forall>f c m. lib_cuMemHostGetDevicePointer api = Some f \<longrightarrow> same c (snd (snd (f c m)))) \<and>
     (\<forall>f c m. lib_cuMemHostUnregister api = Some f \<longrightarrow> same c (f c m)) \<and>
     (\<forall>f c p n d st. lib_cuMemPrefetchAsync api = Some f \<longrightarrow> same c (snd (f c p n d st))) \<and>
     (\<forall>f c p n d st. lib_cudaMemPrefetchAsync api = Some f \<longrightarrow> same c (snd (f c p n d st))) \<and>
     (\<forall>c n. same c (snd (sys_mmap_anon api c n))) \<and>
     (\<forall>c m n. same c (sys_munmap api c m n)) \<and>
     (\<forall>c. same c (snd (sys_open api c)))"

text \<open>The library pair that both ways to system memory call without testing is there.\<close>

definition can_register :: "'c lx_api \<Rightarrow> bool" where
  "can_register api \<longleftrightarrow> (lib_cuMemHostRegister api \<noteq> None \<longrightarrow> lib_cuMemHostGetDevicePointer api \<noteq> None)"

locale shim_world =
  fixes api :: "'c lx_api"
    and same :: "'c \<Rightarrow> 'c \<Rightarrow> bool"
    and inv :: "'c \<Rightarrow> lx_sys list \<Rightarrow> bool"
  assumes quiet: "lib_quiet api same"
    and same_inv: "inv c tr \<Longrightarrow> same c c' \<Longrightarrow> inv c' tr"
    and map_inv: "inv c tr \<Longrightarrow> inv c (tr @ [Mapped m n])"
    and unmap_inv: "inv c tr \<Longrightarrow> inv c (tr @ [Unmapped m n])"
    and balanced: "inv c tr \<Longrightarrow> gave (Fd_res fd) tr \<le> got (Fd_res fd) tr"
    and pin_inv: "inv c tr \<Longrightarrow> sys_ioctl_pin api c m n = (r, c') \<Longrightarrow>
      inv c' (case r of None \<Rightarrow> tr | Some fd \<Rightarrow> tr @ [Fd_got fd])"
    and close_inv: "inv c tr \<Longrightarrow> gave (Fd_res fd) tr < got (Fd_res fd) tr \<Longrightarrow>
      inv (sys_close api c fd) (tr @ [Fd_closed fd])"
begin

definition ok :: "'c lx_shim \<Rightarrow> bool" where
  "ok s \<longleftrightarrow> inv (world s) (trace s)"

lemma ok_same: "ok s \<Longrightarrow> same (world s) c \<Longrightarrow> ok (s\<lparr>world := c\<rparr>)"
  by (simp add: ok_def same_inv)

lemma ok_frame [simp]:
  "ok (s\<lparr>table := t\<rparr>) = ok s" "ok (s\<lparr>queue := q\<rparr>) = ok s" "ok (s\<lparr>gb_dev_fd := fd\<rparr>) = ok s"
  "ok (record_alloc p n k m fd s) = ok s"
  by (simp_all add: ok_def record_alloc_def)

lemma same_calls:
  "lib_cuMemAlloc_v2 api = Some f1 \<Longrightarrow> f1 c n = (r, p, c') \<Longrightarrow> same c c'"
  "lib_cuMemFree_v2 api = Some f2 \<Longrightarrow> f2 c p = (r, c') \<Longrightarrow> same c c'"
  "lib_cuMemAllocManaged api = Some f1 \<Longrightarrow> f1 c n = (r, p, c') \<Longrightarrow> same c c'"
  "lib_cuMemAllocAsync api = Some f3 \<Longrightarrow> f3 c n st = (r, p, c') \<Longrightarrow> same c c'"
  "lib_cudaMalloc api = Some f1 \<Longrightarrow> f1 c n = (r, p, c') \<Longrightarrow> same c c'"
  "lib_cudaMallocAsync api = Some f3 \<Longrightarrow> f3 c n st = (r, p, c') \<Longrightarrow> same c c'"
  "lib_cudaFree api = Some f2 \<Longrightarrow> f2 c p = (r, c') \<Longrightarrow> same c c'"
  "lib_cuMemHostRegister api = Some f4 \<Longrightarrow> f4 c p n = (r, c') \<Longrightarrow> same c c'"
  "lib_cuMemHostGetDevicePointer api = Some f1 \<Longrightarrow> f1 c n = (r, p, c') \<Longrightarrow> same c c'"
  "lib_cuMemHostUnregister api = Some f5 \<Longrightarrow> same c (f5 c p)"
  "lib_cuMemPrefetchAsync api = Some f6 \<Longrightarrow> f6 c p n d st = (r, c') \<Longrightarrow> same c c'"
  "lib_cudaMemPrefetchAsync api = Some f6 \<Longrightarrow> f6 c p n d st = (r, c') \<Longrightarrow> same c c'"
  "sys_mmap_anon api c n = (mo, c') \<Longrightarrow> same c c'"
  "same c (sys_munmap api c p n)"
  "sys_open api c = (fd, c') \<Longrightarrow> same c c'"
  using quiet unfolding lib_quiet_def by (metis snd_conv)+

lemma ok_munmap: "ok s \<Longrightarrow> ok (do_munmap api m n s)"
  by (simp add: do_munmap_def ok_def unmap_inv same_inv [OF _ same_calls(14)])

lemma ok_close: "ok s \<Longrightarrow> gave (Fd_res fd) (trace s) < got (Fd_res fd) (trace s) \<Longrightarrow> ok (do_close api fd s)"
  by (simp add: do_close_def ok_def close_inv)

lemma ok_unregister: "ok s \<Longrightarrow> ok (do_unregister api m s)"
  by (auto simp: do_unregister_def intro: ok_same same_calls split: option.splits)

lemma ok_open: "ok s \<Longrightarrow> ok (lx_open_device api s)"
  by (auto simp: lx_open_device_def ok_def intro: same_inv same_calls split: prod.splits)

lemma fd_trace:
  "got (Fd_res fd) (trace (do_munmap api m n s)) = got (Fd_res fd) (trace s)"
  "gave (Fd_res fd) (trace (do_munmap api m n s)) = gave (Fd_res fd) (trace s)"
  "trace (do_unregister api m s) = trace s"
  by (simp_all add: do_munmap_def do_unregister_def split: option.splits)

lemma ok_undo:
  "ok s \<Longrightarrow> gave (Fd_res fd) (trace s) < got (Fd_res fd) (trace s) \<Longrightarrow> ok (do_close api fd (do_munmap api m n s))"
  by (intro ok_close ok_munmap) (simp_all add: fd_trace)

lemma ok_register:
  assumes s: "ok s" "gave (Fd_res fd) (trace s) < got (Fd_res fd) (trace s)" and lib: "lib_cuMemHostRegister api \<noteq> None" "can_register api"
  shows "ok (snd (snd (register_mapping api s m n fd)))"
proof -
  obtain f h where f: "lib_cuMemHostRegister api = Some f" "lib_cuMemHostGetDevicePointer api = Some h"
    using lib by (auto simp: can_register_def)
  obtain ret c where c: "f (world s) m n = (ret, c)" by force
  obtain ret2 p c2 where c2: "h c m = (ret2, p, c2)" by (cases "h c m") auto
  have s1: "ok (s\<lparr>world := c\<rparr>)" by (rule ok_same [OF s(1) same_calls(8) [OF f(1) c]])
  have s2: "ok (s\<lparr>world := c2\<rparr>)"
    using ok_same [OF s1, of c2] same_calls(9) [OF f(2) c2] by simp
  show ?thesis
    using s(2) s1 s2 by (auto simp: register_mapping_def f c c2 Let_def fd_trace intro!: ok_undo ok_unregister)
qed

lemma ok_uvm: "ok s \<Longrightarrow> ok (snd (snd (uvm_alloc api s n)))"
  by (auto simp: uvm_alloc_def intro: ok_same same_calls split: option.splits prod.splits)

lemma ok_device:
  "ok s \<Longrightarrow> (\<And>c r p c'. f c n = (r, p, c') \<Longrightarrow> same c c') \<Longrightarrow> ok (snd (snd (device_alloc f s n)))"
  by (auto simp: device_alloc_def intro: ok_same split: prod.splits)

lemma ok_overflow:
  assumes "ok s" "can_register api"
  shows "ok (snd (snd (gb_overflow_alloc api s n)))"
proof (cases "gb_use_dmabuf s \<and> lib_cuMemHostRegister api \<noteq> None")
  case False
  then show ?thesis using assms ok_uvm by (auto simp: gb_overflow_alloc_def)
next
  case True
  obtain mo c where mm: "sys_mmap_anon api (world s) n = (mo, c)" by force
  have sc: "ok (s\<lparr>world := c\<rparr>)" by (rule ok_same [OF assms(1) same_calls(13) [OF mm]])
  show ?thesis
  proof (cases mo)
    case None
    with sc mm True show ?thesis by (auto simp: gb_overflow_alloc_def)
  next
    case (Some m)
    define s1 where "s1 = lx_open_device api (s\<lparr>world := c, trace := trace s @ [Mapped m n]\<rparr>)"
    have s1: "ok s1" unfolding s1_def by (rule ok_open) (use sc map_inv in \<open>simp add: ok_def\<close>)
    obtain fo c2 where pin: "sys_ioctl_pin api (world s1) m n = (fo, c2)" by force
    have p: "inv c2 (case fo of None \<Rightarrow> trace s1 | Some fd \<Rightarrow> trace s1 @ [Fd_got fd])"
      by (rule pin_inv [OF _ pin]) (use s1 in \<open>simp add: ok_def\<close>)
    have undo: "ok (snd (snd (uvm_alloc api (do_munmap api m n (s1\<lparr>world := c2\<rparr>)) n)))" if "fo = None"
      using p that by (intro ok_uvm ok_munmap) (simp add: ok_def)
    have reg: "ok (snd (snd (register_mapping api (s1\<lparr>world := c2, trace := trace s1 @ [Fd_got fd]\<rparr>) m n fd)))"
      if "fo = Some fd" for fd
      using p that balanced [of "world s1" "trace s1" fd] s1 True assms(2)
      by (intro ok_register) (simp_all add: ok_def)
    show ?thesis
    proof (cases fo)
      case None
      with undo ok_uvm [OF s1, of n] True mm Some pin show ?thesis
        by (auto simp: gb_overflow_alloc_def Let_def s1_def [symmetric])
    next
      case F: (Some fd)
      obtain r po s2 where r: "register_mapping api (s1\<lparr>world := c2, trace := trace s1 @ [Fd_got fd]\<rparr>) m n fd = (r, po, s2)"
        by (cases "register_mapping api (s1\<lparr>world := c2, trace := trace s1 @ [Fd_got fd]\<rparr>) m n fd") auto
      with reg [OF F] ok_uvm [OF s1, of n] True mm Some pin F show ?thesis
        by (cases po) (auto simp: gb_overflow_alloc_def Let_def s1_def [symmetric])
    qed
  qed
qed

lemma ok_alloc_or_overflow:
  assumes "ok s" "can_register api" "\<And>c r p c'. f c n = (r, p, c') \<Longrightarrow> same c c'"
  shows "ok (snd (snd (alloc_or_overflow api f s n)))"
proof -
  obtain r po s1 where r: "gb_overflow_alloc api s n = (r, po, s1)" by (cases "gb_overflow_alloc api s n") auto
  with ok_overflow [OF assms(1,2), of n] have "ok s1" by simp
  with r ok_device [OF _ assms(3)] assms(1) show ?thesis
    by (cases po) (auto simp: alloc_or_overflow_def)
qed

lemma ok_alloc_hooks:
  assumes "ok s" "can_register api"
  shows "ok (snd (snd (cuMemAlloc_v2 api s n)))" "ok (snd (snd (cudaMalloc api s n)))"
    "ok (snd (snd (cuMemAllocAsync api s n st)))" "ok (snd (snd (cudaMallocAsync api s n st)))"
proof -
  note alloc = ok_alloc_or_overflow [OF assms]
  show 1: "ok (snd (snd (cuMemAlloc_v2 api s n)))"
    using assms(1) by (auto simp: cuMemAlloc_v2_def intro!: alloc intro: same_calls split: option.splits)
  show 2: "ok (snd (snd (cudaMalloc api s n)))"
    using assms(1) by (auto simp: cudaMalloc_def intro!: alloc intro: same_calls split: option.splits)
  show "ok (snd (snd (cuMemAllocAsync api s n st)))"
    using assms(1) 1 by (auto simp: cuMemAllocAsync_def intro!: alloc intro: same_calls split: option.splits)
  show "ok (snd (snd (cudaMallocAsync api s n st)))"
    using assms(1) 2 by (auto simp: cudaMallocAsync_def intro!: alloc intro: same_calls split: option.splits)
qed

text \<open>A free closes only what the table holds, which has not been given back.\<close>

lemma ok_forget:
  assumes s: "ok s" and t: "\<And>r. real_res r \<Longrightarrow> shim_ok r s" and p: "p \<noteq> 0"
  shows "ok (forget_buffer api s p)"
proof (cases "lx_ht_remove (table s) p")
  case (Pair eo t')
  show ?thesis
  proof (cases eo)
    case None
    with Pair s show ?thesis by (simp add: forget_buffer_def)
  next
    case (Some e)
    with Pair have rm: "lx_ht_remove (table s) p = (Some e, t')" by simp
    have "gave (Fd_res (l_fd e)) (trace s) < got (Fd_res (l_fd e)) (trace s)" if "0 \<le> l_fd e"
    proof -
      have k: "shim_ok (Fd_res (l_fd e)) s" using that by (intro t) (simp add: real_res_def)
      then have "lx_distinct (table s)" by (simp add: shim_ok_def)
      from lxr.total_remove [OF this p rm, of "owns (Fd_res (l_fd e))"] k show ?thesis
        by (simp add: shim_ok_def holds_def owns_def)
    qed
    then show ?thesis
      using s by (auto simp: forget_buffer_def rm Let_def fd_trace intro!: ok_undo ok_close ok_munmap ok_unregister)
  qed
qed

lemma ok_free:
  assumes "ok s" "\<And>r. real_res r \<Longrightarrow> shim_ok r s" "p \<noteq> 0"
    "\<And>f c r c'. fo = Some f \<Longrightarrow> f c p = (r, c') \<Longrightarrow> same c c'"
  shows "ok (snd (free_with api fo s p))"
  using assms(1) ok_forget [OF assms(1-3)] assms(4)
  by (auto simp: free_with_def Let_def intro: ok_same split: option.splits prod.splits)

lemma ok_peek: "ok s \<Longrightarrow> peek_prefetch s p n = Some s' \<Longrightarrow> ok s'"
  by (auto simp: peek_prefetch_def ok_def split: prod.splits option.splits)

lemma ok_prefetch:
  assumes "ok s"
  shows "ok (snd (cuMemPrefetchAsync api s p n d st))" "ok (snd (cudaMemPrefetchAsync api s p n d st))"
  using assms ok_peek [OF assms]
  by (auto simp: cuMemPrefetchAsync_def cudaMemPrefetchAsync_def intro: ok_same same_calls split: option.splits prod.splits)

lemma ok_step:
  assumes "ok s" "\<And>r. real_res r \<Longrightarrow> shim_ok r s" "can_register api" "shim_step api s s'"
  shows "ok s'"
  using assms(4)
proof cases
  case (hook c dp)
  have alloc: "ok s'" if "snd h = (dp, s')" "ok (snd (snd (h :: int \<times> u64 option \<times> 'c lx_shim)))" for h
    using that by simp
  have frees: "ok (snd (free_with api (lib_cuMemFree_v2 api) s p))" "ok (snd (free_with api (lib_cudaFree api) s p))" if "p \<noteq> 0" for p
    using that same_calls(2,7) by (auto intro!: ok_free [OF assms(1,2)])
  note rules = ok_alloc_hooks [OF assms(1,3)] ok_prefetch [OF assms(1)]
  show ?thesis
    using hook frees by (cases c)
      (auto intro: alloc [OF _ rules(1)] alloc [OF _ rules(2)] alloc [OF _ rules(3)] alloc [OF _ rules(4)]
        simp: rules(5,6) cuMemFree_v2_def cudaFree_def)
qed

end

end
