(* ===== verification/Linux_System.thy ===== *)
theory Linux_System
  imports Linux_Shim_World Linux_Driver_Props
begin

text \<open>
  The Linux shim and the Linux driver together: the system calls of the hooks are served by
  the driver's requests. The descriptor table of the process, which the kernel keeps, links
  the two: a descriptor stands for one DMA-BUF and thereby for one buffer of the driver.
\<close>

section \<open>The system below the shim\<close>

record 'g lx_system =
  sy_driver :: lx_device
  sy_fds :: "int \<Rightarrow> nat option"    \<comment> \<open>open DMA-BUF descriptors and their buffers\<close>
  sy_gpu :: 'g                       \<comment> \<open>everything else: CUDA and the memory of the process\<close>

text \<open>
  \<^verbatim>\<open>ioctl(GB_IOCTL_PIN_USER_PTR)\<close> with the flags of the shim; \<open>K\<close> gives the answers of the
  kernel to the driver. The descriptor refers to the new buffer.
\<close>

definition system_pin :: "lx_params \<Rightarrow> ('g lx_system \<Rightarrow> lx_env) \<Rightarrow> 'g lx_system \<Rightarrow> u64 \<Rightarrow> u64 \<Rightarrow> int option \<times> 'g lx_system" where
  "system_pin P K w m n = (case gb_ioctl P (K w) (sy_driver w) (IOCTL_PIN_USER_PTR m n 1) of
     (Ret_fd fd, d) \<Rightarrow> (Some fd, w\<lparr>sy_driver := d, sy_fds := (sy_fds w)(fd \<mapsto> lx_next (sy_driver w))\<rparr>)
   | (_, d) \<Rightarrow> (None, w\<lparr>sy_driver := d\<rparr>))"

definition system_alloc :: "lx_params \<Rightarrow> ('g lx_system \<Rightarrow> lx_env) \<Rightarrow> 'g lx_system \<Rightarrow> u64 \<Rightarrow> int option \<times> 'g lx_system" where
  "system_alloc P K w n = (case gb_ioctl P (K w) (sy_driver w) (IOCTL_ALLOC n 1) of
     (Ret_fd fd, d) \<Rightarrow> (Some fd, w\<lparr>sy_driver := d, sy_fds := (sy_fds w)(fd \<mapsto> lx_next (sy_driver w))\<rparr>)
   | (_, d) \<Rightarrow> (None, w\<lparr>sy_driver := d\<rparr>))"

text \<open>Closing the descriptor drops the last reference to the DMA-BUF.\<close>

definition system_close :: "'g lx_system \<Rightarrow> int \<Rightarrow> 'g lx_system" where
  "system_close w fd = (case sy_fds w fd of None \<Rightarrow> w
     | Some p \<Rightarrow> w\<lparr>sy_driver := gb_release (sy_driver w) p, sy_fds := (sy_fds w)(fd := None)\<rparr>)"

text \<open>A call of CUDA or of the memory management works on its own part.\<close>

definition lift_state :: "('g \<Rightarrow> 'g) \<Rightarrow> 'g lx_system \<Rightarrow> 'g lx_system" where
  "lift_state f w = w\<lparr>sy_gpu := f (sy_gpu w)\<rparr>"

definition lift1 :: "('g \<Rightarrow> 'r \<times> 'g) \<Rightarrow> 'g lx_system \<Rightarrow> 'r \<times> 'g lx_system" where
  "lift1 f w = (case f (sy_gpu w) of (r, c) \<Rightarrow> (r, w\<lparr>sy_gpu := c\<rparr>))"

definition lift2 :: "('g \<Rightarrow> 'r \<times> 'p \<times> 'g) \<Rightarrow> 'g lx_system \<Rightarrow> 'r \<times> 'p \<times> 'g lx_system" where
  "lift2 f w = (case f (sy_gpu w) of (r, p, c) \<Rightarrow> (r, p, w\<lparr>sy_gpu := c\<rparr>))"

definition system_api :: "lx_params \<Rightarrow> ('g lx_system \<Rightarrow> lx_env) \<Rightarrow> 'g lx_api \<Rightarrow> 'g lx_system lx_api" where
  "system_api P K g = \<lparr>
     lib_cuMemAlloc_v2 = map_option (\<lambda>f w n. lift2 (\<lambda>c. f c n) w) (lib_cuMemAlloc_v2 g),
     lib_cuMemFree_v2 = map_option (\<lambda>f w p. lift1 (\<lambda>c. f c p) w) (lib_cuMemFree_v2 g),
     lib_cuMemAllocManaged = map_option (\<lambda>f w n. lift2 (\<lambda>c. f c n) w) (lib_cuMemAllocManaged g),
     lib_cuMemAllocAsync = map_option (\<lambda>f w n st. lift2 (\<lambda>c. f c n st) w) (lib_cuMemAllocAsync g),
     lib_cudaMalloc = map_option (\<lambda>f w n. lift2 (\<lambda>c. f c n) w) (lib_cudaMalloc g),
     lib_cudaMallocAsync = map_option (\<lambda>f w n st. lift2 (\<lambda>c. f c n st) w) (lib_cudaMallocAsync g),
     lib_cudaFree = map_option (\<lambda>f w p. lift1 (\<lambda>c. f c p) w) (lib_cudaFree g),
     lib_cuMemGetInfo = map_option (\<lambda>f w. f (sy_gpu w)) (lib_cuMemGetInfo g),
     lib_cuDeviceTotalMem_v2 = map_option (\<lambda>f w. f (sy_gpu w)) (lib_cuDeviceTotalMem_v2 g),
     lib_nvmlDeviceGetMemoryInfo = map_option (\<lambda>f w. f (sy_gpu w)) (lib_nvmlDeviceGetMemoryInfo g),
     lib_nvmlDeviceGetMemoryInfo_v2 = map_option (\<lambda>f w. f (sy_gpu w)) (lib_nvmlDeviceGetMemoryInfo_v2 g),
     lib_cuMemHostRegister = map_option (\<lambda>f w m n. lift1 (\<lambda>c. f c m n) w) (lib_cuMemHostRegister g),
     lib_cuMemHostGetDevicePointer = map_option (\<lambda>f w m. lift2 (\<lambda>c. f c m) w) (lib_cuMemHostGetDevicePointer g),
     lib_cuMemHostUnregister = map_option (\<lambda>f w m. lift_state (\<lambda>c. f c m) w) (lib_cuMemHostUnregister g),
     lib_cuMemPrefetchAsync = map_option (\<lambda>f w p n d st. lift1 (\<lambda>c. f c p n d st) w) (lib_cuMemPrefetchAsync g),
     lib_cudaMemPrefetchAsync = map_option (\<lambda>f w p n d st. lift1 (\<lambda>c. f c p n d st) w) (lib_cudaMemPrefetchAsync g),
     sys_mmap_anon = (\<lambda>w n. lift1 (\<lambda>c. sys_mmap_anon g c n) w),
     sys_mmap_fd = (\<lambda>w n fd. lift1 (\<lambda>c. sys_mmap_fd g c n fd) w),
     sys_munmap = (\<lambda>w m n. lift_state (\<lambda>c. sys_munmap g c m n) w),
     sys_open = (\<lambda>w. lift1 (sys_open g) w),
     sys_close = system_close,
     sys_ioctl_alloc = system_alloc P K,
     sys_ioctl_pin = system_pin P K\<rparr>"

section \<open>The driver's side of a request\<close>

lemma release_heap:
  assumes "lx_inv s" "lx_heap s p = Some b"
  shows "lx_heap (gb_release s p) = (lx_heap s)(p := None)"
proof -
  obtain cs where "release_pages p b = Some cs" using release_pages_wf lx_inv_wf [OF assms] by blast
  then show ?thesis using gb_release_eq [OF assms(2)] by simp
qed

lemma export_outcome:
  assumes g: "grants s sz b s1" and env: "good_env s env" "copy_out_ok env" and p: "lx_heap s (lx_next s) = None"
    and e: "export_buf undo env s1 (lx_next s) = (reply, s')"
  shows "reply = Ret_fd (fd_ret env) \<and> 0 \<le> fd_ret env \<and> dom (lx_heap s') = insert (lx_next s) (dom (lx_heap s)) \<or>
    (\<forall>fd. reply \<noteq> Ret_fd fd) \<and> dom (lx_heap s') = dom (lx_heap s)"
proof -
  have env1: "good_env s1 env" by (rule grants_env [OF g env(1)])
  have at: "lx_heap s1 (lx_next s) = Some b" "bid b = 0" "lx_inv s1" using grants_at [OF g] by simp_all
  have h1: "lx_heap s1 = (lx_heap s)(lx_next s \<mapsto> b)" using g by (simp add: grants_def)
  let ?u = "lx_upd (lx_next s) (\<lambda>b. b\<lparr>exported := True\<rparr>) s1"
  have "lx_inv ?u" by (rule lx_inv_upd [OF at(3,1)]) (use lx_inv_wf [OF at(3,1)] in simp_all)
  moreover have "lx_heap ?u (lx_next s) = Some (b\<lparr>exported := True\<rparr>)" using at by (simp add: lx_upd_def)
  ultimately have "lx_heap (gb_release ?u (lx_next s)) = (lx_heap ?u)(lx_next s := None)" by (rule release_heap)
  moreover have "(lx_heap ?u)(lx_next s := None) = lx_heap s" using h1 p at(1) by (auto simp: lx_upd_def)
  ultimately have undone: "lx_heap (gb_release ?u (lx_next s)) = lx_heap s" by simp
  have reply: "reply = (if idr_ret env < 0 then Ret (idr_ret env) else if fd_ret env < 0 then Ret (fd_ret env) else Ret_fd (fd_ret env))"
    using export_buf_reply [OF env1, of undo "lx_next s"] e env(2) by simp
  show ?thesis
  proof (cases "idr_ret env < 0 \<or> fd_ret env < 0")
    case True
    then have "s' = gb_release ?u (lx_next s)" using export_buf_state [OF env1 at(1,2), of undo] e by simp
    with undone reply True show ?thesis by auto
  next
    case False
    then have "lx_heap s' = (lx_heap s)(lx_next s \<mapsto> exported_as (idr_ret env) b)"
      using export_buf_state [OF env1 at(1,2), of undo] e h1 by (auto simp: lx_upd_def)
    with reply False show ?thesis by simp
  qed
qed

lemma pin_outcome:
  assumes inv: "lx_inv s" and env: "good_env s env" "copy_out_ok env" and P: "good_params P"
    and r: "ioctl_pin P env s m n fl = (reply, s')"
  shows "reply = Ret_fd (fd_ret env) \<and> 0 \<le> fd_ret env \<and> dom (lx_heap s') = insert (lx_next s) (dom (lx_heap s)) \<or>
    (\<forall>fd. reply \<noteq> Ret_fd fd) \<and> dom (lx_heap s') = dom (lx_heap s)"
proof (cases "copy_in_ok env \<and> n \<noteq> 0 \<and> m \<noteq> 0 \<and> \<not> gb_bytes (virtual_vram_gb P) < n")
  case False
  with r show ?thesis by (auto simp: ioctl_pin_def split: if_splits)
next
  case True
  then have n: "fits n" using P by (intro good_params_fits) auto
  obtain x s1 where x: "gb_pin_user_buf P env s n fl = (x, s1)" by force
  have "pin_ret env < 2 ^ 31" using env(1) by (simp add: good_env_def)
  from gb_pin_user_buf_outcome [OF inv n this x] show ?thesis
  proof (elim disjE exE conjE)
    fix e
    assume "x = Inl e" "refuses s s1"
    then show ?thesis using True r x by (auto simp: ioctl_pin_def refuses_def)
  next
    fix b
    assume b: "x = Inr (lx_next s)" "grants s n b s1"
    then have "export_buf (\<lambda>b. put_array Pinned (pages b) (unat (npages b))) env s1 (lx_next s) = (reply, s')"
      using True r x by (simp add: ioctl_pin_def)
    from export_outcome [OF b(2) env lx_inv_fresh [OF inv order_refl] this] show ?thesis .
  qed
qed

text \<open>
  Why the replies have to be copied out: the descriptor is installed before, and when the copy
  fails the caller gets an error for a buffer that stays alive with a descriptor unknown to it.
\<close>

lemma lx_copy_out_failure:
  assumes g: "grants s sz b s1" and env: "good_env s env" "\<not> copy_out_ok env" "0 \<le> idr_ret env" "0 \<le> fd_ret env"
    and e: "export_buf undo env s1 (lx_next s) = (reply, s')"
  shows "reply = Ret (- EFAULT) \<and> lx_heap s' (lx_next s) = Some (exported_as (idr_ret env) b) \<and>
    idr s' (idr_ret env) = Some (lx_next s)"
proof -
  have env1: "good_env s1 env" by (rule grants_env [OF g env(1)])
  have at: "lx_heap s1 (lx_next s) = Some b" "bid b = 0" using grants_at [OF g] by simp_all
  show ?thesis
    using export_buf_state [OF env1 at, of undo] export_buf_reply [OF env1, of undo "lx_next s"] e env at
    by (simp add: lx_upd_def)
qed

section \<open>The link\<close>

text \<open>
  The open descriptors and the live buffers correspond one to one, and the trace of the shim
  has received and not closed exactly the open descriptors.
\<close>

definition linked :: "lx_params \<Rightarrow> 'g lx_system \<Rightarrow> lx_sys list \<Rightarrow> bool" where
  "linked P w tr \<longleftrightarrow> lx_good P (sy_driver w) \<and> (\<forall>fd \<in> dom (sy_fds w). 0 \<le> fd) \<and>
     inj_on (sy_fds w) (dom (sy_fds w)) \<and> ran (sy_fds w) = dom (lx_heap (sy_driver w)) \<and>
     (\<forall>fd. got (Fd_res fd) tr = gave (Fd_res fd) tr + (if sy_fds w fd = None then 0 else 1))"

text \<open>The kernel keeps the contracts of its interfaces and can copy the replies out.\<close>

definition kernel_ok :: "('g lx_system \<Rightarrow> lx_env) \<Rightarrow> bool" where
  "kernel_ok K \<longleftrightarrow> (\<forall>w. good_env (sy_driver w) (K w) \<and> copy_out_ok (K w) \<and> (fd_ret (K w) < 0 \<or> sy_fds w (fd_ret (K w)) = None))"

lemma inj_put: "inj_on f (dom f) \<Longrightarrow> q \<notin> ran f \<Longrightarrow> inj_on (f(x \<mapsto> q)) (dom (f(x \<mapsto> q)))"
  unfolding inj_on_def by (auto simp: ran_def)

lemma linked_pin:
  assumes l: "linked P w tr" and K: "kernel_ok K" and r: "system_pin P K w m n = (fo, w')"
  shows "linked P w' (case fo of None \<Rightarrow> tr | Some fd \<Rightarrow> tr @ [Fd_got fd])"
proof -
  let ?s = "sy_driver w" and ?env = "K w"
  obtain reply d where g: "gb_ioctl P ?env ?s (IOCTL_PIN_USER_PTR m n 1) = (reply, d)" by force
  have env: "good_env ?s ?env" "copy_out_ok ?env" "0 \<le> fd_ret ?env \<Longrightarrow> sy_fds w (fd_ret ?env) = None"
    using K by (auto simp: kernel_ok_def not_less [symmetric])
  have good: "lx_good P ?s" using l by (simp add: linked_def)
  then have inv: "lx_inv ?s" "good_params P" by (simp_all add: lx_good_def)
  have gd: "lx_good P d"
    using lx_good_step [OF good lx_step.request [OF env(1), of P "IOCTL_PIN_USER_PTR m n 1"]] g by simp
  have "ioctl_pin P ?env ?s m n 1 = (reply, d)" using g by simp
  from pin_outcome [OF inv(1) env(1,2) inv(2) this]
  show ?thesis
  proof (elim disjE conjE)
    assume a: "reply = Ret_fd (fd_ret ?env)" "0 \<le> fd_ret ?env" "dom (lx_heap d) = insert (lx_next ?s) (dom (lx_heap ?s))"
    have fresh: "lx_next ?s \<notin> ran (sy_fds w)"
      using l lx_inv_fresh [OF inv(1) order_refl] by (auto simp: linked_def)
    have "inj_on ((sy_fds w)(fd_ret ?env \<mapsto> lx_next ?s)) (dom ((sy_fds w)(fd_ret ?env \<mapsto> lx_next ?s)))"
      by (rule inj_put [OF _ fresh]) (use l in \<open>simp add: linked_def\<close>)
    moreover have "got (Fd_res x) (tr @ [Fd_got (fd_ret ?env)]) = gave (Fd_res x) (tr @ [Fd_got (fd_ret ?env)]) +
        (if ((sy_fds w)(fd_ret ?env \<mapsto> lx_next ?s)) x = None then 0 else 1)" for x
      using l env(3) [OF a(2)] by (cases "x = fd_ret ?env") (simp_all add: linked_def)
    moreover have "ran ((sy_fds w)(fd_ret ?env \<mapsto> lx_next ?s)) = dom (lx_heap d)"
      using l a(3) env(3) [OF a(2)] by (simp add: linked_def)
    moreover have "\<forall>x \<in> dom ((sy_fds w)(fd_ret ?env \<mapsto> lx_next ?s)). 0 \<le> x"
      using l a(2) by (simp add: linked_def)
    moreover have "fo = Some (fd_ret ?env)" "w' = w\<lparr>sy_driver := d, sy_fds := (sy_fds w)(fd_ret ?env \<mapsto> lx_next ?s)\<rparr>"
      using r g a(1) by (simp_all add: system_pin_def)
    ultimately show ?thesis using gd by (simp add: linked_def del: fun_upd_apply got_append gave_append)
  next
    assume a: "\<forall>fd. reply \<noteq> Ret_fd fd" "dom (lx_heap d) = dom (lx_heap ?s)"
    then have "fo = None \<and> w' = w\<lparr>sy_driver := d\<rparr>" using r g by (auto simp: system_pin_def split: lx_reply.splits)
    then show ?thesis using l a(2) gd by (simp add: linked_def)
  qed
qed

lemma ran_delete: "inj_on f (dom f) \<Longrightarrow> f x = Some p \<Longrightarrow> ran (f(x := None)) = ran f - {p}"
  by (auto simp: ran_def inj_on_def dom_def) (metis option.inject)+

lemma linked_close:
  assumes l: "linked P w tr" and held: "gave (Fd_res fd) tr < got (Fd_res fd) tr"
  shows "linked P (system_close w fd) (tr @ [Fd_closed fd])"
proof -
  obtain p where p: "sy_fds w fd = Some p" using l held by (auto simp: linked_def split: if_splits)
  then have "p \<in> dom (lx_heap (sy_driver w))" using l by (auto simp: linked_def ran_def)
  then obtain b where b: "lx_heap (sy_driver w) p = Some b" by blast
  have good: "lx_good P (sy_driver w)" using l by (simp add: linked_def)
  then have "lx_heap (gb_release (sy_driver w) p) = (lx_heap (sy_driver w))(p := None)"
    using release_heap [OF _ b] by (simp add: lx_good_def)
  moreover have "lx_good P (gb_release (sy_driver w) p)"
    by (rule lx_good_step [OF good lx_step.release]) (use b in auto)
  moreover have "ran ((sy_fds w)(fd := None)) = ran (sy_fds w) - {p}"
    using l p by (intro ran_delete) (simp_all add: linked_def)
  moreover have "inj_on ((sy_fds w)(fd := None)) (dom ((sy_fds w)(fd := None)))"
    using l by (auto simp: linked_def inj_on_def)
  ultimately show ?thesis using l p by (auto simp: linked_def system_close_def)
qed

definition same_system :: "'g lx_system \<Rightarrow> 'g lx_system \<Rightarrow> bool" where
  "same_system w w' \<longleftrightarrow> sy_driver w' = sy_driver w \<and> sy_fds w' = sy_fds w"

lemma system_quiet: "lib_quiet (system_api P K g) same_system"
  unfolding lib_quiet_def
  by (intro conjI allI impI)
    (auto simp: system_api_def same_system_def lift1_def lift2_def lift_state_def split: prod.split)

text \<open>The model of the driver keeps the contract of the shim.\<close>

definition system_inv :: "lx_params \<Rightarrow> ('g lx_system \<Rightarrow> lx_env) \<Rightarrow> 'g lx_system \<Rightarrow> lx_sys list \<Rightarrow> bool" where
  "system_inv P K w tr \<longleftrightarrow> kernel_ok K \<and> linked P w tr"

interpretation lsys: shim_world "system_api P K g" same_system "system_inv P K" for P K g
proof unfold_locales
  show "lib_quiet (system_api P K g) same_system" by (rule system_quiet)
  show "system_inv P K c tr \<Longrightarrow> same_system c c' \<Longrightarrow> system_inv P K c' tr" for c c' :: "'a lx_system" and tr
    by (simp add: system_inv_def linked_def same_system_def)
  show "system_inv P K c tr \<Longrightarrow> system_inv P K c (tr @ [Mapped m n])" for c tr m n
    by (simp add: system_inv_def linked_def)
  show "system_inv P K c tr \<Longrightarrow> system_inv P K c (tr @ [Unmapped m n])" for c tr m n
    by (simp add: system_inv_def linked_def)
  show "system_inv P K c tr \<Longrightarrow> gave (Fd_res fd) tr \<le> got (Fd_res fd) tr" for c tr fd
    by (simp add: system_inv_def linked_def)
  show "system_inv P K c tr \<Longrightarrow> sys_ioctl_pin (system_api P K g) c m n = (r, c') \<Longrightarrow>
      system_inv P K c' (case r of None \<Rightarrow> tr | Some fd \<Rightarrow> tr @ [Fd_got fd])" for c tr m n r c'
    by (simp add: system_inv_def system_api_def) (blast intro: linked_pin)
  show "system_inv P K c tr \<Longrightarrow> gave (Fd_res fd) tr < got (Fd_res fd) tr \<Longrightarrow>
      system_inv P K (sys_close (system_api P K g) c fd) (tr @ [Fd_closed fd])" for c tr fd
    by (simp add: system_inv_def system_api_def linked_close)
qed

section \<open>Runs of the whole\<close>

text \<open>A step: a hook of the shim with all it causes below, or a round of the watchdog.\<close>

inductive sys_step ::
  "lx_params \<Rightarrow> ('g lx_system \<Rightarrow> lx_env) \<Rightarrow> 'g lx_api \<Rightarrow> 'g lx_system lx_shim \<Rightarrow> 'g lx_system lx_shim \<Rightarrow> bool"
  for P K g where
  hook_step: "shim_step (system_api P K g) s s' \<Longrightarrow> sys_step P K g s s'"
| watch_step: "sys_step P K g s (s\<lparr>world := (world s)\<lparr>sy_driver := watchdog_step P env (sy_driver (world s))\<rparr>\<rparr>)"

definition sys_ok :: "lx_params \<Rightarrow> ('g lx_system \<Rightarrow> lx_env) \<Rightarrow> 'g lx_api \<Rightarrow> 'g lx_system lx_shim \<Rightarrow> bool" where
  "sys_ok P K g s \<longleftrightarrow> device_ok (system_api P K g) \<and> can_register (system_api P K g) \<and>
     (\<forall>r. real_res r \<longrightarrow> shim_ok r s) \<and> system_inv P K (world s) (trace s)"

lemma watchdog_heap: "lx_heap (watchdog_step P env s) = lx_heap s"
  by (simp add: watchdog_step_def Let_def split: prod.split)

lemma sys_ok_step:
  assumes ok: "sys_ok P K g s" and step: "sys_step P K g s s'"
  shows "sys_ok P K g s'"
  using step
proof cases
  case hook_step
  have "shim_ok r s'" if "real_res r" for r
    using hook_step
  proof cases
    case (hook c dp)
    with ok that show ?thesis by (intro run_call_ok [OF that _ _ hook]) (simp_all add: sys_ok_def)
  qed
  moreover have "system_inv P K (world s') (trace s')"
    using lsys.ok_step [of P K s g s'] ok hook_step by (simp add: sys_ok_def lsys.ok_def)
  ultimately show ?thesis using ok by (simp add: sys_ok_def)
next
  case (watch_step env)
  have "lx_good P (watchdog_step P env (sy_driver (world s)))"
    using ok lx_good_step lx_step.watch by (auto simp: sys_ok_def system_inv_def linked_def)
  then show ?thesis
    using ok watch_step by (simp add: sys_ok_def system_inv_def linked_def watchdog_heap)
qed

lemma sys_ok_run: "(sys_step P K g)\<^sup>*\<^sup>* s s' \<Longrightarrow> sys_ok P K g s \<Longrightarrow> sys_ok P K g s'"
  by (induction rule: rtranclp_induct) (auto intro: sys_ok_step)

definition sys_start :: "lx_params \<Rightarrow> init_env \<Rightarrow> 'g lx_system lx_shim \<Rightarrow> bool" where
  "sys_start P ie s \<longleftrightarrow> table s = lx_ht_zero \<and> trace s = [] \<and> sy_fds (world s) = Map.empty \<and>
     gb_init P ie blank_device = (0, sy_driver (world s))"

lemma init_heap: "gb_init P ie blank_device = (0, d) \<Longrightarrow> lx_heap d = Map.empty"
  using gb_init_ok(6) [of P ie blank_device d] by (simp add: Let_def reset_device_def blank_device_def)

lemma sys_ok_start:
  assumes "good_params P" "kernel_ok K" "device_ok g" "can_register g" "sys_start P ie s"
  shows "sys_ok P K g s"
proof -
  have "device_ok (system_api P K g)"
    using assms(3) by (simp add: device_ok_def system_api_def lift1_def split: prod.split) (metis fst_conv)
  moreover have "can_register (system_api P K g)" using assms(4) by (simp add: can_register_def system_api_def)
  moreover have "shim_ok r s" for r
  proof -
    have "lx_contents lx_ht_zero = (\<lambda>_. None)" by (rule ext) (rule lx_ht_zero_wf(3))
    then have "lxr.total (owns r) lx_ht_zero = 0" by (simp add: lxr.total_def)
    then show ?thesis using assms(5) lx_ht_zero_wf(1) by (simp add: shim_ok_def holds_def sys_start_def)
  qed
  moreover have "system_inv P K (world s) (trace s)"
    using assms(1,2,5) lx_good_init init_heap by (auto simp: system_inv_def linked_def sys_start_def)
  ultimately show ?thesis by (simp add: sys_ok_def)
qed


section \<open>An allocation in the whole system\<close>

definition demo_kernel :: "'g lx_system \<Rightarrow> lx_env" where
  "demo_kernel w = wit_env\<lparr>idr_ret := (if idr (sy_driver w) 1 = None then 1 else - 12),
     fd_ret := (if sy_fds w 4 = None then 4 else - 24)\<rparr>"

lemma demo_kernel_ok: "kernel_ok demo_kernel"
  by (simp add: kernel_ok_def demo_kernel_def good_env_def)

definition demo_process :: "unit lx_system lx_shim" where
  "demo_process = \<lparr>ready = True, table = lx_ht_zero, vram_headroom_bytes = 0x40000000,
     gb_virtual_vram_bytes = 0, gb_use_dmabuf = True, gb_debug = False, gb_dev_fd = - 1,
     queue = ring_start \<lparr>lreq_mapped_ptr = 0, lreq_size = 0\<rparr>,
     world = \<lparr>sy_driver = wit_boot, sy_fds = Map.empty, sy_gpu = ()\<rparr>, trace = []\<rparr>"

abbreviation demo_system :: "unit lx_system lx_api" where
  "demo_system \<equiv> system_api default_params demo_kernel full_gpu"

lemma demo_pin: "\<exists>d. system_pin default_params demo_kernel \<lparr>sy_driver = wit_boot, sy_fds = Map.empty, sy_gpu = ()\<rparr> 0x7000 0x1000
    = (Some 4, \<lparr>sy_driver = d, sy_fds = [4 \<mapsto> 0], sy_gpu = ()\<rparr>)"
  by (simp add: system_pin_def ioctl_pin_def gb_pin_user_buf_def demo_kernel_def wit_boot_fields Let_def
      export_buf_def gb_bytes_def div_round_up_def LX_PAGE_SIZE_def)

lemma demo_overflow: "\<exists>d. run_call demo_system (Malloc_drv 0x1000) demo_process =
    (Some 0x7000, record_alloc 0x7000 0x1000 0 0x7000 4 (demo_process\<lparr>gb_dev_fd := 3,
        world := \<lparr>sy_driver = d, sy_fds = [4 \<mapsto> 0], sy_gpu = ()\<rparr>, trace := [Mapped 0x7000 0x1000, Fd_got 4]\<rparr>))"
proof -
  obtain d where d: "system_pin default_params demo_kernel \<lparr>sy_driver = wit_boot, sy_fds = Map.empty, sy_gpu = ()\<rparr> 0x7000 0x1000
    = (Some 4, \<lparr>sy_driver = d, sy_fds = [4 \<mapsto> 0], sy_gpu = ()\<rparr>)" using demo_pin by blast
  show ?thesis
    by (rule exI [of _ d]) (simp add: demo_process_def cuMemAlloc_v2_def alloc_or_overflow_def system_api_def full_gpu_def
      gb_needs_overflow_def gb_overflow_alloc_def lx_open_device_def register_mapping_def lift1_def lift2_def d)
qed


end
