(* ===== verification/Win_Shim_Process.thy ===== *)
theory Win_Shim_Process
  imports Win_Shim_Config
begin

text \<open>
  The Windows shim as a library of a process: the symbols it resolves at its start, what
  loading and unloading it does, and the hooks of \<^verbatim>\<open>CreateProcess\<close> that carry it into child
  processes. \<^verbatim>\<open>greenboost_cuda_shim_win.c\<close>.
\<close>

section \<open>Symbols\<close>

text \<open>The function pointers of the file and the exports of \<^verbatim>\<open>nvcuda.dll\<close> they are taken from.\<close>

definition driver_exports :: "(string \<times> string) list" where
  "driver_exports = [(''cuDeviceGetAttribute'', ''cuDeviceGetAttribute''),
     (''cuMemAlloc_v2'', ''cuMemAlloc_v2''), (''cuGetProcAddress'', ''cuGetProcAddress''),
     (''cuGetProcAddress_v2'', ''cuGetProcAddress_v2''), (''cuMemFree_v2'', ''cuMemFree_v2''),
     (''cuMemGetInfo'', ''cuMemGetInfo_v2''), (''cuDeviceTotalMem_v2'', ''cuDeviceTotalMem_v2''),
     (''cuMemAllocManaged'', ''cuMemAllocManaged''), (''cuMemPrefetchAsync'', ''cuMemPrefetchAsync''),
     (''cuCtxGetDevice'', ''cuCtxGetDevice''), (''cuMemHostRegister'', ''cuMemHostRegister_v2''),
     (''cuMemHostUnregister'', ''cuMemHostUnregister''),
     (''cuMemHostGetDevicePointer'', ''cuMemHostGetDevicePointer_v2'')]"

text \<open>A module is the set of its exports, \<open>None\<close> when it is not there.\<close>

definition gb_resolve_symbols :: "string set option \<Rightarrow> string set option \<Rightarrow> string set \<times> bool" where
  "gb_resolve_symbols nvcuda kernel32 = (case nvcuda of
     None \<Rightarrow> ({}, False)
   | Some exports \<Rightarrow>
     (set (map fst (filter (\<lambda>(n, e). e \<in> exports) driver_exports)),
      case kernel32 of None \<Rightarrow> False | Some k \<Rightarrow> ''PrefetchVirtualMemory'' \<in> k))"

definition gb_remove_hooks :: "string set \<Rightarrow> string list \<Rightarrow> string list" where
  "gb_remove_hooks resolved hooks =
     filter (\<lambda>n. n \<notin> set ([''CreateProcessA'', ''CreateProcessW''] @ filter (\<lambda>n. n \<in> resolved) hooked_names)) hooks"

section \<open>Loading and unloading\<close>

text \<open>
  The answers of Windows while the library is loaded. \<open>module_path\<close> is \<open>None\<close> when the path of
  the library cannot be found or does not fit.
\<close>

record dll_env =
  de_helper :: bool
  de_module_path :: "string option"
  de_getenv :: "string \<Rightarrow> string option"
  de_registry :: "reg_path \<Rightarrow> reg_key option"
  de_avail_phys :: "u64 option"
  de_nvcuda :: "string set option"
  de_kernel32 :: "string set option"
  de_thread_ok :: bool
  de_event_ok :: bool

text \<open>
  \<open>prefetch_cs\<close> says whether the critical section is initialised, \<open>cs_misused\<close> whether one
  has been deleted that was not.
\<close>

record 'c dll =
  dll_process :: "'c shim_process"
  dll_resolved :: "string set"
  gb_dll_path :: string
  prefetch_cs :: bool
  cs_misused :: bool

definition shim_start :: "dll_env \<Rightarrow> 'c dll \<Rightarrow> 'c dll" where
  "shim_start E d =
     (let (resolved, has_pvm) = gb_resolve_symbols (de_nvcuda E) (de_kernel32 E) in
      d\<lparr>dll_process := gb_shim_init (de_getenv E) (de_registry E) (de_avail_phys E) resolved has_pvm
          (de_thread_ok E) (de_event_ok E) (dll_process d),
        dll_resolved := resolved,
        prefetch_cs := (prefetch_cs d \<or> list_all (\<lambda>n. n \<in> resolved) critical_names)\<rparr>)"

definition shim_stop :: "'c cuda_api \<Rightarrow> 'c dll \<Rightarrow> 'c dll" where
  "shim_stop api d =
     (let hooks = gb_remove_hooks (dll_resolved d) (attached (dll_process d));
          pr = gb_shim_cleanup api (dll_process d)
      in d\<lparr>dll_process := pr\<lparr>attached := hooks\<rparr>, cs_misused := (cs_misused d \<or> \<not> prefetch_cs d),
           prefetch_cs := False\<rparr>)"

datatype dll_reason = Process_attach | Process_detach bool | Thread_reason

definition DllMain :: "dll_env \<Rightarrow> 'c cuda_api \<Rightarrow> dll_reason \<Rightarrow> 'c dll \<Rightarrow> bool \<times> 'c dll" where
  "DllMain E api reason d =
     (if de_helper E then (True, d)
      else case reason of
        Process_attach \<Rightarrow>
          (case de_module_path E of None \<Rightarrow> (False, d)
           | Some path \<Rightarrow> (True, shim_start E (d\<lparr>gb_dll_path := path\<rparr>)))
      | Process_detach reserved \<Rightarrow> (True, if \<not> reserved then shim_stop api d else d)
      | Thread_reason \<Rightarrow> (True, d))"

lemma resolved_iff:
  "fst (gb_resolve_symbols (Some exports) k) = {n. \<exists>e \<in> exports. (n, e) \<in> set driver_exports}"
  by (force simp: gb_resolve_symbols_def)

lemma start_attached:
  assumes "attached (dll_process d) = []"
  shows "attached (dll_process (shim_start E d)) =
    (if list_all (\<lambda>n. n \<in> dll_resolved (shim_start E d)) critical_names
     then gb_install_hooks (dll_resolved (shim_start E d)) else [])"
  using assms by (simp add: shim_start_def gb_shim_init_def Let_def split: prod.split)

lemma start_ready:
  "Initialized (config (shim_of (dll_process (shim_start E d)))) \<longleftrightarrow>
    list_all (\<lambda>n. n \<in> dll_resolved (shim_start E d)) critical_names"
  by (simp add: shim_start_def gb_shim_init_def Let_def split: prod.split)

lemma cleanup_config: "config (fold (cleanup_slot api) is s) = config s"
proof (induction "is" arbitrary: s)
  case (Cons i "is")
  have "config (cleanup_slot api i s) = config s"
    by (simp add: cleanup_slot_def gb_free_driver_buf_def Let_def split: option.split)
  with Cons show ?case by simp
qed simp

lemma cleanup_off: "\<not> Initialized (config (shim_of (gb_shim_cleanup api pr)))"
  by (simp add: gb_shim_cleanup_def gb_close_device_def cleanup_config Let_def)


definition demo_dll_env :: dll_env where
  "demo_dll_env = \<lparr>de_helper = False, de_module_path = Some ''shim'', de_getenv = \<lambda>_. None, de_registry = \<lambda>_. None,
     de_avail_phys = None, de_nvcuda = Some {''cuMemAlloc_v2'', ''cuMemFree_v2''}, de_kernel32 = None,
     de_thread_ok = True, de_event_ok = True\<rparr>"


text \<open>
  Without the driver library the initialisation returns early, and the critical section of the
  queue is deleted at the unloading although it has never been initialised.
\<close>

lemma win_unload_deletes_uninitialised:
  assumes "\<not> prefetch_cs d" "\<not> de_helper E" "de_module_path E = Some path" "de_nvcuda E = None"
  shows "cs_misused (snd (DllMain E api (Process_detach False) (snd (DllMain E api Process_attach d))))"
  using assms by (simp add: DllMain_def shim_start_def shim_stop_def gb_resolve_symbols_def Let_def critical_names_def)

section \<open>Child processes\<close>

text \<open>
  The hooks of \<^verbatim>\<open>CreateProcessA\<close> and \<^verbatim>\<open>CreateProcessW\<close> are the same but for the width of their
  texts. \<open>creating\<close> is the flag of the thread, \<open>injected\<close> counts the calls of Detours.
\<close>

record 'w create_state =
  gb_creating_child :: bool
  last_error :: u32
  injected :: nat
  cp_world :: 'w

type_synonym ('a, 'w) creator = "'a \<Rightarrow> 'w create_state \<Rightarrow> bool \<times> 'w create_state"

text \<open>
  \<open>real\<close> is the function of Windows. \<open>detour\<close> is that of Detours; whatever processes it makes
  while it works reach the hook again, which is its first argument. \<open>log_error\<close> is what
  logging leaves in the last error. The first argument of the hook bounds the nesting.
\<close>

fun hooked_CreateProcess ::
  "nat \<Rightarrow> ('a, 'w) creator \<Rightarrow> (('a, 'w) creator \<Rightarrow> ('a, 'w) creator) \<Rightarrow> u32 \<Rightarrow> ('a, 'w) creator" where
  "hooked_CreateProcess 0 real detour log_error args s = (False, s)"
| "hooked_CreateProcess (Suc n) real detour log_error args s =
     (if gb_creating_child s then real args s
      else
        case detour (hooked_CreateProcess n real detour log_error) args
            (s\<lparr>gb_creating_child := True, injected := injected s + 1\<rparr>) of
          (ok, s1) \<Rightarrow>
            let err = last_error s1; s2 = s1\<lparr>gb_creating_child := False\<rparr>;
                s3 = (if ok then s2 else s2\<lparr>last_error := log_error\<rparr>)
            in (ok, s3\<lparr>last_error := err\<rparr>))"

text \<open>
  What is relied on: neither Windows nor Detours touches the flag of the shim or its count, and
  Detours acts through the creator it is given.
\<close>

definition flag_kept :: "('a, 'w) creator \<Rightarrow> bool" where
  "flag_kept f \<longleftrightarrow> (\<forall>args s. gb_creating_child s \<longrightarrow>
     gb_creating_child (snd (f args s)) \<and> injected (snd (f args s)) = injected s)"

definition detour_contract :: "(('a, 'w) creator \<Rightarrow> ('a, 'w) creator) \<Rightarrow> bool" where
  "detour_contract detour \<longleftrightarrow>
     (\<forall>f. flag_kept f \<longrightarrow> flag_kept (detour f)) \<and>
     (\<forall>f g args s. flag_kept f \<longrightarrow> (\<forall>a t. gb_creating_child t \<longrightarrow> f a t = g a t) \<longrightarrow> gb_creating_child s \<longrightarrow>
        detour f args s = detour g args s)"

lemma hook_while_creating: "gb_creating_child s \<Longrightarrow> hooked_CreateProcess (Suc n) real detour log_error args s = real args s"
  by simp

text \<open>
  C37: the hook of an application's call goes through Detours once, however the process is made and
  however often the hook is entered on the way: two levels of calls are enough, processes made
  on the way are plain ones, the flag is down again afterwards and the error code is that of
  Detours, logging notwithstanding.
\<close>

theorem win_create_process:
  assumes "flag_kept real" "detour_contract detour" "\<not> gb_creating_child s"
    and "hooked_CreateProcess (Suc (Suc n)) real detour log_error args s = (ok, s')"
  shows "hooked_CreateProcess (Suc (Suc 0)) real detour log_error args s = (ok, s') \<and>
    \<not> gb_creating_child s' \<and> injected s' = injected s + 1 \<and>
    (let s1 = s\<lparr>gb_creating_child := True, injected := injected s + 1\<rparr> in
      ok = fst (detour real args s1) \<and> last_error s' = last_error (snd (detour real args s1)))"
proof -
  let ?s = "s\<lparr>gb_creating_child := True, injected := injected s + 1\<rparr>"
  have nested: "detour (hooked_CreateProcess (Suc k) real detour log_error) args ?s = detour real args ?s" for k
  proof -
    have "flag_kept (hooked_CreateProcess (Suc k) real detour log_error)"
      using assms(1) by (simp add: flag_kept_def)
    then show ?thesis using assms(2) by (simp add: detour_contract_def)
  qed
  have "flag_kept (detour real)" using assms(1,2) by (simp add: detour_contract_def)
  then have "injected (snd (detour real args ?s)) = injected s + 1" by (simp add: flag_kept_def)
  then show ?thesis
    using assms(3,4) nested [of n] nested [of 0]
    by (cases "detour real args ?s") (auto simp: Let_def split: if_splits)
qed

lemma win_create_process_witness:
  "\<exists>s'. hooked_CreateProcess 5 (\<lambda>a s. (a, s\<lparr>last_error := 2\<rparr>)) (\<lambda>f a s. f (\<not> a) (snd (f a s))) 9 True
      \<lparr>gb_creating_child = False, last_error = 0, injected = 0, cp_world = ()\<rparr> = (False, s') \<and>
    last_error s' = 2 \<and> injected s' = 1"
proof -
  let ?real = "\<lambda>a s. (a, s\<lparr>last_error := 2\<rparr>) :: bool \<times> unit create_state"
  let ?detour = "\<lambda>f a s. f (\<not> a) (snd (f a s)) :: bool \<times> unit create_state"
  let ?s = "\<lparr>gb_creating_child = False, last_error = 0, injected = 0, cp_world = ()\<rparr> :: unit create_state"
  have real: "flag_kept ?real" by (simp add: flag_kept_def)
  have detour: "detour_contract ?detour" by (auto simp: detour_contract_def flag_kept_def)
  obtain ok s' where r: "hooked_CreateProcess (Suc (Suc 3)) ?real ?detour 9 True ?s = (ok, s')" by force
  have n: "Suc (Suc 3) = 5" by simp
  have "ok = False \<and> last_error s' = 2 \<and> injected s' = 1"
    using win_create_process [OF real detour _ r] by (simp add: Let_def)
  with r show ?thesis unfolding n by auto
qed

end
