(* ===== verification/Win_Device_Start.thy ===== *)
theory Win_Device_Start
  imports Win_Driver_Props Resource_Ledger
begin

text \<open>
  The start of the Windows driver's device, \<^verbatim>\<open>GbEvtDeviceAdd\<close>, with the pressure event and the
  watchdog thread, and their end in \<^verbatim>\<open>GbEvtDeviceCleanup\<close>: kernel objects are recorded as they
  are taken and given back. Objects of the device framework belong to the framework, which
  deletes them with the device.
\<close>

section \<open>Objects\<close>

datatype wd_res = Event_handle | Event_object | Thread_handle | Thread_object
datatype wd_call = Take_obj wd_res | Give_obj wd_res

record win_device =
  wd_dev :: gb_device_win
  PressureEventHandle :: bool
  WdfDevice :: bool
  SymbolicLink :: bool
  IoQueue :: bool
  wd_calls :: "wd_call list"

text \<open>The status of each call; a negative one is a failure.\<close>

record add_env =
  name_status :: int
  sddl_status :: int
  create_status :: int
  link_status :: int
  queue_status :: int
  event_status :: int
  event_ref_status :: int
  thread_status :: int
  thread_ref_status :: int

definition wd_log :: "wd_call list \<Rightarrow> win_device \<Rightarrow> win_device" where
  "wd_log cs s = s\<lparr>wd_calls := wd_calls s @ cs\<rparr>"

section \<open>Pressure event and watchdog\<close>

definition GbCreatePressureEvent :: "add_env \<Rightarrow> win_device \<Rightarrow> int \<times> win_device" where
  "GbCreatePressureEvent E s =
     (if event_status E < 0 then (event_status E, s)
      else if event_ref_status E < 0
      then (event_ref_status E, wd_log [Take_obj Event_handle, Give_obj Event_handle] s)
      else (0, wd_log [Take_obj Event_handle, Take_obj Event_object]
        (s\<lparr>wd_dev := (wd_dev s)\<lparr>PressureEvent := True\<rparr>, PressureEventHandle := True\<rparr>)))"

definition GbDestroyPressureEvent :: "win_device \<Rightarrow> win_device" where
  "GbDestroyPressureEvent s =
     (let s1 = (if PressureEvent (wd_dev s)
          then wd_log [Give_obj Event_object] (s\<lparr>wd_dev := (wd_dev s)\<lparr>PressureEvent := False\<rparr>\<rparr>) else s)
      in if PressureEventHandle s1
         then wd_log [Give_obj Event_handle] (s1\<lparr>PressureEventHandle := False\<rparr>) else s1)"

text \<open>The objects behind \<open>GbStartWatchdog\<close> and \<open>GbStopWatchdog\<close>.\<close>

definition start_watchdog_objects :: "add_env \<Rightarrow> win_device \<Rightarrow> int \<times> win_device" where
  "start_watchdog_objects E s =
     (case GbStartWatchdog (0 \<le> thread_status E) (0 \<le> thread_ref_status E) (wd_dev s) of (started, dev) \<Rightarrow>
      let s1 = s\<lparr>wd_dev := dev\<rparr> in
      if thread_status E < 0 then (thread_status E, s1)
      else if thread_ref_status E < 0
      then (thread_ref_status E, wd_log [Take_obj Thread_handle, Give_obj Thread_handle] s1)
      else (0, wd_log [Take_obj Thread_handle, Take_obj Thread_object, Give_obj Thread_handle] s1))"

definition stop_watchdog_objects :: "win_device \<Rightarrow> win_device" where
  "stop_watchdog_objects s =
     (let s1 = s\<lparr>wd_dev := GbStopWatchdog (wd_dev s)\<rparr> in
      if WatchdogThread (wd_dev s) then wd_log [Give_obj Thread_object] s1 else s1)"

section \<open>The device\<close>

definition GbEvtDeviceAdd :: "add_env \<Rightarrow> win_device \<Rightarrow> int \<times> win_device" where
  "GbEvtDeviceAdd E s =
     (if name_status E < 0 then (name_status E, s)
      else if sddl_status E < 0 then (sddl_status E, s)
      else if create_status E < 0 then (create_status E, s)
      else let s1 = s\<lparr>WdfDevice := True\<rparr> in
      if link_status E < 0 then (link_status E, s1)
      else let s2 = s1\<lparr>SymbolicLink := True\<rparr> in
      if queue_status E < 0 then (queue_status E, s2)
      else let s3 = s2\<lparr>IoQueue := True\<rparr>;
          (_, s4) = GbCreatePressureEvent E s3;
          (_, s5) = start_watchdog_objects E s4
      in (0, s5))"

text \<open>\<open>GbEvtDeviceCleanup\<close> on the objects; the buffers are those of the device.\<close>

definition device_cleanup_objects :: "kenv \<Rightarrow> win_device \<Rightarrow> win_device" where
  "device_cleanup_objects env s =
     (let s1 = stop_watchdog_objects s;
          s2 = s1\<lparr>wd_dev := fold (device_cleanup_slot env) [1..<nat GB_MAX_BUFS] (wd_dev s1)\<rparr>
      in GbDestroyPressureEvent s2)"

text \<open>
  The framework deletes a device that has been created when adding it fails, and when the
  driver is unloaded; both run the clean-up callback.
\<close>

definition delete_device :: "kenv \<Rightarrow> win_device \<Rightarrow> win_device" where
  "delete_device env s = (if WdfDevice s
     then (device_cleanup_objects env s)\<lparr>WdfDevice := False, SymbolicLink := False, IoQueue := False\<rparr> else s)"

definition add_device :: "kenv \<Rightarrow> add_env \<Rightarrow> win_device \<Rightarrow> int \<times> win_device" where
  "add_device env E s = (case GbEvtDeviceAdd E s of (status, s1) \<Rightarrow>
     (status, if status < 0 then delete_device env s1 else s1))"

text \<open>\<^verbatim>\<open>DriverEntry\<close> with the status of \<^verbatim>\<open>WdfDriverCreate\<close>.\<close>

definition driver_entry :: "(string \<Rightarrow> reg_value option) option \<Rightarrow> int \<Rightarrow> int \<times> win_device" where
  "driver_entry key driver_status =
     (if driver_status < 0 then driver_status else 0,
      \<lparr>wd_dev = DriverEntry key, PressureEventHandle = False, WdfDevice = False, SymbolicLink = False,
       IoQueue = False, wd_calls = []\<rparr>)"

section \<open>What is held\<close>

definition wd_takes :: "wd_call list \<Rightarrow> wd_res multiset" where
  "wd_takes cs = mset (concat (map (\<lambda>c. case c of Take_obj r \<Rightarrow> [r] | Give_obj r \<Rightarrow> []) cs))"

definition wd_gives :: "wd_call list \<Rightarrow> wd_res multiset" where
  "wd_gives cs = mset (concat (map (\<lambda>c. case c of Take_obj r \<Rightarrow> [] | Give_obj r \<Rightarrow> [r]) cs))"

definition wd_held :: "win_device \<Rightarrow> wd_res multiset" where
  "wd_held s = (if PressureEvent (wd_dev s) then {#Event_object#} else {#})
     + (if PressureEventHandle s then {#Event_handle#} else {#})
     + (if WatchdogThread (wd_dev s) then {#Thread_object#} else {#})"

lemma wd_mset [simp]:
  "wd_takes (xs @ ys) = wd_takes xs + wd_takes ys" "wd_gives (xs @ ys) = wd_gives xs + wd_gives ys"
  "wd_takes [] = {#}" "wd_gives [] = {#}"
  "wd_takes (Take_obj r # xs) = add_mset r (wd_takes xs)" "wd_takes (Give_obj r # xs) = wd_takes xs"
  "wd_gives (Take_obj r # xs) = wd_gives xs" "wd_gives (Give_obj r # xs) = add_mset r (wd_gives xs)"
  by (simp_all add: wd_takes_def wd_gives_def)

definition wd_balanced :: "win_device \<Rightarrow> bool" where
  "wd_balanced s \<longleftrightarrow> wd_takes (wd_calls s) = wd_gives (wd_calls s) + wd_held s"

text \<open>The device of a running driver: what its requests change leaves the objects alone.\<close>

definition same_objects :: "gb_device_win \<Rightarrow> gb_device_win \<Rightarrow> bool" where
  "same_objects a b \<longleftrightarrow> PressureEvent b = PressureEvent a \<and> WatchdogThread b = WatchdogThread a"

lemma objects_frame [simp]:
  "PressureEvent (upd_buf p f s) = PressureEvent s" "WatchdogThread (upd_buf p f s) = WatchdogThread s"
  "PressureEvent (GbUnregisterBuf s i) = PressureEvent s" "WatchdogThread (GbUnregisterBuf s i) = WatchdogThread s"
  "PressureEvent (GbUnmapFromUser env s p) = PressureEvent s" "WatchdogThread (GbUnmapFromUser env s p) = WatchdogThread s"
  by (simp_all add: upd_buf_def GbUnregisterBuf_def GbUnmapFromUser_def Let_def)

lemma free_same: "same_objects s (GbFreeBuf env s p)"
  by (simp add: same_objects_def GbFreeBuf_def Let_def split: tier.split)

lemma cleanup_slots_same: "same_objects s (fold (device_cleanup_slot env) is s)"
proof (induction "is" arbitrary: s)
  case (Cons i "is")
  have "same_objects s (device_cleanup_slot env i s)"
    using free_same [of "s\<lparr>BufTable := (BufTable s)(int i := None)\<rparr>" env]
    by (simp add: device_cleanup_slot_def same_objects_def split: option.split)
  with Cons [of "device_cleanup_slot env i s"] show ?case by (simp add: same_objects_def)
qed (simp add: same_objects_def)

inductive wd_step :: "kenv \<Rightarrow> win_device \<Rightarrow> win_device \<Rightarrow> bool" for env where
  work: "same_objects (wd_dev s) d \<Longrightarrow> wd_step env s (s\<lparr>wd_dev := d\<rparr>)"
| delete: "wd_step env s (delete_device env s)"

lemma balanced_create: "wd_balanced s \<Longrightarrow> \<not> PressureEvent (wd_dev s) \<Longrightarrow> \<not> PressureEventHandle s \<Longrightarrow>
    wd_balanced (snd (GbCreatePressureEvent E s))"
  by (simp add: GbCreatePressureEvent_def wd_balanced_def wd_held_def wd_log_def)

lemma balanced_watchdog: "wd_balanced s \<Longrightarrow> \<not> WatchdogThread (wd_dev s) \<Longrightarrow>
    wd_balanced (snd (start_watchdog_objects E s))"
  by (simp add: start_watchdog_objects_def GbStartWatchdog_def wd_balanced_def wd_held_def wd_log_def Let_def)

lemma stopped_fields [simp]:
  "PressureEvent (fold (device_cleanup_slot env) is (GbStopWatchdog d)) = PressureEvent d"
  "\<not> WatchdogThread (fold (device_cleanup_slot env) is (GbStopWatchdog d))"
  using cleanup_slots_same [of "GbStopWatchdog d" env "is"] by (simp_all add: same_objects_def GbStopWatchdog_def split: if_splits)

lemma balanced_delete: "wd_balanced s \<Longrightarrow> wd_balanced (delete_device env s)"
  by (simp add: delete_device_def device_cleanup_objects_def stop_watchdog_objects_def
      GbDestroyPressureEvent_def wd_balanced_def wd_held_def wd_log_def Let_def)

lemma delete_drops: "WdfDevice s \<Longrightarrow> wd_held (delete_device env s) = {#}"
  by (simp add: delete_device_def device_cleanup_objects_def stop_watchdog_objects_def
      GbDestroyPressureEvent_def wd_held_def wd_log_def Let_def)

interpretation wdl: stepping_ledger wd_balanced "\<lambda>s. wd_takes (wd_calls s)" "\<lambda>s. wd_gives (wd_calls s)" wd_held "wd_step env"
  for env
proof unfold_locales
  show "wd_balanced s \<Longrightarrow> wd_takes (wd_calls s) = wd_gives (wd_calls s) + wd_held s" for s
    by (simp add: wd_balanced_def)
  show "wd_balanced s'" if s: "wd_balanced s" and step: "wd_step env s s'" for s s'
    using step
  proof cases
    case (work d)
    with s show ?thesis by (simp add: wd_balanced_def wd_held_def same_objects_def)
  next
    case delete
    with s show ?thesis by (simp add: balanced_delete)
  qed
qed

section \<open>The theorem\<close>

lemma add_balanced:
  assumes "driver_entry key ds = (0, s0)" "GbEvtDeviceAdd E s0 = (status, s1)"
  shows "wd_balanced s1 \<and> (status < 0 \<longrightarrow> wd_held s1 = {#}) \<and> (0 \<le> status \<longrightarrow> WdfDevice s1 \<and> status = 0)"
proof -
  have dev: "PressureEvent (GbReadConfig k d) = PressureEvent d" "WatchdogThread (GbReadConfig k d) = WatchdogThread d" for k d
    by (simp_all add: GbReadConfig_def Let_def split: option.split)
  have s0: "wd_balanced s0" "\<not> PressureEvent (wd_dev s0)" "\<not> PressureEventHandle s0" "\<not> WatchdogThread (wd_dev s0)" "\<not> WdfDevice s0"
    using assms(1) by (auto simp: driver_entry_def DriverEntry_def dev zero_device_def wd_balanced_def wd_held_def split: if_splits)
  define s3 where "s3 = s0\<lparr>WdfDevice := True, SymbolicLink := True, IoQueue := True\<rparr>"
  define s4 where "s4 = snd (GbCreatePressureEvent E s3)"
  define s5 where "s5 = snd (start_watchdog_objects E s4)"
  have s3: "wd_balanced s3" "\<not> PressureEvent (wd_dev s3)" "\<not> PressureEventHandle s3" "\<not> WatchdogThread (wd_dev s3)" "WdfDevice s3"
    using s0 by (simp_all add: s3_def wd_balanced_def wd_held_def)
  have s4: "wd_balanced s4" "\<not> WatchdogThread (wd_dev s4)" "WdfDevice s4"
    unfolding s4_def using s3 balanced_create [OF s3(1-3)] by (simp_all add: GbCreatePressureEvent_def wd_log_def)
  have s5: "wd_balanced s5" "WdfDevice s5"
    unfolding s5_def using s4 balanced_watchdog [OF s4(1,2)]
    by (simp_all add: start_watchdog_objects_def wd_log_def Let_def split: prod.split)
  have cases: "GbEvtDeviceAdd E s0 = (0, s5) \<or>
      fst (GbEvtDeviceAdd E s0) < 0 \<and> wd_dev (snd (GbEvtDeviceAdd E s0)) = wd_dev s0 \<and>
      PressureEventHandle (snd (GbEvtDeviceAdd E s0)) = PressureEventHandle s0 \<and>
      wd_calls (snd (GbEvtDeviceAdd E s0)) = wd_calls s0"
    by (simp add: GbEvtDeviceAdd_def Let_def s5_def s4_def s3_def split: prod.split)
  then show ?thesis
    using s0 s5 assms(2) by (auto simp: wd_balanced_def wd_held_def)
qed

text \<open>
  C35: whatever fails while the device is added, the kernel objects behind the pressure event and
  the watchdog are balanced: nothing is given back twice or without having been taken, a
  failed addition holds none of them, and after the device is deleted, at the latest when the
  driver is unloaded, all have been given back. Both are optional: the device comes up
  without them.
\<close>

theorem win_device_objects:
  assumes "driver_entry key ds = (0, s0)" "add_device env E s0 = (status, s1)" "(wd_step env)\<^sup>*\<^sup>* s1 s"
  shows "wd_takes (wd_calls s) = wd_gives (wd_calls s) + wd_held s \<and>
    (status < 0 \<longrightarrow> wd_held s1 = {#}) \<and>
    (WdfDevice s \<longrightarrow> wd_takes (wd_calls (delete_device env s)) = wd_gives (wd_calls (delete_device env s))) \<and>
    (status = 0 \<longleftrightarrow> 0 \<le> name_status E \<and> 0 \<le> sddl_status E \<and> 0 \<le> create_status E \<and> 0 \<le> link_status E \<and> 0 \<le> queue_status E)"
proof -
  obtain st a where a: "GbEvtDeviceAdd E s0 = (st, a)" by force
  then have s1: "status = st" "s1 = (if st < 0 then delete_device env a else a)"
    using assms(2) by (auto simp: add_device_def)
  note add = add_balanced [OF assms(1) a]
  have b1: "wd_balanced s1" using add balanced_delete [of a env] by (simp add: s1)
  then have b: "wd_balanced s" by (rule wdl.run_good [OF _ assms(3)])
  have "wd_takes (wd_calls (delete_device env s)) = wd_gives (wd_calls (delete_device env s))" if "WdfDevice s"
    using balanced_delete [OF b, of env] delete_drops [OF that, of env] by (simp add: wd_balanced_def)
  moreover have "wd_held s1 = {#}" if "status < 0"
    using that add delete_drops [of a env] by (cases "WdfDevice a") (simp_all add: s1 delete_device_def)
  moreover have "status = 0 \<longleftrightarrow> 0 \<le> name_status E \<and> 0 \<le> sddl_status E \<and> 0 \<le> create_status E \<and> 0 \<le> link_status E \<and> 0 \<le> queue_status E"
    using a by (auto simp: s1(1) GbEvtDeviceAdd_def Let_def split: if_splits prod.splits)
  ultimately show ?thesis using b by (simp add: wd_balanced_def)
qed

lemma win_device_objects_witness:
  "\<forall>env. \<exists>s. add_device env \<lparr>name_status = 0, sddl_status = 0, create_status = 0, link_status = 0, queue_status = 0,
       event_status = 0, event_ref_status = - 5, thread_status = 0, thread_ref_status = 0\<rparr> (snd (driver_entry None 0)) = (0, s) \<and>
     wd_takes (wd_calls (delete_device env s)) = wd_gives (wd_calls (delete_device env s))"
proof
  fix env
  let ?E = "\<lparr>name_status = 0, sddl_status = 0, create_status = 0, link_status = 0, queue_status = 0,
       event_status = 0, event_ref_status = - 5, thread_status = 0, thread_ref_status = 0\<rparr>"
  have entry: "driver_entry None 0 = (0, snd (driver_entry None 0))" by (simp add: driver_entry_def)
  obtain s where s: "add_device env ?E (snd (driver_entry None 0)) = (0, s)" "WdfDevice s"
    by (simp add: add_device_def GbEvtDeviceAdd_def GbCreatePressureEvent_def start_watchdog_objects_def wd_log_def
      GbStartWatchdog_def driver_entry_def Let_def)
  with win_device_objects [OF entry s(1) rtranclp.rtrancl_refl]
  show "\<exists>s. add_device env ?E (snd (driver_entry None 0)) = (0, s) \<and>
     wd_takes (wd_calls (delete_device env s)) = wd_gives (wd_calls (delete_device env s))" by blast
qed

end
