(* ===== verification/Spec2Isabelle.thy ===== *)
theory Spec2Isabelle
  imports Win_Shim_Config Win_Driver_Owners Linux_Driver_Views Linux_Driver_Requests Linux_Shim_Props
    Paged_Experts_Demo Launcher Linux_System Win_Shim_Process Win_Device_Start
begin

text \<open>
  GreenBoost extends the memory of an NVIDIA GPU with system memory. It exists twice, for
  Linux and for Windows, and each time it has two halves that run at the same time.

  \<^item> A kernel driver owns a pool of system memory in two tiers (tier 2: RAM, tier 3: memory
    that may be paged out) and serves requests: allocate or pin a buffer, report the pool,
    advise, evict, reset, register an event for memory pressure. A watchdog thread follows
    the free memory. On Linux a buffer is exported as a DMA-BUF and lives as long as its file
    descriptor; on Windows it is an identifier of the device, mapped into the calling process
    and owned by the file handle that asked for it.
  \<^item> A shim library is loaded into the CUDA program. It replaces the CUDA allocation, free,
    prefetch and memory report functions: allocations that do not fit into device memory go
    to system memory, and the reports include that memory. It remembers its allocations in a
    hash table of 131072 slots, and a worker thread serves a ring of prefetch requests.

  The shim calls the driver through the ioctl interface; the program calls the shim; the
  shim calls the real CUDA library and the operating system. All of these outer calls are
  parameters of the model: records of functions for the libraries, records of answers for
  the kernel functions that one request calls. The theorems hold for all of them.

  On Windows two more parts stand beside this pair. A launcher starts a program with the shim
  in it. A file tensor maps a file that is larger than the device memory into a range of
  device addresses and brings its pages in on demand; an integration with llama.cpp binds
  the expert weights of a model to such a range and makes those experts resident that the
  router chooses.

  \<^bold>\<open>Theories and sources.\<close>

  \<^item> \<open>GB_Prelude\<close>: word types, a bounded search loop (\<open>for_until\<close>), sums over a heap of
    buffers, list facts.
  \<^item> The interfaces, as locales: \<open>alloc_registry\<close> and \<open>exact_registry\<close> (\<open>Alloc_Registry\<close>)
    between the hooks and their table, \<open>bounded_fifo\<close> (\<open>Prefetch_Ring\<close>) between the hooks and
    the worker, \<open>resource_ledger\<close> and \<open>stepping_ledger\<close> (\<open>Resource_Ledger\<close>) for components that
    take resources and give them back, \<open>dma_exporter\<close> (\<open>Linux_Driver_Views\<close>) for the views of
    a buffer, \<open>shim_world\<close> (\<open>Linux_Shim_World\<close>) for what the Linux shim needs of the system
    below it. Each is interpreted on the definitions of the code: the registry by both
    tables, the ring by the ring of both shims, the ledger by the Linux driver, the Linux
    shim and the Windows device, the system below the shim by the Linux driver.
  \<^item> \<open>Win_Hash_Table\<close>, \<open>Win_Shim\<close>, \<open>Win_Shim_Accounting\<close>, \<open>Win_Shim_Policy\<close>,
    \<open>Win_Shim_Config\<close>, \<open>Win_Shim_Process\<close> (symbols, loading and unloading, child processes):
    \<^verbatim>\<open>windows-port/shim/greenboost_cuda_shim_win.c\<close> and \<^verbatim>\<open>.h\<close>. The record \<open>shim\<close> is the file's
    static state, \<open>ht_table\<close> its \<^verbatim>\<open>gb_htable\<close> with the tombstone count. \<open>C_Numbers\<close> is the number
    scanner of the C library.
  \<^item> \<open>Win_Driver\<close>, \<open>Win_Driver_Ops\<close> (definitions), \<open>Win_Driver_Inv\<close>, \<open>Win_Driver_Props\<close>,
    \<open>Win_Driver_Limits\<close>, \<open>Win_Driver_Owners\<close>, \<open>Win_Device_Start\<close>: \<^verbatim>\<open>windows-port/driver/greenboost_win.c\<close>, \<^verbatim>\<open>.h\<close> and
    \<^verbatim>\<open>greenboost_ioctl_win.h\<close>. The record \<open>gb_device_win\<close> is \<^verbatim>\<open>GB_DEVICE_WIN\<close>, with a heap of
    \<^verbatim>\<open>GB_BUF_WIN\<close> descriptors and a trace of the kernel calls that release memory.
  \<^item> \<open>Linux_Driver\<close> (definitions), \<open>Linux_Module\<close> (watchdog, report, start and exit),
    \<open>Linux_Driver_Inv\<close>, \<open>Linux_Driver_Alloc\<close>, \<open>Linux_Driver_Run\<close> (the invariant and the
    outcome of each operation), \<open>Linux_Driver_Props\<close>, \<open>Linux_Driver_Views\<close>,
    \<open>Linux_Driver_Requests\<close>: \<^verbatim>\<open>greenboost.c\<close> and \<^verbatim>\<open>greenboost_ioctl.h\<close>. The record \<open>lx_device\<close> is
    \<^verbatim>\<open>struct gb_device\<close>, with a heap of \<^verbatim>\<open>struct gb_buf\<close> descriptors and a ledger of everything
    taken from the kernel or given back. Names that both drivers use carry the prefix \<open>lx\<close>.
  \<^item> \<open>Linux_Hash_Table\<close>, \<open>Linux_Shim\<close>, \<open>Linux_Shim_Props\<close>: \<^verbatim>\<open>greenboost_cuda_shim.c\<close>. The record
    \<open>lx_shim\<close> is the file's static state, with a trace of mappings and descriptors.
  \<^item> \<open>Linux_System\<close>: the shim on top of the driver, linked by the descriptor table.
  \<^item> \<open>Prefetch_Ring\<close>: the prefetch queues and workers of both shims.
  \<^item> \<open>Checked_Monad\<close>: steps that may throw, and triples for them.
    \<open>File_Tensor\<close> (definitions), \<open>File_Tensor_Stream\<close> (the asynchronous device),
    \<open>File_Tensor_Inv\<close>, \<open>File_Tensor_Load\<close>, \<open>File_Tensor_Requests\<close>, \<open>File_Tensor_Life\<close>,
    \<open>File_Tensor_Books\<close>, \<open>File_Tensor_Props\<close>: \<^verbatim>\<open>windows-port/storage/file_tensor.cpp\<close> and \<^verbatim>\<open>.h\<close>. The
    record \<open>ft\<close> is \<^verbatim>\<open>Impl\<close> with the state of the device it drives: the queued operations, the
    mappings with their access, the contents of device and staging memory.
  \<^item> \<open>Paged_Experts\<close>, \<open>Paged_Experts_Props\<close>, \<open>Paged_Experts_Demo\<close>:
    \<^verbatim>\<open>windows-port/integrations/llama/paged-types.cuh\<close> and \<^verbatim>\<open>paged-ops.cuh\<close>.
  \<^item> \<open>Launcher\<close>: \<^verbatim>\<open>windows-port/tools/launch.cpp\<close>.

  Definitions have the names of the C functions wherever these do not clash; a part of a
  function that is used twice, or a loop, is a definition of its own and named after what it
  does.

  \<^bold>\<open>What is shown.\<close>

  \<^item> The tables: insertion and removal refine the update of a finite map; the reclaiming of
    tombstones keeps the contents, and when it keeps every entry findable; exactly which
    entries the Linux removal, which leaves no tombstone, makes unfindable.
  \<^item> Windows shim: the accounted managed bytes are the total over the table along every run,
    what an allocation returns on each path, the bounds of the reported memory, the
    configuration limits, the closure of symbol resolution, what the shutdown frees.
  \<^item> Windows driver: counters, table and owners agree with the live buffers along every run;
    FREE, RESET, handle cleanup and unloading release what they should with the calls that
    match the acquisition; the limits of tier 2, the exactness of the report, the watchdog.
  \<^item> Linux driver: along every run of requests, releases, exports and watchdog rounds the two
    byte counters and the active count are exact, every buffer is well-typed and the ledger
    balances; a failed start unwinds; the three views of a buffer show the same pages; the
    tiers and limits of an allocation; allocation and release cancel out.
  \<^item> Linux shim: mappings and descriptors belong to recorded allocations along every run,
    overflow allocation and free cancel out, what the prefetch hooks do, what a failed start
    means.
  \<^item> Linux system: with the driver below the shim, live buffers of the driver, open descriptors
    and recorded allocations correspond one to one along every run.
  \<^item> Windows start and end: which hooks are installed and removed, one injection per child
    process, the kernel objects of the device balance whatever fails.
  \<^item> File tensor: a request that returns has its bytes in place and equal to the file's; no
    readable byte is ever wrong, failures included; which requests are accepted, which slot
    is evicted, which errors are possible; everything is given back at the end. Paged
    experts: from binding to use, the weights of every routed expert are in place.
  \<^item> Launcher: the program sees exactly the arguments given, read by the documented rules of
    the C runtime.
  \<^item> Theorems about behaviour that is not intended are stated as such: identifiers that wrap,
    counters that are corrupted by EVICT, foreign frees and oversized pins on Windows, the
    clean-up after a failed export on Linux, the null pointer that closes descriptor 0.

  \<^bold>\<open>Bounds and hypotheses.\<close> Integers keep their C width; counters that are read as natural
  numbers come with the bound that makes this right. Table loops run over the full
  131072 slots, ring loops over 256, so no fuel is involved; the loops over pages and slots
  are structural recursions. The Windows driver properties cover runs of at most 4095
  registrations, after which the code reuses identifiers (its own theorem says how that goes
  wrong); the tombstone theorems assume fewer than 32768 removals between reclaims, the
  threshold of the code. The Linux driver properties assume parameters below 8192 GiB
  (\<open>good_params\<close>), so that no byte count overflows, a kernel whose page and error answers are
  those of its interface (\<open>good_env\<close>), and DMA-BUF export that succeeds (its failure has a
  theorem of its own). The Linux shim properties assume new pointers, room in the table, and,
  for the balance, a device node that can be opened (\<open>lx_open_failure_leaks\<close> shows why). The
  system of shim and driver also assumes that replies can be copied out
  (\<open>lx_copy_out_failure\<close> shows why). The file tensor needs no hypothesis on the timing of the
  device or on which calls fail; a base address of zero is excluded where resources are
  counted. The routing of the experts assumes a table of fewer than \<open>2 ^ 31\<close> entries. The
  nesting bound of the \<^verbatim>\<open>CreateProcess\<close> hook is shown not to matter.

  \<^bold>\<open>Not modelled.\<close> Locks, atomics and memory order: every operation is one atomic step, and the
  interleaving of operations is that of the step relations; the file tensor and its device
  run asynchronously in the model as in the code. Logging, the text of the reports,
  \<^verbatim>\<open>hw_info\<close>, which only prints parameters. The Windows device framework and Detours, which are
  parameters. Null out-parameters of the CUDA reports. The Python patch for exllamav3, the
  test programs, the PowerShell tools and the installers, which only call the parts above.
\<close>

end
